(* ===== verification/Prelude.thy ===== *)
theory Prelude
  imports Main "HOL-Library.Word"
begin

text \<open>
  The shared layer of the development.

  \<^item> Named theorem collections: \<open>wrap_simps\<close> holds the facts that remove a wrap-around
    when the operands are in range; \<open>pick_simps\<close> holds the facts about the selection
    loops (first index, best index) that the balancers share.
  \<^item> Type synonyms for the machine integers of the Rust sources. Counters and indices that
    may wrap are words (\<open>usize\<close> is a 64-bit word: the proxy is built for 64-bit targets);
    the signed 64-bit weights are integers whose two's complement wrap is written out
    by \<open>i64_wrap\<close>. Time is explicit: an \<open>Instant\<close> and a \<open>Duration\<close> are natural numbers of
    nanoseconds that every operation which reads the clock takes as an argument.
  \<^item> Generic lemmas on lists.
\<close>

named_theorems wrap_simps \<open>removal of two's complement wrap-around for values in range\<close>
named_theorems pick_simps \<open>characterisations of the index selection loops\<close>

section \<open>Machine integers\<close>

type_synonym u8 = "8 word"
type_synonym u16 = "16 word"
type_synonym u32 = "32 word"
type_synonym u64 = "64 word"
type_synonym usize = "64 word"

type_synonym instant = nat
type_synonym duration = nat

text \<open>The ways in which the modelled code can panic, for operations whose result type has them.\<close>

datatype panic = DivisionByZero | IndexOutOfBounds | ArithmeticOverflow | UnwrapFailed

definition i64_wrap :: "int \<Rightarrow> int" where
  "i64_wrap x = (x + 2 ^ 63) mod 2 ^ 64 - 2 ^ 63"

definition i64_add :: "int \<Rightarrow> int \<Rightarrow> int" where
  "i64_add a b = i64_wrap (a + b)"

definition i64_sub :: "int \<Rightarrow> int \<Rightarrow> int" where
  "i64_sub a b = i64_wrap (a - b)"

lemma i64_wrap_range: "- (2 ^ 63) \<le> i64_wrap x \<and> i64_wrap x < 2 ^ 63"
proof -
  have "0 \<le> (x + 2 ^ 63) mod 2 ^ 64" and "(x + 2 ^ 63) mod 2 ^ 64 < 2 ^ 64"
    by (rule pos_mod_sign, simp) (rule pos_mod_bound, simp)
  then show ?thesis by (simp add: i64_wrap_def)
qed

lemma i64_wrap_id [wrap_simps]:
  assumes "- (2 ^ 63) \<le> x" and "x < 2 ^ 63"
  shows "i64_wrap x = x"
proof -
  have "(x + 2 ^ 63) mod 2 ^ 64 = x + 2 ^ 63"
    by (rule mod_pos_pos_trivial) (use assms in simp_all)
  then show ?thesis by (simp add: i64_wrap_def)
qed

text \<open>The sum of a list of signed 64-bit integers, as \<open>Iterator::sum\<close> folds it.\<close>

definition i64_sum :: "int list \<Rightarrow> int" where
  "i64_sum xs = foldl i64_add 0 xs"

lemma foldl_i64_add_exact:
  assumes "0 \<le> a" and "\<forall>x \<in> set xs. 0 \<le> x" and "a + sum_list xs < 2 ^ 63"
  shows "foldl i64_add a xs = a + sum_list xs"
  using assms
proof (induction xs arbitrary: a)
  case Nil
  then show ?case by simp
next
  case (Cons x xs)
  have "0 \<le> sum_list xs" using Cons.prems(2) by (simp add: sum_list_nonneg)
  with Cons.prems have r: "0 \<le> a + x" "a + x < 2 ^ 63" by simp_all
  have "i64_add a x = a + x"
    unfolding i64_add_def by (rule i64_wrap_id [OF order_trans [OF _ r(1)] r(2)]) simp
  with Cons.IH [of "a + x"] Cons.prems r show ?case by (simp add: add.assoc)
qed

lemma i64_sum_exact:
  "\<forall>x \<in> set xs. 0 \<le> x \<Longrightarrow> sum_list xs < 2 ^ 63 \<Longrightarrow> i64_sum xs = sum_list xs"
  by (simp add: i64_sum_def foldl_i64_add_exact)

lemma unat_mod_word: "unat (a mod b :: 'a::len word) = unat a mod unat b"
  by (simp add: unat_mod_distrib)

lemma uint_pos_iff: "0 < uint (x :: 'a::len word) \<longleftrightarrow> x \<noteq> 0"
proof -
  have "0 \<le> uint x" by simp
  then have "0 < uint x \<longleftrightarrow> uint x \<noteq> 0" by linarith
  then show ?thesis by (simp only: uint_0_iff)
qed

lemma unat_add_in_range:
  assumes "unat a + n < 2 ^ LENGTH('a)"
  shows "unat (a + of_nat n :: 'a::len word) = unat a + n"
  using assms by (simp add: unat_word_ariths unat_of_nat)

lemma unat_add_one:
  assumes "unat a < 2 ^ LENGTH('a) - 1"
  shows "unat (a + 1 :: 'a::len word) = unat a + 1"
  using unat_add_in_range [of a 1] assms by simp

lemma unat_succ_below:
  assumes "(x :: 'a::len word) < y"
  shows "unat (x + 1) = unat x + 1"
proof (rule unat_add_one)
  have "unat x < unat y" using assms by (simp add: word_less_nat_alt)
  moreover have "unat y < 2 ^ LENGTH('a)" by (rule unsigned_less)
  ultimately show "unat x < 2 ^ LENGTH('a) - 1" by linarith
qed

lemma unat_of_nat_small:
  assumes "n < 2 ^ LENGTH('a)"
  shows "unat (of_nat n :: 'a::len word) = n"
  using assms by (simp add: unat_of_nat take_bit_nat_eq_self)

lemma of_nat_le_word:
  assumes "k < 2 ^ LENGTH('a)" and "n < 2 ^ LENGTH('a)"
  shows "(of_nat k :: 'a::len word) \<le> of_nat n \<longleftrightarrow> k \<le> n"
  using assms by (simp add: word_le_nat_alt unat_of_nat_small)

section \<open>Lists\<close>

lemma sum_list_update:
  fixes xs :: "'a::ab_group_add list"
  assumes "k < length xs"
  shows "sum_list (xs[k := x]) = sum_list xs + x - xs ! k"
  using assms
proof (induction xs arbitrary: k)
  case Nil
  then show ?case by simp
next
  case (Cons a xs)
  then show ?case by (cases k) (simp_all add: algebra_simps)
qed

lemma sum_list_filter_nth:
  fixes f :: "'a \<Rightarrow> int"
  shows "sum_list (map f (filter P xs)) = (\<Sum>i \<in> {i. i < length xs \<and> P (xs ! i)}. f (xs ! i))"
proof -
  have "sum_list (map f (filter P xs)) = sum_list (map (\<lambda>x. if P x then f x else 0) xs)"
    by (simp add: sum_list_map_filter')
  also have "\<dots> = (\<Sum>i<length xs. if P (xs ! i) then f (xs ! i) else 0)"
    by (simp add: sum_list_sum_nth atLeast0LessThan)
  also have "\<dots> = (\<Sum>i \<in> {i \<in> {..<length xs}. P (xs ! i)}. f (xs ! i))"
    by (rule sum.inter_filter [symmetric]) simp
  finally show ?thesis by simp
qed

lemma sum_list_replicate_zero: "sum_list (replicate n (0::int)) = 0"
  by (induction n) simp_all

lemma sum_list_map2_add:
  fixes f g :: "'a \<Rightarrow> int"
  shows "(\<Sum>x\<leftarrow>xs. f x + g x) = (\<Sum>x\<leftarrow>xs. f x) + (\<Sum>x\<leftarrow>xs. g x)"
  by (induction xs) simp_all

lemma sum_list_upd_nth:
  fixes xs :: "int list"
  assumes "length ys = length xs" and "\<And>i. i < length xs \<Longrightarrow> ys ! i = xs ! i + f i"
  shows "sum_list ys = sum_list xs + (\<Sum>i<length xs. f i)"
proof -
  have "sum_list ys = (\<Sum>i<length xs. ys ! i)"
    using assms(1) by (simp add: sum_list_sum_nth atLeast0LessThan)
  also have "\<dots> = (\<Sum>i<length xs. xs ! i + f i)"
    using assms(2) by (intro sum.cong) auto
  also have "\<dots> = sum_list xs + (\<Sum>i<length xs. f i)"
    by (simp add: sum.distrib sum_list_sum_nth atLeast0LessThan)
  finally show ?thesis .
qed

lemma all_true_nth: "False \<notin> set h \<Longrightarrow> i < length h \<Longrightarrow> h ! i"
  using nth_mem [of i h] by (metis (full_types))

lemma bex_nth: "(\<exists>x \<in> set xs. P x) \<longleftrightarrow> (\<exists>i < length xs. P (xs ! i))"
  by (metis in_set_conv_nth)

text \<open>\<open>position p xs\<close> is Rust's \<open>xs.iter().position(p)\<close>.\<close>

fun position :: "('a \<Rightarrow> bool) \<Rightarrow> 'a list \<Rightarrow> nat option" where
  "position p [] = None"
| "position p (x # xs) = (if p x then Some 0 else map_option Suc (position p xs))"

lemma position_None: "position p xs = None \<longleftrightarrow> (\<forall>x \<in> set xs. \<not> p x)"
  by (induction xs) auto

lemma position_SomeD:
  "position p xs = Some i \<Longrightarrow> i < length xs \<and> p (xs ! i) \<and> (\<forall>j < i. \<not> p (xs ! j))"
proof (induction xs arbitrary: i)
  case Nil
  then show ?case by simp
next
  case (Cons x xs)
  show ?case
  proof (cases "p x")
    case True
    with Cons.prems show ?thesis by simp
  next
    case False
    with Cons.prems obtain k where k: "position p xs = Some k" and i: "i = Suc k" by auto
    from Cons.IH [OF k] False show ?thesis
      unfolding i by (auto simp: less_Suc_eq_0_disj)
  qed
qed

lemma position_first:
  assumes "i < length xs" and "p (xs ! i)" and "\<And>j. j < i \<Longrightarrow> \<not> p (xs ! j)"
  shows "position p xs = Some i"
proof (cases "position p xs")
  case None
  with assms(1,2) nth_mem show ?thesis by (simp add: position_None)
next
  case (Some k)
  from position_SomeD [OF Some] assms have "k = i"
    by (metis linorder_neqE_nat)
  with Some show ?thesis by simp
qed

text \<open>\<open>iter_calls f n b\<close> is the list of results of \<open>n\<close> successive calls of \<open>f\<close> and the final state.\<close>

fun iter_calls :: "('b \<Rightarrow> 'r \<times> 'b) \<Rightarrow> nat \<Rightarrow> 'b \<Rightarrow> 'r list \<times> 'b" where
  "iter_calls f 0 b = ([], b)"
| "iter_calls f (Suc n) b =
     (let (r, b1) = f b; (rs, b2) = iter_calls f n b1 in (r # rs, b2))"

lemma iter_calls_Suc:
  "fst (iter_calls f (Suc n) b) = fst (f b) # fst (iter_calls f n (snd (f b)))"
  "snd (iter_calls f (Suc n) b) = snd (iter_calls f n (snd (f b)))"
  by (simp_all add: split_beta Let_def)

lemma length_iter_calls [simp]: "length (fst (iter_calls f n b)) = n"
  by (induction n arbitrary: b) (simp_all add: iter_calls_Suc del: iter_calls.simps(2))

text \<open>The operator \<open>?\<close>: the first error ends the call.\<close>

definition tryb :: "('s \<Rightarrow> ('e + 'a) \<times> 's) \<Rightarrow> ('a \<Rightarrow> 's \<Rightarrow> ('e + 'b) \<times> 's) \<Rightarrow> 's \<Rightarrow> ('e + 'b) \<times> 's" where
  "tryb m f s = (case m s of (Inl e, s') \<Rightarrow> (Inl e, s') | (Inr x, s') \<Rightarrow> f x s')"

definition ret :: "'a \<Rightarrow> 's \<Rightarrow> ('e + 'a) \<times> 's" where
  "ret x s = (Inr x, s)"

definition fail :: "'e \<Rightarrow> 's \<Rightarrow> ('e + 'a) \<times> 's" where
  "fail e s = (Inl e, s)"

lemma tryb_Inr:
  "fst (tryb m f s) = Inr y \<longleftrightarrow> (\<exists>x. fst (m s) = Inr x \<and> fst (f x (snd (m s))) = Inr y)"
  by (auto simp: tryb_def split: prod.splits sum.splits)

lemma tryb_snd: "snd (tryb m f s) = (case fst (m s) of Inl _ \<Rightarrow> snd (m s) | Inr x \<Rightarrow> snd (f x (snd (m s))))"
  by (auto simp: tryb_def split: prod.splits sum.splits)

lemma ret_simps [simp]: "fst (ret x s) = Inr x" "snd (ret x s) = s" "fst (fail er s) = Inl er" "snd (fail er s) = s"
  by (simp_all add: ret_def fail_def)

text \<open>What every call of a stateful operation keeps, composed along \<open>?\<close>.\<close>

definition call_keeps :: "('s \<Rightarrow> bool) \<Rightarrow> ('s \<Rightarrow> 'r \<times> 's) \<Rightarrow> bool" where
  "call_keeps P m \<longleftrightarrow> (\<forall>s. P s \<longrightarrow> P (snd (m s)))"

lemma call_keepsI: "(\<And>s. P s \<Longrightarrow> P (snd (m s))) \<Longrightarrow> call_keeps P m"
  by (simp add: call_keeps_def)

lemma call_keepsD: "call_keeps P m \<Longrightarrow> P s \<Longrightarrow> P (snd (m s))"
  by (simp add: call_keeps_def)

lemma call_keeps_ret [simp]: "call_keeps P (ret x)"
  by (simp add: call_keeps_def ret_def)

lemma call_keeps_fail [simp]: "call_keeps P (fail e)"
  by (simp add: call_keeps_def fail_def)

lemma call_keeps_tryb:
  assumes "call_keeps P m" and "\<And>x. call_keeps P (f x)"
  shows "call_keeps P (tryb m f)"
proof (rule call_keepsI)
  fix s
  assume "P s"
  with call_keepsD [OF assms(1) this] call_keepsD [OF assms(2)] show "P (snd (tryb m f s))"
    by (cases "m s"; cases "fst (m s)") (auto simp: tryb_def)
qed

lemma tryb_InrD:
  assumes "tryb m f s = (Inr y, s')"
  obtains x s1 where "m s = (Inr x, s1)" and "f x s1 = (Inr y, s')"
  using assms by (auto simp: tryb_def split: prod.splits sum.splits)

text \<open>Walking a list cyclically visits every index within one round.\<close>

lemma cyclic_hit:
  fixes c i n :: nat
  assumes "i < n"
  obtains k where "k < n" and "(c + k) mod n = i"
proof -
  define k where "k = (i + (n - c mod n)) mod n"
  have n: "0 < n" using assms by simp
  have "(c + k) mod n = (c mod n + (i + (n - c mod n))) mod n"
    unfolding k_def by (simp add: mod_simps)
  also have "\<dots> = (i + n) mod n"
    using mod_less_divisor [OF n, of c] by (simp add: algebra_simps)
  also have "\<dots> = i" using assms by simp
  finally show ?thesis using that [of k] n by (simp add: k_def)
qed

lemma upt_split_at:
  assumes "k < n"
  shows "[0..<n] = [0..<k] @ k # [Suc k..<n]"
  using assms upt_add_eq_append [of 0 k "n - k"] upt_conv_Cons [of k n] by simp

lemma map_upt_Suc_Cons: "map f [0..<Suc n] = f 0 # map (\<lambda>i. f (Suc i)) [0..<n]"
  by (rule nth_equalityI) (auto simp: nth_Cons' nth_append simp del: upt_Suc)

lemma least_true:
  assumes "P (k::nat)"
  obtains m where "m \<le> k" and "P m" and "\<forall>j < m. \<not> P j"
proof (rule that)
  show "(LEAST m. P m) \<le> k" using assms by (rule Least_le)
  show "P (LEAST m. P m)" using assms by (rule LeastI)
  show "\<forall>j < (LEAST m. P m). \<not> P j" by (auto dest: not_less_Least)
qed

lemma count_list_map_Some_nth:
  assumes "distinct xs" and "set js \<subseteq> {..<length xs}" and "i < length xs"
  shows "count_list (map (\<lambda>j. Some (xs ! j)) js) (Some (xs ! i)) = count_list js i"
  using assms(2) by (induction js) (auto simp: nth_eq_iff_index_eq [OF assms(1) _ assms(3)])

lemma map_update_same: "i < length xs \<Longrightarrow> f y = f (xs ! i) \<Longrightarrow> map f (xs[i := y]) = map f xs"
  by (metis list_update_id map_update)

lemma position_map: "position p (map f xs) = position (p \<circ> f) xs"
  by (induction xs) simp_all

end
