(* ===== verification/Dict.thy ===== *)
theory Dict
  imports Prelude "HOL-Library.AList"
begin

text \<open>
  Lookup tables. A \<open>HashMap\<close> or \<open>DashMap\<close> is an association list whose order stands for the
  unspecified iteration order; \<open>get\<close>, \<open>insert\<close>, \<open>remove\<close> and \<open>retain\<close> are below. Insertion
  keeps the position of a key that is present, so iteration orders are not constrained by it.
  The locale \<open>lookup_table\<close> is the contract the clients use: what a lookup returns after an
  insertion or a removal.
\<close>

type_synonym 'v dict = "(string \<times> 'v) list"

definition contains_key :: "('k \<times> 'v) list \<Rightarrow> 'k \<Rightarrow> bool" where
  "contains_key d k \<longleftrightarrow> k \<in> set (map fst d)"

definition dict_get :: "('k \<times> 'v) list \<Rightarrow> 'k \<Rightarrow> 'v option" where
  "dict_get d k = map_of d k"

definition dict_insert :: "'k \<Rightarrow> 'v \<Rightarrow> ('k \<times> 'v) list \<Rightarrow> ('k \<times> 'v) list" where
  "dict_insert k v d = AList.update k v d"

definition dict_remove :: "'k \<Rightarrow> ('k \<times> 'v) list \<Rightarrow> ('k \<times> 'v) list" where
  "dict_remove k d = AList.delete k d"

text \<open>\<open>retain\<close> keeps the entries for which the predicate holds.\<close>

definition dict_retain :: "('k \<Rightarrow> 'v \<Rightarrow> bool) \<Rightarrow> ('k \<times> 'v) list \<Rightarrow> ('k \<times> 'v) list" where
  "dict_retain p d = filter (\<lambda>(k, v). p k v) d"

definition dict_wf :: "('k \<times> 'v) list \<Rightarrow> bool" where
  "dict_wf d \<longleftrightarrow> distinct (map fst d)"

lemma contains_key_map_of: "contains_key d k \<longleftrightarrow> map_of d k \<noteq> None"
  by (simp add: contains_key_def map_of_eq_None_iff)

lemma dict_get_insert: "dict_get (dict_insert k v d) k' = (if k' = k then Some v else dict_get d k')"
  by (simp add: dict_get_def dict_insert_def update_conv)

lemma dict_get_remove: "dict_get (dict_remove k d) k' = (if k' = k then None else dict_get d k')"
  by (simp add: dict_get_def dict_remove_def delete_conv)

lemma dict_get_Nil [simp]: "dict_get [] k = None"
  by (simp add: dict_get_def)

lemma dict_get_Cons: "dict_get ((k, v) # d) k' = (if k' = k then Some v else dict_get d k')"
  by (simp add: dict_get_def)

lemma dict_wf_Nil [simp]: "dict_wf []"
  by (simp add: dict_wf_def)

lemma dict_wf_insert: "dict_wf d \<Longrightarrow> dict_wf (dict_insert k v d)"
  by (simp add: dict_wf_def dict_insert_def distinct_update)

lemma dict_wf_remove: "dict_wf d \<Longrightarrow> dict_wf (dict_remove k d)"
  by (simp add: dict_wf_def dict_remove_def distinct_delete)

lemma dict_wf_retain: "dict_wf d \<Longrightarrow> dict_wf (dict_retain p d)"
  unfolding dict_wf_def dict_retain_def by (induction d) auto

lemma dict_get_retain:
  assumes "dict_wf d"
  shows "dict_get (dict_retain p d) k =
    (case dict_get d k of None \<Rightarrow> None | Some v \<Rightarrow> if p k v then Some v else None)"
  using assms
proof (induction d)
  case (Cons a d)
  obtain k' v where a: "a = (k', v)" by (cases a)
  have "dict_get d k' = None" using Cons.prems by (simp add: dict_wf_def a dict_get_def map_of_eq_None_iff)
  with Cons show ?case
    by (cases "k = k'") (auto simp: a dict_retain_def dict_get_def dict_wf_def)
qed (simp add: dict_retain_def)

lemmas dict_simps = dict_get_insert dict_get_remove
lemmas dict_wf_intros = dict_wf_insert dict_wf_remove dict_wf_retain

locale lookup_table =
  fixes lookup :: "'m \<Rightarrow> 'k \<Rightarrow> 'v option"
    and ins :: "'k \<Rightarrow> 'v \<Rightarrow> 'm \<Rightarrow> 'm"
    and del :: "'k \<Rightarrow> 'm \<Rightarrow> 'm"
  assumes lookup_ins: "lookup (ins k v m) k' = (if k' = k then Some v else lookup m k')"
    and lookup_del: "lookup (del k m) k' = (if k' = k then None else lookup m k')"
begin

lemma lookup_ins_all:
  "lookup (foldl (\<lambda>m (k, v). ins k v m) m kvs) k =
     (case map_of (rev kvs) k of Some v \<Rightarrow> Some v | None \<Rightarrow> lookup m k)"
proof (induction kvs arbitrary: m)
  case (Cons kv kvs)
  obtain k' v where kv: "kv = (k', v)" by (cases kv)
  show ?case using Cons [of "ins k' v m"]
    by (auto simp: kv lookup_ins map_add_def map_of_append split: option.splits)
qed simp

end

interpretation dict: lookup_table dict_get dict_insert dict_remove
  by unfold_locales (simp_all add: dict_simps)

end
