(* ===== verification/Config_Types.thy ===== *)
theory Config_Types
  imports Dict
begin

text \<open>
  The configuration structs of \<open>src/src/config/types.rs\<close> that the modelled components read,
  one \<open>record\<close> per struct, in the order of the source. A field keeps the source's name behind
  a prefix for its struct, since several structs share field names.

  A \<open>HashMap\<close> of the configuration is an association list: its order stands for the
  (unspecified) iteration order of the hash map, so a theorem about every list is a theorem
  about every iteration order. Sections of the
  configuration that no modelled code reads (TLS material, metrics, logging, transports) are
  left out of the records.
\<close>

section \<open>TCP and UDP\<close>

record tcp_router_tls_config =
  trt_passthrough :: bool
  trt_cert_resolver :: "string option"
  trt_options :: "string option"

record tcp_router_config =
  trc_entry_points :: "string list"
  trc_rule :: string
  trc_rule_syntax :: "string option"
  trc_service :: string
  trc_middlewares :: "string list"
  trc_priority :: int
  trc_tls :: "tcp_router_tls_config option"

record tcp_server_config =
  tsc_address :: string
  tsc_weight :: u32
  tsc_tls :: bool

record tcp_load_balancer_config =
  tlb_servers :: "tcp_server_config list"
  tlb_servers_transport :: "string option"
  tlb_proxy_protocol :: "u8 option"
  tlb_termination_delay :: "duration option"

record weighted_ref =
  wr_name :: string
  wr_weight :: u32

record tcp_service_config =
  tsv_load_balancer :: "tcp_load_balancer_config option"
  tsv_weighted :: "weighted_ref list option"

record udp_router_config =
  urc_entry_points :: "string list"
  urc_rule :: string
  urc_service :: string
  urc_middlewares :: "string list"
  urc_priority :: int

record udp_server_config =
  usc_address :: string
  usc_weight :: u32

record udp_load_balancer_config =
  ulb_servers :: "udp_server_config list"

record udp_service_config =
  usv_load_balancer :: "udp_load_balancer_config option"
  usv_weighted :: "weighted_ref list option"

section \<open>HTTP services\<close>

record parsed_backend_uri =
  pbu_scheme :: string
  pbu_authority :: string

record server =
  srv_url :: string
  srv_weight :: u32
  srv_preserve_path :: bool
  srv_parsed_uri :: "parsed_backend_uri option"
  srv_url_arc :: "string option"

text \<open>A server with a URL, a weight and nothing else, for concrete instances.\<close>

definition plain_server :: "string \<Rightarrow> u32 \<Rightarrow> server" where
  "plain_server u w = \<lparr>srv_url = u, srv_weight = w, srv_preserve_path = False,
     srv_parsed_uri = None, srv_url_arc = None\<rparr>"

record sticky_cookie =
  sc_name :: string
  sc_secure :: bool
  sc_http_only :: bool
  sc_same_site :: "string option"
  sc_max_age :: "int option"
  sc_path :: "string option"

record sticky =
  sticky_cookie :: "sticky_cookie option"

record health_check_config =
  hc_path :: string
  hc_interval :: duration
  hc_timeout :: duration
  hc_scheme :: "string option"
  hc_mode :: "string option"
  hc_method :: "string option"
  hc_status :: "u16 option"
  hc_port :: "u16 option"
  hc_hostname :: "string option"
  hc_headers :: "string dict"
  hc_follow_redirects :: bool

record load_balancer_service =
  lb_servers :: "server list"
  lb_pass_host_header :: bool
  lb_sticky :: "sticky option"
  lb_health_check :: "health_check_config option"
  lb_servers_transport :: "string option"
  lb_response_forwarding :: "duration option"

record weighted_service =
  ws_services :: "weighted_ref list"
  ws_sticky :: "sticky option"
  ws_health_check :: "health_check_config option"

record mirror_ref =
  mr_name :: string
  mr_percent :: u32

record mirroring_service =
  ms_service :: string
  ms_mirrors :: "mirror_ref list"
  ms_max_body_size :: "int option"
  ms_mirror_body :: bool

record failover_service =
  fs_service :: string
  fs_fallback :: string
  fs_health_check :: "health_check_config option"

record service_config =
  sv_load_balancer :: "load_balancer_service option"
  sv_weighted :: "weighted_service option"
  sv_mirroring :: "mirroring_service option"
  sv_failover :: "failover_service option"

definition service_type :: "service_config \<Rightarrow> string" where
  "service_type s =
     (if sv_load_balancer s \<noteq> None then ''loadBalancer''
      else if sv_weighted s \<noteq> None then ''weighted''
      else if sv_mirroring s \<noteq> None then ''mirroring''
      else if sv_failover s \<noteq> None then ''failover''
      else ''unknown'')"

record router_config =
  rc_entry_points :: "string list"
  rc_rule :: string
  rc_rule_syntax :: "string option"
  rc_service :: string
  rc_middlewares :: "string list"
  rc_priority :: int

section \<open>Middleware options\<close>

record ip_strategy =
  ips_depth :: u32
  ips_excluded_ips :: "string list"
  ips_ipv6_subnet :: "u32 option"

record source_criterion =
  scr_ip_strategy :: "ip_strategy option"
  scr_request_header_name :: "string option"
  scr_request_host :: bool

record rate_limit_config =
  rl_average :: u64
  rl_burst :: u64
  rl_period :: duration
  rl_source_criterion :: "source_criterion option"

record ip_allow_list_config =
  ial_source_range :: "string list"
  ial_ip_strategy :: "ip_strategy option"
  ial_reject_status_code :: "u16 option"

record ip_deny_list_config =
  idl_source_range :: "string list"
  idl_ip_strategy :: "ip_strategy option"

record retry_config =
  ret_attempts :: u32
  ret_initial_interval :: duration

end
