(* ===== verification/Balancer_Iface.thy ===== *)
theory Balancer_Iface
  imports Config_Types
begin

text \<open>
  The trait \<open>Balancer\<close> of \<open>src/src/balancer/mod.rs\<close> as locales. A pool keeps a list of servers
  and one health flag per server; both are observed through \<open>servers\<close> and \<open>healthy\<close>.
  \<open>next_server\<close> may update the pool (counters, weights, a random state), so it returns the
  updated pool. \<open>backend_pool\<close> holds the laws every pool keeps, the TCP and UDP services
  included; \<open>balancer\<close> adds the search by URL of the HTTP balancers; \<open>health_pool\<close> adds the
  law that a healthy server is returned whenever there is one, under a strategy-specific side
  condition \<open>eligible\<close>.

  The client of the interface is the passive health path of the proxy handler
  (\<open>apply_health_change\<close> in \<open>src/src/proxy/handler.rs\<close>) and any sequence of calls, \<open>bal_run\<close>.
\<close>

datatype bal_op = NextServer | MarkHealthy nat | MarkUnhealthy nat

datatype health_change = NoChange | BecameHealthy | BecameUnhealthy

text \<open>The health flag list after one call, the specification of the marking operations.\<close>

fun flags_step :: "bool list \<Rightarrow> bal_op \<Rightarrow> bool list" where
  "flags_step h NextServer = h"
| "flags_step h (MarkHealthy i) = h[i := True]"
| "flags_step h (MarkUnhealthy i) = h[i := False]"

text \<open>One call on a pool given by its operations, and a sequence of calls.\<close>

fun bal_step ::
  "('b \<Rightarrow> 's option \<times> 'b) \<Rightarrow> (nat \<Rightarrow> 'b \<Rightarrow> 'b) \<Rightarrow> (nat \<Rightarrow> 'b \<Rightarrow> 'b) \<Rightarrow> 'b \<Rightarrow> bal_op \<Rightarrow> 'b" where
  "bal_step nxt mh mu b NextServer = snd (nxt b)"
| "bal_step nxt mh mu b (MarkHealthy i) = mh i b"
| "bal_step nxt mh mu b (MarkUnhealthy i) = mu i b"

definition bal_run ::
  "('b \<Rightarrow> 's option \<times> 'b) \<Rightarrow> (nat \<Rightarrow> 'b \<Rightarrow> 'b) \<Rightarrow> (nat \<Rightarrow> 'b \<Rightarrow> 'b) \<Rightarrow> 'b \<Rightarrow> bal_op list \<Rightarrow> 'b" where
  "bal_run nxt mh mu b ops = foldl (bal_step nxt mh mu) b ops"

text \<open>
  \<open>ProxyHandler::apply_health_change\<close>, after the service and its balancer have been looked
  up: the server is found by its URL and its flag is set.
\<close>

definition apply_health_change ::
  "(nat \<Rightarrow> 'b \<Rightarrow> 'b) \<Rightarrow> (nat \<Rightarrow> 'b \<Rightarrow> 'b) \<Rightarrow> (string \<Rightarrow> 'b \<Rightarrow> nat option)
    \<Rightarrow> health_change \<Rightarrow> string \<Rightarrow> 'b \<Rightarrow> 'b" where
  "apply_health_change mh mu find_idx change backend_url b =
     (if change = NoChange then b
      else case find_idx backend_url b of
        None \<Rightarrow> b
      | Some idx \<Rightarrow> (case change of
            BecameUnhealthy \<Rightarrow> mu idx b
          | BecameHealthy \<Rightarrow> mh idx b
          | NoChange \<Rightarrow> b))"

section \<open>The laws of a pool\<close>

locale backend_pool =
  fixes servers :: "'b \<Rightarrow> 's list"
    and healthy :: "'b \<Rightarrow> bool list"
    and next_server :: "'b \<Rightarrow> 's option \<times> 'b"
    and mark_healthy :: "nat \<Rightarrow> 'b \<Rightarrow> 'b"
    and mark_unhealthy :: "nat \<Rightarrow> 'b \<Rightarrow> 'b"
    and inv :: "'b \<Rightarrow> bool"
  assumes flags_length: "inv b \<Longrightarrow> length (healthy b) = length (servers b)"
    and next_frame: "inv b \<Longrightarrow> inv (snd (next_server b)) \<and>
      servers (snd (next_server b)) = servers b \<and> healthy (snd (next_server b)) = healthy b"
    and next_member: "inv b \<Longrightarrow> fst (next_server b) = Some s \<Longrightarrow> s \<in> set (servers b)"
    and mark_healthy_frame: "inv b \<Longrightarrow> inv (mark_healthy i b) \<and>
      servers (mark_healthy i b) = servers b \<and> healthy (mark_healthy i b) = (healthy b)[i := True]"
    and mark_unhealthy_frame: "inv b \<Longrightarrow> inv (mark_unhealthy i b) \<and>
      servers (mark_unhealthy i b) = servers b \<and> healthy (mark_unhealthy i b) = (healthy b)[i := False]"
begin

lemmas frame = next_frame mark_healthy_frame mark_unhealthy_frame

lemma step_frame:
  assumes "inv b"
  shows "inv (bal_step next_server mark_healthy mark_unhealthy b op)"
    and "servers (bal_step next_server mark_healthy mark_unhealthy b op) = servers b"
    and "healthy (bal_step next_server mark_healthy mark_unhealthy b op) = flags_step (healthy b) op"
  using assms by (cases op; simp add: frame)+

lemma run_frame:
  assumes "inv b"
  shows "inv (bal_run next_server mark_healthy mark_unhealthy b ops) \<and>
    servers (bal_run next_server mark_healthy mark_unhealthy b ops) = servers b \<and>
    healthy (bal_run next_server mark_healthy mark_unhealthy b ops) = foldl flags_step (healthy b) ops"
  using assms
proof (induction ops arbitrary: b)
  case Nil
  then show ?case by (simp add: bal_run_def)
next
  case (Cons op ops)
  from Cons.IH [OF step_frame(1) [OF Cons.prems, of op]] Cons.prems show ?case
    by (simp add: bal_run_def step_frame)
qed

lemma run_next_member:
  assumes "inv b"
    and "fst (next_server (bal_run next_server mark_healthy mark_unhealthy b ops)) = Some s"
  shows "s \<in> set (servers b)"
  using next_member [OF conjunct1 [OF run_frame [OF assms(1)]] assms(2)] run_frame [OF assms(1)]
  by simp

end

locale balancer = backend_pool servers healthy next_server mark_healthy mark_unhealthy inv
  for servers :: "'b \<Rightarrow> server list"
    and healthy :: "'b \<Rightarrow> bool list"
    and next_server :: "'b \<Rightarrow> server option \<times> 'b"
    and mark_healthy :: "nat \<Rightarrow> 'b \<Rightarrow> 'b"
    and mark_unhealthy :: "nat \<Rightarrow> 'b \<Rightarrow> 'b"
    and inv :: "'b \<Rightarrow> bool" +
  fixes find_server_index :: "string \<Rightarrow> 'b \<Rightarrow> nat option"
  assumes find_index: "inv b \<Longrightarrow>
      find_server_index u b = position (\<lambda>s. srv_url s = u) (servers b)"
begin

lemma apply_change_frame:
  assumes "inv b"
  shows "inv (apply_health_change mark_healthy mark_unhealthy find_server_index c u b)"
    and "servers (apply_health_change mark_healthy mark_unhealthy find_server_index c u b) = servers b"
  using assms by (auto simp: apply_health_change_def frame split: option.splits health_change.splits)

lemma apply_change_healthy:
  assumes "inv b"
  shows "healthy (apply_health_change mark_healthy mark_unhealthy find_server_index c u b) =
    (case position (\<lambda>s. srv_url s = u) (servers b) of
       None \<Rightarrow> healthy b
     | Some i \<Rightarrow> (case c of NoChange \<Rightarrow> healthy b
         | BecameHealthy \<Rightarrow> (healthy b)[i := True]
         | BecameUnhealthy \<Rightarrow> (healthy b)[i := False]))"
  using assms
  by (auto simp: apply_health_change_def frame find_index split: option.splits health_change.splits)

end

locale health_pool = backend_pool +
  fixes eligible :: "'a \<Rightarrow> bool"
  assumes next_healthy: "inv b \<Longrightarrow> eligible b \<Longrightarrow> True \<in> set (healthy b) \<Longrightarrow>
    \<exists>i < length (servers b). healthy b ! i \<and> fst (next_server b) = Some (servers b ! i)"
begin

lemma not_returned_when_unhealthy:
  assumes "inv b" and "eligible b" and "True \<in> set (healthy b)"
    and "distinct (servers b)" and "j < length (servers b)" and "\<not> healthy b ! j"
  shows "fst (next_server b) \<noteq> Some (servers b ! j)"
  using next_healthy [OF assms(1-3)] assms(4-6) by (auto simp: nth_eq_iff_index_eq)

lemma run_next_healthy:
  assumes "inv b" and "eligible (bal_run next_server mark_healthy mark_unhealthy b ops)"
    and "True \<in> set (foldl flags_step (healthy b) ops)"
  shows "\<exists>i < length (servers b). foldl flags_step (healthy b) ops ! i \<and>
    fst (next_server (bal_run next_server mark_healthy mark_unhealthy b ops)) = Some (servers b ! i)"
  using next_healthy [OF _ assms(2)] run_frame [OF assms(1), of ops] assms(3) by auto

end

end
