(* ===== verification/Round_Robin.thy ===== *)
theory Round_Robin
  imports Balancer_Iface "HOL-Library.Multiset"
begin

text \<open>
  \<open>RoundRobinBalancer\<close> of \<open>src/src/balancer/round_robin.rs\<close>. The atomic counter is a
  64-bit word: \<open>fetch_add\<close> and the sum \<open>start + i\<close> wrap, as in a release build. The lemmas show
  the cyclic search for the first healthy server, the fairness of consecutive calls, and what
  the search does where the sum wraps.
\<close>

record round_robin_balancer =
  rr_servers :: "server list"
  rr_healthy :: "bool list"
  rr_counter :: usize

definition rr_new :: "server list \<Rightarrow> round_robin_balancer" where
  "rr_new ss = \<lparr>rr_servers = ss, rr_healthy = map (\<lambda>_. True) ss, rr_counter = 0\<rparr>"

text \<open>The probing loop \<open>for i in 0..len\<close>, over the list of the remaining values of \<open>i\<close>.\<close>

fun rr_probe :: "bool list \<Rightarrow> usize \<Rightarrow> usize \<Rightarrow> nat list \<Rightarrow> nat option" where
  "rr_probe h start len [] = None"
| "rr_probe h start len (i # js) =
     (let idx = unat ((start + of_nat i) mod len)
      in if h ! idx then Some idx else rr_probe h start len js)"

definition rr_next_server :: "round_robin_balancer \<Rightarrow> server option \<times> round_robin_balancer" where
  "rr_next_server b =
     (if rr_servers b = [] then (None, b)
      else let len = length (rr_servers b);
               start = rr_counter b;
               b' = b\<lparr>rr_counter := start + 1\<rparr>
           in case rr_probe (rr_healthy b) start (of_nat len) [0..<len] of
                Some idx \<Rightarrow> (Some (rr_servers b ! idx), b')
              | None \<Rightarrow> (Some (rr_servers b ! unat (start mod of_nat len)), b'))"

definition rr_mark_healthy :: "nat \<Rightarrow> round_robin_balancer \<Rightarrow> round_robin_balancer" where
  "rr_mark_healthy i b =
     (if i < length (rr_healthy b) then b\<lparr>rr_healthy := (rr_healthy b)[i := True]\<rparr> else b)"

definition rr_mark_unhealthy :: "nat \<Rightarrow> round_robin_balancer \<Rightarrow> round_robin_balancer" where
  "rr_mark_unhealthy i b =
     (if i < length (rr_healthy b) then b\<lparr>rr_healthy := (rr_healthy b)[i := False]\<rparr> else b)"

definition rr_find_server_index :: "string \<Rightarrow> round_robin_balancer \<Rightarrow> nat option" where
  "rr_find_server_index u b = position (\<lambda>s. srv_url s = u) (rr_servers b)"

text \<open>A \<open>Vec\<close> has fewer than \<open>2 ^ 63\<close> elements, and the flags are created one per server.\<close>

definition rr_inv :: "round_robin_balancer \<Rightarrow> bool" where
  "rr_inv b \<longleftrightarrow> length (rr_healthy b) = length (rr_servers b) \<and> length (rr_servers b) < 2 ^ 63"

text \<open>No sum \<open>start + i\<close> of the next call wraps.\<close>

definition rr_no_wrap :: "round_robin_balancer \<Rightarrow> bool" where
  "rr_no_wrap b \<longleftrightarrow> unat (rr_counter b) + length (rr_servers b) \<le> 2 ^ 64"

section \<open>The probing loop\<close>

lemma rr_probe_Some:
  "rr_probe h start len js = Some idx \<Longrightarrow>
     h ! idx \<and> (\<exists>i \<in> set js. idx = unat ((start + of_nat i) mod len))"
  by (induction js) (auto simp: Let_def split: if_splits)

lemma rr_probe_eq_None:
  "rr_probe h start len js = None \<longleftrightarrow> (\<forall>i \<in> set js. \<not> h ! unat ((start + of_nat i) mod len))"
  by (induction js) (auto simp: Let_def)

lemma rr_probe_first:
  assumes "h ! unat ((start + of_nat i) mod len)"
    and "\<And>j. j \<in> set as \<Longrightarrow> \<not> h ! unat ((start + of_nat j) mod len)"
  shows "rr_probe h start len (as @ i # bs) = Some (unat ((start + of_nat i) mod len))"
  using assms by (induction as) (auto simp: Let_def)

lemma unat_mod_of_nat_lt:
  assumes "0 < n" and "n < 2 ^ 64"
  shows "unat ((x::usize) mod of_nat n) < n"
  using assms by (simp add: unat_mod_word unat_of_nat_small)

lemma rr_index_no_wrap:
  assumes "unat start + n \<le> 2 ^ 64" and "i < n" and "n < 2 ^ 64"
  shows "unat ((start + of_nat i) mod (of_nat n :: usize)) = (unat start + i) mod n"
proof -
  have "unat start + i < 2 ^ LENGTH(64)" using assms(1,2) by simp
  then have s: "unat (start + of_nat i) = unat start + i" by (rule unat_add_in_range)
  have "n < 2 ^ LENGTH(64)" using assms(3) by simp
  then have m: "unat (of_nat n :: usize) = n" by (rule unat_of_nat_small)
  show ?thesis unfolding unat_mod_word s m ..
qed

lemma rr_next_empty [simp]: "rr_servers b = [] \<Longrightarrow> rr_next_server b = (None, b)"
  by (simp add: rr_next_server_def)

lemma rr_next_not_empty:
  assumes "rr_servers b \<noteq> []"
  shows "fst (rr_next_server b) \<noteq> None"
    and "snd (rr_next_server b) = b\<lparr>rr_counter := rr_counter b + 1\<rparr>"
  using assms by (auto simp: rr_next_server_def Let_def split: option.splits)

lemma rr_next_state:
  "rr_servers (snd (rr_next_server b)) = rr_servers b \<and> rr_healthy (snd (rr_next_server b)) = rr_healthy b"
  by (cases "rr_servers b = []") (simp_all add: rr_next_not_empty)

lemma rr_next_member:
  assumes "rr_inv b" and "fst (rr_next_server b) = Some s"
  shows "s \<in> set (rr_servers b)"
proof -
  let ?n = "length (rr_servers b)"
  have ne: "rr_servers b \<noteq> []" using assms(2) by auto
  have lt: "rr_servers b ! unat ((x::usize) mod of_nat ?n) \<in> set (rr_servers b)" for x
    using ne assms(1) by (intro nth_mem unat_mod_of_nat_lt) (simp_all add: rr_inv_def)
  show ?thesis
  proof (cases "rr_probe (rr_healthy b) (rr_counter b) (of_nat ?n) [0..<?n]")
    case None
    with assms(2) ne have "s = rr_servers b ! unat (rr_counter b mod of_nat ?n)"
      by (simp add: rr_next_server_def Let_def)
    with lt show ?thesis by blast
  next
    case (Some idx)
    with assms(2) ne have "s = rr_servers b ! idx" by (simp add: rr_next_server_def Let_def)
    with rr_probe_Some [OF Some] lt show ?thesis by blast
  qed
qed

text \<open>The first healthy server in cyclic order from the counter is returned.\<close>

lemma rr_next_cyclic:
  assumes inv: "rr_inv b" and nw: "rr_no_wrap b" and k: "k < length (rr_servers b)"
    and hk: "rr_healthy b ! ((unat (rr_counter b) + k) mod length (rr_servers b))"
    and first: "\<And>j. j < k \<Longrightarrow> \<not> rr_healthy b ! ((unat (rr_counter b) + j) mod length (rr_servers b))"
  shows "fst (rr_next_server b) =
    Some (rr_servers b ! ((unat (rr_counter b) + k) mod length (rr_servers b)))"
proof -
  let ?n = "length (rr_servers b)"
  have n: "?n < 2 ^ 64" using inv by (simp add: rr_inv_def)
  have ix: "unat ((rr_counter b + of_nat i) mod of_nat ?n) = (unat (rr_counter b) + i) mod ?n"
    if "i < ?n" for i
    using nw that n by (intro rr_index_no_wrap) (simp_all add: rr_no_wrap_def)
  have "rr_probe (rr_healthy b) (rr_counter b) (of_nat ?n) [0..<?n] =
      Some (unat ((rr_counter b + of_nat k) mod of_nat ?n))"
    using k hk first unfolding upt_split_at [OF k] by (intro rr_probe_first) (simp_all add: ix)
  then show ?thesis using k by (auto simp: rr_next_server_def Let_def ix)
qed

lemma rr_next_least:
  assumes "rr_inv b" and "rr_no_wrap b" and "True \<in> set (rr_healthy b)"
  obtains m where "m < length (rr_servers b)"
    and "rr_healthy b ! ((unat (rr_counter b) + m) mod length (rr_servers b))"
    and "\<forall>j < m. \<not> rr_healthy b ! ((unat (rr_counter b) + j) mod length (rr_servers b))"
    and "fst (rr_next_server b) =
      Some (rr_servers b ! ((unat (rr_counter b) + m) mod length (rr_servers b)))"
proof -
  let ?n = "length (rr_servers b)" and ?c = "unat (rr_counter b)"
  from assms obtain i where i: "i < ?n" "rr_healthy b ! i"
    by (auto simp: in_set_conv_nth rr_inv_def)
  from cyclic_hit [OF i(1), of ?c] obtain k where k: "k < ?n" "(?c + k) mod ?n = i" .
  then have "rr_healthy b ! ((?c + k) mod ?n)" using i(2) by simp
  then obtain m where "m \<le> k" and hm: "rr_healthy b ! ((?c + m) mod ?n)"
    and fm: "\<forall>j < m. \<not> rr_healthy b ! ((?c + j) mod ?n)"
    by (rule least_true [of "\<lambda>k. rr_healthy b ! ((?c + k) mod ?n)"])
  with k(1) have m: "m < ?n" by simp
  show thesis by (rule that [OF m hm fm rr_next_cyclic [OF assms(1,2) m hm fm [rule_format]]])
qed

lemma rr_next_healthy:
  assumes "rr_inv b" and "rr_no_wrap b" and "True \<in> set (rr_healthy b)"
  shows "\<exists>i < length (rr_servers b). rr_healthy b ! i \<and> fst (rr_next_server b) = Some (rr_servers b ! i)"
proof -
  let ?n = "length (rr_servers b)" and ?c = "unat (rr_counter b)"
  from rr_next_least [OF assms] obtain m where m: "m < ?n" "rr_healthy b ! ((?c + m) mod ?n)"
    "fst (rr_next_server b) = Some (rr_servers b ! ((?c + m) mod ?n))" by metis
  then have "(?c + m) mod ?n < ?n" by (intro mod_less_divisor) linarith
  with m show ?thesis by blast
qed

interpretation rr: balancer rr_servers rr_healthy rr_next_server rr_mark_healthy
  rr_mark_unhealthy rr_inv rr_find_server_index
  by unfold_locales
    (auto simp: rr_inv_def rr_next_state rr_mark_healthy_def rr_mark_unhealthy_def
      rr_find_server_index_def list_update_beyond intro: rr_next_member [unfolded rr_inv_def])

interpretation rrh: health_pool rr_servers rr_healthy rr_next_server rr_mark_healthy
  rr_mark_unhealthy rr_inv rr_no_wrap
  by unfold_locales (rule rr_next_healthy)

section \<open>Fairness of consecutive calls\<close>

lemma rr_next_all_healthy:
  assumes "rr_inv b" and "rr_no_wrap b" and "rr_servers b \<noteq> []" and "False \<notin> set (rr_healthy b)"
  shows "fst (rr_next_server b) =
    Some (rr_servers b ! (unat (rr_counter b) mod length (rr_servers b)))"
proof -
  have n: "0 < length (rr_servers b)" using assms(3) by simp
  then have "unat (rr_counter b) mod length (rr_servers b) < length (rr_healthy b)"
    using assms(1) by (simp add: rr_inv_def)
  then have "rr_healthy b ! (unat (rr_counter b) mod length (rr_servers b))"
    by (rule all_true_nth [OF assms(4)])
  with rr_next_cyclic [OF assms(1,2) n] show ?thesis by simp
qed

lemma rr_calls_all_healthy:
  assumes "rr_inv b" and "rr_servers b \<noteq> []" and "False \<notin> set (rr_healthy b)"
    and "unat (rr_counter b) + n + length (rr_servers b) \<le> 2 ^ 64"
  shows "fst (iter_calls rr_next_server n b) =
    map (\<lambda>i. Some (rr_servers b ! ((unat (rr_counter b) + i) mod length (rr_servers b)))) [0..<n]"
  using assms
proof (induction n arbitrary: b)
  case 0
  then show ?case by simp
next
  case (Suc n)
  let ?b = "snd (rr_next_server b)" and ?c = "unat (rr_counter b)"
  have b: "?b = b\<lparr>rr_counter := rr_counter b + 1\<rparr>" using Suc.prems(2) by (rule rr_next_not_empty)
  have nw: "rr_no_wrap b" using Suc.prems(4) by (simp add: rr_no_wrap_def)
  have "0 < length (rr_servers b)" using Suc.prems(2) by simp
  with Suc.prems(4) have "?c < 2 ^ 64 - 1" by linarith
  then have c: "unat (rr_counter b + 1) = ?c + 1" by (intro unat_add_one) simp
  have "fst (iter_calls rr_next_server n ?b) =
      map (\<lambda>i. Some (rr_servers b ! ((?c + Suc i) mod length (rr_servers b)))) [0..<n]"
    using Suc.IH [of ?b] Suc.prems c by (simp add: b rr_inv_def)
  moreover have "fst (rr_next_server b) = Some (rr_servers b ! ((?c + 0) mod length (rr_servers b)))"
    using rr_next_all_healthy [OF Suc.prems(1) nw Suc.prems(2,3)] by simp
  ultimately show ?case
    by (simp only: iter_calls_Suc map_upt_Suc_Cons)
qed

lemma mset_cyclic_round:
  assumes "xs \<noteq> []"
  shows "mset (map (\<lambda>i. xs ! ((c + i) mod length xs)) [0..<length xs]) = mset xs"
proof -
  have "map (\<lambda>i. xs ! ((c + i) mod length xs)) [0..<length xs] = rotate c xs"
    by (rule nth_equalityI) (simp_all add: nth_rotate add.commute)
  moreover have "mset (rotate c xs) = mset xs"
    by (metis append_take_drop_id mset_append rotate_drop_take union_commute)
  ultimately show ?thesis by simp
qed

definition rr_example :: "usize \<Rightarrow> bool list \<Rightarrow> round_robin_balancer" where
  "rr_example c h = \<lparr>rr_servers = [plain_server ''a'' 1, plain_server ''b'' 1, plain_server ''c'' 1],
     rr_healthy = h, rr_counter = c\<rparr>"

lemma rr_example_start:
  "rr_inv (rr_example 7 [True, False, True])" "rr_no_wrap (rr_example 7 [True, False, True])"
  "rr_inv (rr_example 7 [True, True, True])"
  by (simp_all add: rr_inv_def rr_no_wrap_def rr_example_def)

lemma rr_example_sel:
  "length (rr_servers (rr_example c h)) = 3" "rr_healthy (rr_example c h) = h"
  "rr_counter (rr_example c h) = c" "rr_example c h\<lparr>rr_counter := d\<rparr> = rr_example d h"
  by (simp_all add: rr_example_def)

text \<open>
  While the counter is away from its wrap-around and some server is healthy, \<open>next_server\<close>
  returns the first healthy server in cyclic order from the counter, and advances the counter by one.
\<close>

theorem round_robin_first_healthy:
  assumes "rr_inv b" and "rr_no_wrap b" and "True \<in> set (rr_healthy b)"
  shows "\<exists>m < length (rr_servers b).
    rr_healthy b ! ((unat (rr_counter b) + m) mod length (rr_servers b)) \<and>
    (\<forall>j < m. \<not> rr_healthy b ! ((unat (rr_counter b) + j) mod length (rr_servers b))) \<and>
    rr_next_server b =
      (Some (rr_servers b ! ((unat (rr_counter b) + m) mod length (rr_servers b))),
       b\<lparr>rr_counter := rr_counter b + 1\<rparr>)"
proof -
  have "rr_servers b \<noteq> []" using assms by (auto simp: rr_inv_def)
  then have "snd (rr_next_server b) = b\<lparr>rr_counter := rr_counter b + 1\<rparr>" by (rule rr_next_not_empty)
  moreover obtain m where "m < length (rr_servers b)"
    "rr_healthy b ! ((unat (rr_counter b) + m) mod length (rr_servers b))"
    "\<forall>j < m. \<not> rr_healthy b ! ((unat (rr_counter b) + j) mod length (rr_servers b))"
    "fst (rr_next_server b) = Some (rr_servers b ! ((unat (rr_counter b) + m) mod length (rr_servers b)))"
    using assms by (rule rr_next_least)
  ultimately show ?thesis by (intro exI [of _ m]) (simp add: prod_eq_iff)
qed

theorem round_robin_first_healthy_witness:
  "\<exists>m < 3. [True, False, True] ! ((7 + m) mod 3) \<and> (\<forall>j < m. \<not> [True, False, True] ! ((7 + j) mod 3)) \<and>
     rr_next_server (rr_example 7 [True, False, True]) =
       (Some (rr_servers (rr_example 7 [True, False, True]) ! ((7 + m) mod 3)), rr_example 8 [True, False, True])"
  using round_robin_first_healthy [OF rr_example_start(1,2)] by (simp add: rr_example_sel)

text \<open>
  Fairness: with all servers healthy, one round of calls returns every server exactly once, from
  any counter value that does not wrap within the round.
\<close>

theorem round_robin_round_fair:
  assumes "rr_inv b" and "False \<notin> set (rr_healthy b)"
    and "unat (rr_counter b) + 2 * length (rr_servers b) \<le> 2 ^ 64"
  shows "mset (fst (iter_calls rr_next_server (length (rr_servers b)) b)) = mset (map Some (rr_servers b))"
proof (cases "rr_servers b = []")
  case True
  then show ?thesis by simp
next
  case False
  let ?n = "length (rr_servers b)"
  have "fst (iter_calls rr_next_server ?n b) =
      map Some (map (\<lambda>i. rr_servers b ! ((unat (rr_counter b) + i) mod ?n)) [0..<?n])"
    using rr_calls_all_healthy [OF assms(1) False assms(2), of ?n] assms(3) by (simp add: comp_def)
  then show ?thesis using mset_cyclic_round [OF False] by (simp only: mset_map)
qed

theorem round_robin_round_fair_witness:
  "mset (fst (iter_calls rr_next_server 3 (rr_example 7 [True, True, True]))) =
   {#Some (plain_server ''a'' 1), Some (plain_server ''b'' 1), Some (plain_server ''c'' 1)#}"
  using round_robin_round_fair [OF rr_example_start(3)]
  by (simp add: rr_example_sel del: iter_calls.simps) (simp add: rr_example_def)

text \<open>
  Where the sum \<open>start + i\<close> wraps, the search can visit an index twice and miss another: with
  three servers of which only the last is healthy and the counter at its maximum, an unhealthy
  server is returned.
\<close>

theorem round_robin_wrap_misses_healthy:
  "fst (rr_next_server (rr_example (- 1) [False, False, True])) = Some (plain_server ''a'' 1)"
  by code_simp

end
