(* ===== verification/Smooth_WRR.thy ===== *)
theory Smooth_WRR
  imports Prelude
begin

text \<open>
  Smooth weighted round robin as an abstract specification, shared by the weighted balancer
  (\<open>src/src/balancer/weighted.rs\<close>) and the weighted service router
  (\<open>src/src/service/weighted.rs\<close>). A step adds its weight to every active index, selects an
  index of maximal current weight and subtracts the total from it. The lemmas bound the
  current weights, which shows how far any index can be ahead of or behind its share after any
  number of steps, and that one period of \<open>sum w A\<close> steps from zero serves every index exactly
  as often as its weight says and ends in zero again.

  The locale \<open>swrr_machine\<close> is the interface: a machine whose observed current weights follow
  the abstract step inherits the fairness facts for its runs.
\<close>

definition swrr_step ::
  "nat set \<Rightarrow> (nat \<Rightarrow> int) \<Rightarrow> (nat \<Rightarrow> int) \<Rightarrow> nat \<Rightarrow> (nat \<Rightarrow> int) \<Rightarrow> bool" where
  "swrr_step A w c j c' \<longleftrightarrow>
     j \<in> A \<and> (\<forall>i \<in> A. c i + w i \<le> c j + w j) \<and>
     (\<forall>i \<in> A. c' i = c i + w i - (if i = j then sum w A else 0))"

inductive swrr_run ::
  "nat set \<Rightarrow> (nat \<Rightarrow> int) \<Rightarrow> (nat \<Rightarrow> int) \<Rightarrow> nat list \<Rightarrow> (nat \<Rightarrow> int) \<Rightarrow> bool"
  for A w where
  swrr_nil: "swrr_run A w c [] c"
| swrr_cons: "swrr_step A w c j c' \<Longrightarrow> swrr_run A w c' js c'' \<Longrightarrow> swrr_run A w c (j # js) c''"

inductive_cases swrr_run_NilE: "swrr_run A w c [] c'"
inductive_cases swrr_run_ConsE: "swrr_run A w c (j # js) c'"

text \<open>The invariant of the current weights.\<close>

definition swrr_inv :: "nat set \<Rightarrow> (nat \<Rightarrow> int) \<Rightarrow> (nat \<Rightarrow> int) \<Rightarrow> bool" where
  "swrr_inv A w c \<longleftrightarrow> sum c A = 0 \<and> (\<forall>i \<in> A. - sum w A < c i)"

definition swrr_weights :: "nat set \<Rightarrow> (nat \<Rightarrow> int) \<Rightarrow> bool" where
  "swrr_weights A w \<longleftrightarrow> finite A \<and> (\<forall>i \<in> A. 0 \<le> w i) \<and> 0 < sum w A"

lemma swrr_inv_zero: "swrr_weights A w \<Longrightarrow> swrr_inv A w (\<lambda>_. 0)"
  by (simp add: swrr_inv_def swrr_weights_def)

lemma swrr_selected_positive:
  assumes W: "swrr_weights A w" and sum0: "sum c A = 0" and st: "swrr_step A w c j c'"
  shows "0 < c j + w j"
proof (rule ccontr)
  assume "\<not> 0 < c j + w j"
  with st have "\<forall>i \<in> A. c i + w i \<le> 0" by (force simp: swrr_step_def)
  then have "(\<Sum>i\<in>A. c i + w i) \<le> 0" by (simp add: sum_nonpos)
  with sum0 W show False by (simp add: sum.distrib swrr_weights_def)
qed

lemma swrr_step_inv:
  assumes W: "swrr_weights A w" and I: "swrr_inv A w c" and st: "swrr_step A w c j c'"
  shows "swrr_inv A w c'"
proof -
  from st have j: "j \<in> A"
    and c': "\<And>i. i \<in> A \<Longrightarrow> c' i = c i + w i - (if i = j then sum w A else 0)"
    by (simp_all add: swrr_step_def)
  have fin: "finite A" and wn: "\<And>i. i \<in> A \<Longrightarrow> 0 \<le> w i" using W by (simp_all add: swrr_weights_def)
  have "sum c' A = (\<Sum>i\<in>A. c i + w i - (if i = j then sum w A else 0))"
    by (rule sum.cong) (simp_all add: c')
  also have "\<dots> = sum c A + sum w A - (\<Sum>i\<in>A. if i = j then sum w A else 0)"
    by (simp add: sum_subtractf sum.distrib)
  also have "\<dots> = sum c A" using fin j by simp
  finally have "sum c' A = 0" using I by (simp add: swrr_inv_def)
  moreover have "- sum w A < c' i" if i: "i \<in> A" for i
  proof (cases "i = j")
    case True
    with c' [OF i] swrr_selected_positive [OF W _ st] I show ?thesis by (simp add: swrr_inv_def)
  next
    case False
    with c' [OF i] wn [OF i] I i show ?thesis by (force simp: swrr_inv_def)
  qed
  ultimately show ?thesis by (simp add: swrr_inv_def)
qed

lemma swrr_upper:
  assumes W: "swrr_weights A w" and I: "swrr_inv A w c" and i: "i \<in> A"
  shows "c i \<le> (int (card A) - 1) * sum w A"
proof -
  have fin: "finite A" using W by (simp add: swrr_weights_def)
  have "- (\<Sum>k \<in> A - {i}. c k) \<le> (\<Sum>k \<in> A - {i}. sum w A)"
    unfolding sum_negf [symmetric] using I by (intro sum_mono) (force simp: swrr_inv_def)
  moreover have "sum c A = c i + (\<Sum>k \<in> A - {i}. c k)" using fin i by (rule sum.remove)
  moreover have "int (card (A - {i})) = int (card A) - 1"
    using fin i by (simp add: card_Diff_singleton of_nat_diff card_gt_0_iff Suc_leI)
       (metis One_nat_def Suc_leI card_gt_0_iff empty_iff of_nat_1 of_nat_diff)
  ultimately show ?thesis using I by (simp add: swrr_inv_def)
qed

text \<open>With fewer than \<open>2 ^ 15\<close> indices and 32-bit weights no sum leaves the 64-bit range.\<close>

lemma swrr_total_bound:
  fixes w :: "nat \<Rightarrow> int"
  assumes "finite A" and "card A < 2 ^ 15" and "\<forall>i \<in> A. w i < 2 ^ 32"
  shows "sum w A \<le> 2 ^ 47"
proof -
  have "sum w A \<le> (\<Sum>i\<in>A. 2 ^ 32)" using assms(3) by (intro sum_mono) (auto intro: less_imp_le)
  also have "\<dots> = int (card A) * 2 ^ 32" by simp
  also have "\<dots> \<le> 2 ^ 15 * 2 ^ 32" using assms(2) by (intro mult_right_mono) auto
  finally show ?thesis by simp
qed

lemma swrr_current_bound:
  assumes W: "swrr_weights A w" and I: "swrr_inv A w c" and i: "i \<in> A"
    and n: "card A < 2 ^ 15" and w: "\<forall>i \<in> A. w i < 2 ^ 32"
  shows "- (2 ^ 47) < c i" and "c i \<le> 2 ^ 62"
proof -
  have T: "sum w A \<le> 2 ^ 47" "0 < sum w A"
    using swrr_total_bound [OF _ n w] W by (simp_all add: swrr_weights_def)
  show "- (2 ^ 47) < c i" using I i T(1) by (force simp: swrr_inv_def)
  have "c i \<le> (int (card A) - 1) * sum w A" using W I i by (rule swrr_upper)
  also have "\<dots> \<le> 2 ^ 15 * sum w A" using n T(2) by (intro mult_right_mono) auto
  also have "\<dots> \<le> 2 ^ 15 * 2 ^ 47" using T(1) by (intro mult_left_mono) auto
  finally show "c i \<le> 2 ^ 62" by simp
qed

lemma swrr_run_count:
  assumes "swrr_run A w c js c'" and "i \<in> A"
  shows "c' i = c i + int (length js) * w i - sum w A * int (count_list js i)"
  using assms
proof (induction rule: swrr_run.induct)
  case (swrr_cons c j c' js c'')
  then have "c' i = c i + w i - (if i = j then sum w A else 0)" by (simp add: swrr_step_def)
  with swrr_cons show ?case by (cases "i = j") (simp_all add: algebra_simps)
qed simp

lemma swrr_run_inv:
  assumes "swrr_run A w c js c'" and "swrr_weights A w" and "swrr_inv A w c"
  shows "swrr_inv A w c'"
  using assms by (induction rule: swrr_run.induct) (auto intro: swrr_step_inv)

lemma swrr_run_active: "swrr_run A w c js c' \<Longrightarrow> set js \<subseteq> A"
  by (induction rule: swrr_run.induct) (auto simp: swrr_step_def)

lemma sum_count_list:
  assumes "finite A" and "set js \<subseteq> A"
  shows "(\<Sum>i\<in>A. count_list js i) = length js"
  using assms(2)
proof (induction js)
  case Nil
  then show ?case by simp
next
  case (Cons j js)
  have "(\<Sum>i\<in>A. count_list (j # js) i) = (\<Sum>i\<in>A. count_list js i + (if i = j then 1 else 0))"
    by (rule sum.cong) auto
  also have "\<dots> = length js + 1" using Cons assms(1) by (simp add: sum.distrib)
  finally show ?case by simp
qed

lemma swrr_run_cong:
  assumes "swrr_run A w c js c'" and "\<forall>i \<in> A. c i = d i"
  shows "\<exists>d'. swrr_run A w d js d' \<and> (\<forall>i \<in> A. c' i = d' i)"
  using assms
proof (induction arbitrary: d rule: swrr_run.induct)
  case (swrr_nil c)
  then show ?case by (auto intro: swrr_run.swrr_nil)
next
  case (swrr_cons c j c' js c'')
  then have "swrr_step A w d j c'" unfolding swrr_step_def by (metis (no_types, lifting))
  with swrr_cons.IH [of c'] show ?case by (auto intro: swrr_run.swrr_cons)
qed

text \<open>Bounds on the share of an index after any number of steps from zero.\<close>

lemma swrr_share:
  assumes W: "swrr_weights A w" and r: "swrr_run A w (\<lambda>_. 0) js c" and i: "i \<in> A"
  shows "sum w A * int (count_list js i) < int (length js) * w i + sum w A"
    and "int (length js) * w i \<le> sum w A * int (count_list js i) + (int (card A) - 1) * sum w A"
proof -
  have I: "swrr_inv A w c" using r W swrr_inv_zero [OF W] by (rule swrr_run_inv)
  note cnt = swrr_run_count [OF r i]
  show "sum w A * int (count_list js i) < int (length js) * w i + sum w A"
    using I i cnt by (force simp: swrr_inv_def)
  show "int (length js) * w i \<le> sum w A * int (count_list js i) + (int (card A) - 1) * sum w A"
    using swrr_upper [OF W I i] cnt by simp
qed

text \<open>One period is exact.\<close>

lemma swrr_period:
  assumes W: "swrr_weights A w" and r: "swrr_run A w (\<lambda>_. 0) js c"
    and len: "int (length js) = sum w A" and i: "i \<in> A"
  shows "int (count_list js i) = w i" and "c i = 0"
proof -
  let ?T = "sum w A"
  have fin: "finite A" and T: "0 < ?T" using W by (simp_all add: swrr_weights_def)
  have le: "int (count_list js k) \<le> w k" if k: "k \<in> A" for k
  proof -
    have "?T * int (count_list js k) < ?T * (w k + 1)"
      using swrr_share(1) [OF W r k] len by (simp add: algebra_simps)
    then show ?thesis using T by (simp add: mult_less_cancel_left_pos)
  qed
  have "(\<Sum>k\<in>A. int (count_list js k)) = ?T"
    using sum_count_list [OF fin swrr_run_active [OF r]] len by (simp flip: of_nat_sum)
  then have "(\<Sum>k\<in>A. w k - int (count_list js k)) = 0" by (simp add: sum_subtractf)
  then have "\<forall>k\<in>A. w k - int (count_list js k) = 0"
    using fin le by (subst (asm) sum_nonneg_eq_0_iff) auto
  with i show eq: "int (count_list js i) = w i" by simp
  show "c i = 0" using swrr_run_count [OF r i] len eq by simp
qed

section \<open>Machines that implement the step\<close>

locale swrr_machine =
  fixes next_item :: "'m \<Rightarrow> 'r \<times> 'm"
    and active :: "'m \<Rightarrow> nat set"
    and weight :: "'m \<Rightarrow> nat \<Rightarrow> int"
    and current :: "'m \<Rightarrow> nat \<Rightarrow> int"
    and chosen :: "'m \<Rightarrow> nat \<Rightarrow> 'r"
    and ok :: "'m \<Rightarrow> bool"
  assumes ok_weights: "ok m \<Longrightarrow> swrr_weights (active m) (weight m)"
    and next_step: "ok m \<Longrightarrow> swrr_inv (active m) (weight m) (current m) \<Longrightarrow>
      \<exists>j. swrr_step (active m) (weight m) (current m) j (current (snd (next_item m))) \<and>
          fst (next_item m) = chosen m j"
    and next_ok: "ok m \<Longrightarrow> swrr_inv (active m) (weight m) (current m) \<Longrightarrow> ok (snd (next_item m))"
    and next_keeps: "ok m \<Longrightarrow> swrr_inv (active m) (weight m) (current m) \<Longrightarrow>
      active (snd (next_item m)) = active m \<and> weight (snd (next_item m)) = weight m \<and>
      chosen (snd (next_item m)) = chosen m"
begin

lemma calls_run:
  assumes "ok m" and "swrr_inv (active m) (weight m) (current m)"
  shows "\<exists>js. swrr_run (active m) (weight m) (current m) js (current (snd (iter_calls next_item n m))) \<and>
    length js = n \<and> fst (iter_calls next_item n m) = map (chosen m) js"
  using assms
proof (induction n arbitrary: m)
  case 0
  then show ?case by (auto intro: swrr_nil)
next
  case (Suc n)
  let ?m = "snd (next_item m)"
  note ok = Suc.prems and k = next_keeps [OF Suc.prems]
  obtain j where j: "swrr_step (active m) (weight m) (current m) j (current ?m)"
      "fst (next_item m) = chosen m j"
    using next_step [OF ok] by blast
  have "swrr_inv (active ?m) (weight ?m) (current ?m)"
    using swrr_step_inv [OF ok_weights [OF ok(1)] ok(2) j(1)] k by simp
  from Suc.IH [OF next_ok [OF ok] this] k obtain js where
    "swrr_run (active m) (weight m) (current ?m) js (current (snd (iter_calls next_item n ?m)))"
    "length js = n" "fst (iter_calls next_item n ?m) = map (chosen m) js"
    by auto
  then show ?case using j
    by (intro exI [of _ "j # js"]) (simp add: iter_calls_Suc swrr_cons del: iter_calls.simps)
qed

end

end
