(* ===== verification/Weighted_Balancer.thy ===== *)
theory Weighted_Balancer
  imports Balancer_Iface Smooth_WRR "HOL-Library.Multiset"
begin

text \<open>
  \<open>WeightedBalancer\<close> of \<open>src/src/balancer/weighted.rs\<close>: smooth weighted round robin over the
  healthy servers, with a cached total weight. Current weights are signed 64-bit integers whose
  wrap-around is written out; the refinement to the abstract step of \<open>Smooth_WRR\<close> shows that no
  addition wraps with fewer than \<open>2 ^ 15\<close> servers, whatever their 32-bit weights are.
\<close>

record weighted_server =
  wsv_config :: server
  wsv_healthy :: bool
  wsv_current_weight :: int
  wsv_effective_weight :: u64

record weighted_balancer =
  wb_servers :: "weighted_server list"
  wb_cached_total_weight :: int

definition wb_new :: "server list \<Rightarrow> weighted_balancer" where
  "wb_new ss =
     (let servers = map (\<lambda>config. \<lparr>wsv_config = config, wsv_healthy = True,
            wsv_current_weight = 0, wsv_effective_weight = ucast (srv_weight config)\<rparr>) ss
      in \<lparr>wb_servers = servers,
          wb_cached_total_weight = i64_sum (map (\<lambda>s. sint (wsv_effective_weight s)) servers)\<rparr>)"

definition wb_recompute_total_weight :: "weighted_balancer \<Rightarrow> weighted_balancer" where
  "wb_recompute_total_weight b =
     b\<lparr>wb_cached_total_weight :=
         i64_sum (map (\<lambda>s. sint (wsv_effective_weight s)) (filter wsv_healthy (wb_servers b)))\<rparr>"

text \<open>
  The selection loop of \<open>next_server\<close>, from index \<open>idx\<close> with the best index and weight so far: it
  adds the effective weight to every healthy server and returns the updated servers with the
  best index.
\<close>

fun wb_scan :: "nat \<Rightarrow> nat option \<Rightarrow> int \<Rightarrow> weighted_server list \<Rightarrow> weighted_server list \<times> nat option" where
  "wb_scan idx best_idx best_weight [] = ([], best_idx)"
| "wb_scan idx best_idx best_weight (s # ss) =
     (if \<not> wsv_healthy s then
        (let (ss', r) = wb_scan (idx + 1) best_idx best_weight ss in (s # ss', r))
      else
        let ew = sint (wsv_effective_weight s);
            cw = i64_add (wsv_current_weight s) ew;
            s' = s\<lparr>wsv_current_weight := cw\<rparr>
        in if best_idx = None \<or> cw > best_weight
           then (let (ss', r) = wb_scan (idx + 1) (Some idx) cw ss in (s' # ss', r))
           else (let (ss', r) = wb_scan (idx + 1) best_idx best_weight ss in (s' # ss', r)))"

definition wb_next_server :: "weighted_balancer \<Rightarrow> server option \<times> weighted_balancer" where
  "wb_next_server b =
     (if wb_servers b = [] then (None, b)
      else let total = wb_cached_total_weight b in
        if total = 0 then (Some (wsv_config (hd (wb_servers b))), b)
        else case wb_scan 0 None (- (2 ^ 63)) (wb_servers b) of
          (ss, Some idx) \<Rightarrow>
            (Some (wsv_config (ss ! idx)),
             b\<lparr>wb_servers := ss[idx := (ss ! idx)\<lparr>wsv_current_weight :=
                 i64_sub (wsv_current_weight (ss ! idx)) total\<rparr>]\<rparr>)
        | (ss, None) \<Rightarrow> (Some (wsv_config (hd ss)), b\<lparr>wb_servers := ss\<rparr>))"

definition wb_mark_healthy :: "nat \<Rightarrow> weighted_balancer \<Rightarrow> weighted_balancer" where
  "wb_mark_healthy i b =
     (if i < length (wb_servers b) then
        let s = wb_servers b ! i;
            s' = s\<lparr>wsv_healthy := True, wsv_effective_weight := ucast (srv_weight (wsv_config s))\<rparr>
        in wb_recompute_total_weight (b\<lparr>wb_servers := (wb_servers b)[i := s']\<rparr>)
      else b)"

definition wb_mark_unhealthy :: "nat \<Rightarrow> weighted_balancer \<Rightarrow> weighted_balancer" where
  "wb_mark_unhealthy i b =
     (if i < length (wb_servers b) then
        wb_recompute_total_weight
          (b\<lparr>wb_servers := (wb_servers b)[i := (wb_servers b ! i)\<lparr>wsv_healthy := False\<rparr>]\<rparr>)
      else b)"

definition wb_find_server_index :: "string \<Rightarrow> weighted_balancer \<Rightarrow> nat option" where
  "wb_find_server_index u b = position (\<lambda>s. srv_url (wsv_config s) = u) (wb_servers b)"

section \<open>Observations and invariant\<close>

definition wb_configs :: "weighted_balancer \<Rightarrow> server list" where
  "wb_configs b = map wsv_config (wb_servers b)"

definition wb_flags :: "weighted_balancer \<Rightarrow> bool list" where
  "wb_flags b = map wsv_healthy (wb_servers b)"

definition wb_active :: "weighted_balancer \<Rightarrow> nat set" where
  "wb_active b = {i. i < length (wb_servers b) \<and> wsv_healthy (wb_servers b ! i)}"

definition wb_weight :: "weighted_balancer \<Rightarrow> nat \<Rightarrow> int" where
  "wb_weight b i = (if i < length (wb_configs b) then uint (srv_weight (wb_configs b ! i)) else 0)"

definition wb_current :: "weighted_balancer \<Rightarrow> nat \<Rightarrow> int" where
  "wb_current b i = wsv_current_weight (wb_servers b ! i)"

text \<open>The cached total is current and every effective weight is the configured one.\<close>

definition wb_inv :: "weighted_balancer \<Rightarrow> bool" where
  "wb_inv b \<longleftrightarrow>
     wb_cached_total_weight b =
       i64_sum (map (\<lambda>s. sint (wsv_effective_weight s)) (filter wsv_healthy (wb_servers b))) \<and>
     (\<forall>s \<in> set (wb_servers b). wsv_effective_weight s = ucast (srv_weight (wsv_config s)))"

lemma sint_ucast_u32 [simp]: "sint (ucast (x :: u32) :: u64) = uint x"
proof -
  have x: "0 \<le> uint x" "uint x < 2 ^ 32" using uint_bounded [of x] by simp_all
  then have "uint (ucast x :: u64) = uint x" by (simp add: unsigned_ucast_eq take_bit_int_eq_self)
  moreover have "signed_take_bit 63 (uint x) = uint x"
  proof (rule signed_take_bit_int_eq_self)
    show "- (2 ^ 63) \<le> uint x" by (rule order_trans [OF _ x(1)]) simp
    show "uint x < 2 ^ 63" using x(2) by simp
  qed
  ultimately show ?thesis by (simp add: sint_uint)
qed

lemma wb_inv_new: "wb_inv (wb_new ss)"
  by (auto simp: wb_inv_def wb_new_def Let_def)

definition wb_bump :: "weighted_server \<Rightarrow> weighted_server" where
  "wb_bump s = (if wsv_healthy s
     then s\<lparr>wsv_current_weight := i64_add (wsv_current_weight s) (sint (wsv_effective_weight s))\<rparr>
     else s)"

lemma wb_bump_sel [simp]:
  "wsv_config (wb_bump s) = wsv_config s"
  "wsv_healthy (wb_bump s) = wsv_healthy s"
  "wsv_effective_weight (wb_bump s) = wsv_effective_weight s"
  by (simp_all add: wb_bump_def)

lemma wb_scan_fst: "fst (wb_scan i best bw ss) = map wb_bump ss"
  by (induction ss arbitrary: i best bw) (simp_all add: Let_def split_beta wb_bump_def)

lemma wb_scan_None:
  "snd (wb_scan i best bw ss) = None \<longleftrightarrow> best = None \<and> (\<forall>s \<in> set ss. \<not> wsv_healthy s)"
  by (induction ss arbitrary: i best bw) (auto simp: Let_def split_beta)

text \<open>The best index is a running maximum over the healthy servers.\<close>

lemma wb_scan_Some:
  assumes "snd (wb_scan i best bw ss) = Some j"
  shows "(best = Some j \<and> (\<forall>s \<in> set ss. wsv_healthy s \<longrightarrow> wsv_current_weight (wb_bump s) \<le> bw)) \<or>
    (\<exists>k < length ss. j = i + k \<and> wsv_healthy (ss ! k) \<and>
       (best = None \<or> bw < wsv_current_weight (wb_bump (ss ! k))) \<and>
       (\<forall>s \<in> set ss. wsv_healthy s \<longrightarrow>
          wsv_current_weight (wb_bump s) \<le> wsv_current_weight (wb_bump (ss ! k))))"
    (is "?old best bw ss \<or> (\<exists>k < length ss. ?new i best bw ss k)")
  using assms
proof (induction ss arbitrary: i best bw)
  case Nil
  then show ?case by simp
next
  case (Cons s ss)
  let ?cw = "wsv_current_weight (wb_bump s)"
  show ?case
  proof (cases "wsv_healthy s \<and> (best = None \<or> ?cw > bw)")
    case True
    then have "snd (wb_scan (i + 1) (Some i) ?cw ss) = Some j"
      using Cons.prems by (auto simp: Let_def split_beta wb_bump_def split: if_splits)
    from Cons.IH [OF this] show ?thesis
    proof
      assume "?old (Some i) ?cw ss"
      with True have "?new i best bw (s # ss) 0" by auto
      then show ?thesis by (intro disjI2 exI [of _ 0]) simp
    next
      assume "\<exists>k < length ss. ?new (i + 1) (Some i) ?cw ss k"
      then obtain k where k: "k < length ss" "?new (i + 1) (Some i) ?cw ss k" by blast
      then have "?new i best bw (s # ss) (Suc k)" using True by auto
      with k(1) show ?thesis by (intro disjI2 exI [of _ "Suc k"]) simp
    qed
  next
    case False
    then have "snd (wb_scan (i + 1) best bw ss) = Some j"
      using Cons.prems by (auto simp: Let_def split_beta wb_bump_def split: if_splits)
    from Cons.IH [OF this] show ?thesis
    proof
      assume "?old best bw ss"
      then show ?thesis using False by auto
    next
      assume "\<exists>k < length ss. ?new (i + 1) best bw ss k"
      then obtain k where k: "k < length ss" "?new (i + 1) best bw ss k" by blast
      then have "?new i best bw (s # ss) (Suc k)" using False by auto
      with k(1) show ?thesis by (intro disjI2 exI [of _ "Suc k"]) simp
    qed
  qed
qed

section \<open>The operations on every branch\<close>

lemma wb_next_cases:
  assumes "wb_servers b \<noteq> []"
  obtains (zero) "wb_cached_total_weight b = 0"
      "wb_next_server b = (Some (wsv_config (hd (wb_servers b))), b)"
  | (none) "wb_cached_total_weight b \<noteq> 0" "\<forall>s \<in> set (wb_servers b). \<not> wsv_healthy s"
      "wb_next_server b = (Some (wsv_config (hd (wb_servers b))), b)"
  | (pick) k where "wb_cached_total_weight b \<noteq> 0" "k < length (wb_servers b)"
      "wsv_healthy (wb_servers b ! k)"
      "\<forall>s \<in> set (wb_servers b). wsv_healthy s \<longrightarrow>
         wsv_current_weight (wb_bump s) \<le> wsv_current_weight (wb_bump (wb_servers b ! k))"
      "wb_next_server b = (Some (wsv_config (wb_servers b ! k)),
         b\<lparr>wb_servers := (map wb_bump (wb_servers b))[k := (wb_bump (wb_servers b ! k))
            \<lparr>wsv_current_weight := i64_sub (wsv_current_weight (wb_bump (wb_servers b ! k)))
               (wb_cached_total_weight b)\<rparr>]\<rparr>)"
proof (cases "wb_cached_total_weight b = 0")
  case True
  then show thesis using assms zero by (simp add: wb_next_server_def)
next
  case nz: False
  let ?r = "wb_scan 0 None (- (2 ^ 63)) (wb_servers b)"
  have r: "?r = (map wb_bump (wb_servers b), snd ?r)" by (simp add: prod_eq_iff wb_scan_fst)
  show thesis
  proof (cases "snd ?r")
    case None
    then have nh: "\<forall>s \<in> set (wb_servers b). \<not> wsv_healthy s" by (simp add: wb_scan_None)
    then have "map wb_bump (wb_servers b) = wb_servers b"
      by (intro map_idI) (simp add: wb_bump_def)
    with None r have "?r = (wb_servers b, None)" by simp
    then show thesis using none [OF nz nh] assms nz by (simp add: wb_next_server_def)
  next
    case (Some k)
    from wb_scan_Some [OF Some] have k: "k < length (wb_servers b)" "wsv_healthy (wb_servers b ! k)"
      "\<forall>s \<in> set (wb_servers b). wsv_healthy s \<longrightarrow>
         wsv_current_weight (wb_bump s) \<le> wsv_current_weight (wb_bump (wb_servers b ! k))"
      by auto
    from Some r have "?r = (map wb_bump (wb_servers b), Some k)" by simp
    then show thesis using pick [OF nz k] assms nz k(1) by (simp add: wb_next_server_def)
  qed
qed

lemma wb_next_frame:
  "map wsv_config (wb_servers (snd (wb_next_server b))) = map wsv_config (wb_servers b) \<and>
   map wsv_healthy (wb_servers (snd (wb_next_server b))) = map wsv_healthy (wb_servers b) \<and>
   map wsv_effective_weight (wb_servers (snd (wb_next_server b))) = map wsv_effective_weight (wb_servers b) \<and>
   wb_cached_total_weight (snd (wb_next_server b)) = wb_cached_total_weight b"
proof (cases "wb_servers b = []")
  case True
  then show ?thesis by (simp add: wb_next_server_def)
next
  case False
  then show ?thesis
    by (cases rule: wb_next_cases) (simp_all add: map_update_same comp_def)
qed

lemma filter_map_cong:
  assumes "map p xs = map p ys" and "map f xs = map f ys"
  shows "map f (filter p xs) = map f (filter p ys)"
proof -
  have "length xs = length ys" using assms(1) by (rule map_eq_imp_length_eq)
  then show ?thesis using assms by (induction xs ys rule: list_induct2) auto
qed

lemma wb_inv_alt:
  "wb_inv b \<longleftrightarrow>
     wb_cached_total_weight b = i64_sum (map sint (map wsv_effective_weight (filter wsv_healthy (wb_servers b)))) \<and>
     map wsv_effective_weight (wb_servers b) = map (\<lambda>c. ucast (srv_weight c)) (map wsv_config (wb_servers b))"
  by (simp add: wb_inv_def comp_def)

lemma wb_inv_next: "wb_inv b \<Longrightarrow> wb_inv (snd (wb_next_server b))"
  using wb_next_frame [of b] filter_map_cong [of wsv_healthy _ "wb_servers b" wsv_effective_weight]
  unfolding wb_inv_alt by metis

lemma wb_next_member:
  assumes "fst (wb_next_server b) = Some s"
  shows "s \<in> set (wb_configs b)"
proof -
  have ne: "wb_servers b \<noteq> []" using assms by (auto simp: wb_next_server_def)
  then have "hd (wb_servers b) \<in> set (wb_servers b)" by simp
  with ne assms show ?thesis
    by (cases rule: wb_next_cases) (auto simp: wb_configs_def)
qed

lemma wb_marks:
  "wb_configs (wb_mark_healthy i b) = wb_configs b"
  "wb_flags (wb_mark_healthy i b) = (wb_flags b)[i := True]"
  "wb_configs (wb_mark_unhealthy i b) = wb_configs b"
  "wb_flags (wb_mark_unhealthy i b) = (wb_flags b)[i := False]"
  by (simp_all add: wb_mark_healthy_def wb_mark_unhealthy_def wb_configs_def wb_flags_def Let_def
      wb_recompute_total_weight_def map_update_same)
    (simp_all add: map_update list_update_beyond)

lemma wb_inv_marks:
  assumes "wb_inv b"
  shows "wb_inv (wb_mark_healthy i b)" and "wb_inv (wb_mark_unhealthy i b)"
  using assms
  by (auto simp: wb_inv_def wb_mark_healthy_def wb_mark_unhealthy_def wb_recompute_total_weight_def Let_def
      dest!: set_update_subset_insert [THEN subsetD] nth_mem)

interpretation wb: balancer wb_configs wb_flags wb_next_server wb_mark_healthy
  wb_mark_unhealthy wb_inv wb_find_server_index
  by unfold_locales
    (simp_all add: wb_marks wb_inv_marks wb_inv_next wb_next_member wb_next_frame
      wb_find_server_index_def position_map comp_def,
     simp_all add: wb_configs_def wb_flags_def wb_next_frame position_map comp_def)

lemma wb_next_healthy:
  assumes "wb_inv b" and "wb_cached_total_weight b \<noteq> 0" and "True \<in> set (wb_flags b)"
  shows "\<exists>i < length (wb_configs b). wb_flags b ! i \<and> fst (wb_next_server b) = Some (wb_configs b ! i)"
proof -
  from assms(3) obtain s where s: "s \<in> set (wb_servers b)" "wsv_healthy s" by (auto simp: wb_flags_def)
  then have "wb_servers b \<noteq> []" by auto
  then show ?thesis using assms(2) s
    by (cases rule: wb_next_cases) (auto simp: wb_configs_def wb_flags_def)
qed

interpretation wbh: health_pool wb_configs wb_flags wb_next_server wb_mark_healthy
  wb_mark_unhealthy wb_inv "\<lambda>b. wb_cached_total_weight b \<noteq> 0"
  by unfold_locales (rule wb_next_healthy)

section \<open>Refinement to the abstract step\<close>

definition wb_ok :: "weighted_balancer \<Rightarrow> bool" where
  "wb_ok b \<longleftrightarrow> wb_inv b \<and> length (wb_servers b) < 2 ^ 15 \<and>
     (\<exists>s \<in> set (wb_servers b). wsv_healthy s \<and> srv_weight (wsv_config s) \<noteq> 0)"

lemma wb_weight_range: "0 \<le> wb_weight b i" "wb_weight b i < 2 ^ 32"
  using uint_bounded [of "srv_weight (wb_configs b ! i)"] by (simp_all add: wb_weight_def)

lemma wb_weights_u32: "\<forall>i \<in> A. wb_weight b i < 2 ^ 32"
  using wb_weight_range by blast

lemma wb_active_card: "finite (wb_active b)" "card (wb_active b) \<le> length (wb_servers b)"
proof -
  have sub: "wb_active b \<subseteq> {..<length (wb_servers b)}" by (auto simp: wb_active_def)
  show "finite (wb_active b)" using finite_subset [OF sub] by simp
  show "card (wb_active b) \<le> length (wb_servers b)" using card_mono [OF _ sub] by simp
qed

lemma wb_ok_positive:
  assumes "wb_ok b"
  shows "0 < sum (wb_weight b) (wb_active b)"
proof -
  from assms obtain i where i: "i < length (wb_servers b)" "wsv_healthy (wb_servers b ! i)"
    "srv_weight (wsv_config (wb_servers b ! i)) \<noteq> 0"
    by (auto simp: wb_ok_def in_set_conv_nth)
  then have "0 < wb_weight b i" by (simp add: wb_weight_def wb_configs_def uint_pos_iff)
  moreover have "i \<in> wb_active b" using i by (simp add: wb_active_def)
  ultimately show ?thesis
    using wb_active_card(1) wb_weight_range(1) by (intro sum_pos2 [of _ i]) auto
qed

lemma wb_ok_weights: "wb_ok b \<Longrightarrow> swrr_weights (wb_active b) (wb_weight b)"
  by (simp add: wb_ok_positive swrr_weights_def wb_active_card wb_weight_range)

lemma wb_ok_card: "wb_ok b \<Longrightarrow> card (wb_active b) < 2 ^ 15"
  using wb_active_card(2) [of b] by (simp add: wb_ok_def)

lemma wb_total_eq:
  assumes "wb_ok b"
  shows "wb_cached_total_weight b = sum (wb_weight b) (wb_active b)"
proof -
  let ?xs = "map (\<lambda>s. uint (srv_weight (wsv_config s))) (filter wsv_healthy (wb_servers b))"
  have eq: "sum_list ?xs = sum (wb_weight b) (wb_active b)"
    unfolding sum_list_filter_nth
    by (rule sum.cong) (simp_all add: wb_active_def wb_weight_def wb_configs_def)
  have "sum (wb_weight b) (wb_active b) \<le> 2 ^ 47"
    by (rule swrr_total_bound [OF wb_active_card(1) wb_ok_card [OF assms] wb_weights_u32])
  then have "i64_sum ?xs = sum_list ?xs" by (intro i64_sum_exact) (auto simp: eq)
  moreover have "map (\<lambda>s. sint (wsv_effective_weight s)) (filter wsv_healthy (wb_servers b)) = ?xs"
    using assms by (simp add: wb_ok_def wb_inv_def)
  moreover have "wb_cached_total_weight b =
      i64_sum (map (\<lambda>s. sint (wsv_effective_weight s)) (filter wsv_healthy (wb_servers b)))"
    using assms by (simp add: wb_ok_def wb_inv_def)
  ultimately show ?thesis using eq by metis
qed

lemma wb_bump_current:
  assumes ok: "wb_ok b" and I: "swrr_inv (wb_active b) (wb_weight b) (wb_current b)" and i: "i \<in> wb_active b"
  shows "wsv_current_weight (wb_bump (wb_servers b ! i)) = wb_current b i + wb_weight b i"
proof -
  have "wsv_effective_weight (wb_servers b ! i) = ucast (srv_weight (wsv_config (wb_servers b ! i)))"
    using ok i by (simp add: wb_ok_def wb_inv_def wb_active_def)
  moreover have "- (2 ^ 63) \<le> wb_current b i + wb_weight b i" "wb_current b i + wb_weight b i < 2 ^ 63"
    using swrr_current_bound [OF wb_ok_weights [OF ok] I i wb_ok_card [OF ok] wb_weights_u32]
      wb_weight_range [of b i] by simp_all
  ultimately show ?thesis using i
    by (simp add: wb_bump_def wb_active_def i64_add_def i64_wrap_id wb_current_def wb_weight_def wb_configs_def)
qed

lemma wb_next_step:
  assumes ok: "wb_ok b" and I: "swrr_inv (wb_active b) (wb_weight b) (wb_current b)"
  shows "\<exists>j. swrr_step (wb_active b) (wb_weight b) (wb_current b) j (wb_current (snd (wb_next_server b))) \<and>
    fst (wb_next_server b) = Some (wb_configs b ! j)"
proof -
  let ?A = "wb_active b" and ?w = "wb_weight b" and ?c = "wb_current b"
  have T: "wb_cached_total_weight b = sum ?w ?A" and pos: "0 < sum ?w ?A"
    using wb_total_eq [OF ok] wb_ok_positive [OF ok] by simp_all
  have ex: "\<exists>i. i \<in> ?A" using pos by (metis sum.empty less_irrefl ex_in_conv)
  then have ne: "wb_servers b \<noteq> []" by (auto simp: wb_active_def)
  show ?thesis
  proof (cases rule: wb_next_cases [OF ne])
    case 1
    with T pos show ?thesis by simp
  next
    case 2
    with ex show ?thesis by (auto simp: wb_active_def)
  next
    case (3 k)
    have k: "k \<in> ?A" using 3 by (simp add: wb_active_def)
    note bump = wb_bump_current [OF ok I]
    have mx: "?c i + ?w i \<le> ?c k + ?w k" if "i \<in> ?A" for i
      using 3(4) bump [OF that] bump [OF k] that by (auto simp: wb_active_def)
    have bnd: "- (2 ^ 63) \<le> ?c k + ?w k - sum ?w ?A" "?c k + ?w k - sum ?w ?A < 2 ^ 63"
      using swrr_current_bound [OF wb_ok_weights [OF ok] I k wb_ok_card [OF ok] wb_weights_u32]
        swrr_total_bound [OF wb_active_card(1) wb_ok_card [OF ok] wb_weights_u32 [where b = b]]
        wb_weight_range [of b k] pos by simp_all
    have "wb_current (snd (wb_next_server b)) i = ?c i + ?w i - (if i = k then sum ?w ?A else 0)"
      if i: "i \<in> ?A" for i
    proof (cases "i = k")
      case True
      with 3 T bump [OF k] bnd show ?thesis
        by (simp add: wb_current_def i64_sub_def i64_wrap_id)
    next
      case False
      with 3 bump [OF i] i show ?thesis by (simp add: wb_current_def wb_active_def)
    qed
    with k mx have "swrr_step ?A ?w ?c k (wb_current (snd (wb_next_server b)))"
      by (simp add: swrr_step_def)
    with 3 show ?thesis by (intro exI [of _ k]) (simp add: wb_configs_def)
  qed
qed

lemma wb_next_observed:
  "wb_active (snd (wb_next_server b)) = wb_active b"
  "wb_configs (snd (wb_next_server b)) = wb_configs b"
  "length (wb_servers (snd (wb_next_server b))) = length (wb_servers b)"
proof -
  note fr = wb_next_frame [of b]
  show len: "length (wb_servers (snd (wb_next_server b))) = length (wb_servers b)"
    using fr by (metis length_map)
  have "wsv_healthy (wb_servers (snd (wb_next_server b)) ! i) = wsv_healthy (wb_servers b ! i)"
    if "i < length (wb_servers b)" for i
    using fr that len by (metis nth_map)
  then show "wb_active (snd (wb_next_server b)) = wb_active b" by (auto simp: wb_active_def len)
  show "wb_configs (snd (wb_next_server b)) = wb_configs b" using fr by (simp add: wb_configs_def)
qed

lemma wb_weight_next: "wb_weight (snd (wb_next_server b)) = wb_weight b"
  by (rule ext) (simp add: wb_weight_def wb_next_observed)

lemma wb_ok_alt:
  "wb_ok b \<longleftrightarrow> wb_inv b \<and> length (wb_servers b) < 2 ^ 15 \<and> (\<exists>i \<in> wb_active b. wb_weight b i \<noteq> 0)"
proof -
  have "(\<exists>i \<in> wb_active b. wb_weight b i \<noteq> 0) \<longleftrightarrow>
      (\<exists>i < length (wb_servers b). wsv_healthy (wb_servers b ! i) \<and>
        srv_weight (wsv_config (wb_servers b ! i)) \<noteq> 0)"
    by (auto simp: wb_active_def wb_weight_def wb_configs_def uint_0_iff cong: conj_cong)
  then show ?thesis by (simp only: wb_ok_def bex_nth)
qed

lemma wb_ok_next: "wb_ok b \<Longrightarrow> wb_ok (snd (wb_next_server b))"
  by (simp add: wb_ok_alt wb_next_observed wb_weight_next wb_inv_next)

interpretation wbm: swrr_machine wb_next_server wb_active wb_weight wb_current
  "\<lambda>b j. Some (wb_configs b ! j)" wb_ok
  by unfold_locales
    (simp_all add: wb_ok_weights wb_next_step wb_next_observed wb_weight_next,
     rule wb_ok_next)

section \<open>Fairness\<close>

lemma wb_active_count: "card (wb_active b) = count_list (wb_flags b) True"
proof -
  have "wb_active b = {i. i < length (wb_servers b) \<and> wsv_healthy (wb_servers b ! i)}"
    by (simp add: wb_active_def)
  then have "card (wb_active b) = length (filter wsv_healthy (wb_servers b))"
    by (simp add: length_filter_conv_card)
  also have "\<dots> = count_list (map wsv_healthy ss) True" if "ss = wb_servers b" for ss
    unfolding that [symmetric] by (induction ss) auto
  finally show ?thesis by (simp add: wb_flags_def)
qed

text \<open>All current weights zero: a new balancer, and a balancer after a whole period.\<close>

definition wb_fresh :: "weighted_balancer \<Rightarrow> bool" where
  "wb_fresh b \<longleftrightarrow> (\<forall>s \<in> set (wb_servers b). wsv_current_weight s = 0)"

lemma wb_fresh_run:
  assumes "wb_ok b" and "wb_fresh b"
  shows "\<exists>js c. swrr_run (wb_active b) (wb_weight b) (\<lambda>_. 0) js c \<and> length js = n \<and>
    fst (iter_calls wb_next_server n b) = map (\<lambda>j. Some (wb_configs b ! j)) js"
proof -
  have z: "\<forall>i \<in> wb_active b. wb_current b i = 0"
    using assms(2) by (simp add: wb_fresh_def wb_active_def wb_current_def)
  then have "swrr_inv (wb_active b) (wb_weight b) (wb_current b)"
    using swrr_inv_zero [OF wb_ok_weights [OF assms(1)]] by (simp add: swrr_inv_def)
  from wbm.calls_run [OF assms(1) this, of n] swrr_run_cong [OF _ z] show ?thesis by blast
qed

text \<open>
  C1. Exactness of smooth weighted round robin. Take a weighted balancer with any servers marked
  unhealthy, fewer than \<open>2 ^ 15\<close> servers, some healthy server of positive weight and all current
  weights zero. Over as many calls of \<open>next_server\<close> as the cached total weight says, every healthy
  server is returned exactly as often as its configured weight, and no unhealthy server is returned.
\<close>

theorem weighted_period_exact:
  assumes "wb_ok b" and "wb_fresh b" and "distinct (wb_configs b)" and "i < length (wb_configs b)"
  shows "count_list (fst (iter_calls wb_next_server (nat (wb_cached_total_weight b)) b)) (Some (wb_configs b ! i)) =
    (if wb_flags b ! i then unat (srv_weight (wb_configs b ! i)) else 0)"
proof -
  let ?n = "nat (wb_cached_total_weight b)"
  obtain js c where r: "swrr_run (wb_active b) (wb_weight b) (\<lambda>_. 0) js c" and len: "length js = ?n"
    and res: "fst (iter_calls wb_next_server ?n b) = map (\<lambda>j. Some (wb_configs b ! j)) js"
    using wb_fresh_run [OF assms(1,2)] by blast
  have sub: "set js \<subseteq> wb_active b" using r by (rule swrr_run_active)
  then have cnt: "count_list (fst (iter_calls wb_next_server ?n b)) (Some (wb_configs b ! i)) = count_list js i"
    unfolding res by (intro count_list_map_Some_nth [OF assms(3) _ assms(4)]) (auto simp: wb_active_def wb_configs_def)
  have lenT: "int (length js) = sum (wb_weight b) (wb_active b)"
    using len wb_total_eq [OF assms(1)] wb_ok_positive [OF assms(1)] by simp
  show ?thesis
  proof (cases "wb_flags b ! i")
    case True
    then have "i \<in> wb_active b" using assms(4) by (simp add: wb_active_def wb_flags_def wb_configs_def)
    from swrr_period(1) [OF wb_ok_weights [OF assms(1)] r lenT this]
    have "int (count_list js i) = uint (srv_weight (wb_configs b ! i))"
      using assms(4) by (simp add: wb_weight_def)
    then have "count_list js i = nat (uint (srv_weight (wb_configs b ! i)))" by linarith
    with cnt True show ?thesis by (simp only: nat_uint_eq if_True)
  next
    case False
    then have "i \<notin> set js" using sub assms(4) by (auto simp: wb_active_def wb_flags_def wb_configs_def)
    then show ?thesis using cnt False by (simp add: count_list_0_iff)
  qed
qed

definition wb_example :: weighted_balancer where
  "wb_example = wb_mark_unhealthy 2
     (wb_new [plain_server ''a'' 5, plain_server ''b'' 1, plain_server ''c'' 7])"

lemma wb_example_start:
  "wb_ok wb_example" "wb_fresh wb_example" "distinct (wb_configs wb_example)"
  "length (wb_configs wb_example) = 3" "wb_flags wb_example ! 0" "wb_configs wb_example ! 0 = plain_server ''a'' 5"
  "wb_cached_total_weight wb_example = 6" "count_list (wb_flags wb_example) True = 2"
proof -
  have "wb_inv wb_example" "length (wb_servers wb_example) = 3"
    "\<exists>s \<in> set (wb_servers wb_example). wsv_healthy s \<and> srv_weight (wsv_config s) \<noteq> 0"
    by code_simp+
  then show "wb_ok wb_example" by (simp add: wb_ok_def)
qed code_simp+

theorem weighted_period_exact_witness:
  "count_list (fst (iter_calls wb_next_server 6 wb_example)) (Some (plain_server ''a'' 5)) = 5"
  using weighted_period_exact [of wb_example 0] by (simp add: wb_example_start plain_server_def)

text \<open>
  Smoothness. From the same start, after any number \<open>n\<close> of calls a healthy server is never a
  full turn ahead of its proportional share: \<open>total * count < n * weight + total\<close>; and it is at
  most \<open>healthy servers - 1\<close> turns behind it.
\<close>

theorem weighted_share_bounds:
  assumes "wb_ok b" and "wb_fresh b" and "distinct (wb_configs b)" and "i < length (wb_configs b)"
    and "wb_flags b ! i"
  defines "cnt \<equiv> \<lambda>n. int (count_list (fst (iter_calls wb_next_server n b)) (Some (wb_configs b ! i)))"
  shows "wb_cached_total_weight b * cnt n < int n * uint (srv_weight (wb_configs b ! i)) + wb_cached_total_weight b \<and>
    int n * uint (srv_weight (wb_configs b ! i)) \<le>
      wb_cached_total_weight b * cnt n + (int (count_list (wb_flags b) True) - 1) * wb_cached_total_weight b"
proof -
  obtain js c where r: "swrr_run (wb_active b) (wb_weight b) (\<lambda>_. 0) js c" and len: "length js = n"
    and res: "fst (iter_calls wb_next_server n b) = map (\<lambda>j. Some (wb_configs b ! j)) js"
    using wb_fresh_run [OF assms(1,2)] by blast
  have sub: "set js \<subseteq> wb_active b" using r by (rule swrr_run_active)
  then have cnt: "cnt n = int (count_list js i)"
    unfolding cnt_def res
    by (subst count_list_map_Some_nth [OF assms(3) _ assms(4)]) (auto simp: wb_active_def wb_configs_def)
  have i: "i \<in> wb_active b" using assms(4,5) by (simp add: wb_active_def wb_flags_def wb_configs_def)
  have w: "wb_weight b i = uint (srv_weight (wb_configs b ! i))" using assms(4) by (simp add: wb_weight_def)
  show ?thesis
    using swrr_share [OF wb_ok_weights [OF assms(1)] r i] wb_active_count [of b]
    unfolding cnt len w wb_total_eq [OF assms(1)] by simp
qed

theorem weighted_share_bounds_witness:
  "6 * int (count_list (fst (iter_calls wb_next_server 4 wb_example)) (Some (plain_server ''a'' 5))) < 4 * 5 + 6"
  using weighted_share_bounds [of wb_example 0 4] by (simp add: wb_example_start plain_server_def)

end
