(* ===== verification/Least_Conn.thy ===== *)
theory Least_Conn
  imports Balancer_Iface
begin

text \<open>
  \<open>LeastConnBalancer\<close> of \<open>src/src/balancer/least_conn.rs\<close>. Connection counts are 64-bit words:
  \<open>conns * 100\<close>, \<open>fetch_add\<close> and \<open>fetch_sub\<close> wrap. The lemmas show that the selection is the
  first minimum of the weighted counts over the healthy servers, and that \<open>acquire\<close> and
  \<open>release\<close> are inverse.
\<close>

record least_conn_server =
  lcs_config :: server
  lcs_healthy :: bool
  lcs_active_connections :: usize

record least_conn_balancer =
  lc_servers :: "least_conn_server list"

definition lc_new :: "server list \<Rightarrow> least_conn_balancer" where
  "lc_new ss = \<lparr>lc_servers = map (\<lambda>config. \<lparr>lcs_config = config, lcs_healthy = True,
     lcs_active_connections = 0\<rparr>) ss\<rparr>"

definition lc_acquire :: "nat \<Rightarrow> least_conn_balancer \<Rightarrow> least_conn_balancer" where
  "lc_acquire i b =
     (if i < length (lc_servers b) then
        b\<lparr>lc_servers := (lc_servers b)[i := (lc_servers b ! i)
           \<lparr>lcs_active_connections := lcs_active_connections (lc_servers b ! i) + 1\<rparr>]\<rparr>
      else b)"

definition lc_release :: "nat \<Rightarrow> least_conn_balancer \<Rightarrow> least_conn_balancer" where
  "lc_release i b =
     (if i < length (lc_servers b) then
        b\<lparr>lc_servers := (lc_servers b)[i := (lc_servers b ! i)
           \<lparr>lcs_active_connections := lcs_active_connections (lc_servers b ! i) - 1\<rparr>]\<rparr>
      else b)"

definition lc_weighted_conns :: "least_conn_server \<Rightarrow> usize" where
  "lc_weighted_conns s =
     (if srv_weight (lcs_config s) > 0
      then lcs_active_connections s * 100 div ucast (srv_weight (lcs_config s))
      else lcs_active_connections s * 100)"

text \<open>The selection loop from index \<open>idx\<close>; \<open>min_conns\<close> starts at \<open>usize::MAX\<close>.\<close>

fun lc_scan :: "nat \<Rightarrow> nat option \<Rightarrow> usize \<Rightarrow> least_conn_server list \<Rightarrow> nat option" where
  "lc_scan idx best_idx min_conns [] = best_idx"
| "lc_scan idx best_idx min_conns (s # ss) =
     (if \<not> lcs_healthy s then lc_scan (idx + 1) best_idx min_conns ss
      else if lc_weighted_conns s < min_conns
      then lc_scan (idx + 1) (Some idx) (lc_weighted_conns s) ss
      else lc_scan (idx + 1) best_idx min_conns ss)"

definition lc_next_server :: "least_conn_balancer \<Rightarrow> server option \<times> least_conn_balancer" where
  "lc_next_server b =
     (if lc_servers b = [] then (None, b)
      else (map_option (\<lambda>idx. lcs_config (lc_servers b ! idx)) (lc_scan 0 None (- 1) (lc_servers b)), b))"

definition lc_mark_healthy :: "nat \<Rightarrow> least_conn_balancer \<Rightarrow> least_conn_balancer" where
  "lc_mark_healthy i b =
     (if i < length (lc_servers b)
      then b\<lparr>lc_servers := (lc_servers b)[i := (lc_servers b ! i)\<lparr>lcs_healthy := True\<rparr>]\<rparr> else b)"

definition lc_mark_unhealthy :: "nat \<Rightarrow> least_conn_balancer \<Rightarrow> least_conn_balancer" where
  "lc_mark_unhealthy i b =
     (if i < length (lc_servers b)
      then b\<lparr>lc_servers := (lc_servers b)[i := (lc_servers b ! i)\<lparr>lcs_healthy := False\<rparr>]\<rparr> else b)"

definition lc_find_server_index :: "string \<Rightarrow> least_conn_balancer \<Rightarrow> nat option" where
  "lc_find_server_index u b = position (\<lambda>s. srv_url (lcs_config s) = u) (lc_servers b)"

section \<open>The selection loop\<close>

definition lc_configs :: "least_conn_balancer \<Rightarrow> server list" where
  "lc_configs b = map lcs_config (lc_servers b)"

definition lc_flags :: "least_conn_balancer \<Rightarrow> bool list" where
  "lc_flags b = map lcs_healthy (lc_servers b)"

lemma lc_scan_Some:
  assumes "lc_scan i best mn ss = Some j"
  shows "(best = Some j \<and> (\<forall>s \<in> set ss. lcs_healthy s \<longrightarrow> mn \<le> lc_weighted_conns s)) \<or>
    (\<exists>k < length ss. j = i + k \<and> lcs_healthy (ss ! k) \<and> lc_weighted_conns (ss ! k) < mn \<and>
       (\<forall>s \<in> set ss. lcs_healthy s \<longrightarrow> lc_weighted_conns (ss ! k) \<le> lc_weighted_conns s) \<and>
       (\<forall>m < k. lcs_healthy (ss ! m) \<longrightarrow> lc_weighted_conns (ss ! k) < lc_weighted_conns (ss ! m)))"
    (is "?old best mn ss \<or> (\<exists>k < length ss. ?new i mn ss k)")
  using assms
proof (induction ss arbitrary: i best mn)
  case Nil
  then show ?case by simp
next
  case (Cons s ss)
  let ?w = "lc_weighted_conns s"
  show ?case
  proof (cases "lcs_healthy s \<and> ?w < mn")
    case True
    then have "lc_scan (i + 1) (Some i) ?w ss = Some j" using Cons.prems by simp
    from Cons.IH [OF this] show ?thesis
    proof
      assume "?old (Some i) ?w ss"
      with True have "?new i mn (s # ss) 0" by auto
      then show ?thesis by (intro disjI2 exI [of _ 0]) simp
    next
      assume "\<exists>k < length ss. ?new (i + 1) ?w ss k"
      then obtain k where k: "k < length ss" "?new (i + 1) ?w ss k" by blast
      then have "?new i mn (s # ss) (Suc k)" using True by (auto simp: nth_Cons')
      with k(1) show ?thesis by (intro disjI2 exI [of _ "Suc k"]) simp
    qed
  next
    case False
    then have "lc_scan (i + 1) best mn ss = Some j" using Cons.prems by (auto split: if_splits)
    from Cons.IH [OF this] show ?thesis
    proof
      assume "?old best mn ss"
      then show ?thesis using False by auto
    next
      assume "\<exists>k < length ss. ?new (i + 1) mn ss k"
      then obtain k where k: "k < length ss" "?new (i + 1) mn ss k" by blast
      then have "?new i mn (s # ss) (Suc k)" using False by (auto simp: nth_Cons')
      with k(1) show ?thesis by (intro disjI2 exI [of _ "Suc k"]) simp
    qed
  qed
qed

lemma lc_scan_None:
  "lc_scan i best mn ss = None \<longleftrightarrow> best = None \<and> (\<forall>s \<in> set ss. lcs_healthy s \<longrightarrow> mn \<le> lc_weighted_conns s)"
  by (induction ss arbitrary: i best mn) auto

lemma lc_next_pick:
  assumes "lc_scan 0 None (- 1) (lc_servers b) = Some j"
  shows "j < length (lc_servers b)" and "lcs_healthy (lc_servers b ! j)"
    and "fst (lc_next_server b) = Some (lc_configs b ! j)"
proof -
  from lc_scan_Some [OF assms] show j: "j < length (lc_servers b)" "lcs_healthy (lc_servers b ! j)" by auto
  then show "fst (lc_next_server b) = Some (lc_configs b ! j)"
    using assms by (auto simp: lc_next_server_def lc_configs_def)
qed

lemma lc_marks:
  "lc_configs (lc_mark_healthy i b) = lc_configs b"
  "lc_flags (lc_mark_healthy i b) = (lc_flags b)[i := True]"
  "lc_configs (lc_mark_unhealthy i b) = lc_configs b"
  "lc_flags (lc_mark_unhealthy i b) = (lc_flags b)[i := False]"
  by (simp_all add: lc_mark_healthy_def lc_mark_unhealthy_def lc_configs_def lc_flags_def map_update_same)
    (simp_all add: map_update list_update_beyond)

lemma lc_next_member:
  assumes "fst (lc_next_server b) = Some s"
  shows "s \<in> set (lc_configs b)"
proof -
  obtain j where j: "lc_scan 0 None (- 1) (lc_servers b) = Some j"
    using assms by (auto simp: lc_next_server_def split: if_splits)
  from lc_next_pick [OF this] assms show ?thesis by (simp add: lc_configs_def)
qed

lemma lc_next_state [simp]: "snd (lc_next_server b) = b"
  by (simp add: lc_next_server_def)

interpretation lc: balancer lc_configs lc_flags lc_next_server lc_mark_healthy
  lc_mark_unhealthy "\<lambda>_. True" lc_find_server_index
  by unfold_locales
    (simp_all add: lc_marks lc_next_member lc_find_server_index_def position_map comp_def,
     simp_all add: lc_configs_def lc_flags_def position_map comp_def)

text \<open>No weighted count equals \<open>usize::MAX\<close>, the start value of the loop.\<close>

definition lc_below_max :: "least_conn_balancer \<Rightarrow> bool" where
  "lc_below_max b \<longleftrightarrow> (\<forall>s \<in> set (lc_servers b). lc_weighted_conns s < - 1)"

lemma lc_scan_exists:
  assumes "lc_below_max b" and "True \<in> set (lc_flags b)"
  shows "\<exists>j. lc_scan 0 None (- 1) (lc_servers b) = Some j"
proof (rule ccontr)
  assume "\<not> ?thesis"
  then have "lc_scan 0 None (- 1) (lc_servers b) = None" by (metis option.exhaust)
  with assms show False by (force simp: lc_scan_None lc_below_max_def lc_flags_def)
qed

lemma lc_next_healthy:
  assumes "lc_below_max b" and "True \<in> set (lc_flags b)"
  shows "\<exists>i < length (lc_configs b). lc_flags b ! i \<and> fst (lc_next_server b) = Some (lc_configs b ! i)"
  using lc_scan_exists [OF assms] lc_next_pick by (fastforce simp: lc_configs_def lc_flags_def)

interpretation lch: health_pool lc_configs lc_flags lc_next_server lc_mark_healthy
  lc_mark_unhealthy "\<lambda>_. True" lc_below_max
  by unfold_locales (rule lc_next_healthy)

text \<open>
  The least-connections balancer returns a healthy server whose weighted connection count is
  minimal among the healthy servers, and the first such server; it does so whenever a healthy
  server exists and no weighted count is \<open>usize::MAX\<close>.
\<close>

theorem least_conn_minimal:
  assumes "lc_below_max b" and "True \<in> set (lc_flags b)"
  shows "\<exists>j < length (lc_servers b). fst (lc_next_server b) = Some (lcs_config (lc_servers b ! j)) \<and>
    lcs_healthy (lc_servers b ! j) \<and>
    (\<forall>i < length (lc_servers b). lcs_healthy (lc_servers b ! i) \<longrightarrow>
       lc_weighted_conns (lc_servers b ! j) \<le> lc_weighted_conns (lc_servers b ! i) \<and>
       (i < j \<longrightarrow> lc_weighted_conns (lc_servers b ! j) < lc_weighted_conns (lc_servers b ! i)))"
proof -
  from lc_scan_exists [OF assms] obtain j where j: "lc_scan 0 None (- 1) (lc_servers b) = Some j" ..
  note pick = lc_next_pick [OF j]
  have "\<forall>s \<in> set (lc_servers b). lcs_healthy s \<longrightarrow> lc_weighted_conns (lc_servers b ! j) \<le> lc_weighted_conns s"
    and "\<forall>m < j. lcs_healthy (lc_servers b ! m) \<longrightarrow> lc_weighted_conns (lc_servers b ! j) < lc_weighted_conns (lc_servers b ! m)"
    using lc_scan_Some [OF j] by auto
  then show ?thesis using pick by (intro exI [of _ j]) (simp add: lc_configs_def)
qed

definition lc_example :: least_conn_balancer where
  "lc_example = lc_acquire 0 (lc_acquire 1 (lc_acquire 0
     (lc_new [plain_server ''a'' 1, plain_server ''b'' 1, plain_server ''c'' 1])))"

theorem least_conn_minimal_witness:
  "lc_below_max lc_example \<and> True \<in> set (lc_flags lc_example) \<and>
   (\<exists>j < length (lc_servers lc_example). fst (lc_next_server lc_example) = Some (lcs_config (lc_servers lc_example ! j)) \<and>
      lcs_healthy (lc_servers lc_example ! j))"
proof -
  have "lc_below_max lc_example" "True \<in> set (lc_flags lc_example)" by code_simp+
  with least_conn_minimal [of lc_example] show ?thesis by blast
qed

text \<open>
  Accounting: releasing what was acquired restores the balancer, in either order and also where
  the counter wraps.
\<close>

theorem least_conn_acquire_release:
  "lc_release i (lc_acquire i b) = b \<and> lc_acquire i (lc_release i b) = b"
  by (simp add: lc_acquire_def lc_release_def)

end
