(* ===== verification/Random_Balancer.thy ===== *)
theory Random_Balancer
  imports Balancer_Iface
begin

unbundle bit_operations_syntax

text \<open>
  \<open>RandomBalancer\<close> of \<open>src/src/balancer/random.rs\<close>: weighted random selection over the healthy
  servers with a thread-local xorshift generator. The generator's state is part of the state a
  call passes on; weights are 32-bit words whose sums wrap. The lemmas show that the generator
  never reaches the absorbing state zero and that the selection is exactly proportional: of the
  \<open>healthy_weight\<close> residues, a healthy server is selected by as many as its weight.
\<close>

record random_server =
  rns_config :: server
  rns_healthy :: bool

record random_balancer =
  rb_servers :: "random_server list"
  rb_total_weight :: u32

definition u32_sum :: "u32 list \<Rightarrow> u32" where
  "u32_sum ws = foldl (+) 0 ws"

definition rb_new :: "server list \<Rightarrow> random_balancer" where
  "rb_new ss = \<lparr>rb_servers = map (\<lambda>config. \<lparr>rns_config = config, rns_healthy = True\<rparr>) ss,
     rb_total_weight = u32_sum (map srv_weight ss)\<rparr>"

text \<open>One step of the generator: it returns the new state, which is also the random value.\<close>

definition fast_random :: "u32 \<Rightarrow> u32" where
  "fast_random x0 =
     (let x1 = x0 XOR push_bit 13 x0;
          x2 = x1 XOR drop_bit 17 x1
      in x2 XOR push_bit 5 x2)"

definition rng_seed :: u32 where
  "rng_seed = 0xDEADBEEF"

fun rb_pick :: "u32 \<Rightarrow> u32 \<Rightarrow> random_server list \<Rightarrow> server option" where
  "rb_pick rand cumulative [] = None"
| "rb_pick rand cumulative (s # ss) =
     (if \<not> rns_healthy s then rb_pick rand cumulative ss
      else let cumulative' = cumulative + srv_weight (rns_config s)
           in if rand < cumulative' then Some (rns_config s) else rb_pick rand cumulative' ss)"

definition rb_healthy_weight :: "random_balancer \<Rightarrow> u32" where
  "rb_healthy_weight b = u32_sum (map (\<lambda>s. srv_weight (rns_config s)) (filter rns_healthy (rb_servers b)))"

definition rb_first :: "random_balancer \<Rightarrow> server option" where
  "rb_first b = (case rb_servers b of [] \<Rightarrow> None | s # _ \<Rightarrow> Some (rns_config s))"

definition rb_next_server :: "random_balancer \<times> u32 \<Rightarrow> server option \<times> random_balancer \<times> u32" where
  "rb_next_server st =
     (let (b, rng) = st in
      if rb_servers b = [] \<or> rb_total_weight b = 0 then (rb_first b, b, rng)
      else let healthy_weight = rb_healthy_weight b in
        if healthy_weight = 0 then (rb_first b, b, rng)
        else let rng' = fast_random rng; rand = rng' mod healthy_weight in
          case rb_pick rand 0 (rb_servers b) of
            Some s \<Rightarrow> (Some s, b, rng')
          | None \<Rightarrow> (rb_first b, b, rng'))"

definition rb_mark_healthy :: "nat \<Rightarrow> random_balancer \<times> u32 \<Rightarrow> random_balancer \<times> u32" where
  "rb_mark_healthy i st =
     (let (b, rng) = st in
      if i < length (rb_servers b)
      then (b\<lparr>rb_servers := (rb_servers b)[i := (rb_servers b ! i)\<lparr>rns_healthy := True\<rparr>]\<rparr>, rng) else (b, rng))"

definition rb_mark_unhealthy :: "nat \<Rightarrow> random_balancer \<times> u32 \<Rightarrow> random_balancer \<times> u32" where
  "rb_mark_unhealthy i st =
     (let (b, rng) = st in
      if i < length (rb_servers b)
      then (b\<lparr>rb_servers := (rb_servers b)[i := (rb_servers b ! i)\<lparr>rns_healthy := False\<rparr>]\<rparr>, rng) else (b, rng))"

definition rb_find_server_index :: "string \<Rightarrow> random_balancer \<times> u32 \<Rightarrow> nat option" where
  "rb_find_server_index u st = position (\<lambda>s. srv_url (rns_config s) = u) (rb_servers (fst st))"

section \<open>The generator\<close>

lemma xor_push_bit_nonzero:
  assumes "(x :: u32) \<noteq> 0" and "0 < n"
  shows "x XOR push_bit n x \<noteq> 0"
proof
  assume "x XOR push_bit n x = 0"
  then have eq: "\<And>i. i < 32 \<Longrightarrow> bit x i = bit (push_bit n x) i"
    by (metis bit_xor_iff bit_0_eq bot_apply bot_bool_def)
  have "\<not> bit x i" for i
  proof (induction i rule: less_induct)
    case (less i)
    show ?case
    proof (cases "i < 32 \<and> n \<le> i")
      case True
      then show ?thesis using eq [of i] less [of "i - n"] assms(2) by (simp add: bit_push_bit_iff)
    next
      case False
      then show ?thesis using eq [of i] bit_imp_le_length [of x i] by (auto simp: bit_push_bit_iff)
    qed
  qed
  then have "x = 0" by (intro bit_eqI) simp
  with assms(1) show False ..
qed

lemma xor_drop_bit_nonzero:
  assumes "(x :: u32) \<noteq> 0" and "0 < n"
  shows "x XOR drop_bit n x \<noteq> 0"
proof
  assume "x XOR drop_bit n x = 0"
  then have eq: "\<And>i. bit x i = bit (drop_bit n x) i"
    by (metis bit_xor_iff bit_0_eq bot_apply bot_bool_def)
  have "\<not> bit x (32 - k)" for k
  proof (induction k rule: less_induct)
    case (less k)
    show ?case
    proof (cases "n \<le> k \<and> k \<le> 32")
      case True
      then have "n + (32 - k) = 32 - (k - n)" "k - n < k" using assms(2) by auto
      then show ?thesis using eq [of "32 - k"] less [of "k - n"] by (simp add: bit_drop_bit_eq)
    next
      case False
      then show ?thesis
        using eq [of "32 - k"] bit_imp_le_length [of x "n + (32 - k)"] less [of "k - 1"] assms(2)
        by (cases "k \<le> 32") (auto simp: bit_drop_bit_eq)
    qed
  qed
  then have "\<not> bit x i" if "i \<le> 32" for i using that by (metis diff_diff_cancel)
  then have "x = 0" by (intro bit_eqI) (simp add: less_imp_le)
  with assms(1) show False ..
qed

lemma fast_random_nonzero: "x \<noteq> 0 \<Longrightarrow> fast_random x \<noteq> 0"
  unfolding fast_random_def Let_def
  by (intro xor_push_bit_nonzero xor_drop_bit_nonzero) simp_all

lemma fast_random_fixes_zero: "fast_random 0 = 0"
  by (simp add: fast_random_def)

section \<open>The selection loop\<close>

text \<open>The weights of the healthy servers, summed without wrap-around.\<close>

definition rb_weights :: "random_server list \<Rightarrow> nat" where
  "rb_weights ss = (\<Sum>s\<leftarrow>ss. if rns_healthy s then unat (srv_weight (rns_config s)) else 0)"

lemma rb_weights_simps [simp]:
  "rb_weights [] = 0"
  "rb_weights (s # ss) = (if rns_healthy s then unat (srv_weight (rns_config s)) else 0) + rb_weights ss"
  by (simp_all add: rb_weights_def)

lemma foldl_u32_weights:
  assumes "unat a + rb_weights ss < 2 ^ 32"
  shows "unat (foldl (+) a (map (\<lambda>s. srv_weight (rns_config s)) (filter rns_healthy ss))) = unat a + rb_weights ss"
  using assms
proof (induction ss arbitrary: a)
  case Nil
  then show ?case by simp
next
  case (Cons s ss)
  show ?case
  proof (cases "rns_healthy s")
    case True
    then have "unat (a + srv_weight (rns_config s)) = unat a + unat (srv_weight (rns_config s))"
      using Cons.prems by (intro unat_add_lem [THEN iffD1]) simp
    then show ?thesis using Cons True by simp
  next
    case False
    then show ?thesis using Cons by simp
  qed
qed

lemma rb_healthy_weight_exact:
  "rb_weights (rb_servers b) < 2 ^ 32 \<Longrightarrow> unat (rb_healthy_weight b) = rb_weights (rb_servers b)"
  using foldl_u32_weights [of 0 "rb_servers b"] by (simp add: rb_healthy_weight_def u32_sum_def)

lemma rb_pick_step:
  assumes "rns_healthy s" and "c + unat (srv_weight (rns_config s)) < 2 ^ 32" and "r < 2 ^ 32"
  shows "rb_pick (of_nat r) (of_nat c) (s # ss) =
    (if r < c + unat (srv_weight (rns_config s)) then Some (rns_config s)
     else rb_pick (of_nat r) (of_nat (c + unat (srv_weight (rns_config s)))) ss)"
proof -
  let ?w = "unat (srv_weight (rns_config s))"
  have e: "of_nat c + srv_weight (rns_config s) = (of_nat (c + ?w) :: u32)" by simp
  have "(of_nat r :: u32) < of_nat (c + ?w) \<longleftrightarrow> r < c + ?w"
    using assms(2,3) by (simp add: word_less_nat_alt unat_of_nat_small del: of_nat_add)
  then show ?thesis using assms(1) by (simp add: Let_def e del: of_nat_add)
qed

lemma rb_pick_count:
  assumes "c + rb_weights ss < 2 ^ 32"
  shows "length (filter (\<lambda>r. rb_pick (of_nat r) (of_nat c) ss = Some cfg) [c..<c + rb_weights ss]) =
    (\<Sum>s\<leftarrow>ss. if rns_healthy s \<and> rns_config s = cfg then unat (srv_weight cfg) else 0)"
  using assms
proof (induction ss arbitrary: c)
  case Nil
  then show ?case by simp
next
  case (Cons s ss)
  let ?w = "unat (srv_weight (rns_config s))" and ?P = "\<lambda>r. rb_pick (of_nat r) (of_nat c) (s # ss) = Some cfg"
  show ?case
  proof (cases "rns_healthy s")
    case True
    let ?n = "c + ?w + rb_weights ss"
    have lt: "c + ?w < 2 ^ 32" "?n < 2 ^ 32" using True Cons.prems by simp_all
    have split: "[c..<?n] = [c..<c + ?w] @ [c + ?w..<?n]"
      using upt_add_eq_append [of c "c + ?w" "rb_weights ss"] by simp
    have low: "filter ?P [c..<c + ?w] = (if rns_config s = cfg then [c..<c + ?w] else [])"
      using rb_pick_step [OF True lt(1)] lt by (auto simp: filter_empty_conv filter_id_conv simp del: rb_pick.simps)
    have high: "filter ?P [c + ?w..<?n] =
        filter (\<lambda>r. rb_pick (of_nat r) (of_nat (c + ?w)) ss = Some cfg) [c + ?w..<?n]"
      using rb_pick_step [OF True lt(1)] lt by (intro filter_cong) (simp_all del: rb_pick.simps of_nat_add)
    have n: "c + rb_weights (s # ss) = ?n" using True by simp
    show ?thesis
      unfolding n split filter_append length_append low high
      using Cons.IH [of "c + ?w"] lt(2) True by auto
  next
    case False
    then show ?thesis using Cons by simp
  qed
qed

lemma rb_pick_Some_healthy:
  "rb_pick r c ss = Some cfg \<Longrightarrow> \<exists>s \<in> set ss. rns_healthy s \<and> rns_config s = cfg"
  by (induction ss arbitrary: c) (auto simp: Let_def split: if_splits)

lemma rb_pick_exists:
  assumes "c + rb_weights ss < 2 ^ 32" and "r < c + rb_weights ss" and "c \<le> r"
  shows "\<exists>cfg. rb_pick (of_nat r) (of_nat c) ss = Some cfg"
  using assms
proof (induction ss arbitrary: c)
  case Nil
  then show ?case by simp
next
  case (Cons s ss)
  let ?w = "unat (srv_weight (rns_config s))"
  show ?case
  proof (cases "rns_healthy s")
    case True
    then have "c + ?w < 2 ^ 32" "r < 2 ^ 32" using Cons.prems by simp_all
    then show ?thesis using rb_pick_step [OF True] Cons.IH [of "c + ?w"] Cons.prems True
      by (auto simp del: rb_pick.simps)
  next
    case False
    then show ?thesis using Cons by simp
  qed
qed

section \<open>The balancer\<close>

definition rb_configs :: "random_balancer \<times> u32 \<Rightarrow> server list" where
  "rb_configs st = map rns_config (rb_servers (fst st))"

definition rb_flags :: "random_balancer \<times> u32 \<Rightarrow> bool list" where
  "rb_flags st = map rns_healthy (rb_servers (fst st))"

definition rb_eligible :: "random_balancer \<times> u32 \<Rightarrow> bool" where
  "rb_eligible st \<longleftrightarrow> rb_total_weight (fst st) \<noteq> 0 \<and>
     0 < rb_weights (rb_servers (fst st)) \<and> rb_weights (rb_servers (fst st)) < 2 ^ 32"

lemma rb_first_member: "rb_first b = Some s \<Longrightarrow> s \<in> set (map rns_config (rb_servers b))"
  by (auto simp: rb_first_def split: list.splits)

lemma rb_next_cases:
  "fst (rb_next_server (b, rng)) = rb_first b \<or>
   fst (rb_next_server (b, rng)) = rb_pick (fast_random rng mod rb_healthy_weight b) 0 (rb_servers b)"
  by (auto simp: rb_next_server_def Let_def split: option.splits)

lemma rb_next_member:
  assumes "fst (rb_next_server st) = Some s"
  shows "s \<in> set (rb_configs st)"
proof -
  obtain b rng where st: "st = (b, rng)" by (cases st)
  show ?thesis
    using rb_next_cases [of b rng] assms rb_first_member [of b s]
    by (auto simp: st rb_configs_def dest: rb_pick_Some_healthy [OF sym])
qed

lemma rb_next_state: "fst (snd (rb_next_server st)) = fst st"
  by (cases st) (simp add: rb_next_server_def Let_def split: option.splits)

lemma rb_marks:
  "rb_configs (rb_mark_healthy i st) = rb_configs st"
  "rb_flags (rb_mark_healthy i st) = (rb_flags st)[i := True]"
  "rb_configs (rb_mark_unhealthy i st) = rb_configs st"
  "rb_flags (rb_mark_unhealthy i st) = (rb_flags st)[i := False]"
  by (cases st; simp add: rb_mark_healthy_def rb_mark_unhealthy_def rb_configs_def rb_flags_def map_update_same;
      simp add: map_update list_update_beyond)+

interpretation rb: balancer rb_configs rb_flags rb_next_server rb_mark_healthy
  rb_mark_unhealthy "\<lambda>_. True" rb_find_server_index
  by unfold_locales
    (simp_all add: rb_marks rb_next_member rb_find_server_index_def,
     simp_all add: rb_configs_def rb_flags_def rb_next_state position_map comp_def)

lemma rb_next_healthy:
  assumes "rb_eligible st"
  shows "\<exists>i < length (rb_configs st). rb_flags st ! i \<and> fst (rb_next_server st) = Some (rb_configs st ! i)"
proof -
  obtain b rng where st: "st = (b, rng)" by (cases st)
  let ?W = "rb_weights (rb_servers b)" and ?rand = "fast_random rng mod rb_healthy_weight b"
  have W: "0 < ?W" "?W < 2 ^ 32" "rb_total_weight b \<noteq> 0" using assms by (simp_all add: rb_eligible_def st)
  have hw: "unat (rb_healthy_weight b) = ?W" using W(2) by (rule rb_healthy_weight_exact)
  have "unat ?rand < ?W" using W(1) by (simp add: unat_mod_word hw)
  with rb_pick_exists [of 0 "rb_servers b" "unat ?rand"] W(2) obtain cfg where
    cfg: "rb_pick ?rand 0 (rb_servers b) = Some cfg" by auto
  have "rb_servers b \<noteq> []" using W(1) by auto
  moreover have "rb_healthy_weight b \<noteq> 0" using hw W(1) by auto
  ultimately have "fst (rb_next_server st) = Some cfg"
    using W(3) cfg by (simp add: rb_next_server_def st Let_def)
  moreover obtain i where "i < length (rb_servers b)" "rns_healthy (rb_servers b ! i)"
      "rns_config (rb_servers b ! i) = cfg"
    using rb_pick_Some_healthy [OF cfg] by (auto simp: in_set_conv_nth)
  ultimately show ?thesis by (intro exI [of _ i]) (simp add: rb_configs_def rb_flags_def st)
qed

interpretation rbh: health_pool rb_configs rb_flags rb_next_server rb_mark_healthy
  rb_mark_unhealthy "\<lambda>_. True" rb_eligible
  by unfold_locales (rule rb_next_healthy)

lemma sum_list_single_nth:
  assumes "distinct (map f xs)" and "i < length xs"
  shows "(\<Sum>x\<leftarrow>xs. if P x \<and> f x = f (xs ! i) then g (f (xs ! i)) else 0) = (if P (xs ! i) then (g (f (xs ! i)) :: nat) else 0)"
proof -
  have "(\<Sum>x\<leftarrow>xs. if P x \<and> f x = f (xs ! i) then g (f (xs ! i)) else 0) =
      (\<Sum>k<length xs. if k = i then (if P (xs ! i) then g (f (xs ! i)) else 0) else 0)"
    unfolding sum_list_sum_nth length_map atLeast0LessThan
    using nth_eq_iff_index_eq [OF assms(1)] assms(2) by (intro sum.cong) auto
  also have "\<dots> = (if P (xs ! i) then g (f (xs ! i)) else 0)" using assms(2) by simp
  finally show ?thesis .
qed

text \<open>
  C12. Exact proportionality of weighted random selection: with distinct servers whose healthy
  weights do not overflow 32 bits, of the residues \<open>0 .. healthy_weight - 1\<close> that \<open>rand\<close> ranges over,
  a healthy server is selected by exactly as many as its weight and an unhealthy one by none.
\<close>

theorem random_selection_proportional:
  assumes "distinct (map rns_config (rb_servers b))" and "i < length (rb_servers b)"
    and "rb_weights (rb_servers b) < 2 ^ 32"
  shows "length (filter (\<lambda>r. rb_pick (of_nat r) 0 (rb_servers b) = Some (rns_config (rb_servers b ! i)))
      [0..<unat (rb_healthy_weight b)]) =
    (if rns_healthy (rb_servers b ! i) then unat (srv_weight (rns_config (rb_servers b ! i))) else 0)"
  using rb_pick_count [of 0 "rb_servers b" "rns_config (rb_servers b ! i)"] assms(3)
    sum_list_single_nth [OF assms(1,2), of rns_healthy "\<lambda>c. unat (srv_weight c)"]
  by (simp add: rb_healthy_weight_exact [OF assms(3)])

definition rb_example :: "random_balancer \<times> u32" where
  "rb_example = rb_mark_unhealthy 1
     (rb_new [plain_server ''a'' 3, plain_server ''b'' 4, plain_server ''c'' 2], rng_seed)"

theorem random_selection_proportional_witness:
  "length (filter (\<lambda>r. rb_pick (of_nat r) 0 (rb_servers (fst rb_example)) = Some (plain_server ''a'' 3)) [0..<5]) = 3"
proof -
  have "distinct (map rns_config (rb_servers (fst rb_example)))" "length (rb_servers (fst rb_example)) = 3"
    "rb_weights (rb_servers (fst rb_example)) = 5" "rns_config (rb_servers (fst rb_example) ! 0) = plain_server ''a'' 3"
    "unat (rb_healthy_weight (fst rb_example)) = 5" "rns_healthy (rb_servers (fst rb_example) ! 0)"
    by code_simp+
  with random_selection_proportional [of "fst rb_example" 0] show ?thesis
    by (simp add: plain_server_def)
qed

text \<open>
  The thread-local generator never reaches the state zero, in which it would return zero
  forever: no number of steps from the seed does.
\<close>

theorem random_generator_live: "(fast_random ^^ n) rng_seed \<noteq> 0"
  by (induction n) (simp_all add: fast_random_nonzero rng_seed_def)

end
