(* ===== verification/Load_Balancer.thy ===== *)
theory Load_Balancer
  imports Round_Robin Weighted_Balancer Least_Conn Random_Balancer
begin

text \<open>
  \<open>LoadBalancer\<close> of \<open>src/src/balancer/mod.rs\<close>: the choice of a strategy and the dispatch of
  the four operations. The boxed trait object is a datatype with one constructor per strategy;
  the state a call passes on is the balancer with the generator state of the calling thread,
  which only the random strategy reads. The interface \<open>balancer\<close> is interpreted on the dispatch,
  so its client lemmas hold for every strategy.
\<close>

datatype balancer_strategy =
    RoundRobinStrategy round_robin_balancer
  | WeightedStrategy weighted_balancer
  | LeastConnStrategy least_conn_balancer
  | RandomStrategy random_balancer

record load_balancer =
  lbal_strategy :: balancer_strategy

text \<open>\<open>servers.windows(2).all(|w| w[0].weight == w[1].weight)\<close>\<close>

fun all_equal_weights :: "server list \<Rightarrow> bool" where
  "all_equal_weights (a # b # ss) \<longleftrightarrow> srv_weight a = srv_weight b \<and> all_equal_weights (b # ss)"
| "all_equal_weights _ \<longleftrightarrow> True"

definition from_load_balancer :: "load_balancer_service \<Rightarrow> load_balancer" where
  "from_load_balancer lb =
     (let has_weights = list_ex (\<lambda>s. srv_weight s > 1) (lb_servers lb)
      in \<lparr>lbal_strategy =
            (if has_weights \<and> \<not> all_equal_weights (lb_servers lb)
             then WeightedStrategy (wb_new (lb_servers lb))
             else RoundRobinStrategy (rr_new (lb_servers lb)))\<rparr>)"

definition lbal_new :: "service_config \<Rightarrow> load_balancer option" where
  "lbal_new service = map_option from_load_balancer (sv_load_balancer service)"

definition with_strategy :: "server list \<Rightarrow> string \<Rightarrow> load_balancer" where
  "with_strategy servers strategy =
     \<lparr>lbal_strategy =
        (if strategy = ''round_robin'' \<or> strategy = ''roundRobin'' then RoundRobinStrategy (rr_new servers)
         else if strategy = ''weighted'' then WeightedStrategy (wb_new servers)
         else if strategy = ''least_conn'' \<or> strategy = ''leastConn'' then LeastConnStrategy (lc_new servers)
         else if strategy = ''random'' then RandomStrategy (rb_new servers)
         else RoundRobinStrategy (rr_new servers))\<rparr>"

text \<open>The operations on the strategy, with the generator state beside it.\<close>

fun strat_next_server :: "balancer_strategy \<times> u32 \<Rightarrow> server option \<times> balancer_strategy \<times> u32" where
  "strat_next_server (RoundRobinStrategy b, rng) =
     (let (r, b') = rr_next_server b in (r, RoundRobinStrategy b', rng))"
| "strat_next_server (WeightedStrategy b, rng) =
     (let (r, b') = wb_next_server b in (r, WeightedStrategy b', rng))"
| "strat_next_server (LeastConnStrategy b, rng) =
     (let (r, b') = lc_next_server b in (r, LeastConnStrategy b', rng))"
| "strat_next_server (RandomStrategy b, rng) =
     (let (r, b', rng') = rb_next_server (b, rng) in (r, RandomStrategy b', rng'))"

fun strat_mark_healthy :: "nat \<Rightarrow> balancer_strategy \<Rightarrow> balancer_strategy" where
  "strat_mark_healthy i (RoundRobinStrategy b) = RoundRobinStrategy (rr_mark_healthy i b)"
| "strat_mark_healthy i (WeightedStrategy b) = WeightedStrategy (wb_mark_healthy i b)"
| "strat_mark_healthy i (LeastConnStrategy b) = LeastConnStrategy (lc_mark_healthy i b)"
| "strat_mark_healthy i (RandomStrategy b) = RandomStrategy (fst (rb_mark_healthy i (b, 0)))"

fun strat_mark_unhealthy :: "nat \<Rightarrow> balancer_strategy \<Rightarrow> balancer_strategy" where
  "strat_mark_unhealthy i (RoundRobinStrategy b) = RoundRobinStrategy (rr_mark_unhealthy i b)"
| "strat_mark_unhealthy i (WeightedStrategy b) = WeightedStrategy (wb_mark_unhealthy i b)"
| "strat_mark_unhealthy i (LeastConnStrategy b) = LeastConnStrategy (lc_mark_unhealthy i b)"
| "strat_mark_unhealthy i (RandomStrategy b) = RandomStrategy (fst (rb_mark_unhealthy i (b, 0)))"

fun strat_find_server_index :: "string \<Rightarrow> balancer_strategy \<Rightarrow> nat option" where
  "strat_find_server_index u (RoundRobinStrategy b) = rr_find_server_index u b"
| "strat_find_server_index u (WeightedStrategy b) = wb_find_server_index u b"
| "strat_find_server_index u (LeastConnStrategy b) = lc_find_server_index u b"
| "strat_find_server_index u (RandomStrategy b) = rb_find_server_index u (b, 0)"

text \<open>The four methods of \<open>LoadBalancer\<close>.\<close>

definition lbal_next_server :: "load_balancer \<times> u32 \<Rightarrow> server option \<times> load_balancer \<times> u32" where
  "lbal_next_server st =
     (let (r, strat, rng) = strat_next_server (lbal_strategy (fst st), snd st)
      in (r, (fst st)\<lparr>lbal_strategy := strat\<rparr>, rng))"

definition lbal_mark_healthy :: "nat \<Rightarrow> load_balancer \<times> u32 \<Rightarrow> load_balancer \<times> u32" where
  "lbal_mark_healthy i st = ((fst st)\<lparr>lbal_strategy := strat_mark_healthy i (lbal_strategy (fst st))\<rparr>, snd st)"

definition lbal_mark_unhealthy :: "nat \<Rightarrow> load_balancer \<times> u32 \<Rightarrow> load_balancer \<times> u32" where
  "lbal_mark_unhealthy i st = ((fst st)\<lparr>lbal_strategy := strat_mark_unhealthy i (lbal_strategy (fst st))\<rparr>, snd st)"

definition lbal_find_server_index :: "string \<Rightarrow> load_balancer \<times> u32 \<Rightarrow> nat option" where
  "lbal_find_server_index u st = strat_find_server_index u (lbal_strategy (fst st))"

section \<open>Observations\<close>

fun strat_configs :: "balancer_strategy \<Rightarrow> server list" where
  "strat_configs (RoundRobinStrategy b) = rr_servers b"
| "strat_configs (WeightedStrategy b) = wb_configs b"
| "strat_configs (LeastConnStrategy b) = lc_configs b"
| "strat_configs (RandomStrategy b) = rb_configs (b, 0)"

fun strat_flags :: "balancer_strategy \<Rightarrow> bool list" where
  "strat_flags (RoundRobinStrategy b) = rr_healthy b"
| "strat_flags (WeightedStrategy b) = wb_flags b"
| "strat_flags (LeastConnStrategy b) = lc_flags b"
| "strat_flags (RandomStrategy b) = rb_flags (b, 0)"

fun strat_inv :: "balancer_strategy \<Rightarrow> bool" where
  "strat_inv (RoundRobinStrategy b) \<longleftrightarrow> rr_inv b"
| "strat_inv (WeightedStrategy b) \<longleftrightarrow> wb_inv b"
| "strat_inv _ \<longleftrightarrow> True"

text \<open>The side condition under which the strategy returns a healthy server when there is one.\<close>

fun strat_eligible :: "balancer_strategy \<Rightarrow> bool" where
  "strat_eligible (RoundRobinStrategy b) \<longleftrightarrow> rr_no_wrap b"
| "strat_eligible (WeightedStrategy b) \<longleftrightarrow> wb_cached_total_weight b \<noteq> 0"
| "strat_eligible (LeastConnStrategy b) \<longleftrightarrow> lc_below_max b"
| "strat_eligible (RandomStrategy b) \<longleftrightarrow> rb_eligible (b, 0)"

definition lbal_configs :: "load_balancer \<times> u32 \<Rightarrow> server list" where
  "lbal_configs st = strat_configs (lbal_strategy (fst st))"

definition lbal_flags :: "load_balancer \<times> u32 \<Rightarrow> bool list" where
  "lbal_flags st = strat_flags (lbal_strategy (fst st))"

definition lbal_inv :: "load_balancer \<times> u32 \<Rightarrow> bool" where
  "lbal_inv st \<longleftrightarrow> strat_inv (lbal_strategy (fst st))"

definition lbal_eligible :: "load_balancer \<times> u32 \<Rightarrow> bool" where
  "lbal_eligible st \<longleftrightarrow> strat_eligible (lbal_strategy (fst st))"

lemma rb_rng_irrelevant:
  "rb_configs (b, x) = rb_configs (b, y)" "rb_flags (b, x) = rb_flags (b, y)"
  "rb_eligible (b, x) = rb_eligible (b, y)"
  "rb_find_server_index u (b, x) = rb_find_server_index u (b, y)"
  "rb_configs (fst st, x) = rb_configs st" "rb_flags (fst st, x) = rb_flags st"
  by (simp_all add: rb_configs_def rb_flags_def rb_eligible_def rb_find_server_index_def)

lemma strat_next_frame:
  assumes "strat_inv s"
  shows "strat_inv (fst (snd (strat_next_server (s, rng))))"
    and "strat_configs (fst (snd (strat_next_server (s, rng)))) = strat_configs s"
    and "strat_flags (fst (snd (strat_next_server (s, rng)))) = strat_flags s"
    and "fst (strat_next_server (s, rng)) = Some c \<Longrightarrow> c \<in> set (strat_configs s)"
  using assms rr.next_frame wb.next_frame lc.next_frame rb.next_frame [of "(_, rng)"]
    rr.next_member wb.next_member lc.next_member rb.next_member [of "(_, rng)"]
  by (cases s; force simp: split_beta Let_def rb_configs_def rb_flags_def rb_next_state)+

lemma strat_mark_frame:
  assumes "strat_inv s"
  shows "strat_inv (strat_mark_healthy i s)" and "strat_configs (strat_mark_healthy i s) = strat_configs s"
    and "strat_flags (strat_mark_healthy i s) = (strat_flags s)[i := True]"
    and "strat_inv (strat_mark_unhealthy i s)" and "strat_configs (strat_mark_unhealthy i s) = strat_configs s"
    and "strat_flags (strat_mark_unhealthy i s) = (strat_flags s)[i := False]"
  using assms rr.mark_healthy_frame rr.mark_unhealthy_frame wb.mark_healthy_frame wb.mark_unhealthy_frame
    lc.mark_healthy_frame lc.mark_unhealthy_frame
    rb.mark_healthy_frame [where b = "(_, 0)"] rb.mark_unhealthy_frame [where b = "(_, 0)"]
  by (cases s; simp add: rb_rng_irrelevant)+

lemma strat_next_healthy:
  assumes "strat_inv s" and "strat_eligible s" and "True \<in> set (strat_flags s)"
  shows "\<exists>i < length (strat_configs s). strat_flags s ! i \<and> fst (strat_next_server (s, rng)) = Some (strat_configs s ! i)"
  using assms rrh.next_healthy wbh.next_healthy lch.next_healthy rbh.next_healthy [of "(_, rng)"]
  by (cases s; simp add: split_beta Let_def rb_rng_irrelevant(1-3) [of _ rng 0])

lemmas lbal_defs = lbal_configs_def lbal_flags_def lbal_inv_def lbal_eligible_def lbal_next_server_def
  lbal_mark_healthy_def lbal_mark_unhealthy_def lbal_find_server_index_def

lemma strat_flags_length: "strat_inv s \<Longrightarrow> length (strat_flags s) = length (strat_configs s)"
  using rr.flags_length wb.flags_length lc.flags_length rb.flags_length by (cases s) simp_all

lemma strat_find: "strat_inv s \<Longrightarrow>
    strat_find_server_index u s = position (\<lambda>x. srv_url x = u) (strat_configs s)"
  using rr.find_index wb.find_index lc.find_index rb.find_index by (cases s) simp_all

interpretation lbal: balancer lbal_configs lbal_flags lbal_next_server lbal_mark_healthy
  lbal_mark_unhealthy lbal_inv lbal_find_server_index
  by unfold_locales
    (auto simp: lbal_defs split_beta Let_def strat_next_frame strat_mark_frame strat_flags_length strat_find)

interpretation lbalh: health_pool lbal_configs lbal_flags lbal_next_server lbal_mark_healthy
  lbal_mark_unhealthy lbal_inv lbal_eligible
  by unfold_locales (simp add: lbal_defs split_beta Let_def strat_next_healthy)

section \<open>The choice of a strategy\<close>

lemma all_equal_weights_Cons:
  "all_equal_weights (a # ss) \<longleftrightarrow> (\<forall>b \<in> set ss. srv_weight b = srv_weight a)"
  by (induction ss arbitrary: a) auto

lemma all_equal_weights_iff:
  "all_equal_weights ss \<longleftrightarrow> (\<forall>a \<in> set ss. \<forall>b \<in> set ss. srv_weight a = srv_weight b)"
proof (cases ss)
  case (Cons a ss')
  have "(\<forall>x \<in> set ss. \<forall>y \<in> set ss. srv_weight x = srv_weight y) \<longleftrightarrow> (\<forall>b \<in> set ss'. srv_weight b = srv_weight a)"
    unfolding Cons list.set ball_simps by metis
  then show ?thesis unfolding Cons all_equal_weights_Cons by simp
qed simp

lemma from_load_balancer_start:
  assumes "length (lb_servers lb) < 2 ^ 63"
  shows "lbal_inv (from_load_balancer lb, rng)"
    and "lbal_configs (from_load_balancer lb, rng) = lb_servers lb"
    and "lbal_flags (from_load_balancer lb, rng) = map (\<lambda>_. True) (lb_servers lb)"
  using assms wb_inv_new [of "lb_servers lb"]
  by (simp_all add: from_load_balancer_def Let_def lbal_defs rr_new_def rr_inv_def)
    (simp_all add: wb_new_def wb_configs_def wb_flags_def comp_def)

text \<open>
  The strategy follows the weights: \<open>from_load_balancer\<close> chooses smooth weighted round robin
  exactly when two servers have different weights and some weight exceeds one, and plain round
  robin otherwise; either way every configured server is in the pool, marked healthy, and the
  balancer's invariant holds.
\<close>

theorem from_load_balancer_strategy:
  fixes rng :: u32
  assumes "length (lb_servers lb) < 2 ^ 63"
  defines "st \<equiv> (from_load_balancer lb, rng)"
  shows "lbal_strategy (fst st) =
      (if (\<exists>a \<in> set (lb_servers lb). \<exists>b \<in> set (lb_servers lb). srv_weight a \<noteq> srv_weight b) \<and>
          (\<exists>a \<in> set (lb_servers lb). 1 < srv_weight a)
       then WeightedStrategy (wb_new (lb_servers lb)) else RoundRobinStrategy (rr_new (lb_servers lb))) \<and>
    lbal_inv st \<and> lbal_configs st = lb_servers lb \<and> lbal_flags st = map (\<lambda>_. True) (lb_servers lb)"
  unfolding st_def fst_conv using from_load_balancer_start [OF assms(1), of rng]
  by (simp add: from_load_balancer_def Let_def all_equal_weights_iff list_ex_iff conj_commute)

definition lb_example :: "server list \<Rightarrow> load_balancer_service" where
  "lb_example ss = \<lparr>lb_servers = ss, lb_pass_host_header = True, lb_sticky = None,
     lb_health_check = None, lb_servers_transport = None, lb_response_forwarding = None\<rparr>"

theorem from_load_balancer_strategy_witness:
  "lbal_strategy (from_load_balancer (lb_example [plain_server ''a'' 1, plain_server ''b'' 3])) =
     WeightedStrategy (wb_new [plain_server ''a'' 1, plain_server ''b'' 3])"
proof -
  let ?ss = "[plain_server ''a'' 1, plain_server ''b'' 3]"
  have e: "lb_servers (lb_example ?ss) = ?ss" by (simp add: lb_example_def)
  have "\<exists>a \<in> set ?ss. \<exists>b \<in> set ?ss. srv_weight a \<noteq> srv_weight b" "\<exists>a \<in> set ?ss. 1 < srv_weight a"
    by code_simp+
  then show ?thesis using from_load_balancer_strategy [of "lb_example ?ss" 0] unfolding e by (simp only: fst_conv) simp
qed

text \<open>
  The comment above the choice says that unequal weights select the weighted strategy. A pool
  with weights one and zero has unequal weights, but round robin is chosen, and the server of
  weight zero receives every second request.
\<close>

theorem zero_weight_uses_round_robin:
  "\<not> all_equal_weights [plain_server ''a'' 1, plain_server ''b'' 0] \<and>
   fst (iter_calls lbal_next_server 4
     (from_load_balancer (lb_example [plain_server ''a'' 1, plain_server ''b'' 0]), rng_seed)) =
   [Some (plain_server ''a'' 1), Some (plain_server ''b'' 0), Some (plain_server ''a'' 1), Some (plain_server ''b'' 0)]"
  by code_simp

section \<open>Clients\<close>

text \<open>
  C10. Whatever calls are made on a balancer built from a configuration (requests and health
  marks in any order), \<open>next_server\<close> returns a configured server, and a server whose last mark
  was not unhealthy, whenever there is one and the strategy's side condition holds. The flags are
  those the sequence of marks alone determines.
\<close>

theorem balancer_serves_healthy_after_any_calls:
  fixes lb :: load_balancer_service
  assumes "length (lb_servers lb) < 2 ^ 63"
    and "True \<in> set (foldl flags_step (map (\<lambda>_. True) (lb_servers lb)) ops)"
    and "lbal_eligible (bal_run lbal_next_server lbal_mark_healthy lbal_mark_unhealthy (from_load_balancer lb, rng) ops)"
  shows "\<exists>i < length (lb_servers lb). foldl flags_step (map (\<lambda>_. True) (lb_servers lb)) ops ! i \<and>
    fst (lbal_next_server (bal_run lbal_next_server lbal_mark_healthy lbal_mark_unhealthy
      (from_load_balancer lb, rng) ops)) = Some (lb_servers lb ! i)"
proof -
  note st = from_load_balancer_start [OF assms(1), of rng]
  show ?thesis using lbalh.run_next_healthy [OF st(1) assms(3)] assms(2) by (simp add: st(2,3))
qed

theorem balancer_serves_healthy_after_any_calls_witness:
  "\<exists>i < 2. foldl flags_step [True, True] [NextServer, MarkUnhealthy 1, NextServer] ! i \<and>
    fst (lbal_next_server (bal_run lbal_next_server lbal_mark_healthy lbal_mark_unhealthy
      (from_load_balancer (lb_example [plain_server ''a'' 1, plain_server ''b'' 3]), rng_seed)
      [NextServer, MarkUnhealthy 1, NextServer])) =
    Some ([plain_server ''a'' 1, plain_server ''b'' 3] ! i)"
proof -
  let ?ss = "[plain_server ''a'' 1, plain_server ''b'' 3]" and ?ops = "[NextServer, MarkUnhealthy 1, NextServer]"
  have "lbal_eligible (bal_run lbal_next_server lbal_mark_healthy lbal_mark_unhealthy
      (from_load_balancer (lb_example ?ss), rng_seed) ?ops)" by code_simp
  moreover have "lb_servers (lb_example ?ss) = ?ss" by (simp add: lb_example_def)
  ultimately show ?thesis
    using balancer_serves_healthy_after_any_calls [of "lb_example ?ss" ?ops rng_seed]
    by simp (simp add: numeral_2_eq_2)
qed

text \<open>
  C13. Passive health reaches the balancer: when the proxy reports that the backend with the URL of
  server \<open>i\<close> became unhealthy, and servers have distinct URLs, that server's flag is cleared and no
  other flag changes; and the next request does not go to it while a healthy server remains and
  the side condition holds.
\<close>

theorem unhealthy_backend_not_served:
  assumes "lbal_inv st" and "distinct (map srv_url (lbal_configs st))" and "i < length (lbal_configs st)"
  defines "st' \<equiv> apply_health_change lbal_mark_healthy lbal_mark_unhealthy lbal_find_server_index
    BecameUnhealthy (srv_url (lbal_configs st ! i)) st"
  shows "lbal_flags st' = (lbal_flags st)[i := False] \<and>
    (True \<in> set (lbal_flags st') \<and> lbal_eligible st' \<longrightarrow> fst (lbal_next_server st') \<noteq> Some (lbal_configs st ! i))"
proof -
  have "srv_url (lbal_configs st ! j) \<noteq> srv_url (lbal_configs st ! i)" if "j < i" for j
    using nth_eq_iff_index_eq [OF assms(2), of j i] that assms(3) by simp
  then have "position (\<lambda>s. srv_url s = srv_url (lbal_configs st ! i)) (lbal_configs st) = Some i"
    using assms(3) by (intro position_first) simp_all
  then have fl: "lbal_flags st' = (lbal_flags st)[i := False]"
    unfolding st'_def lbal.apply_change_healthy [OF assms(1)] by simp
  have fr: "lbal_inv st'" "lbal_configs st' = lbal_configs st"
    unfolding st'_def using lbal.apply_change_frame [OF assms(1)] by simp_all
  have "\<not> lbal_flags st' ! i" using fl assms(3) lbal.flags_length [OF assms(1)] by simp
  with lbalh.not_returned_when_unhealthy [OF fr(1), of i] fr(2) assms(2,3) fl show ?thesis
    by (auto simp: distinct_map)
qed

theorem unhealthy_backend_not_served_witness:
  "fst (lbal_next_server (apply_health_change lbal_mark_healthy lbal_mark_unhealthy lbal_find_server_index
     BecameUnhealthy ''a'' (from_load_balancer (lb_example [plain_server ''a'' 1, plain_server ''b'' 3]), rng_seed)))
   \<noteq> Some (plain_server ''a'' 1)"
proof -
  let ?st = "(from_load_balancer (lb_example [plain_server ''a'' 1, plain_server ''b'' 3]), rng_seed)"
  let ?st' = "apply_health_change lbal_mark_healthy lbal_mark_unhealthy lbal_find_server_index BecameUnhealthy ''a'' ?st"
  have "lbal_inv ?st" "distinct (map srv_url (lbal_configs ?st))" "length (lbal_configs ?st) = 2"
    "lbal_configs ?st ! 0 = plain_server ''a'' 1" "srv_url (plain_server ''a'' 1) = ''a''"
    "True \<in> set (lbal_flags ?st')" "lbal_eligible ?st'"
    by code_simp+
  with unhealthy_backend_not_served [of ?st 0] show ?thesis by simp
qed

end
