(* ===== verification/Rust_Std.thy ===== *)
theory Rust_Std
  imports Prelude
begin

text \<open>
  The part of Rust's standard library on strings and sequences that the sources use. A \<open>str\<close> is
  an Isabelle \<open>string\<close>; byte offsets are list positions, so index-based functions are faithful on
  ASCII text, which is what the proxy's configuration, header and path syntax is made of; case
  mapping is the ASCII one. Lookup tables (\<open>HashMap\<close>, \<open>DashMap\<close>) that the code only
  searches and updates are association lists with the operations below.
\<close>

section \<open>Characters\<close>

definition is_ascii_upper :: "char \<Rightarrow> bool" where
  "is_ascii_upper c \<longleftrightarrow> 65 \<le> (of_char c :: nat) \<and> (of_char c :: nat) \<le> 90"

definition is_ascii_lower :: "char \<Rightarrow> bool" where
  "is_ascii_lower c \<longleftrightarrow> 97 \<le> (of_char c :: nat) \<and> (of_char c :: nat) \<le> 122"

definition is_ascii_digit :: "char \<Rightarrow> bool" where
  "is_ascii_digit c \<longleftrightarrow> 48 \<le> (of_char c :: nat) \<and> (of_char c :: nat) \<le> 57"

definition ascii_lower :: "char \<Rightarrow> char" where
  "ascii_lower c = (if is_ascii_upper c then char_of ((of_char c :: nat) + 32) else c)"

text \<open>\<open>char::is_whitespace\<close> below \<open>U+0100\<close>.\<close>

definition is_whitespace :: "char \<Rightarrow> bool" where
  "is_whitespace c \<longleftrightarrow>
     (let n = (of_char c :: nat) in (9 \<le> n \<and> n \<le> 13) \<or> n = 32 \<or> n = 133 \<or> n = 160)"

section \<open>Strings\<close>

definition to_lowercase :: "string \<Rightarrow> string" where
  "to_lowercase s = map ascii_lower s"

definition eq_ignore_ascii_case :: "string \<Rightarrow> string \<Rightarrow> bool" where
  "eq_ignore_ascii_case a b \<longleftrightarrow> to_lowercase a = to_lowercase b"

fun strip_prefix :: "'a list \<Rightarrow> 'a list \<Rightarrow> 'a list option" where
  "strip_prefix [] s = Some s"
| "strip_prefix (p # ps) [] = None"
| "strip_prefix (p # ps) (x # xs) = (if p = x then strip_prefix ps xs else None)"

definition starts_with :: "'a list \<Rightarrow> 'a list \<Rightarrow> bool" where
  "starts_with p s \<longleftrightarrow> strip_prefix p s \<noteq> None"

definition strip_suffix :: "'a list \<Rightarrow> 'a list \<Rightarrow> 'a list option" where
  "strip_suffix p s = map_option rev (strip_prefix (rev p) (rev s))"

definition ends_with :: "'a list \<Rightarrow> 'a list \<Rightarrow> bool" where
  "ends_with p s \<longleftrightarrow> strip_suffix p s \<noteq> None"

definition trim_start :: "string \<Rightarrow> string" where
  "trim_start s = dropWhile is_whitespace s"

definition trim_end :: "string \<Rightarrow> string" where
  "trim_end s = rev (dropWhile is_whitespace (rev s))"

definition trim :: "string \<Rightarrow> string" where
  "trim s = trim_end (trim_start s)"

definition trim_matches :: "char \<Rightarrow> string \<Rightarrow> string" where
  "trim_matches c s = rev (dropWhile (\<lambda>x. x = c) (rev (dropWhile (\<lambda>x. x = c) s)))"

definition trim_end_matches :: "char \<Rightarrow> string \<Rightarrow> string" where
  "trim_end_matches c s = rev (dropWhile (\<lambda>x. x = c) (rev s))"

text \<open>\<open>s.split(c)\<close>: always at least one piece.\<close>

fun split_char :: "char \<Rightarrow> string \<Rightarrow> string list" where
  "split_char c [] = [[]]"
| "split_char c (x # xs) =
     (if x = c then [] # split_char c xs
      else case split_char c xs of [] \<Rightarrow> [[x]] | p # ps \<Rightarrow> (x # p) # ps)"

fun join_char :: "char \<Rightarrow> string list \<Rightarrow> string" where
  "join_char c [] = []"
| "join_char c [p] = p"
| "join_char c (p # q # ps) = p @ c # join_char c (q # ps)"

text \<open>\<open>s.find(p)\<close> for a string pattern, and \<open>s.split_once(p)\<close>.\<close>

fun find_str :: "'a list \<Rightarrow> 'a list \<Rightarrow> nat option" where
  "find_str p [] = (if p = [] then Some 0 else None)"
| "find_str p (x # xs) = (if starts_with p (x # xs) then Some 0 else map_option Suc (find_str p xs))"

definition split_once :: "'a list \<Rightarrow> 'a list \<Rightarrow> ('a list \<times> 'a list) option" where
  "split_once p s = map_option (\<lambda>i. (take i s, drop (i + length p) s)) (find_str p s)"

definition contains_str :: "'a list \<Rightarrow> 'a list \<Rightarrow> bool" where
  "contains_str p s \<longleftrightarrow> find_str p s \<noteq> None"

text \<open>\<open>s.trim_start_matches(p)\<close>: the prefix is removed as often as it occurs.\<close>

function trim_start_str :: "string \<Rightarrow> string \<Rightarrow> string" where
  "trim_start_str p s =
     (case strip_prefix p s of Some r \<Rightarrow> if p = [] then s else trim_start_str p r | None \<Rightarrow> s)"
  by pat_completeness auto

section \<open>Decimal numbers\<close>

definition digit_char :: "nat \<Rightarrow> char" where
  "digit_char d = char_of (48 + d)"

definition char_digit :: "char \<Rightarrow> nat" where
  "char_digit c = of_char c - 48"

fun show_nat :: "nat \<Rightarrow> string" where
  "show_nat n = (if n < 10 then [digit_char n] else show_nat (n div 10) @ [digit_char (n mod 10)])"

declare show_nat.simps [simp del]

text \<open>
  \<open>str::parse\<close> at an unsigned type: an optional plus sign, then digits only and at least one of
  them, with a value below \<open>bound\<close>.
\<close>

definition digits_value :: "string \<Rightarrow> nat" where
  "digits_value s = foldl (\<lambda>a c. a * 10 + char_digit c) 0 s"

definition parse_unsigned :: "nat \<Rightarrow> string \<Rightarrow> nat option" where
  "parse_unsigned bound s =
     (let ds = (case s of c # r \<Rightarrow> if c = CHR ''+'' \<and> r \<noteq> [] then r else s | [] \<Rightarrow> s)
      in if ds \<noteq> [] \<and> list_all is_ascii_digit ds \<and> digits_value ds < bound
         then Some (digits_value ds) else None)"

section \<open>Hexadecimal numbers\<close>

definition hex_value :: "char \<Rightarrow> nat" where
  "hex_value c = (if is_ascii_digit c then of_char c - 48 else of_char (ascii_lower c) - 87)"

definition is_hexdigit :: "char \<Rightarrow> bool" where
  "is_hexdigit c \<longleftrightarrow> is_ascii_digit c \<or> (97 \<le> (of_char (ascii_lower c) :: nat) \<and> (of_char (ascii_lower c) :: nat) \<le> 102)"

definition lower_hex_char :: "nat \<Rightarrow> char" where
  "lower_hex_char d = (if d < 10 then char_of (48 + d) else char_of (87 + d))"

definition upper_hex_char :: "nat \<Rightarrow> char" where
  "upper_hex_char d = (if d < 10 then char_of (48 + d) else char_of (55 + d))"

text \<open>The format \<open>{:x}\<close>.\<close>

fun show_hex :: "nat \<Rightarrow> string" where
  "show_hex n = (if n < 16 then [lower_hex_char n] else show_hex (n div 16) @ [lower_hex_char (n mod 16)])"

declare show_hex.simps [simp del]

text \<open>\<open>[..].join(sep)\<close> and the display of a signed integer.\<close>

fun join_str :: "string \<Rightarrow> string list \<Rightarrow> string" where
  "join_str sep [] = []"
| "join_str sep [x] = x"
| "join_str sep (x # y # ys) = x @ sep @ join_str sep (y # ys)"

definition show_int :: "int \<Rightarrow> string" where
  "show_int i = (if i < 0 then CHR ''-'' # show_nat (nat (- i)) else show_nat (nat i))"

text \<open>
  The validity of UTF-8 that \<open>String::from_utf8\<close> checks: the byte sequences of the Unicode standard,
  without overlong forms and surrogates.
\<close>

definition in_range :: "nat \<Rightarrow> nat \<Rightarrow> char \<Rightarrow> bool" where
  "in_range a b c \<longleftrightarrow> a \<le> (of_char c :: nat) \<and> (of_char c :: nat) \<le> b"

fun utf8_valid :: "string \<Rightarrow> bool" where
  "utf8_valid [] = True"
| "utf8_valid (c # cs) =
     (if in_range 0 127 c then utf8_valid cs
      else case cs of
        [] \<Rightarrow> False
      | d # ds \<Rightarrow>
          if in_range 194 223 c then in_range 128 191 d \<and> utf8_valid ds
          else case ds of
            [] \<Rightarrow> False
          | e # es \<Rightarrow>
              if in_range 224 239 c then
                in_range (if of_char c = (224::nat) then 160 else 128) (if of_char c = (237::nat) then 159 else 191) d \<and>
                in_range 128 191 e \<and> utf8_valid es
              else case es of
                [] \<Rightarrow> False
              | f # fs \<Rightarrow> in_range 240 244 c \<and>
                  in_range (if of_char c = (240::nat) then 144 else 128) (if of_char c = (244::nat) then 143 else 191) d \<and>
                  in_range 128 191 e \<and> in_range 128 191 f \<and> utf8_valid fs)"

definition from_utf8 :: "string \<Rightarrow> string option" where
  "from_utf8 bytes = (if utf8_valid bytes then Some bytes else None)"

definition hex_digits_value :: "string \<Rightarrow> nat" where
  "hex_digits_value s = foldl (\<lambda>a c. a * 16 + hex_value c) 0 s"

section \<open>Lemmas\<close>

lemma strip_prefix_Some [simp]: "strip_prefix p s = Some r \<longleftrightarrow> s = p @ r"
  by (induction p s rule: strip_prefix.induct) auto

lemma strip_prefix_append [simp]: "strip_prefix p (p @ r) = Some r"
  by simp

lemma starts_with_iff: "starts_with p s \<longleftrightarrow> (\<exists>r. s = p @ r)"
proof
  assume "starts_with p s"
  then obtain r where "strip_prefix p s = Some r" by (auto simp: starts_with_def)
  then show "\<exists>r. s = p @ r" by auto
next
  assume "\<exists>r. s = p @ r"
  then show "starts_with p s" by (auto simp: starts_with_def)
qed

lemma strip_suffix_Some [simp]: "strip_suffix p s = Some r \<longleftrightarrow> s = r @ p"
proof -
  have "strip_suffix p s = Some r \<longleftrightarrow> strip_prefix (rev p) (rev s) = Some (rev r)"
    unfolding strip_suffix_def by (cases "strip_prefix (rev p) (rev s)") auto
  also have "\<dots> \<longleftrightarrow> s = r @ p" by (simp add: rev_swap)
  finally show ?thesis .
qed

lemma ends_with_iff: "ends_with p s \<longleftrightarrow> (\<exists>r. s = r @ p)"
proof
  assume "ends_with p s"
  then obtain r where "strip_suffix p s = Some r" by (auto simp: ends_with_def)
  then show "\<exists>r. s = r @ p" by auto
next
  assume "\<exists>r. s = r @ p"
  then obtain r where "strip_suffix p s = Some r" by auto
  then show "ends_with p s" by (simp add: ends_with_def)
qed

termination trim_start_str
proof (relation "measure (\<lambda>(p, s). length s)")
  fix p s r
  assume "strip_prefix p s = Some r" and "p \<noteq> []"
  then show "((p, r), (p, s)) \<in> measure (\<lambda>(p, s). length s)" by auto
qed simp

declare trim_start_str.simps [simp del]

lemma trim_start_str_result: "p \<noteq> [] \<Longrightarrow> \<not> starts_with p (trim_start_str p s)"
proof (induction p s rule: trim_start_str.induct)
  case (1 p s)
  then show ?case
    by (subst trim_start_str.simps) (auto simp: starts_with_def split: option.splits)
qed

lemma digit_char_digit: "d < 10 \<Longrightarrow> is_ascii_digit (digit_char d) \<and> char_digit (digit_char d) = d"
  by (simp add: is_ascii_digit_def digit_char_def char_digit_def)

lemma show_nat_digits: "list_all is_ascii_digit (show_nat n) \<and> show_nat n \<noteq> []"
proof (induction n rule: show_nat.induct)
  case (1 n)
  then show ?case by (subst (1 2) show_nat.simps) (simp add: digit_char_digit)
qed

lemma digits_value_snoc: "digits_value (s @ [c]) = digits_value s * 10 + char_digit c"
  by (simp add: digits_value_def)

lemma digits_value_show: "digits_value (show_nat n) = n"
proof (induction n rule: show_nat.induct)
  case (1 n)
  show ?case
  proof (cases "n < 10")
    case True
    then show ?thesis by (simp add: show_nat.simps digits_value_def digit_char_digit)
  next
    case False
    then show ?thesis using 1 by (subst show_nat.simps) (simp add: digits_value_snoc digit_char_digit)
  qed
qed

lemma parse_show_nat:
  assumes "n < bound"
  shows "parse_unsigned bound (show_nat n) = Some n"
proof -
  obtain c r where cr: "show_nat n = c # r" using show_nat_digits [of n] by (cases "show_nat n") auto
  have "is_ascii_digit c" using show_nat_digits [of n] cr by simp
  then have "c \<noteq> CHR ''+''" by (auto simp: is_ascii_digit_def)
  then show ?thesis using show_nat_digits [of n] digits_value_show [of n] assms cr
    by (simp add: parse_unsigned_def)
qed

lemma split_char_not_Nil [simp]: "split_char c s \<noteq> []"
  by (cases s) (auto split: list.splits)

lemma join_split_char: "join_char c (split_char c s) = s"
proof (induction s)
  case (Cons x xs)
  obtain p ps where sp: "split_char c xs = p # ps" by (cases "split_char c xs") auto
  show ?case
  proof (cases "x = c")
    case True
    then show ?thesis using Cons sp by simp
  next
    case False
    then show ?thesis using Cons sp by (cases ps) auto
  qed
qed simp

lemma split_char_fresh: "c \<notin> set s \<Longrightarrow> split_char c s = [s]"
  by (induction s) auto

lemma split_char_append: "c \<notin> set p \<Longrightarrow> split_char c (p @ c # r) = p # split_char c r"
  by (induction p) auto

lemma split_join_char:
  "ps \<noteq> [] \<Longrightarrow> \<forall>p \<in> set ps. c \<notin> set p \<Longrightarrow> split_char c (join_char c ps) = ps"
  by (induction c ps rule: join_char.induct) (auto simp: split_char_fresh split_char_append)

lemma find_str_Some:
  "find_str p s = Some i \<Longrightarrow> i \<le> length s \<and> starts_with p (drop i s) \<and> (\<forall>j < i. \<not> starts_with p (drop j s))"
proof (induction s arbitrary: i)
  case Nil
  then show ?case by (auto simp: starts_with_def split: if_splits)
next
  case (Cons x xs)
  show ?case
  proof (cases "starts_with p (x # xs)")
    case True
    with Cons.prems show ?thesis by simp
  next
    case False
    with Cons.prems obtain k where k: "find_str p xs = Some k" "i = Suc k" by auto
    from Cons.IH [OF k(1)] False show ?thesis unfolding k(2) by (auto simp: less_Suc_eq_0_disj)
  qed
qed

lemma split_once_Some:
  assumes "split_once p s = Some (a, b)"
  shows "s = a @ p @ b"
proof -
  from assms obtain i where i: "find_str p s = Some i" "a = take i s" "b = drop (i + length p) s"
    by (auto simp: split_once_def)
  from find_str_Some [OF i(1)] obtain r where "drop i s = p @ r" by (auto simp: starts_with_iff)
  then show ?thesis using i(2,3) by (metis append_eq_conv_conj append_take_drop_id drop_drop add.commute)
qed

lemma split_once_char:
  assumes "c \<notin> set a"
  shows "split_once [c] (a @ c # b) = Some (a, b)"
proof -
  have "find_str [c] (a @ c # b) = Some (length a)"
    using assms by (induction a) (auto simp: starts_with_def)
  then show ?thesis by (simp add: split_once_def)
qed

lemma to_lowercase_idem [simp]: "to_lowercase (to_lowercase s) = to_lowercase s"
proof -
  have "ascii_lower (ascii_lower c) = ascii_lower c" for c
    by (auto simp: ascii_lower_def is_ascii_upper_def)
  then show ?thesis by (simp add: to_lowercase_def)
qed

lemma dropWhile_fixed: "xs = [] \<or> \<not> P (hd xs) \<Longrightarrow> dropWhile P xs = xs"
  by (cases xs) auto

lemma trim_fixed:
  assumes "s = [] \<or> (\<not> is_whitespace (hd s) \<and> \<not> is_whitespace (last s))"
  shows "trim s = s"
  using assms by (auto simp: trim_def trim_start_def trim_end_def dropWhile_fixed hd_rev)

lemma lower_hex_char_value: "d < 16 \<Longrightarrow> is_hexdigit (lower_hex_char d) \<and> hex_value (lower_hex_char d) = d"
  by (auto simp: is_hexdigit_def hex_value_def lower_hex_char_def is_ascii_digit_def ascii_lower_def is_ascii_upper_def)

lemma upper_hex_char_value: "d < 16 \<Longrightarrow> is_hexdigit (upper_hex_char d) \<and> hex_value (upper_hex_char d) = d"
  by (auto simp: is_hexdigit_def hex_value_def upper_hex_char_def is_ascii_digit_def ascii_lower_def is_ascii_upper_def)

lemma of_char_lt: "(of_char c :: nat) < 256"
  using of_char_mod_256 [of c, where 'a = nat] by (metis mod_less_divisor zero_less_numeral)

lemma of_char_div_lt: "(of_char c :: nat) div 16 < 16"
  using of_char_lt [of c] by (intro less_mult_imp_div_less) simp

lemma show_hex_digits: "list_all is_hexdigit (show_hex n) \<and> show_hex n \<noteq> []"
proof (induction n rule: show_hex.induct)
  case (1 n)
  then show ?case by (subst (1 2) show_hex.simps) (simp add: lower_hex_char_value)
qed

lemma hex_digits_value_snoc: "hex_digits_value (s @ [c]) = hex_digits_value s * 16 + hex_value c"
  by (simp add: hex_digits_value_def)

lemma hex_digits_value_show: "hex_digits_value (show_hex n) = n"
proof (induction n rule: show_hex.induct)
  case (1 n)
  show ?case
  proof (cases "n < 16")
    case True
    then show ?thesis by (simp add: show_hex.simps hex_digits_value_def lower_hex_char_value)
  next
    case False
    then show ?thesis using 1 by (subst show_hex.simps) (simp add: hex_digits_value_snoc lower_hex_char_value)
  qed
qed

lemma length_show_hex: "n < 16 ^ Suc k \<Longrightarrow> length (show_hex n) \<le> Suc k"
proof (induction k arbitrary: n)
  case 0
  then show ?case by (simp add: show_hex.simps)
next
  case (Suc k)
  show ?case
  proof (cases "n < 16")
    case False
    have "n div 16 < 16 ^ Suc k" using Suc.prems by (simp add: less_mult_imp_div_less)
    from Suc.IH [OF this] False show ?thesis by (subst show_hex.simps) simp
  qed (simp add: show_hex.simps)
qed

lemma length_show_nat: "n < 10 ^ Suc k \<Longrightarrow> length (show_nat n) \<le> Suc k"
proof (induction k arbitrary: n)
  case 0
  then show ?case by (simp add: show_nat.simps)
next
  case (Suc k)
  show ?case
  proof (cases "n < 10")
    case False
    have "n div 10 < 10 ^ Suc k" using Suc.prems by (simp add: less_mult_imp_div_less)
    from Suc.IH [OF this] False show ?thesis by (subst show_nat.simps) simp
  qed (simp add: show_nat.simps)
qed

lemma show_nat_no_leading_zero: "0 < n \<Longrightarrow> hd (show_nat n) \<noteq> CHR ''0''"
proof (induction n rule: show_nat.induct)
  case (1 n)
  show ?case
  proof (cases "n < 10")
    case True
    then have "show_nat n = [digit_char n]" by (subst show_nat.simps) simp
    moreover have "digit_char n \<noteq> CHR ''0''"
      using digit_char_digit [OF True] 1(2) by (auto simp: char_digit_def)
    ultimately show ?thesis by simp
  next
    case False
    then have "hd (show_nat (n div 10)) \<noteq> CHR ''0''" using 1 by simp
    then show ?thesis using False show_nat_digits [of "n div 10"] by (subst show_nat.simps) simp
  qed
qed

lemma utf8_valid_ascii: "list_all (in_range 0 127) s \<Longrightarrow> utf8_valid s"
  by (induction s) simp_all

end
