(* ===== verification/Active_Health.thy ===== *)
theory Active_Health
  imports Config_Types Rust_Std
begin

text \<open>
  \<open>HealthStatus\<close> of \<open>src/src/health/mod.rs\<close> and the active \<open>HealthChecker\<close> of
  \<open>src/src/health/checker.rs\<close>: one tick of the polling loop as a function of the probe's outcome.
  The HTTP client is outside the sources; its answer is the argument \<open>probe_outcome\<close>, and
  \<open>show_status\<close> stands for the display form of a status code. The lemmas show that the two
  counters implement hysteresis over the history of outcomes, also where they wrap.
\<close>

record health_status =
  hs_healthy :: bool
  hs_consecutive_successes :: u32
  hs_consecutive_failures :: u32
  hs_last_check :: "instant option"
  hs_last_error :: "string option"

definition hs_new :: health_status where
  "hs_new = \<lparr>hs_healthy = True, hs_consecutive_successes = 0, hs_consecutive_failures = 0,
     hs_last_check = None, hs_last_error = None\<rparr>"

definition hs_record_success :: "instant \<Rightarrow> health_status \<Rightarrow> health_status" where
  "hs_record_success now s = s\<lparr>hs_consecutive_successes := hs_consecutive_successes s + 1,
     hs_consecutive_failures := 0, hs_last_check := Some now, hs_last_error := None\<rparr>"

definition hs_record_failure :: "string \<Rightarrow> instant \<Rightarrow> health_status \<Rightarrow> health_status" where
  "hs_record_failure error now s = s\<lparr>hs_consecutive_failures := hs_consecutive_failures s + 1,
     hs_consecutive_successes := 0, hs_last_check := Some now, hs_last_error := Some error\<rparr>"

definition hs_mark_healthy :: "health_status \<Rightarrow> health_status" where
  "hs_mark_healthy s = s\<lparr>hs_healthy := True\<rparr>"

definition hs_mark_unhealthy :: "health_status \<Rightarrow> health_status" where
  "hs_mark_unhealthy s = s\<lparr>hs_healthy := False\<rparr>"

text \<open>The URL \<open>HealthChecker::new\<close> builds.\<close>

definition check_url :: "health_check_config \<Rightarrow> string \<Rightarrow> string" where
  "check_url config server_url =
     (let scheme = (case hc_scheme config of Some s \<Rightarrow> s | None \<Rightarrow> ''http'')
      in scheme @ ''://'' @
         trim_end_matches (CHR ''/'') (trim_start_str ''https://'' (trim_start_str ''http://'' server_url)) @
         hc_path config)"

datatype probe_outcome = ProbeTimeout | ProbeFailed string | ProbeStatus u16

text \<open>The verdict of \<open>perform_http_check\<close> on the status of an answer; \<open>None\<close> is success.\<close>

definition check_status :: "(u16 \<Rightarrow> string) \<Rightarrow> health_check_config \<Rightarrow> u16 \<Rightarrow> string option" where
  "check_status show_status config status =
     (case hc_status config of
        Some expected \<Rightarrow>
          if status \<noteq> expected
          then Some (''Expected status '' @ show_nat (unat expected) @ '', got '' @ show_status status)
          else None
      | None \<Rightarrow>
          if (200 \<le> status \<and> status < 300) \<or> status = 404 then None
          else if 500 \<le> status \<and> status < 600 then Some (''Server error: '' @ show_status status)
          else None)"

definition perform_http_check :: "(u16 \<Rightarrow> string) \<Rightarrow> health_check_config \<Rightarrow> probe_outcome \<Rightarrow> string option" where
  "perform_http_check show_status config p =
     (case p of
        ProbeStatus status \<Rightarrow> check_status show_status config status
      | ProbeFailed e \<Rightarrow> Some (''Request failed: '' @ e)
      | ProbeTimeout \<Rightarrow> Some ''Timeout'')"

text \<open>One iteration of the loop of \<open>start\<close>, with the thresholds it fixes.\<close>

definition checker_tick :: "(u16 \<Rightarrow> string) \<Rightarrow> health_check_config \<Rightarrow> instant \<Rightarrow> probe_outcome
    \<Rightarrow> health_status \<Rightarrow> health_status" where
  "checker_tick show_status config now p s =
     (case perform_http_check show_status config p of
        None \<Rightarrow>
          (let s' = hs_record_success now s
           in if \<not> hs_healthy s' \<and> hs_consecutive_successes s' \<ge> 2 then hs_mark_healthy s' else s')
      | Some e \<Rightarrow>
          (let s' = hs_record_failure e now s
           in if hs_healthy s' \<and> hs_consecutive_failures s' \<ge> 3 then hs_mark_unhealthy s' else s'))"

definition checker_run :: "(u16 \<Rightarrow> string) \<Rightarrow> health_check_config \<Rightarrow> (instant \<times> probe_outcome) list \<Rightarrow> health_status" where
  "checker_run show_status config ps = foldl (\<lambda>s (now, p). checker_tick show_status config now p s) hs_new ps"

section \<open>Hysteresis over the history\<close>

text \<open>The reference: health as a function of the outcomes so far, the latest first.\<close>

fun hysteresis :: "bool list \<Rightarrow> bool" where
  "hysteresis [] = True"
| "hysteresis (ok # h) =
     (if ok then hysteresis h \<or> (case h of o1 # _ \<Rightarrow> o1 | [] \<Rightarrow> False)
      else hysteresis h \<and> \<not> (case h of o1 # o2 # _ \<Rightarrow> \<not> o1 \<and> \<not> o2 | _ \<Rightarrow> False))"

definition streak :: "bool \<Rightarrow> bool list \<Rightarrow> nat" where
  "streak v h = length (takeWhile (\<lambda>o'. o' = v) h)"

lemma streak_simps [simp]:
  "streak v [] = 0" "streak v (x # h) = (if x = v then Suc (streak v h) else 0)"
  by (simp_all add: streak_def)

lemma unhealthy_streak: "\<not> hysteresis h \<Longrightarrow> streak True h \<le> 1"
  by (cases h; cases "tl h") (auto split: if_splits)

lemma healthy_streak: "hysteresis h \<Longrightarrow> streak False h \<le> 2"
proof (cases h)
  case (Cons a h1)
  assume "hysteresis h"
  then show ?thesis using Cons by (cases h1; cases "tl h1") (auto split: if_splits)
qed simp

definition checker_rel :: "bool list \<Rightarrow> health_status \<Rightarrow> bool" where
  "checker_rel h s \<longleftrightarrow> hs_healthy s = hysteresis h \<and>
     hs_consecutive_successes s = of_nat (streak True h) \<and> hs_consecutive_failures s = of_nat (streak False h)"

lemma checker_rel_tick:
  assumes "checker_rel h s"
  shows "checker_rel ((perform_http_check ss c p = None) # h) (checker_tick ss c now p s)"
proof (cases "perform_http_check ss c p")
  case None
  have "(2 :: u32) \<le> of_nat (Suc (streak True h)) \<longleftrightarrow> 2 \<le> Suc (streak True h)" if "\<not> hysteresis h"
    using unhealthy_streak [OF that] of_nat_le_word [of 2 "Suc (streak True h)", where 'a = 32] by simp
  moreover have "2 \<le> Suc (streak True h) \<longleftrightarrow> (case h of o1 # _ \<Rightarrow> o1 | [] \<Rightarrow> False)"
    by (cases h) auto
  ultimately show ?thesis using assms None
    by (auto simp: checker_rel_def checker_tick_def hs_record_success_def hs_mark_healthy_def Let_def add.commute)
next
  case (Some e)
  have "(3 :: u32) \<le> of_nat (Suc (streak False h)) \<longleftrightarrow> 3 \<le> Suc (streak False h)" if "hysteresis h"
    using healthy_streak [OF that] of_nat_le_word [of 3 "Suc (streak False h)", where 'a = 32] by simp
  moreover have "3 \<le> Suc (streak False h) \<longleftrightarrow> (case h of o1 # o2 # _ \<Rightarrow> \<not> o1 \<and> \<not> o2 | _ \<Rightarrow> False)"
    by (cases h; cases "tl h") auto
  ultimately show ?thesis using assms Some
    by (auto simp: checker_rel_def checker_tick_def hs_record_failure_def hs_mark_unhealthy_def Let_def add.commute)
qed

lemma checker_run_hysteresis:
  "hs_healthy (checker_run ss c ps) = hysteresis (rev (map (\<lambda>(_, p). perform_http_check ss c p = None) ps))"
proof -
  have "checker_rel (rev (map (\<lambda>(_, p). perform_http_check ss c p = None) ps) @ h)
      (foldl (\<lambda>s (now, p). checker_tick ss c now p s) s ps)" if "checker_rel h s" for h s
    using that
  proof (induction ps arbitrary: h s)
    case (Cons tp ps)
    obtain now p where tp: "tp = (now, p)" by (cases tp)
    from Cons.IH [OF checker_rel_tick [OF Cons.prems, of ss c p now]] show ?case by (simp add: tp)
  qed simp
  from this [of "[]" hs_new] show ?thesis by (simp add: checker_rel_def checker_run_def hs_new_def)
qed

text \<open>
  C11. Equivalence with hysteresis: after any sequence of probes the active checker reports a
  backend healthy exactly when the history of outcomes says so: it turns unhealthy at the third
  failure in a row and healthy again at the second success in a row. The 32-bit counters may wrap
  without effect.
\<close>

theorem active_checker_hysteresis:
  "hs_healthy (checker_run ss c ps) = hysteresis (rev (map (\<lambda>(_, p). perform_http_check ss c p = None) ps))"
  by (rule checker_run_hysteresis)

end
