(* ===== verification/Circuit_Breaker.thy ===== *)
theory Circuit_Breaker
  imports Prelude
begin

text \<open>
  \<open>CircuitBreaker\<close> of \<open>src/src/health/circuit_breaker.rs\<close>: the atomics of the struct as a record,
  every method as a function of the clock readings it takes. The elapsed milliseconds since the
  epoch are a 64-bit word, and \<open>now - opened\<close> is the wrapping subtraction of a release build.
  The state machine is also given abstractly (\<open>cb_spec\<close>), and each method is shown to refine it
  on the states reachable with a clock that does not go backwards.
\<close>

datatype circuit_state = Closed | Open | HalfOpen

record circuit_breaker =
  cb_failure_threshold :: u32
  cb_recovery_timeout_ms :: u64
  cb_failures :: u32
  cb_successes :: u32
  cb_state :: u32
  cb_opened_at :: u64
  cb_epoch :: instant

definition cb_new :: "u32 \<Rightarrow> duration \<Rightarrow> instant \<Rightarrow> circuit_breaker" where
  "cb_new failure_threshold recovery_timeout now =
     \<lparr>cb_failure_threshold = failure_threshold,
      cb_recovery_timeout_ms = of_nat (recovery_timeout div 1000000),
      cb_failures = 0, cb_successes = 0, cb_state = 0, cb_opened_at = 0, cb_epoch = now\<rparr>"

text \<open>\<open>self.epoch.elapsed().as_millis() as u64\<close>\<close>

definition cb_elapsed_ms :: "circuit_breaker \<Rightarrow> instant \<Rightarrow> u64" where
  "cb_elapsed_ms b now = of_nat ((now - cb_epoch b) div 1000000)"

definition cb_state_of :: "instant \<Rightarrow> circuit_breaker \<Rightarrow> circuit_state \<times> circuit_breaker" where
  "cb_state_of now b =
     (if cb_state b = 0 then (Closed, b)
      else if cb_state b = 1 then
        (let opened = cb_opened_at b; now_ms = cb_elapsed_ms b now
         in if now_ms - opened \<ge> cb_recovery_timeout_ms b
            then (HalfOpen, b\<lparr>cb_state := 2, cb_successes := 0\<rparr>)
            else (Open, b))
      else (HalfOpen, b))"

definition cb_allow_request :: "instant \<Rightarrow> circuit_breaker \<Rightarrow> bool \<times> circuit_breaker" where
  "cb_allow_request now b =
     (case cb_state_of now b of
        (Closed, b') \<Rightarrow> (True, b')
      | (Open, b') \<Rightarrow> (False, b')
      | (HalfOpen, b') \<Rightarrow> (True, b'))"

definition cb_record_success :: "instant \<Rightarrow> circuit_breaker \<Rightarrow> circuit_breaker" where
  "cb_record_success now b =
     (case cb_state_of now b of
        (Closed, b') \<Rightarrow> b'\<lparr>cb_failures := 0\<rparr>
      | (HalfOpen, b') \<Rightarrow>
          (let successes = cb_successes b' + 1; b'' = b'\<lparr>cb_successes := successes\<rparr>
           in if successes \<ge> 3 then b''\<lparr>cb_state := 0, cb_failures := 0\<rparr> else b'')
      | (Open, b') \<Rightarrow> b')"

text \<open>The clock is read by \<open>state()\<close> first (\<open>now\<close>) and again when the circuit opens (\<open>now'\<close>).\<close>

definition cb_record_failure :: "instant \<Rightarrow> instant \<Rightarrow> circuit_breaker \<Rightarrow> circuit_breaker" where
  "cb_record_failure now now' b =
     (case cb_state_of now b of
        (Closed, b') \<Rightarrow>
          (let failures = cb_failures b' + 1; b'' = b'\<lparr>cb_failures := failures\<rparr>
           in if failures \<ge> cb_failure_threshold b''
              then b''\<lparr>cb_state := 1, cb_opened_at := cb_elapsed_ms b'' now'\<rparr> else b'')
      | (HalfOpen, b') \<Rightarrow> b'\<lparr>cb_state := 1, cb_opened_at := cb_elapsed_ms b' now'\<rparr>
      | (Open, b') \<Rightarrow> b')"

definition cb_reset :: "circuit_breaker \<Rightarrow> circuit_breaker" where
  "cb_reset b = b\<lparr>cb_state := 0, cb_failures := 0, cb_successes := 0\<rparr>"

section \<open>The abstract machine\<close>

text \<open>
  Closed with the number of consecutive failures; open since a time in milliseconds; half-open
  with the number of successes.
\<close>

datatype cb_abs = AClosed nat | AOpen nat | AHalfOpen nat

datatype cb_event = CbAllow | CbSuccess | CbFailure

text \<open>An open circuit whose recovery timeout has passed is half-open.\<close>

fun cb_spec_ready :: "nat \<Rightarrow> nat \<Rightarrow> cb_abs \<Rightarrow> cb_abs" where
  "cb_spec_ready timeout t (AOpen t0) = (if timeout \<le> t - t0 then AHalfOpen 0 else AOpen t0)"
| "cb_spec_ready timeout t a = a"

fun cb_spec :: "nat \<Rightarrow> nat \<Rightarrow> nat \<Rightarrow> cb_event \<Rightarrow> cb_abs \<Rightarrow> cb_abs" where
  "cb_spec threshold timeout t CbAllow a = cb_spec_ready timeout t a"
| "cb_spec threshold timeout t CbSuccess a =
     (case cb_spec_ready timeout t a of
        AClosed n \<Rightarrow> AClosed 0
      | AOpen t0 \<Rightarrow> AOpen t0
      | AHalfOpen n \<Rightarrow> if n + 1 \<ge> 3 then AClosed 0 else AHalfOpen (n + 1))"
| "cb_spec threshold timeout t CbFailure a =
     (case cb_spec_ready timeout t a of
        AClosed n \<Rightarrow> if n + 1 \<ge> threshold then AOpen t else AClosed (n + 1)
      | AOpen t0 \<Rightarrow> AOpen t0
      | AHalfOpen n \<Rightarrow> AOpen t)"

fun cb_apply :: "instant \<Rightarrow> cb_event \<Rightarrow> circuit_breaker \<Rightarrow> circuit_breaker" where
  "cb_apply now CbAllow b = snd (cb_allow_request now b)"
| "cb_apply now CbSuccess b = cb_record_success now b"
| "cb_apply now CbFailure b = cb_record_failure now now b"

definition cb_ms :: "circuit_breaker \<Rightarrow> instant \<Rightarrow> nat" where
  "cb_ms b now = (now - cb_epoch b) div 1000000"

definition cb_abs_of :: "circuit_breaker \<Rightarrow> cb_abs" where
  "cb_abs_of b =
     (if cb_state b = 0 then AClosed (unat (cb_failures b))
      else if cb_state b = 1 then AOpen (unat (cb_opened_at b))
      else AHalfOpen (unat (cb_successes b)))"

text \<open>
  The invariant of the reachable states at time \<open>now\<close>: the counters are below their limits in the
  states that count, and the circuit was not opened in the future.
\<close>

definition cb_inv :: "instant \<Rightarrow> circuit_breaker \<Rightarrow> bool" where
  "cb_inv now b \<longleftrightarrow>
     (cb_state b = 0 \<longrightarrow> cb_failures b = 0 \<or> cb_failures b < cb_failure_threshold b) \<and>
     (cb_state b = 1 \<longrightarrow> unat (cb_opened_at b) \<le> cb_ms b now) \<and>
     (cb_state b \<noteq> 0 \<and> cb_state b \<noteq> 1 \<longrightarrow> cb_successes b < 3)"

lemma cb_inv_new: "cb_inv now (cb_new n r now)"
  by (simp add: cb_inv_def cb_new_def)

lemma cb_inv_mono: "cb_inv now b \<Longrightarrow> now \<le> now' \<Longrightarrow> cb_inv now' b"
  by (auto simp: cb_inv_def cb_ms_def intro: le_trans div_le_mono diff_le_mono)

lemma cb_elapsed_exact: "cb_ms b now < 2 ^ 64 \<Longrightarrow> unat (cb_elapsed_ms b now) = cb_ms b now"
  by (simp add: cb_elapsed_ms_def cb_ms_def unat_of_nat_small)

lemma cb_since_opened:
  assumes "cb_ms b now < 2 ^ 64" and "unat (cb_opened_at b) \<le> cb_ms b now"
  shows "unat (cb_elapsed_ms b now - cb_opened_at b) = cb_ms b now - unat (cb_opened_at b)"
  using assms cb_elapsed_exact [OF assms(1)] by (simp add: unat_sub word_le_nat_alt)

text \<open>\<open>state()\<close> computes the readiness step of the abstract machine.\<close>

lemma cb_state_of_refines:
  assumes "cb_inv now b" and "cb_ms b now < 2 ^ 64"
  shows "cb_abs_of (snd (cb_state_of now b)) =
      cb_spec_ready (unat (cb_recovery_timeout_ms b)) (cb_ms b now) (cb_abs_of b)"
    and "fst (cb_state_of now b) = (case cb_abs_of (snd (cb_state_of now b)) of
      AClosed _ \<Rightarrow> Closed | AOpen _ \<Rightarrow> Open | AHalfOpen _ \<Rightarrow> HalfOpen)"
    and "cb_inv now (snd (cb_state_of now b))"
  using assms cb_since_opened [OF assms(2)]
  by (auto simp: cb_state_of_def cb_abs_of_def cb_inv_def cb_ms_def Let_def word_le_nat_alt)

lemma cb_state_of_frame:
  "cb_failure_threshold (snd (cb_state_of now b)) = cb_failure_threshold b"
  "cb_recovery_timeout_ms (snd (cb_state_of now b)) = cb_recovery_timeout_ms b"
  "cb_epoch (snd (cb_state_of now b)) = cb_epoch b"
  by (simp_all add: cb_state_of_def Let_def)

lemma cb_state_of_fst:
  "fst (cb_state_of now b) =
     (if cb_state (snd (cb_state_of now b)) = 0 then Closed
      else if cb_state (snd (cb_state_of now b)) = 1 then Open else HalfOpen)"
  by (simp add: cb_state_of_def Let_def)

lemma cb_allow_snd: "snd (cb_allow_request now b) = snd (cb_state_of now b)"
  by (simp add: cb_allow_request_def split: prod.split circuit_state.split)

lemma cb_success_refines:
  assumes "cb_inv now b" and "cb_ms b now < 2 ^ 64"
  shows "cb_abs_of (cb_record_success now b) =
      cb_spec (unat (cb_failure_threshold b)) (unat (cb_recovery_timeout_ms b)) (cb_ms b now) CbSuccess (cb_abs_of b)
    \<and> cb_inv now (cb_record_success now b)"
proof -
  define b' where "b' = snd (cb_state_of now b)"
  note r = cb_state_of_refines [OF assms, folded b'_def]
  have c: "cb_state_of now b = (if cb_state b' = 0 then Closed else if cb_state b' = 1 then Open else HalfOpen, b')"
    using cb_state_of_fst [of now b] by (simp add: b'_def prod_eq_iff)
  have u: "unat (cb_successes b' + 1) = unat (cb_successes b') + 1" if "cb_successes b' < 3"
    using that by (rule unat_succ_below)
  show ?thesis
    unfolding cb_record_success_def cb_spec.simps r(1) [symmetric] c using r(3) u
    by (auto simp: cb_abs_of_def cb_inv_def cb_ms_def Let_def word_le_nat_alt word_less_nat_alt)
qed

lemma cb_failure_refines:
  assumes "cb_inv now b" and "cb_ms b now < 2 ^ 64"
  shows "cb_abs_of (cb_record_failure now now b) =
      cb_spec (unat (cb_failure_threshold b)) (unat (cb_recovery_timeout_ms b)) (cb_ms b now) CbFailure (cb_abs_of b)
    \<and> cb_inv now (cb_record_failure now now b)"
proof -
  define b' where "b' = snd (cb_state_of now b)"
  note r = cb_state_of_refines [OF assms, folded b'_def]
  have c: "cb_state_of now b = (if cb_state b' = 0 then Closed else if cb_state b' = 1 then Open else HalfOpen, b')"
    using cb_state_of_fst [of now b] by (simp add: b'_def prod_eq_iff)
  have fr: "cb_failure_threshold b' = cb_failure_threshold b" "cb_epoch b' = cb_epoch b"
    by (simp_all add: b'_def cb_state_of_frame)
  then have ms: "unat (cb_elapsed_ms b' now) = cb_ms b now"
    using cb_elapsed_exact [of b' now] assms(2) by (simp add: cb_ms_def)
  have el: "cb_elapsed_ms (b'\<lparr>cb_failures := x\<rparr>) now = cb_elapsed_ms b' now" for x
    by (simp add: cb_elapsed_ms_def)
  have u: "unat (cb_failures b' + 1) = unat (cb_failures b') + 1" if "cb_state b' = 0"
    using r(3) that unat_succ_below [of "cb_failures b'" "cb_failure_threshold b'"] by (auto simp: cb_inv_def)
  show ?thesis
    unfolding cb_record_failure_def cb_spec.simps r(1) [symmetric] c using r(3) u ms fr
    by (auto simp: cb_abs_of_def cb_inv_def cb_ms_def Let_def word_le_nat_alt word_less_nat_alt el)
qed

lemma cb_apply_frame:
  "cb_failure_threshold (cb_apply now e b) = cb_failure_threshold b"
  "cb_recovery_timeout_ms (cb_apply now e b) = cb_recovery_timeout_ms b"
  "cb_epoch (cb_apply now e b) = cb_epoch b"
  using cb_state_of_frame [of now b]
  by (cases e; auto simp: cb_allow_snd cb_record_success_def cb_record_failure_def Let_def
      split: prod.split circuit_state.split)+

lemma cb_apply_refines:
  assumes "cb_inv now b" and "cb_ms b now < 2 ^ 64"
  shows "cb_abs_of (cb_apply now e b) =
      cb_spec (unat (cb_failure_threshold b)) (unat (cb_recovery_timeout_ms b)) (cb_ms b now) e (cb_abs_of b)"
    and "cb_inv now (cb_apply now e b)"
  using cb_state_of_refines [OF assms] cb_success_refines [OF assms] cb_failure_refines [OF assms]
  by (cases e; simp add: cb_allow_snd)+

section \<open>Runs\<close>

text \<open>A run is a list of events with the time of each.\<close>

definition cb_run :: "circuit_breaker \<Rightarrow> (instant \<times> cb_event) list \<Rightarrow> circuit_breaker" where
  "cb_run b evs = foldl (\<lambda>b (t, e). cb_apply t e b) b evs"

definition cb_spec_run :: "nat \<Rightarrow> nat \<Rightarrow> cb_abs \<Rightarrow> (nat \<times> cb_event) list \<Rightarrow> cb_abs" where
  "cb_spec_run threshold timeout a evs = foldl (\<lambda>a (t, e). cb_spec threshold timeout t e a) a evs"

definition cb_clock_ok :: "circuit_breaker \<Rightarrow> instant \<Rightarrow> (instant \<times> cb_event) list \<Rightarrow> bool" where
  "cb_clock_ok b start evs \<longleftrightarrow> sorted (start # map fst evs) \<and> (\<forall>t \<in> set (map fst evs). cb_ms b t < 2 ^ 64)"

lemma cb_run_refines_aux:
  assumes "cb_inv start b" and "cb_clock_ok b start evs"
  shows "cb_abs_of (cb_run b evs) = cb_spec_run (unat (cb_failure_threshold b)) (unat (cb_recovery_timeout_ms b))
    (cb_abs_of b) (map (\<lambda>(t, e). (cb_ms b t, e)) evs)"
  using assms
proof (induction evs arbitrary: b start)
  case Nil
  then show ?case by (simp add: cb_run_def cb_spec_run_def)
next
  case (Cons te evs)
  obtain t e where te: "te = (t, e)" by (cases te)
  have t: "start \<le> t" "cb_ms b t < 2 ^ 64" "cb_clock_ok b t evs"
    using Cons.prems(2) by (auto simp: cb_clock_ok_def te)
  have I: "cb_inv t b" using Cons.prems(1) t(1) by (rule cb_inv_mono)
  note step = cb_apply_refines [OF I t(2), of e] and fr = cb_apply_frame [of t e b]
  have ms: "cb_ms (cb_apply t e b) = cb_ms b" using fr by (simp add: cb_ms_def fun_eq_iff)
  then have "cb_clock_ok (cb_apply t e b) t evs" using t(3) by (simp add: cb_clock_ok_def)
  from Cons.IH [OF step(2) this] show ?case
    by (simp add: cb_run_def cb_spec_run_def te step(1) fr ms)
qed

text \<open>
  C2. Refinement: every run of the circuit breaker from its creation, with a clock that does not
  go backwards and fewer than \<open>2 ^ 64\<close> milliseconds of uptime, ends in the state the abstract
  machine computes. In particular neither the counters nor the subtraction of times ever wrap.
\<close>

theorem circuit_breaker_refines:
  assumes "b = cb_new threshold recovery start" and "cb_clock_ok b start evs"
  shows "cb_abs_of (cb_run b evs) =
    cb_spec_run (unat threshold) (unat (cb_recovery_timeout_ms b)) (AClosed 0) (map (\<lambda>(t, e). (cb_ms b t, e)) evs)"
proof -
  have "cb_inv start b" and "cb_abs_of b = AClosed 0" and "cb_failure_threshold b = threshold"
    unfolding assms(1) by (simp_all add: cb_inv_new) (simp_all add: cb_new_def cb_abs_of_def)
  with cb_run_refines_aux [OF _ assms(2)] show ?thesis by simp
qed

definition cb_example :: circuit_breaker where
  "cb_example = cb_new 2 1000000000 7"

theorem circuit_breaker_refines_witness:
  "cb_abs_of (cb_run cb_example [(2000007, CbFailure), (3000007, CbFailure), (5000007, CbAllow)]) = AOpen 3"
proof -
  let ?evs = "[(2000007, CbFailure), (3000007, CbFailure), (5000007, CbAllow)]"
  have ok: "cb_clock_ok cb_example 7 ?evs"
    by (simp add: cb_clock_ok_def cb_example_def cb_new_def cb_ms_def)
  have "unat (cb_recovery_timeout_ms cb_example) = 1000" by (simp add: cb_example_def cb_new_def)
  with circuit_breaker_refines [OF cb_example_def ok] show ?thesis
    by (simp add: cb_spec_run_def cb_example_def cb_new_def cb_ms_def)
qed

text \<open>
  Tripping and recovery: from a closed circuit without failures, fewer failures in a row than
  the threshold leave it closed, and the failure that reaches the threshold opens it; an open
  circuit refuses every request until the recovery timeout has passed since it opened, and
  admits the first one after that.
\<close>

theorem circuit_breaker_trips:
  assumes "cb_inv now b" and "cb_ms b now < 2 ^ 64"
  shows "(cb_abs_of b = AClosed n \<and> n + 1 < unat (cb_failure_threshold b) \<longrightarrow>
        cb_abs_of (cb_apply now CbFailure b) = AClosed (n + 1)) \<and>
    (cb_abs_of b = AClosed n \<and> unat (cb_failure_threshold b) \<le> n + 1 \<longrightarrow>
        cb_abs_of (cb_apply now CbFailure b) = AOpen (cb_ms b now)) \<and>
    (cb_abs_of b = AOpen t \<longrightarrow>
        (fst (cb_allow_request now b) \<longleftrightarrow> unat (cb_recovery_timeout_ms b) \<le> cb_ms b now - t))"
proof -
  note r = cb_apply_refines(1) [OF assms, of CbFailure]
  have "fst (cb_allow_request now b) \<longleftrightarrow> fst (cb_state_of now b) \<noteq> Open"
    by (simp add: cb_allow_request_def split: prod.split circuit_state.split)
  then show ?thesis using r cb_state_of_refines(1,2) [OF assms] by auto
qed

theorem circuit_breaker_trips_witness:
  "cb_abs_of (cb_apply 2000007 CbFailure (cb_apply 1000007 CbFailure cb_example)) = AOpen 2"
proof -
  let ?b = "cb_apply 1000007 CbFailure cb_example"
  have "cb_inv 2000007 ?b" "cb_ms ?b 2000007 = 2" "cb_abs_of ?b = AClosed 1" "unat (cb_failure_threshold ?b) = 2"
    by (simp_all add: cb_example_def cb_new_def cb_record_failure_def cb_state_of_def cb_inv_def cb_ms_def
        cb_abs_of_def Let_def word_le_nat_alt)
  with circuit_breaker_trips [of 2000007 ?b 1 0] show ?thesis by simp
qed

text \<open>
  The half-open circuit limits nothing: once the timeout has passed, every further request is
  admitted as long as none of them has reported its outcome, however many there are. The comment
  in \<open>allow_request\<close> says that half-open admits limited requests.
\<close>

theorem half_open_admits_all:
  assumes "cb_state b = 2"
  shows "map fst (map (\<lambda>t. cb_allow_request t b) ts) = replicate (length ts) True \<and>
    (\<forall>t. snd (cb_allow_request t b) = b)"
  using assms by (induction ts) (simp_all add: cb_allow_request_def cb_state_of_def)

theorem half_open_admits_all_witness:
  "map fst (map (\<lambda>t. cb_allow_request t (cb_example\<lparr>cb_state := 2\<rparr>)) [1, 2, 3]) = [True, True, True]"
  using half_open_admits_all [of "cb_example\<lparr>cb_state := 2\<rparr>" "[1, 2, 3]"] by (simp add: cb_example_def)

end
