(* ===== verification/Passive_Health.thy ===== *)
theory Passive_Health
  imports Balancer_Iface
begin

text \<open>
  \<open>PassiveHealthChecker\<close> of \<open>src/src/health/passive.rs\<close>: per-backend counters, a sliding window of
  outcomes and the rules that turn a response into a change of health. Every clock reading is an
  argument. \<open>now - duration\<close> is computed on integers, since an \<open>Instant\<close> may precede the origin
  the naturals count from. Counters are words and wrap.
\<close>

record passive_health_config =
  phc_failure_threshold :: u32
  phc_success_threshold :: u32
  phc_failure_status_codes :: "u16 list"
  phc_response_time_threshold_ms :: "u64 option"
  phc_window_duration :: duration
  phc_recovery_interval :: duration

definition phc_default :: passive_health_config where
  "phc_default = \<lparr>phc_failure_threshold = 5, phc_success_threshold = 2,
     phc_failure_status_codes = map of_nat [500..<600], phc_response_time_threshold_ms = None,
     phc_window_duration = 30000000000, phc_recovery_interval = 10000000000\<rparr>"

text \<open>The setters of \<open>PassiveHealthConfigBuilder\<close>.\<close>

datatype phc_setter =
    SetFailureThreshold u32
  | SetSuccessThreshold u32
  | SetFailureStatusCodes "u16 list"
  | SetResponseTimeThreshold u64
  | SetWindowDuration duration
  | SetRecoveryInterval duration

fun phc_set :: "phc_setter \<Rightarrow> passive_health_config \<Rightarrow> passive_health_config" where
  "phc_set (SetFailureThreshold n) c = c\<lparr>phc_failure_threshold := n\<rparr>"
| "phc_set (SetSuccessThreshold n) c = c\<lparr>phc_success_threshold := n\<rparr>"
| "phc_set (SetFailureStatusCodes cs) c = c\<lparr>phc_failure_status_codes := cs\<rparr>"
| "phc_set (SetResponseTimeThreshold n) c = c\<lparr>phc_response_time_threshold_ms := Some n\<rparr>"
| "phc_set (SetWindowDuration d) c = c\<lparr>phc_window_duration := d\<rparr>"
| "phc_set (SetRecoveryInterval d) c = c\<lparr>phc_recovery_interval := d\<rparr>"

definition phc_build :: "phc_setter list \<Rightarrow> passive_health_config" where
  "phc_build ss = foldl (\<lambda>c s. phc_set s c) phc_default ss"

record sliding_window =
  sw_duration :: duration
  sw_entries :: "(instant \<times> bool) list"

definition sw_new :: "duration \<Rightarrow> sliding_window" where
  "sw_new d = \<lparr>sw_duration = d, sw_entries = []\<rparr>"

definition sw_add :: "instant \<Rightarrow> bool \<Rightarrow> sliding_window \<Rightarrow> (nat \<times> nat) \<times> sliding_window" where
  "sw_add now is_failure w =
     (let cutoff = int now - int (sw_duration w);
          entries = filter (\<lambda>(ts, _). int ts > cutoff) (sw_entries w) @ [(now, is_failure)];
          failure_count = length (filter snd entries)
      in ((failure_count, length entries), w\<lparr>sw_entries := entries\<rparr>))"

definition sw_failure_count :: "instant \<Rightarrow> sliding_window \<Rightarrow> nat" where
  "sw_failure_count now w =
     (let cutoff = int now - int (sw_duration w)
      in length (filter (\<lambda>(ts, f). int ts > cutoff \<and> f) (sw_entries w)))"

record backend_state =
  bs_healthy :: bool
  bs_consecutive_failures :: u32
  bs_consecutive_successes :: u32
  bs_unhealthy_since :: "instant option"
  bs_window :: sliding_window
  bs_total_requests :: u64
  bs_total_failures :: u64
  bs_avg_response_time_us :: u64

definition bs_new :: "duration \<Rightarrow> backend_state" where
  "bs_new d = \<lparr>bs_healthy = True, bs_consecutive_failures = 0, bs_consecutive_successes = 0,
     bs_unhealthy_since = None, bs_window = sw_new d, bs_total_requests = 0, bs_total_failures = 0,
     bs_avg_response_time_us = 0\<rparr>"

record passive_health_checker =
  phk_config :: passive_health_config
  phk_backends :: "backend_state dict"

definition phk_new :: "passive_health_config \<Rightarrow> passive_health_checker" where
  "phk_new config = \<lparr>phk_config = config, phk_backends = []\<rparr>"

definition phk_is_healthy :: "passive_health_checker \<Rightarrow> string \<Rightarrow> bool" where
  "phk_is_healthy k url = (case dict_get (phk_backends k) url of Some s \<Rightarrow> bs_healthy s | None \<Rightarrow> True)"

definition phk_can_try :: "instant \<Rightarrow> passive_health_checker \<Rightarrow> string \<Rightarrow> bool" where
  "phk_can_try now k url =
     (case dict_get (phk_backends k) url of
        None \<Rightarrow> True
      | Some s \<Rightarrow>
          if bs_healthy s then True
          else (case bs_unhealthy_since s of
                  Some since \<Rightarrow> now - since \<ge> phc_recovery_interval (phk_config k)
                | None \<Rightarrow> False))"

definition phk_is_failure :: "passive_health_config \<Rightarrow> u16 \<Rightarrow> duration \<Rightarrow> bool" where
  "phk_is_failure c status_code response_time =
     (if status_code \<in> set (phc_failure_status_codes c) then True
      else case phc_response_time_threshold_ms c of
        Some threshold_ms \<Rightarrow> (of_nat (response_time div 1000000) :: u64) > threshold_ms
      | None \<Rightarrow> False)"

text \<open>
  \<open>record_response\<close> on the state of one backend: \<open>now\<close> is the reading of the sliding window,
  \<open>now'\<close> the one stored in \<open>unhealthy_since\<close>.
\<close>

definition bs_record :: "passive_health_config \<Rightarrow> bool \<Rightarrow> duration \<Rightarrow> instant \<Rightarrow> instant \<Rightarrow> backend_state
    \<Rightarrow> health_change \<times> backend_state" where
  "bs_record c is_failure response_time now now' s0 =
     (let s1 = s0\<lparr>bs_total_requests := bs_total_requests s0 + 1\<rparr>;
          s2 = (if is_failure then s1\<lparr>bs_total_failures := bs_total_failures s1 + 1\<rparr> else s1);
          response_us = (of_nat (response_time div 1000) :: u64);
          prev_avg = bs_avg_response_time_us s2;
          new_avg = (if prev_avg = 0 then response_us else (prev_avg * 9 + response_us) div 10);
          s3 = s2\<lparr>bs_avg_response_time_us := new_avg\<rparr>;
          ((failure_count, _), w) = sw_add now is_failure (bs_window s3);
          s4 = s3\<lparr>bs_window := w\<rparr>;
          s5 = (if is_failure
                then s4\<lparr>bs_consecutive_failures := bs_consecutive_failures s4 + 1, bs_consecutive_successes := 0\<rparr>
                else s4\<lparr>bs_consecutive_successes := bs_consecutive_successes s4 + 1, bs_consecutive_failures := 0\<rparr>)
      in if bs_healthy s5 then
           if bs_consecutive_failures s5 \<ge> phc_failure_threshold c \<or> failure_count \<ge> unat (phc_failure_threshold c)
           then (BecameUnhealthy,
                 s5\<lparr>bs_healthy := False, bs_unhealthy_since := Some now', bs_consecutive_successes := 0\<rparr>)
           else (NoChange, s5)
         else if bs_consecutive_successes s5 \<ge> phc_success_threshold c
           then (BecameHealthy, s5\<lparr>bs_healthy := True, bs_unhealthy_since := None, bs_consecutive_failures := 0\<rparr>)
           else (NoChange, s5))"

definition phk_record_response ::
  "string \<Rightarrow> u16 \<Rightarrow> duration \<Rightarrow> instant \<Rightarrow> instant \<Rightarrow> passive_health_checker
    \<Rightarrow> health_change \<times> passive_health_checker" where
  "phk_record_response url status_code response_time now now' k =
     (let is_failure = phk_is_failure (phk_config k) status_code response_time;
          s = (case dict_get (phk_backends k) url of
                 Some s \<Rightarrow> s | None \<Rightarrow> bs_new (phc_window_duration (phk_config k)));
          (change, s') = bs_record (phk_config k) is_failure response_time now now' s
      in (change, k\<lparr>phk_backends := dict_insert url s' (phk_backends k)\<rparr>))"

record backend_stats =
  bst_healthy :: bool
  bst_total_requests :: u64
  bst_total_failures :: u64
  bst_avg_response_time_us :: u64
  bst_consecutive_failures :: u32
  bst_consecutive_successes :: u32
  bst_recent_failure_count :: nat

definition bs_stats :: "instant \<Rightarrow> backend_state \<Rightarrow> backend_stats" where
  "bs_stats now s = \<lparr>bst_healthy = bs_healthy s, bst_total_requests = bs_total_requests s,
     bst_total_failures = bs_total_failures s, bst_avg_response_time_us = bs_avg_response_time_us s,
     bst_consecutive_failures = bs_consecutive_failures s, bst_consecutive_successes = bs_consecutive_successes s,
     bst_recent_failure_count = sw_failure_count now (bs_window s)\<rparr>"

definition phk_get_stats :: "instant \<Rightarrow> passive_health_checker \<Rightarrow> string \<Rightarrow> backend_stats option" where
  "phk_get_stats now k url = map_option (bs_stats now) (dict_get (phk_backends k) url)"

definition phk_all_stats :: "instant \<Rightarrow> passive_health_checker \<Rightarrow> backend_stats dict" where
  "phk_all_stats now k = map (\<lambda>(url, s). (url, bs_stats now s)) (phk_backends k)"

section \<open>The reported change is the change of the flag\<close>

lemma bs_record_change:
  "fst (bs_record c f r now now' s) =
     (if bs_healthy s = bs_healthy (snd (bs_record c f r now now' s)) then NoChange
      else if bs_healthy (snd (bs_record c f r now now' s)) then BecameHealthy else BecameUnhealthy)"
  by (simp add: bs_record_def Let_def split_beta)

lemma phk_record_healthy:
  "phk_is_healthy (snd (phk_record_response u st r now now' k)) url =
     (if url = u then (case fst (phk_record_response u st r now now' k) of
          NoChange \<Rightarrow> phk_is_healthy k u | BecameHealthy \<Rightarrow> True | BecameUnhealthy \<Rightarrow> False)
      else phk_is_healthy k url)"
proof (cases "dict_get (phk_backends k) u")
  case None
  then show ?thesis
    by (simp add: phk_is_healthy_def phk_record_response_def Let_def split_beta dict_simps bs_record_change bs_new_def)
next
  case (Some s)
  then show ?thesis
    by (simp add: phk_is_healthy_def phk_record_response_def Let_def split_beta dict_simps bs_record_change)
qed

lemma phk_record_config: "phk_config (snd (phk_record_response u st r now now' k)) = phk_config k"
  by (simp add: phk_record_response_def Let_def split_beta)

section \<open>Detection\<close>

definition phk_state :: "passive_health_checker \<Rightarrow> string \<Rightarrow> backend_state" where
  "phk_state k url = (case dict_get (phk_backends k) url of
     Some s \<Rightarrow> s | None \<Rightarrow> bs_new (phc_window_duration (phk_config k)))"

lemma phk_is_healthy_state: "phk_is_healthy k url = bs_healthy (phk_state k url)"
  by (simp add: phk_is_healthy_def phk_state_def bs_new_def split: option.split)

lemma phk_state_record:
  "phk_state (snd (phk_record_response u st r now now' k)) u =
     snd (bs_record (phk_config k) (phk_is_failure (phk_config k) st r) r now now' (phk_state k u))"
  by (simp add: phk_state_def phk_record_response_def Let_def split_beta dict_simps split: option.split)

definition bs_inv :: "passive_health_config \<Rightarrow> backend_state \<Rightarrow> bool" where
  "bs_inv c s \<longleftrightarrow> bs_healthy s \<longrightarrow>
     bs_consecutive_failures s = 0 \<or> bs_consecutive_failures s < phc_failure_threshold c"

lemma bs_inv_new: "bs_inv c (bs_new d)"
  by (simp add: bs_inv_def bs_new_def)

lemma bs_inv_record: "bs_inv c s \<Longrightarrow> bs_inv c (snd (bs_record c f r now now' s))"
  by (auto simp: bs_inv_def bs_record_def Let_def split_beta)

lemma bs_record_failure:
  assumes "bs_inv c s" and "phc_success_threshold c \<noteq> 0"
  shows "\<not> bs_healthy (snd (bs_record c True r now now' s)) \<or>
    bs_healthy s \<and> unat (bs_consecutive_failures (snd (bs_record c True r now now' s))) =
      unat (bs_consecutive_failures s) + 1"
proof -
  have "unat (bs_consecutive_failures s + 1) = unat (bs_consecutive_failures s) + 1"
    if "bs_healthy s"
  proof -
    from assms(1) that have "bs_consecutive_failures s = 0 \<or> bs_consecutive_failures s < phc_failure_threshold c"
      by (simp add: bs_inv_def)
    then show ?thesis
    proof
      assume "bs_consecutive_failures s < phc_failure_threshold c"
      then show ?thesis by (rule unat_succ_below)
    qed simp
  qed
  then show ?thesis using assms(2) by (auto simp: bs_record_def Let_def split_beta)
qed

text \<open>Responses: URL, status, response time and the two clock readings.\<close>

type_synonym response_event = "string \<times> u16 \<times> duration \<times> instant \<times> instant"

fun phk_apply :: "passive_health_checker \<Rightarrow> response_event \<Rightarrow> passive_health_checker" where
  "phk_apply k (u, st, r, now, now') = snd (phk_record_response u st r now now' k)"

fun failing_for :: "passive_health_config \<Rightarrow> string \<Rightarrow> response_event \<Rightarrow> bool" where
  "failing_for c url (u, st, r, now, now') \<longleftrightarrow> u = url \<and> phk_is_failure c st r"

definition phk_inv :: "passive_health_checker \<Rightarrow> bool" where
  "phk_inv k \<longleftrightarrow> (\<forall>u. bs_inv (phk_config k) (phk_state k u))"

lemma phk_inv_new: "phk_inv (phk_new c)"
  by (simp add: phk_inv_def phk_new_def phk_state_def bs_inv_new)

lemma phk_config_apply: "phk_config (phk_apply k e) = phk_config k"
  by (cases e) (simp add: phk_record_config)

lemma phk_inv_apply:
  assumes "phk_inv k"
  shows "phk_inv (phk_apply k e)"
proof -
  obtain u st r now now' where e: "e = (u, st, r, now, now')" by (cases e)
  have "bs_inv (phk_config k) (phk_state (phk_apply k e) v)" for v
  proof (cases "v = u")
    case True
    then show ?thesis using assms by (simp add: e phk_state_record bs_inv_record phk_inv_def)
  next
    case False
    then have "phk_state (phk_apply k e) v = phk_state k v"
      by (simp add: e phk_state_def phk_record_response_def Let_def split_beta dict_simps split: option.split)
    then show ?thesis using assms by (simp add: phk_inv_def)
  qed
  then show ?thesis by (simp add: phk_inv_def phk_config_apply)
qed

lemma phk_failures_count:
  assumes "phk_inv k" and "phc_success_threshold (phk_config k) \<noteq> 0"
    and "\<forall>e \<in> set evs. failing_for (phk_config k) url e"
    and "phk_is_healthy (foldl phk_apply k evs) url"
  shows "phk_is_healthy k url \<and>
    unat (bs_consecutive_failures (phk_state (foldl phk_apply k evs) url)) =
      unat (bs_consecutive_failures (phk_state k url)) + length evs"
  using assms
proof (induction evs arbitrary: k)
  case Nil
  then show ?case by simp
next
  case (Cons e evs)
  obtain st r now now' where e: "e = (url, st, r, now, now')" and f: "phk_is_failure (phk_config k) st r"
    using Cons.prems(3) by (cases e) auto
  let ?k = "phk_apply k e"
  have st: "phk_state ?k url = snd (bs_record (phk_config k) True r now now' (phk_state k url))"
    using f by (simp add: e phk_state_record)
  from Cons.IH [of ?k] Cons.prems have IH: "phk_is_healthy ?k url \<and>
      unat (bs_consecutive_failures (phk_state (foldl phk_apply ?k evs) url)) =
        unat (bs_consecutive_failures (phk_state ?k url)) + length evs"
    by (simp add: phk_inv_apply phk_config_apply)
  moreover have "bs_inv (phk_config k) (phk_state k url)" using Cons.prems(1) by (simp add: phk_inv_def)
  ultimately show ?case
    using bs_record_failure [of "phk_config k" "phk_state k url" r now now'] Cons.prems(2) st
    by (auto simp: phk_is_healthy_state)
qed

lemma phk_inv_run: "phk_inv k \<Longrightarrow> phk_inv (foldl phk_apply k evs)"
  by (induction evs arbitrary: k) (simp_all add: phk_inv_apply)

lemma phk_config_run: "phk_config (foldl phk_apply k evs) = phk_config k"
  by (induction evs arbitrary: k) (simp_all add: phk_config_apply)

text \<open>
  C14. Detection: whatever responses came before, as soon as a backend's last responses contain as
  many failures in a row as the failure threshold, the backend is unhealthy, for every positive
  success threshold and whatever the clock readings are.
\<close>

theorem passive_detects_failures:
  assumes "phc_success_threshold c \<noteq> 0" and "phc_failure_threshold c \<noteq> 0"
    and "\<forall>e \<in> set evs. failing_for c url e" and "unat (phc_failure_threshold c) \<le> length evs"
  shows "\<not> phk_is_healthy (foldl phk_apply (phk_new c) (before @ evs)) url"
proof
  define k where "k = foldl phk_apply (phk_new c) before"
  assume "phk_is_healthy (foldl phk_apply (phk_new c) (before @ evs)) url"
  then have H: "phk_is_healthy (foldl phk_apply k evs) url" by (simp add: k_def)
  have c: "phk_config k = c" by (simp add: k_def phk_config_run phk_new_def)
  have I: "phk_inv k" by (simp add: k_def phk_inv_run phk_inv_new)
  have "length evs \<le> unat (bs_consecutive_failures (phk_state (foldl phk_apply k evs) url))"
    using phk_failures_count [OF I _ _ H] assms(1,3) c by simp
  moreover have "bs_inv c (phk_state (foldl phk_apply k evs) url)"
    using phk_inv_run [OF I, of evs] by (simp add: phk_inv_def phk_config_run c)
  ultimately show False using H assms(2,4)
    by (auto simp: bs_inv_def phk_is_healthy_state word_less_nat_alt unat_eq_zero)
qed

definition phc_example :: passive_health_config where
  "phc_example = \<lparr>phc_failure_threshold = 2, phc_success_threshold = 2,
     phc_failure_status_codes = [500, 502, 503, 504], phc_response_time_threshold_ms = None,
     phc_window_duration = 100, phc_recovery_interval = 50\<rparr>"

theorem passive_detects_failures_witness:
  "\<not> phk_is_healthy (foldl phk_apply (phk_new phc_example)
     ([(''a'', 200, 5, 1, 1)] @ [(''a'', 503, 5, 2, 2), (''a'', 500, 5, 3, 3)])) ''a''"
proof -
  have "phc_success_threshold phc_example \<noteq> 0" "phc_failure_threshold phc_example \<noteq> 0"
    "unat (phc_failure_threshold phc_example) = 2"
    "\<forall>e \<in> set [(''a'', 503, 5, 2, 2), (''a'', 500, 5, 3, 3)]. failing_for phc_example ''a'' e"
    by code_simp+
  with passive_detects_failures [of phc_example "[(''a'', 503, 5, 2, 2), (''a'', 500, 5, 3, 3)]" "''a''"
      "[(''a'', 200, 5, 1, 1)]"] show ?thesis by simp
qed

text \<open>
  Recovery does not clear the sliding window, so a backend that has just recovered is marked
  unhealthy again by its next successful response while the old failures are still in the window:
  after two failures and two successes the backend is healthy, and a third success reports
  \<open>BecameUnhealthy\<close>.
\<close>

theorem success_marks_unhealthy:
  "let k = foldl phk_apply (phk_new phc_example)
       [(''a'', 500, 5, 1, 1), (''a'', 500, 5, 2, 2), (''a'', 200, 5, 3, 3), (''a'', 200, 5, 4, 4)]
   in phk_is_healthy k ''a'' \<and> fst (phk_record_response ''a'' 200 5 5 5 k) = BecameUnhealthy"
  by code_simp

end
