(* ===== verification/Store_Iface.thy ===== *)
theory Store_Iface
  imports Dict Rust_Std
begin

text \<open>
  The data of \<open>src/src/store/mod.rs\<close> and the two parts of the trait \<open>Store\<close> other components rely
  on, as locales: \<open>session_store\<close> (sticky sessions with a time to live) and \<open>lease_store\<close> (leader
  election by leases). The client lemmas of a locale hold for every store that keeps its laws;
  the local store interprets both.
\<close>

datatype store_error =
    Connection string
  | Timeout
  | NotFound string
  | Serialization string
  | Unavailable

record store_health_status =
  shs_healthy :: bool
  shs_last_check :: u64
  shs_consecutive_failures :: u32
  shs_last_error :: "string option"

definition shs_default :: store_health_status where
  "shs_default = \<lparr>shs_healthy = True, shs_last_check = 0, shs_consecutive_failures = 0, shs_last_error = None\<rparr>"

datatype node_status = NodeActive | NodeDraining | NodeUnhealthy

record node_info =
  ni_node_id :: string
  ni_address :: string
  ni_status :: node_status
  ni_active_connections :: u64
  ni_last_heartbeat :: u64
  ni_started_at :: u64
  ni_version :: string

section \<open>Sessions\<close>

text \<open>
  \<open>sget now service session s\<close> is the live server URL. The names the laws speak about are those
  \<open>plain\<close> accepts; the key of a session is built from them without escaping.
\<close>

locale session_store =
  fixes sget :: "instant \<Rightarrow> string \<Rightarrow> string \<Rightarrow> 's \<Rightarrow> string option"
    and sset :: "instant \<Rightarrow> string \<Rightarrow> string \<Rightarrow> string \<Rightarrow> duration \<Rightarrow> 's \<Rightarrow> 's"
    and sdel :: "string \<Rightarrow> string \<Rightarrow> 's \<Rightarrow> 's"
    and plain :: "string \<Rightarrow> bool"
  assumes sget_sset: "plain svc \<Longrightarrow> plain svc' \<Longrightarrow>
      sget now' svc' sid' (sset now svc sid url ttl s) =
        (if svc' = svc \<and> sid' = sid then (if now' < now + ttl then Some url else None)
         else sget now' svc' sid' s)"
    and sget_sdel: "plain svc \<Longrightarrow> plain svc' \<Longrightarrow>
      sget now' svc' sid' (sdel svc sid s) = (if svc' = svc \<and> sid' = sid then None else sget now' svc' sid' s)"
begin

lemma session_affinity:
  assumes "plain svc" and "now' < now + ttl"
    and "\<forall>(t, svc', sid', u, d) \<in> set later. plain svc' \<and> (svc', sid') \<noteq> (svc, sid)"
  shows "sget now' svc sid (foldl (\<lambda>s (t, svc', sid', u, d). sset t svc' sid' u d s) (sset now svc sid url ttl s) later) = Some url"
proof -
  have "sget now' svc sid (foldl (\<lambda>s (t, svc', sid', u, d). sset t svc' sid' u d s) s' later) = sget now' svc sid s'" for s'
    using assms(3)
  proof (induction later arbitrary: s')
    case (Cons e later)
    obtain t svc' sid' u d where e: "e = (t, svc', sid', u, d)" by (cases e)
    then have "sget now' svc sid (sset t svc' sid' u d s') = sget now' svc sid s'"
      using Cons.prems sget_sset [of svc' svc now' sid t sid' u d s'] assms(1) by auto
    then show ?case using Cons by (simp add: e)
  qed simp
  then show ?thesis using assms(1,2) by (simp add: sget_sset)
qed

end

section \<open>Leases\<close>

datatype lease_op =
    Acquire instant string duration
  | Release string

fun lease_step :: "(instant \<Rightarrow> string \<Rightarrow> duration \<Rightarrow> 's \<Rightarrow> bool \<times> 's) \<Rightarrow> (string \<Rightarrow> 's \<Rightarrow> 's) \<Rightarrow> 's \<Rightarrow> lease_op \<Rightarrow> 's" where
  "lease_step acq rel s (Acquire t n ttl) = snd (acq t n ttl s)"
| "lease_step acq rel s (Release n) = rel n s"

text \<open>The operations on one task.\<close>

locale lease_store =
  fixes acquire :: "instant \<Rightarrow> string \<Rightarrow> duration \<Rightarrow> 's \<Rightarrow> bool \<times> 's"
    and release :: "string \<Rightarrow> 's \<Rightarrow> 's"
    and holder :: "instant \<Rightarrow> 's \<Rightarrow> string option"
  assumes acquire_ok: "fst (acquire now n ttl s) \<longleftrightarrow> (holder now s = None \<or> holder now s = Some n)"
    and holder_acquired: "fst (acquire now n ttl s) \<Longrightarrow>
      holder now' (snd (acquire now n ttl s)) = (if now' < now + ttl then Some n else None)"
    and acquire_refused: "\<not> fst (acquire now n ttl s) \<Longrightarrow> snd (acquire now n ttl s) = s"
    and release_other: "holder now s = Some n \<Longrightarrow> m \<noteq> n \<Longrightarrow> holder now (release m s) = Some n"
    and release_own: "holder now s = Some n \<Longrightarrow> holder now (release n s) = None"
    and holder_earlier: "holder now' s = Some n \<Longrightarrow> now \<le> now' \<Longrightarrow> holder now s = Some n"
begin

text \<open>Operations of other nodes, not after \<open>until\<close>, do not end a lease that lasts until then.\<close>

lemma lease_kept:
  assumes "holder until s = Some n"
    and "\<forall>op \<in> set ops. case op of Acquire t m ttl \<Rightarrow> m \<noteq> n \<and> t \<le> until | Release m \<Rightarrow> m \<noteq> n"
  shows "holder until (foldl (lease_step acquire release) s ops) = Some n"
  using assms
proof (induction ops arbitrary: s)
  case (Cons op ops)
  have "holder until (lease_step acquire release s op) = Some n"
  proof (cases op)
    case (Acquire t m ttl)
    with Cons.prems have m: "m \<noteq> n" "t \<le> until" by auto
    have "holder t s = Some n" using Cons.prems(1) m(2) by (rule holder_earlier)
    then have "\<not> fst (acquire t m ttl s)" using acquire_ok m(1) by simp
    then show ?thesis using Cons.prems(1) Acquire acquire_refused by simp
  next
    case (Release m)
    then show ?thesis using Cons.prems release_other by simp
  qed
  then show ?case using Cons by simp
qed simp

lemma lease_excludes:
  assumes "fst (acquire now n ttl s)" and "now' < now + ttl" and "m \<noteq> n"
    and "\<forall>op \<in> set ops. case op of Acquire t k d \<Rightarrow> k \<noteq> n \<and> t \<le> now' | Release k \<Rightarrow> k \<noteq> n"
  shows "\<not> fst (acquire now' m ttl' (foldl (lease_step acquire release) (snd (acquire now n ttl s)) ops))"
proof -
  have "holder now' (snd (acquire now n ttl s)) = Some n"
    using holder_acquired [OF assms(1)] assms(2) by simp
  from lease_kept [OF this assms(4)] show ?thesis using acquire_ok assms(3) by simp
qed

end

text \<open>
  The part of the contract that also holds when a call may fail on the way: \<open>at\<close> is the time at
  which the store carries a call out, \<open>lasts\<close> the time for which it keeps a lease. A call that
  reports an error may or may not have taken effect.
\<close>

locale lease_safe =
  fixes at :: "'f \<Rightarrow> instant"
    and acquire :: "'f \<Rightarrow> string \<Rightarrow> duration \<Rightarrow> 's \<Rightarrow> (store_error + bool) \<times> 's"
    and release :: "'f \<Rightarrow> string \<Rightarrow> 's \<Rightarrow> (store_error + unit) \<times> 's"
    and holder :: "instant \<Rightarrow> 's \<Rightarrow> string option"
    and lasts :: "duration \<Rightarrow> duration"
  assumes granted_free: "fst (acquire f n ttl s) = Inr True \<Longrightarrow> holder (at f) s = None \<or> holder (at f) s = Some n"
    and granted_holds: "fst (acquire f n ttl s) = Inr True \<Longrightarrow> u < at f + lasts ttl \<Longrightarrow>
      holder u (snd (acquire f n ttl s)) = Some n"
    and acquire_other: "holder u s = Some n \<Longrightarrow> m \<noteq> n \<Longrightarrow> at f \<le> u \<Longrightarrow> holder u (snd (acquire f m ttl s)) = Some n"
    and release_keeps: "holder u s = Some n \<Longrightarrow> m \<noteq> n \<Longrightarrow> holder u (snd (release f m s)) = Some n"
    and held_before: "holder u s = Some n \<Longrightarrow> t \<le> u \<Longrightarrow> holder t s = Some n"
begin

lemma no_grant_while_held:
  assumes "holder u s = Some n" and "at f \<le> u" and "fst (acquire f m ttl s) = Inr True"
  shows "m = n"
  using granted_free [OF assms(3)] held_before [OF assms(1,2)] by auto

end

text \<open>A store whose calls never fail has it.\<close>

sublocale lease_store \<subseteq> safe: lease_safe "\<lambda>t. t" "\<lambda>t n ttl s. map_prod Inr id (acquire t n ttl s)"
  "\<lambda>t n s. (Inr (), release n s)" holder "\<lambda>ttl. ttl"
proof
  fix u s n m f ttl and t :: instant
  show "holder f s = None \<or> holder f s = Some n" if "fst (map_prod Inr id (acquire f n ttl s)) = Inr True"
    using that acquire_ok [of f n ttl s] by simp
  show "holder u (snd (map_prod Inr id (acquire f n ttl s))) = Some n"
    if "fst (map_prod Inr id (acquire f n ttl s)) = Inr True" "u < f + ttl"
    using that holder_acquired [of f n ttl s u] by simp
  show "holder t s = Some n" if "holder u s = Some n" "t \<le> u" using that by (rule holder_earlier)
  assume h: "holder u s = Some n" "m \<noteq> n"
  show "holder u (snd (Inr (), release m s)) = Some n" using release_other h by simp
  assume "f \<le> u"
  with h(1) have "holder f s = Some n" by (rule holder_earlier)
  then have "\<not> fst (acquire f m ttl s)" using acquire_ok [of f m ttl s] h(2) by simp
  then show "holder u (snd (map_prod Inr id (acquire f m ttl s))) = Some n" using acquire_refused [of f m ttl s] h(1) by simp
qed

end
