(* ===== verification/Local_Store.thy ===== *)
theory Local_Store
  imports Store_Iface
begin

text \<open>
  \<open>LocalStore\<close> of \<open>src/src/store/local.rs\<close>: the concurrent maps as association lists, every
  operation of the trait \<open>Store\<close> as a function of the clock readings it takes (\<open>now\<close> for the
  monotonic clock, \<open>wall\<close> for \<open>current_time_millis\<close>). The broadcast channels are the lists of
  the messages sent on them. Every operation of this store succeeds, so results carry no error.
\<close>

record rate_limit_entry =
  rle_count :: u64
  rle_window_start :: instant

record sticky_entry =
  ste_server_url :: string
  ste_expires_at :: instant

record circuit_breaker_entry =
  cbe_failures :: u64
  cbe_window_start :: instant

record acme_entry =
  ace_auth :: string
  ace_expires_at :: instant

record leader_entry =
  lde_node_id :: string
  lde_expires_at :: instant

record local_store =
  ls_rate_limits :: "rate_limit_entry dict"
  ls_sticky_sessions :: "sticky_entry dict"
  ls_health_state :: "store_health_status dict"
  ls_circuit_breakers :: "circuit_breaker_entry dict"
  ls_nodes :: "node_info dict"
  ls_config_content :: "string option"
  ls_config_version :: u64
  ls_acme_challenges :: "acme_entry dict"
  ls_leaders :: "leader_entry dict"
  ls_config_tx :: nat
  ls_health_tx :: "(string \<times> string \<times> store_health_status) list"
  ls_drain_tx :: "string list"

definition ls_new :: local_store where
  "ls_new = \<lparr>ls_rate_limits = [], ls_sticky_sessions = [], ls_health_state = [], ls_circuit_breakers = [],
     ls_nodes = [], ls_config_content = None, ls_config_version = 0, ls_acme_challenges = [], ls_leaders = [],
     ls_config_tx = 0, ls_health_tx = [], ls_drain_tx = []\<rparr>"

definition secs :: "nat \<Rightarrow> duration" where
  "secs n = n * 1000000000"

definition ls_cleanup :: "instant \<Rightarrow> local_store \<Rightarrow> local_store" where
  "ls_cleanup now s = s\<lparr>
     ls_rate_limits := dict_retain (\<lambda>_ e. now - rle_window_start e < secs 120) (ls_rate_limits s),
     ls_sticky_sessions := dict_retain (\<lambda>_ e. ste_expires_at e > now) (ls_sticky_sessions s),
     ls_circuit_breakers := dict_retain (\<lambda>_ e. now - cbe_window_start e < secs 300) (ls_circuit_breakers s),
     ls_acme_challenges := dict_retain (\<lambda>_ e. ace_expires_at e > now) (ls_acme_challenges s),
     ls_leaders := dict_retain (\<lambda>_ e. lde_expires_at e > now) (ls_leaders s)\<rparr>"

section \<open>Rate limiting\<close>

definition u64_saturating_sub :: "u64 \<Rightarrow> u64 \<Rightarrow> u64" where
  "u64_saturating_sub a b = (if a < b then 0 else a - b)"

definition ls_rate_limit_check :: "instant \<Rightarrow> u64 \<Rightarrow> string \<Rightarrow> u64 \<Rightarrow> u64 \<Rightarrow> local_store
    \<Rightarrow> (bool \<times> u64 \<times> u64) \<times> local_store" where
  "ls_rate_limit_check now wall key limit window_secs s =
     (let window_duration = secs (unat window_secs);
          entry = (case dict_get (ls_rate_limits s) key of
                     Some e \<Rightarrow> e | None \<Rightarrow> \<lparr>rle_count = 0, rle_window_start = now\<rparr>);
          put = (\<lambda>e. s\<lparr>ls_rate_limits := dict_insert key e (ls_rate_limits s)\<rparr>);
          elapsed = now - rle_window_start entry
      in if elapsed \<ge> window_duration
         then ((True, u64_saturating_sub limit 1, wall + window_secs * 1000), put (entry\<lparr>rle_count := 1\<rparr>))
         else
           let current = rle_count entry;
               reset_time = wall + of_nat ((window_duration - elapsed) div 1000000)
           in if current < limit
              then ((True, u64_saturating_sub limit (current + 1), reset_time), put (entry\<lparr>rle_count := current + 1\<rparr>))
              else ((False, 0, reset_time), put (entry\<lparr>rle_count := current + 1 - 1\<rparr>)))"

definition ls_rate_limit_remaining :: "string \<Rightarrow> u64 \<Rightarrow> local_store \<Rightarrow> u64" where
  "ls_rate_limit_remaining key limit s =
     (case dict_get (ls_rate_limits s) key of
        Some e \<Rightarrow> u64_saturating_sub limit (rle_count e) | None \<Rightarrow> limit)"

section \<open>Sticky sessions\<close>

definition store_key :: "string \<Rightarrow> string \<Rightarrow> string" where
  "store_key a b = a @ '':'' @ b"

definition ls_sticky_session_get :: "instant \<Rightarrow> string \<Rightarrow> string \<Rightarrow> local_store \<Rightarrow> string option" where
  "ls_sticky_session_get now service session_id s =
     (case dict_get (ls_sticky_sessions s) (store_key service session_id) of
        Some e \<Rightarrow> if ste_expires_at e > now then Some (ste_server_url e) else None
      | None \<Rightarrow> None)"

definition ls_sticky_session_set :: "instant \<Rightarrow> string \<Rightarrow> string \<Rightarrow> string \<Rightarrow> duration \<Rightarrow> local_store \<Rightarrow> local_store" where
  "ls_sticky_session_set now service session_id server_url ttl s =
     s\<lparr>ls_sticky_sessions := dict_insert (store_key service session_id)
         \<lparr>ste_server_url = server_url, ste_expires_at = now + ttl\<rparr> (ls_sticky_sessions s)\<rparr>"

definition ls_sticky_session_delete :: "string \<Rightarrow> string \<Rightarrow> local_store \<Rightarrow> local_store" where
  "ls_sticky_session_delete service session_id s =
     s\<lparr>ls_sticky_sessions := dict_remove (store_key service session_id) (ls_sticky_sessions s)\<rparr>"

section \<open>Health state\<close>

definition ls_health_get :: "string \<Rightarrow> string \<Rightarrow> local_store \<Rightarrow> store_health_status option" where
  "ls_health_get service server_url s = dict_get (ls_health_state s) (store_key service server_url)"

definition ls_health_set :: "string \<Rightarrow> string \<Rightarrow> store_health_status \<Rightarrow> local_store \<Rightarrow> local_store" where
  "ls_health_set service server_url status s =
     s\<lparr>ls_health_state := dict_insert (store_key service server_url) status (ls_health_state s),
       ls_health_tx := ls_health_tx s @ [(service, server_url, status)]\<rparr>"

fun health_collect :: "string \<Rightarrow> store_health_status dict \<Rightarrow> store_health_status dict \<Rightarrow> store_health_status dict" where
  "health_collect prefix [] result = result"
| "health_collect prefix ((key, v) # es) result =
     health_collect prefix es
       (case strip_prefix prefix key of Some url \<Rightarrow> dict_insert url v result | None \<Rightarrow> result)"

definition ls_health_get_all :: "string \<Rightarrow> local_store \<Rightarrow> store_health_status dict" where
  "ls_health_get_all service s = health_collect (service @ '':'') (ls_health_state s) []"

section \<open>Circuit breaker counts\<close>

definition ls_circuit_breaker_fail :: "instant \<Rightarrow> string \<Rightarrow> u64 \<Rightarrow> local_store \<Rightarrow> u64 \<times> local_store" where
  "ls_circuit_breaker_fail now service window_secs s =
     (let entry = (case dict_get (ls_circuit_breakers s) service of
                     Some e \<Rightarrow> e | None \<Rightarrow> \<lparr>cbe_failures = 0, cbe_window_start = now\<rparr>);
          put = (\<lambda>e. s\<lparr>ls_circuit_breakers := dict_insert service e (ls_circuit_breakers s)\<rparr>)
      in if now - cbe_window_start entry \<ge> secs (unat window_secs)
         then (1, put (entry\<lparr>cbe_failures := 1\<rparr>))
         else (cbe_failures entry + 1, put (entry\<lparr>cbe_failures := cbe_failures entry + 1\<rparr>)))"

definition ls_circuit_breaker_success :: "string \<Rightarrow> local_store \<Rightarrow> local_store" where
  "ls_circuit_breaker_success service s = s\<lparr>ls_circuit_breakers := dict_remove service (ls_circuit_breakers s)\<rparr>"

definition ls_circuit_breaker_failures :: "string \<Rightarrow> local_store \<Rightarrow> u64" where
  "ls_circuit_breaker_failures service s =
     (case dict_get (ls_circuit_breakers s) service of Some e \<Rightarrow> cbe_failures e | None \<Rightarrow> 0)"

section \<open>Node registry and configuration\<close>

definition ls_node_register :: "node_info \<Rightarrow> local_store \<Rightarrow> local_store" where
  "ls_node_register info s = s\<lparr>ls_nodes := dict_insert (ni_node_id info) info (ls_nodes s)\<rparr>"

definition ls_node_heartbeat :: "u64 \<Rightarrow> string \<Rightarrow> u64 \<Rightarrow> local_store \<Rightarrow> local_store" where
  "ls_node_heartbeat wall node_id connections s =
     (case dict_get (ls_nodes s) node_id of
        Some e \<Rightarrow> s\<lparr>ls_nodes := dict_insert node_id
            (e\<lparr>ni_last_heartbeat := wall, ni_active_connections := connections\<rparr>) (ls_nodes s)\<rparr>
      | None \<Rightarrow> s)"

definition ls_node_set_status :: "string \<Rightarrow> node_status \<Rightarrow> local_store \<Rightarrow> local_store" where
  "ls_node_set_status node_id status s =
     (case dict_get (ls_nodes s) node_id of
        Some e \<Rightarrow>
          (let s' = s\<lparr>ls_nodes := dict_insert node_id (e\<lparr>ni_status := status\<rparr>) (ls_nodes s)\<rparr>
           in if status = NodeDraining then s'\<lparr>ls_drain_tx := ls_drain_tx s' @ [node_id]\<rparr> else s')
      | None \<Rightarrow> s)"

definition ls_node_get :: "string \<Rightarrow> local_store \<Rightarrow> node_info option" where
  "ls_node_get node_id s = dict_get (ls_nodes s) node_id"

definition ls_node_list :: "local_store \<Rightarrow> node_info list" where
  "ls_node_list s = map snd (ls_nodes s)"

definition ls_node_deregister :: "string \<Rightarrow> local_store \<Rightarrow> local_store" where
  "ls_node_deregister node_id s = s\<lparr>ls_nodes := dict_remove node_id (ls_nodes s)\<rparr>"

definition ls_config_set :: "string \<Rightarrow> local_store \<Rightarrow> u64 \<times> local_store" where
  "ls_config_set content s =
     (let new_version = ls_config_version s + 1
      in (new_version, s\<lparr>ls_config_version := new_version, ls_config_content := Some content,
            ls_config_tx := ls_config_tx s + 1\<rparr>))"

section \<open>ACME challenges and leader election\<close>

definition ls_acme_challenge_set :: "instant \<Rightarrow> string \<Rightarrow> string \<Rightarrow> duration \<Rightarrow> local_store \<Rightarrow> local_store" where
  "ls_acme_challenge_set now token auth ttl s =
     s\<lparr>ls_acme_challenges := dict_insert token \<lparr>ace_auth = auth, ace_expires_at = now + ttl\<rparr> (ls_acme_challenges s)\<rparr>"

definition ls_acme_challenge_get :: "instant \<Rightarrow> string \<Rightarrow> local_store \<Rightarrow> string option" where
  "ls_acme_challenge_get now token s =
     (case dict_get (ls_acme_challenges s) token of
        Some e \<Rightarrow> if ace_expires_at e > now then Some (ace_auth e) else None | None \<Rightarrow> None)"

definition ls_acme_challenge_delete :: "string \<Rightarrow> local_store \<Rightarrow> local_store" where
  "ls_acme_challenge_delete token s = s\<lparr>ls_acme_challenges := dict_remove token (ls_acme_challenges s)\<rparr>"

definition ls_leader_acquire :: "instant \<Rightarrow> string \<Rightarrow> string \<Rightarrow> duration \<Rightarrow> local_store \<Rightarrow> bool \<times> local_store" where
  "ls_leader_acquire now task node_id ttl s =
     (let refuse = (case dict_get (ls_leaders s) task of
            Some e \<Rightarrow> lde_expires_at e > now \<and> lde_node_id e \<noteq> node_id | None \<Rightarrow> False)
      in if refuse then (False, s)
         else (True, s\<lparr>ls_leaders := dict_insert task
                \<lparr>lde_node_id = node_id, lde_expires_at = now + ttl\<rparr> (ls_leaders s)\<rparr>))"

definition ls_leader_release :: "string \<Rightarrow> string \<Rightarrow> local_store \<Rightarrow> local_store" where
  "ls_leader_release task node_id s =
     (case dict_get (ls_leaders s) task of
        Some e \<Rightarrow> if lde_node_id e = node_id then s\<lparr>ls_leaders := dict_remove task (ls_leaders s)\<rparr> else s
      | None \<Rightarrow> s)"

definition ls_leader_get :: "instant \<Rightarrow> string \<Rightarrow> local_store \<Rightarrow> string option" where
  "ls_leader_get now task s =
     (case dict_get (ls_leaders s) task of
        Some e \<Rightarrow> if lde_expires_at e > now then Some (lde_node_id e) else None | None \<Rightarrow> None)"

section \<open>Interpretations\<close>

lemma store_key_inject:
  assumes "CHR '':'' \<notin> set a" and "CHR '':'' \<notin> set a'"
  shows "store_key a b = store_key a' b' \<longleftrightarrow> a = a' \<and> b = b'"
proof
  assume "store_key a b = store_key a' b'"
  then have "split_once '':'' (a @ CHR '':'' # b) = split_once '':'' (a' @ CHR '':'' # b')"
    by (simp add: store_key_def)
  then show "a = a' \<and> b = b'" using split_once_char [OF assms(1), of b] split_once_char [OF assms(2), of b'] by simp
qed simp

interpretation lss: session_store ls_sticky_session_get ls_sticky_session_set ls_sticky_session_delete
  "\<lambda>svc. CHR '':'' \<notin> set svc"
  by unfold_locales
    (auto simp: ls_sticky_session_get_def ls_sticky_session_set_def ls_sticky_session_delete_def dict_simps
      store_key_inject)

interpretation lsl: lease_store "\<lambda>now n ttl. ls_leader_acquire now task n ttl" "ls_leader_release task"
  "\<lambda>now. ls_leader_get now task" for task
  by unfold_locales
    (auto simp: ls_leader_acquire_def ls_leader_release_def ls_leader_get_def dict_simps Let_def
      split: option.splits if_splits)

section \<open>Well-formedness\<close>

definition ls_wf :: "local_store \<Rightarrow> bool" where
  "ls_wf s \<longleftrightarrow> dict_wf (ls_rate_limits s) \<and> dict_wf (ls_sticky_sessions s) \<and> dict_wf (ls_health_state s) \<and>
     dict_wf (ls_circuit_breakers s) \<and> dict_wf (ls_nodes s) \<and> dict_wf (ls_acme_challenges s) \<and> dict_wf (ls_leaders s)"

lemma ls_wf_new: "ls_wf ls_new"
  by (simp add: ls_wf_def ls_new_def)

lemma ls_wf_ops:
  assumes "ls_wf s"
  shows "ls_wf (ls_cleanup now s)" "ls_wf (snd (ls_rate_limit_check now wall k l w s))"
    "ls_wf (ls_sticky_session_set now a b u d s)" "ls_wf (ls_sticky_session_delete a b s)"
    "ls_wf (ls_health_set a b hs s)" "ls_wf (snd (ls_circuit_breaker_fail now a w s))"
    "ls_wf (ls_circuit_breaker_success a s)" "ls_wf (ls_node_register info s)"
    "ls_wf (ls_node_heartbeat wall n c s)" "ls_wf (ls_node_set_status n st s)" "ls_wf (ls_node_deregister n s)"
    "ls_wf (snd (ls_config_set cfg s))" "ls_wf (ls_acme_challenge_set now tk au d s)"
    "ls_wf (ls_acme_challenge_delete tk s)" "ls_wf (snd (ls_leader_acquire now task n d s))"
    "ls_wf (ls_leader_release task n s)"
  using assms
  by (simp_all add: ls_wf_def ls_cleanup_def ls_rate_limit_check_def ls_sticky_session_set_def
      ls_sticky_session_delete_def ls_health_set_def ls_circuit_breaker_fail_def ls_circuit_breaker_success_def
      ls_node_register_def ls_node_heartbeat_def ls_node_set_status_def ls_node_deregister_def ls_config_set_def
      ls_acme_challenge_set_def ls_acme_challenge_delete_def ls_leader_acquire_def ls_leader_release_def
      Let_def dict_wf_intros split: option.split)

section \<open>Properties\<close>



text \<open>
  C15. Sticky sessions are isolated: with service names that contain no colon, a session stays bound
  to its server until its time to live ends, whatever sessions of the same or other services are
  stored meanwhile.
\<close>

theorem sticky_session_affinity:
  assumes "CHR '':'' \<notin> set svc" and "now' < now + ttl"
    and "\<forall>(t, svc', sid', u, d) \<in> set later. CHR '':'' \<notin> set svc' \<and> (svc', sid') \<noteq> (svc, sid)"
  shows "ls_sticky_session_get now' svc sid
    (foldl (\<lambda>s (t, svc', sid', u, d). ls_sticky_session_set t svc' sid' u d s)
      (ls_sticky_session_set now svc sid url ttl s) later) = Some url"
  using assms by (rule lss.session_affinity)

theorem sticky_session_affinity_witness:
  "ls_sticky_session_get 8 ''web'' ''s1''
    (foldl (\<lambda>s (t, svc', sid', u, d). ls_sticky_session_set t svc' sid' u d s)
      (ls_sticky_session_set 1 ''web'' ''s1'' ''http://a'' 10 ls_new) [(2, ''api'', ''s1'', ''http://b'', 5)]) = Some ''http://a''"
proof -
  have "\<forall>(t, svc', sid', u, d) \<in> set [(2, ''api'', ''s1'', ''http://b'', 5)].
      CHR '':'' \<notin> set svc' \<and> (svc', sid') \<noteq> (''web'', ''s1'')" by code_simp
  from sticky_session_affinity [OF _ _ this, of 8 1 10 "''http://a''" ls_new] show ?thesis by simp
qed

text \<open>
  Keys are not escaped: services whose names contain a colon share sessions with others. A
  session of service \<open>a:b\<close> is returned for service \<open>a\<close>.
\<close>

theorem sticky_session_key_collision:
  "ls_sticky_session_get 2 ''a'' ''b:c'' (ls_sticky_session_set 1 ''a:b'' ''c'' ''http://x'' 10 ls_new) = Some ''http://x''"
  by code_simp

text \<open>One request for a key within the window of its entry.\<close>

lemma rate_limit_in_window:
  assumes "dict_get (ls_rate_limits s) key = Some e" and "now - rle_window_start e < secs (unat w)"
    and "rle_count e \<le> limit"
  shows "fst (fst (ls_rate_limit_check now wall key limit w s)) \<longleftrightarrow> rle_count e < limit"
    and "dict_get (ls_rate_limits (snd (ls_rate_limit_check now wall key limit w s))) key =
      Some (if rle_count e < limit then e\<lparr>rle_count := rle_count e + 1\<rparr> else e)"
  using assms by (simp_all add: ls_rate_limit_check_def Let_def dict_simps)

definition rate_limit_results :: "string \<Rightarrow> u64 \<Rightarrow> u64 \<Rightarrow> (instant \<times> u64) list \<Rightarrow> local_store \<Rightarrow> bool list" where
  "rate_limit_results key limit w reqs s0 =
     fst (foldl (\<lambda>(rs, s) (now, wall). let (r, s') = ls_rate_limit_check now wall key limit w s in (rs @ [fst r], s')) ([], s0) reqs)"

lemma rate_limit_results_aux:
  assumes "dict_get (ls_rate_limits s) key = Some e" and "rle_count e \<le> limit"
    and "\<forall>(now, wall) \<in> set reqs. now - rle_window_start e < secs (unat w)"
  shows "fst (foldl (\<lambda>(rs, s) (now, wall). let (r, s') = ls_rate_limit_check now wall key limit w s in (rs @ [fst r], s')) (rs0, s) reqs) =
    rs0 @ map (\<lambda>i. unat (rle_count e) + i < unat limit) [0..<length reqs]"
  using assms
proof (induction reqs arbitrary: s e rs0)
  case Nil
  then show ?case by simp
next
  case (Cons q reqs)
  obtain now wall where q: "q = (now, wall)" by (cases q)
  let ?s = "snd (ls_rate_limit_check now wall key limit w s)"
  let ?e = "if rle_count e < limit then e\<lparr>rle_count := rle_count e + 1\<rparr> else e"
  have w: "now - rle_window_start e < secs (unat w)" using Cons.prems(3) by (simp add: q)
  note step = rate_limit_in_window [OF Cons.prems(1) w Cons.prems(2), of wall]
  have u: "unat (rle_count e + 1) = unat (rle_count e) + 1" if "rle_count e < limit"
    using that by (rule unat_succ_below)
  have le: "rle_count ?e \<le> limit" using Cons.prems(2) u by (simp add: word_le_nat_alt word_less_nat_alt)
  have ws: "rle_window_start ?e = rle_window_start e" by simp
  have "(\<lambda>i. unat (rle_count ?e) + i < unat limit) = (\<lambda>i. unat (rle_count e) + Suc i < unat limit)"
    using u Cons.prems(2) by (auto simp: word_le_nat_alt word_less_nat_alt fun_eq_iff)
  with Cons.IH [OF step(2) le, of "rs0 @ [fst (fst (ls_rate_limit_check now wall key limit w s))]"] Cons.prems(3) ws step(1)
  show ?case
    by (simp add: q split_beta Let_def map_upt_Suc_Cons word_less_nat_alt del: upt_Suc)
qed

text \<open>
  Within one window the local rate limiter admits exactly the first \<open>limit\<close> requests of a key
  and refuses the rest: of any number of requests less than a window after the first, request
  number \<open>i\<close> (from zero) is admitted if and only if \<open>i < limit\<close>.
\<close>

theorem rate_limit_first_window:
  assumes "dict_get (ls_rate_limits s) key = None" and "0 < w"
    and "\<forall>(now, wall) \<in> set reqs. now - t0 < secs (unat w)"
  shows "rate_limit_results key limit w ((t0, wall0) # reqs) s = map (\<lambda>i. i < unat limit) [0..<Suc (length reqs)]"
proof -
  let ?r = "ls_rate_limit_check t0 wall0 key limit w s"
  let ?e = "\<lparr>rle_count = if 0 < limit then 1 else 0, rle_window_start = t0\<rparr>"
  have "0 < secs (unat w)" using assms(2) by (simp add: secs_def word_less_nat_alt)
  then have r: "fst (fst ?r) \<longleftrightarrow> 0 < limit" "dict_get (ls_rate_limits (snd ?r)) key = Some ?e"
    using assms(1) by (auto simp: ls_rate_limit_check_def Let_def dict_simps)
  have le: "rle_count ?e \<le> limit" by (simp add: word_le_nat_alt word_less_nat_alt)
  have f: "(\<lambda>i. unat (rle_count ?e) + i < unat limit) = (\<lambda>i. Suc i < unat limit)"
    by (auto simp: fun_eq_iff word_less_nat_alt)
  have "fst (foldl (\<lambda>(rs, s) (now, wall). let (r, s') = ls_rate_limit_check now wall key limit w s in (rs @ [fst r], s'))
      ([fst (fst ?r)], snd ?r) reqs) = [fst (fst ?r)] @ map (\<lambda>i. Suc i < unat limit) [0..<length reqs]"
    using rate_limit_results_aux [OF r(2) le, of reqs w] assms(3) unfolding f by simp
  then show ?thesis
    by (simp add: rate_limit_results_def split_beta Let_def map_upt_Suc_Cons r(1) word_less_nat_alt del: upt_Suc)
qed

theorem rate_limit_first_window_witness:
  "rate_limit_results ''k'' 2 1 [(5, 0), (6, 0), (7, 0)] ls_new = [True, True, False]"
proof -
  have "\<forall>(now, wall) \<in> set [(6, 0), (7, 0 :: u64)]. now - 5 < secs (unat (1 :: u64))" by (simp add: secs_def)
  with rate_limit_first_window [of ls_new "''k''" 1 "[(6, 0), (7, 0)]" 5 2 0] show ?thesis
    by (simp add: ls_new_def upt_rec)
qed

lemma rate_limit_after_window:
  assumes "dict_get (ls_rate_limits s) key = Some e" and "secs (unat w) \<le> now - rle_window_start e"
  shows "fst (fst (ls_rate_limit_check now wall key limit w s))"
    and "dict_get (ls_rate_limits (snd (ls_rate_limit_check now wall key limit w s))) key = Some (e\<lparr>rle_count := 1\<rparr>)"
  using assms by (simp_all add: ls_rate_limit_check_def Let_def dict_simps)

text \<open>
  The window start is never moved: once the first window of a key has passed, every request for
  it is admitted, whatever the limit is and however many there are.
\<close>

theorem rate_limit_never_again:
  assumes "dict_get (ls_rate_limits s) key = Some e"
    and "\<forall>(now, wall) \<in> set reqs. secs (unat w) \<le> now - rle_window_start e"
  shows "rate_limit_results key limit w reqs s = replicate (length reqs) True"
proof -
  have "fst (foldl (\<lambda>(rs, s) (now, wall). let (r, s') = ls_rate_limit_check now wall key limit w s in (rs @ [fst r], s')) (rs0, s) reqs) =
      rs0 @ replicate (length reqs) True" for rs0
    using assms
  proof (induction reqs arbitrary: s e rs0)
    case (Cons q reqs)
    obtain now wall where q: "q = (now, wall)" by (cases q)
    have w: "secs (unat w) \<le> now - rle_window_start e" using Cons.prems(2) by (simp add: q)
    note step = rate_limit_after_window [OF Cons.prems(1) w, of wall limit]
    show ?case using Cons.IH [OF step(2)] Cons.prems(2) step(1) by (simp add: q split_beta Let_def)
  qed simp
  from this [of "[]"] show ?thesis by (simp add: rate_limit_results_def)
qed

theorem rate_limit_never_again_witness:
  "rate_limit_results ''k'' 1 1 [(2000000000, 0), (2000000001, 0), (2000000002, 0)]
     (snd (ls_rate_limit_check 5 0 ''k'' 1 1 ls_new)) = [True, True, True]"
proof -
  have "dict_get (ls_rate_limits (snd (ls_rate_limit_check 5 0 ''k'' 1 1 ls_new))) ''k'' =
      Some \<lparr>rle_count = 1, rle_window_start = 5\<rparr>"
    by (simp add: ls_rate_limit_check_def ls_new_def Let_def secs_def dict_simps)
  from rate_limit_never_again [OF this, of "[(2000000000, 0), (2000000001, 0), (2000000002, 0)]" 1 1]
  show ?thesis by (simp add: secs_def numeral_3_eq_3)
qed

text \<open>
  Cleaning up is not observable: at any later time, sessions, challenges and leaders read the
  same with or without a cleanup before.
\<close>

theorem cleanup_unobservable:
  assumes "ls_wf s" and "now \<le> now'"
  shows "ls_sticky_session_get now' svc sid (ls_cleanup now s) = ls_sticky_session_get now' svc sid s \<and>
    ls_acme_challenge_get now' token (ls_cleanup now s) = ls_acme_challenge_get now' token s \<and>
    ls_leader_get now' task (ls_cleanup now s) = ls_leader_get now' task s"
  using assms
  by (auto simp: ls_wf_def ls_cleanup_def ls_sticky_session_get_def ls_acme_challenge_get_def ls_leader_get_def
      dict_get_retain split: option.splits)

theorem cleanup_unobservable_witness:
  "ls_leader_get 30 ''t'' (ls_cleanup 20 (snd (ls_leader_acquire 5 ''t'' ''a'' 100 ls_new))) =
   ls_leader_get 30 ''t'' (snd (ls_leader_acquire 5 ''t'' ''a'' 100 ls_new))"
  using cleanup_unobservable [OF ls_wf_ops(15) [OF ls_wf_new], of 20 30] by simp

lemma health_collect_get:
  assumes "dict_wf es"
  shows "dict_get (health_collect p es result) u =
    (case dict_get es (p @ u) of Some v \<Rightarrow> Some v | None \<Rightarrow> dict_get result u)"
  using assms
proof (induction es arbitrary: result)
  case (Cons kv es)
  obtain k v where kv: "kv = (k, v)" by (cases kv)
  have k: "dict_get es k = None" using Cons.prems by (simp add: dict_wf_def kv dict_get_def map_of_eq_None_iff)
  have wf: "dict_wf es" using Cons.prems by (simp add: dict_wf_def)
  show ?case
  proof (cases "strip_prefix p k")
    case None
    then have "k \<noteq> p @ u" by auto
    then show ?thesis using Cons.IH [OF wf] None by (auto simp: kv dict_get_Cons)
  next
    case (Some url)
    then show ?thesis using Cons.IH [OF wf] k by (auto simp: kv dict_simps dict_get_Cons split: option.splits)
  qed
qed simp

text \<open>
  The bulk read agrees with the single reads: \<open>health_get_all\<close> of a service maps a server URL to
  exactly what \<open>health_get\<close> returns for it, and after \<open>health_set\<close> to the status just set.
\<close>

theorem health_get_all_agrees:
  assumes "ls_wf s"
  shows "dict_get (ls_health_get_all service s) url = ls_health_get service url s \<and>
    dict_get (ls_health_get_all service (ls_health_set service url status s)) url = Some status"
  using assms health_collect_get [of "ls_health_state s"]
    health_collect_get [of "ls_health_state (ls_health_set service url status s)"] ls_wf_ops(5) [OF assms]
  by (simp add: ls_health_get_all_def ls_health_get_def ls_wf_def store_key_def ls_health_set_def dict_simps
      split: option.split)

theorem health_get_all_agrees_witness:
  "dict_get (ls_health_get_all ''web'' (ls_health_set ''web'' ''http://a:1'' shs_default ls_new)) ''http://a:1'' = Some shs_default"
  using health_get_all_agrees [OF ls_wf_new] by simp

end
