(* ===== verification/Rule.thy ===== *)
theory Rule
  imports Rust_Std
begin

text \<open>
  The rule AST of \<open>src/src/router/rule.rs\<close>, its evaluation, the URL decoding of query parameters
  and the extraction of hosts. A compiled regular expression is a value of the type parameter
  \<open>'r\<close>, and \<open>is_match\<close> stands for \<open>Regex::is_match\<close>; the header map is a function from header
  names to the value of the header: \<open>None\<close> when it is absent and \<open>Some None\<close> when it is not
  readable as text.
\<close>

datatype 'r rule =
    RHost string
  | RHostRegex 'r
  | RPath string
  | RPathPrefix string
  | RPathRegex 'r
  | RHeader string string
  | RHeaderRegex string 'r
  | RQuery string string
  | RMethod string
  | RAnd "'r rule" "'r rule"
  | ROr "'r rule" "'r rule"
  | RNot "'r rule"

type_synonym headers = "string \<Rightarrow> string option option"

text \<open>
  \<open>url_decode\<close>: after a percent sign up to two hexadecimal digits are consumed; with fewer than two
  the sign and the digits that were read are kept.
\<close>

fun url_decode :: "string \<Rightarrow> string" where
  "url_decode [] = []"
| "url_decode (c # cs) =
     (if c = CHR ''%'' then
        (case cs of
           h1 # h2 # r \<Rightarrow>
             if is_hexdigit h1 \<and> is_hexdigit h2 then char_of (hex_value h1 * 16 + hex_value h2) # url_decode r
             else if is_hexdigit h1 then CHR ''%'' # h1 # url_decode (h2 # r)
             else CHR ''%'' # url_decode cs
         | [h1] \<Rightarrow> if is_hexdigit h1 then [CHR ''%'', h1] else CHR ''%'' # url_decode [h1]
         | [] \<Rightarrow> [CHR ''%''])
      else if c = CHR ''+'' then CHR '' '' # url_decode cs
      else c # url_decode cs)"

definition pair_matches :: "string \<Rightarrow> string \<Rightarrow> string \<Rightarrow> bool" where
  "pair_matches key expected_value pair =
     (case split_once ''='' pair of
        Some (k, v) \<Rightarrow> url_decode k = key \<and> url_decode v = expected_value
      | None \<Rightarrow> False)"

definition query_param_matches :: "string \<Rightarrow> string \<Rightarrow> string \<Rightarrow> bool" where
  "query_param_matches query key expected_value = list_ex (pair_matches key expected_value) (split_char (CHR ''&'') query)"

definition header_value :: "headers \<Rightarrow> string \<Rightarrow> string option" where
  "header_value headers name = (case headers name of Some (Some v) \<Rightarrow> Some v | _ \<Rightarrow> None)"

fun rule_matches :: "('r \<Rightarrow> string \<Rightarrow> bool) \<Rightarrow> string option \<Rightarrow> string \<Rightarrow> string option \<Rightarrow> string option \<Rightarrow> headers
    \<Rightarrow> 'r rule \<Rightarrow> bool" where
  "rule_matches im host path query mthd headers (RHost expected) =
     (case host of Some h \<Rightarrow> eq_ignore_ascii_case h expected | None \<Rightarrow> False)"
| "rule_matches im host path query mthd headers (RHostRegex re) =
     (case host of Some h \<Rightarrow> im re h | None \<Rightarrow> False)"
| "rule_matches im host path query mthd headers (RPath expected) = (path = expected)"
| "rule_matches im host path query mthd headers (RPathPrefix prefix) = starts_with prefix path"
| "rule_matches im host path query mthd headers (RPathRegex re) = im re path"
| "rule_matches im host path query mthd headers (RHeader name v) = (header_value headers name = Some v)"
| "rule_matches im host path query mthd headers (RHeaderRegex name re) =
     (case header_value headers name of Some v \<Rightarrow> im re v | None \<Rightarrow> False)"
| "rule_matches im host path query mthd headers (RQuery key v) =
     (case query of Some q \<Rightarrow> query_param_matches q key v | None \<Rightarrow> False)"
| "rule_matches im host path query mthd headers (RMethod expected) =
     (case mthd of Some m \<Rightarrow> eq_ignore_ascii_case m expected | None \<Rightarrow> False)"
| "rule_matches im host path query mthd headers (RAnd a b) =
     (rule_matches im host path query mthd headers a \<and> rule_matches im host path query mthd headers b)"
| "rule_matches im host path query mthd headers (ROr a b) =
     (rule_matches im host path query mthd headers a \<or> rule_matches im host path query mthd headers b)"
| "rule_matches im host path query mthd headers (RNot r) = (\<not> rule_matches im host path query mthd headers r)"

fun extract_hosts :: "'r rule \<Rightarrow> string list" where
  "extract_hosts (RHost h) = [h]"
| "extract_hosts (RAnd a b) = extract_hosts a @ extract_hosts b"
| "extract_hosts _ = []"

section \<open>Lemmas\<close>

text \<open>A rule that matches does so with each of its extracted hosts.\<close>

lemma extract_hosts_match:
  "rule_matches im host path query mthd headers r \<Longrightarrow> h \<in> set (extract_hosts r) \<Longrightarrow>
     \<exists>g. host = Some g \<and> to_lowercase g = to_lowercase h"
  by (induction r) (auto simp: eq_ignore_ascii_case_def split: option.splits)

text \<open>The encoder that URL decoding inverts: every byte as a percent sign and two digits.\<close>

definition url_encode :: "string \<Rightarrow> string" where
  "url_encode s = concat (map (\<lambda>c. [CHR ''%'', lower_hex_char (of_char c div 16), lower_hex_char (of_char c mod 16)]) s)"

lemma url_decode_encode: "url_decode (url_encode s) = s"
proof (induction s)
  case (Cons c s)
  let ?a = "lower_hex_char (of_char c div 16)" and ?b = "lower_hex_char (of_char c mod 16)"
  have "(of_char c :: nat) div 16 < 16" by (rule of_char_div_lt)
  then have a: "is_hexdigit ?a" "hex_value ?a = of_char c div 16" by (simp_all add: lower_hex_char_value)
  have b: "is_hexdigit ?b" "hex_value ?b = of_char c mod 16" by (simp_all add: lower_hex_char_value)
  have "hex_value ?a * 16 + hex_value ?b = of_char c" by (simp add: a b)
  then have "url_decode (CHR ''%'' # ?a # ?b # url_encode s) = c # url_decode (url_encode s)"
    using a(1) b(1) by simp
  then show ?case using Cons by (simp add: url_encode_def)
qed (simp add: url_encode_def)

lemma url_encode_chars: "c \<in> set (url_encode s) \<Longrightarrow> c = CHR ''%'' \<or> is_hexdigit c"
proof (induction s)
  case (Cons d s)
  then show ?case using lower_hex_char_value [OF of_char_div_lt [of d]] lower_hex_char_value [of "of_char d mod 16"]
    by (auto simp: url_encode_def)
qed (simp add: url_encode_def)

lemma url_encode_plain: "CHR ''='' \<notin> set (url_encode s)" "CHR ''&'' \<notin> set (url_encode s)"
  using url_encode_chars [of "CHR ''=''" s] url_encode_chars [of "CHR ''&''" s]
  by (auto simp: is_hexdigit_def is_ascii_digit_def ascii_lower_def is_ascii_upper_def)

text \<open>
  Query parameters are matched on their decoded form: whatever characters a key and a value
  consist of, a query string that carries the pair percent-encoded, among any other encoded pairs,
  matches the rule.
\<close>

theorem query_match_encoded:
  assumes "(key, v) \<in> set kvs"
  shows "query_param_matches (join_char (CHR ''&'') (map (\<lambda>(k, v). url_encode k @ ''='' @ url_encode v) kvs)) key v"
proof -
  let ?p = "\<lambda>(k, v). url_encode k @ ''='' @ url_encode v"
  have "\<forall>p \<in> set (map ?p kvs). CHR ''&'' \<notin> set p" by (auto simp: url_encode_plain)
  moreover have "map ?p kvs \<noteq> []" using assms by auto
  ultimately have "split_char (CHR ''&'') (join_char (CHR ''&'') (map ?p kvs)) = map ?p kvs"
    by (intro split_join_char) auto
  moreover have "pair_matches key v (?p (key, v))"
    using split_once_char [OF url_encode_plain(1), of key "url_encode v"]
    by (simp add: pair_matches_def url_decode_encode)
  ultimately show ?thesis using assms by (auto simp: query_param_matches_def list_ex_iff intro!: bexI [of _ "(key, v)"])
qed

theorem query_match_encoded_witness:
  "query_param_matches (join_char (CHR ''&'') (map (\<lambda>(k, v). url_encode k @ ''='' @ url_encode v)
     [(''a'', ''1&2''), (''b=c'', ''x y'')])) ''b=c'' ''x y''"
  by (rule query_match_encoded) simp

end
