(* ===== verification/Rule_Parser.thy ===== *)
theory Rule_Parser
  imports Rule
begin

text \<open>
  \<open>RuleParser\<close> of \<open>src/src/router/rule.rs\<close>, as mutually recursive functions with the source's
  structure. \<open>rx\<close> stands for \<open>Regex::new\<close>: it compiles a pattern or fails. A printer that the
  sources do not have serves as the reference: parsing what it prints gives the rule back.
\<close>

datatype 'e rule_parse_error =
    InvalidSyntax string
  | InvalidRegex 'e
  | UnknownFunction string

text \<open>The loop of \<open>find_operator\<close> from position \<open>i\<close>.\<close>

fun find_op :: "string \<Rightarrow> int \<Rightarrow> bool \<Rightarrow> nat \<Rightarrow> string \<Rightarrow> nat option" where
  "find_op op depth in_backtick i [] = None"
| "find_op op depth in_backtick i (c # cs) =
     (if c = CHR ''`'' then find_op op depth (\<not> in_backtick) (i + 1) cs
      else if c = CHR ''('' \<and> \<not> in_backtick then find_op op (depth + 1) in_backtick (i + 1) cs
      else if c = CHR '')'' \<and> \<not> in_backtick then find_op op (depth - 1) in_backtick (i + 1) cs
      else if \<not> in_backtick \<and> depth = 0 \<and> starts_with op (c # cs) then Some i
      else find_op op depth in_backtick (i + 1) cs)"

definition find_operator :: "string \<Rightarrow> string \<Rightarrow> nat option" where
  "find_operator input op = find_op op 0 False 0 input"

text \<open>The loop of \<open>parse_args\<close>.\<close>

fun parse_args_loop :: "string list \<Rightarrow> string \<Rightarrow> bool \<Rightarrow> string \<Rightarrow> string list" where
  "parse_args_loop args current in_backtick [] = args"
| "parse_args_loop args current in_backtick (c # cs) =
     (if c = CHR ''`'' then
        (if in_backtick then parse_args_loop (args @ [current]) [] False cs
         else parse_args_loop args current True cs)
      else if in_backtick then parse_args_loop args (current @ [c]) in_backtick cs
      else parse_args_loop args current in_backtick cs)"

definition parse_args :: "string \<Rightarrow> string list" where
  "parse_args input = parse_args_loop [] [] False input"

definition first_arg :: "string \<Rightarrow> string list \<Rightarrow> 'e rule_parse_error + string" where
  "first_arg fname args = (case args of a # _ \<Rightarrow> Inr a | [] \<Rightarrow> Inl (InvalidSyntax (fname @ '' requires an argument'')))"

definition two_args :: "string \<Rightarrow> string list \<Rightarrow> 'e rule_parse_error + string \<times> string" where
  "two_args fname args = (if length args \<noteq> 2 then Inl (InvalidSyntax (fname @ '' requires two arguments''))
     else Inr (args ! 0, args ! 1))"

definition map_res :: "('a \<Rightarrow> 'b) \<Rightarrow> 'e + 'a \<Rightarrow> 'e + 'b" where
  "map_res f r = (case r of Inl e \<Rightarrow> Inl e | Inr a \<Rightarrow> Inr (f a))"

definition compile_re :: "(string \<Rightarrow> 'e + 'r) \<Rightarrow> ('r \<Rightarrow> 'r rule) \<Rightarrow> string \<Rightarrow> 'e rule_parse_error + 'r rule" where
  "compile_re rx mk pat = (case rx pat of Inl e \<Rightarrow> Inl (InvalidRegex e) | Inr re \<Rightarrow> Inr (mk re))"

definition bind_res :: "'e + 'a \<Rightarrow> ('a \<Rightarrow> 'e + 'b) \<Rightarrow> 'e + 'b" where
  "bind_res r f = (case r of Inl e \<Rightarrow> Inl e | Inr a \<Rightarrow> f a)"

text \<open>The dispatch on the function name.\<close>

definition make_rule :: "(string \<Rightarrow> 'e + 'r) \<Rightarrow> string \<Rightarrow> string list \<Rightarrow> 'e rule_parse_error + 'r rule" where
  "make_rule rx fname args =
     (if fname = ''Host'' then map_res RHost (first_arg ''Host'' args)
      else if fname = ''HostRegexp'' then bind_res (first_arg ''HostRegexp'' args) (compile_re rx RHostRegex)
      else if fname = ''Path'' then map_res RPath (first_arg ''Path'' args)
      else if fname = ''PathPrefix'' then map_res RPathPrefix (first_arg ''PathPrefix'' args)
      else if fname = ''PathRegexp'' then bind_res (first_arg ''PathRegexp'' args) (compile_re rx RPathRegex)
      else if fname = ''Header'' then map_res (\<lambda>(k, v). RHeader k v) (two_args ''Header'' args)
      else if fname = ''HeaderRegexp'' then
        bind_res (two_args ''HeaderRegexp'' args) (\<lambda>(k, p). compile_re rx (RHeaderRegex k) p)
      else if fname = ''Method'' then map_res RMethod (first_arg ''Method'' args)
      else if fname = ''Query'' then map_res (\<lambda>(k, v). RQuery k v) (two_args ''Query'' args)
      else Inl (UnknownFunction fname))"

definition parse_function :: "(string \<Rightarrow> 'e + 'r) \<Rightarrow> string \<Rightarrow> 'e rule_parse_error + 'r rule" where
  "parse_function rx input0 =
     (let input = trim input0 in
      case find_str ''('' input of
        None \<Rightarrow> Inl (InvalidSyntax input)
      | Some paren_start \<Rightarrow>
          let func_name = take paren_start input in
          if \<not> ends_with '')'' input then Inl (InvalidSyntax input)
          else
            let args_str = take (length input - 1 - (paren_start + 1)) (drop (paren_start + 1) input)
            in make_rule rx func_name (parse_args args_str))"

lemma find_op_bound: "find_op op d b i s = Some p \<Longrightarrow> i \<le> p \<and> p < i + length s"
proof (induction s arbitrary: d b i)
  case (Cons c cs)
  have "p = i \<or> (\<exists>d' b'. find_op op d' b' (i + 1) cs = Some p)"
    using Cons.prems unfolding find_op.simps(2) by (simp only: split: if_splits) blast+
  then show ?case
  proof
    assume "\<exists>d' b'. find_op op d' b' (i + 1) cs = Some p"
    then obtain d' b' where "find_op op d' b' (i + 1) cs = Some p" by blast
    from Cons.IH [OF this] show ?thesis by simp
  qed simp
qed simp

lemma find_operator_bound: "find_operator s op = Some p \<Longrightarrow> p < length s"
  unfolding find_operator_def using find_op_bound [of op 0 False 0 s p] by simp

lemma trim_length: "length (trim s) \<le> length s"
proof -
  have "length (trim_end s) \<le> length s" for s
    unfolding trim_end_def using length_dropWhile_le [of is_whitespace "rev s"] by simp
  from this [of "trim_start s"] show ?thesis
    unfolding trim_def using length_dropWhile_le [of is_whitespace s] by (simp add: trim_start_def)
qed

lemma trim_less_eq: "length (trim s) < length s \<or> length (trim s) = length s"
  using trim_length [of s] by linarith

lemma trim_Cons_less: "trim s = c # r \<Longrightarrow> length r < length s"
  using trim_length [of s] by simp

lemma trim_paren_less:
  assumes "starts_with [c] (trim s) \<and> ends_with e (trim s)"
  shows "length (trim s) - 2 < length s"
proof -
  from assms obtain r where "trim s = c # r" by (auto simp: starts_with_iff)
  then show ?thesis using trim_length [of s] by simp
qed

lemma find_operator_rest: "find_operator s op = Some p \<Longrightarrow> length s - Suc (Suc p) < length s"
  using find_operator_bound [of s op p] by simp

function (sequential) parse_or :: "(string \<Rightarrow> 'e + 'r) \<Rightarrow> string \<Rightarrow> 'e rule_parse_error + 'r rule"
  and parse_and :: "(string \<Rightarrow> 'e + 'r) \<Rightarrow> string \<Rightarrow> 'e rule_parse_error + 'r rule"
  and parse_unary :: "(string \<Rightarrow> 'e + 'r) \<Rightarrow> string \<Rightarrow> 'e rule_parse_error + 'r rule"
  and parse_primary :: "(string \<Rightarrow> 'e + 'r) \<Rightarrow> string \<Rightarrow> 'e rule_parse_error + 'r rule" where
  "parse_or rx input =
     (case find_operator input ''||'' of
        Some pos \<Rightarrow>
          (case parse_or rx (take pos input) of
             Inl e \<Rightarrow> Inl e
           | Inr left \<Rightarrow>
               (case parse_or rx (drop (pos + 2) input) of Inl e \<Rightarrow> Inl e | Inr right \<Rightarrow> Inr (ROr left right)))
      | None \<Rightarrow> parse_and rx input)"
| "parse_and rx input =
     (case find_operator input ''&&'' of
        Some pos \<Rightarrow>
          (case parse_and rx (take pos input) of
             Inl e \<Rightarrow> Inl e
           | Inr left \<Rightarrow>
               (case parse_and rx (drop (pos + 2) input) of Inl e \<Rightarrow> Inl e | Inr right \<Rightarrow> Inr (RAnd left right)))
      | None \<Rightarrow> parse_unary rx input)"
| "parse_unary rx input0 =
     (let input = trim input0 in
      case strip_prefix ''!'' input of
        Some rest \<Rightarrow> (case parse_unary rx rest of Inl e \<Rightarrow> Inl e | Inr inner \<Rightarrow> Inr (RNot inner))
      | None \<Rightarrow> parse_primary rx input)"
| "parse_primary rx input0 =
     (let input = trim input0 in
      if starts_with ''('' input \<and> ends_with '')'' input
      then parse_or rx (take (length input - 2) (drop 1 input))
      else parse_function rx input)"
  by pat_completeness auto

termination parse_or
proof (relation "measures [\<lambda>x. case x of Inl (Inl (_, s)) \<Rightarrow> length s | Inl (Inr (_, s)) \<Rightarrow> length s
      | Inr (Inl (_, s)) \<Rightarrow> length s | Inr (Inr (_, s)) \<Rightarrow> length s,
    \<lambda>x. case x of Inl (Inl _) \<Rightarrow> 4 | Inl (Inr _) \<Rightarrow> 3 | Inr (Inl _) \<Rightarrow> 2 | Inr (Inr _) \<Rightarrow> (1::nat)]",
    goal_cases)
qed (simp_all add: find_operator_bound find_operator_rest trim_less_eq trim_Cons_less trim_paren_less)

declare parse_or.simps [simp del] parse_and.simps [simp del] parse_unary.simps [simp del] parse_primary.simps [simp del]

text \<open>\<open>RuleParser::parse\<close>\<close>

definition parse_rule :: "(string \<Rightarrow> 'e + 'r) \<Rightarrow> string \<Rightarrow> 'e rule_parse_error + 'r rule" where
  "parse_rule rx input = parse_or rx (trim input)"

section \<open>Round trip\<close>

text \<open>The printer: \<open>pat\<close> gives the pattern of a regular expression.\<close>

definition quote_arg :: "string \<Rightarrow> string" where
  "quote_arg a = ''`'' @ a @ ''`''"

definition call1 :: "string \<Rightarrow> string \<Rightarrow> string" where
  "call1 f a = f @ ''('' @ quote_arg a @ '')''"

definition call2 :: "string \<Rightarrow> string \<Rightarrow> string \<Rightarrow> string" where
  "call2 f a b = f @ ''('' @ quote_arg a @ '', '' @ quote_arg b @ '')''"

fun print_rule :: "('r \<Rightarrow> string) \<Rightarrow> 'r rule \<Rightarrow> string" where
  "print_rule pat (RHost h) = call1 ''Host'' h"
| "print_rule pat (RHostRegex re) = call1 ''HostRegexp'' (pat re)"
| "print_rule pat (RPath p) = call1 ''Path'' p"
| "print_rule pat (RPathPrefix p) = call1 ''PathPrefix'' p"
| "print_rule pat (RPathRegex re) = call1 ''PathRegexp'' (pat re)"
| "print_rule pat (RHeader k v) = call2 ''Header'' k v"
| "print_rule pat (RHeaderRegex k re) = call2 ''HeaderRegexp'' k (pat re)"
| "print_rule pat (RQuery k v) = call2 ''Query'' k v"
| "print_rule pat (RMethod m) = call1 ''Method'' m"
| "print_rule pat (RAnd a b) = ''('' @ print_rule pat a @ '') && ('' @ print_rule pat b @ '')''"
| "print_rule pat (ROr a b) = ''('' @ print_rule pat a @ '') || ('' @ print_rule pat b @ '')''"
| "print_rule pat (RNot r) = ''!('' @ print_rule pat r @ '')''"

text \<open>Printable: no argument contains a backtick, and patterns compile to their expression.\<close>

fun printable :: "(string \<Rightarrow> 'e + 'r) \<Rightarrow> ('r \<Rightarrow> string) \<Rightarrow> 'r rule \<Rightarrow> bool" where
  "printable rx pat (RHost h) \<longleftrightarrow> CHR ''`'' \<notin> set h"
| "printable rx pat (RHostRegex re) \<longleftrightarrow> CHR ''`'' \<notin> set (pat re) \<and> rx (pat re) = Inr re"
| "printable rx pat (RPath p) \<longleftrightarrow> CHR ''`'' \<notin> set p"
| "printable rx pat (RPathPrefix p) \<longleftrightarrow> CHR ''`'' \<notin> set p"
| "printable rx pat (RPathRegex re) \<longleftrightarrow> CHR ''`'' \<notin> set (pat re) \<and> rx (pat re) = Inr re"
| "printable rx pat (RHeader k v) \<longleftrightarrow> CHR ''`'' \<notin> set k \<and> CHR ''`'' \<notin> set v"
| "printable rx pat (RHeaderRegex k re) \<longleftrightarrow> CHR ''`'' \<notin> set k \<and> CHR ''`'' \<notin> set (pat re) \<and> rx (pat re) = Inr re"
| "printable rx pat (RQuery k v) \<longleftrightarrow> CHR ''`'' \<notin> set k \<and> CHR ''`'' \<notin> set v"
| "printable rx pat (RMethod m) \<longleftrightarrow> CHR ''`'' \<notin> set m"
| "printable rx pat (RAnd a b) \<longleftrightarrow> printable rx pat a \<and> printable rx pat b"
| "printable rx pat (ROr a b) \<longleftrightarrow> printable rx pat a \<and> printable rx pat b"
| "printable rx pat (RNot r) \<longleftrightarrow> printable rx pat r"

text \<open>A text that the search for an operator passes at depth \<open>d\<close> without a hit, ending at the same depth.\<close>

definition passes :: "string \<Rightarrow> int \<Rightarrow> string \<Rightarrow> bool" where
  "passes op d s \<longleftrightarrow> (\<forall>i rest. find_op op d False i (s @ rest) = find_op op d False (i + length s) rest)"

lemma passes_append: "passes op d s \<Longrightarrow> passes op d t \<Longrightarrow> passes op d (s @ t)"
  by (simp add: passes_def add.assoc)

lemma passes_plain:
  assumes "\<forall>c \<in> set s. c \<noteq> CHR ''`'' \<and> c \<noteq> CHR ''('' \<and> c \<noteq> CHR '')'' \<and> (d = 0 \<longrightarrow> c \<noteq> hd op)" and "op \<noteq> []"
  shows "passes op d s"
proof -
  obtain o1 op' where op: "op = o1 # op'" using assms(2) by (cases op) auto
  show ?thesis using assms(1)
  proof (induction s)
    case (Cons c s)
    then have "find_op op d False i ((c # s) @ rest) = find_op op d False (i + 1) (s @ rest)" for i rest
      by (auto simp: op starts_with_def)
    then show ?case using Cons by (simp add: passes_def)
  qed (simp add: passes_def)
qed

lemma find_op_backtick:
  "CHR ''`'' \<notin> set a \<Longrightarrow> find_op op d True i (a @ rest) = find_op op d True (i + length a) rest"
  by (induction a arbitrary: i) auto

lemma passes_quote: "CHR ''`'' \<notin> set a \<Longrightarrow> passes op d (quote_arg a)"
  by (simp add: passes_def quote_arg_def find_op_backtick)

lemma passes_paren: "passes op (d + 1) s \<Longrightarrow> passes op d (''('' @ s @ '')'')"
  by (simp add: passes_def)

definition plain_name :: "string \<Rightarrow> bool" where
  "plain_name f \<longleftrightarrow> f \<noteq> [] \<and> (\<forall>c \<in> set f. is_ascii_upper c \<or> is_ascii_lower c)"

lemma plain_name_chars:
  assumes "plain_name f" and "c \<in> set f"
  shows "c \<noteq> CHR ''`''" "c \<noteq> CHR ''(''" "c \<noteq> CHR '')''" "c \<noteq> CHR ''|''" "c \<noteq> CHR ''&''" "c \<noteq> CHR ''!''" "\<not> is_whitespace c"
  using assms by (auto simp: plain_name_def is_ascii_upper_def is_ascii_lower_def is_whitespace_def Let_def)

lemma passes_name: "plain_name f \<Longrightarrow> op = ''||'' \<or> op = ''&&'' \<Longrightarrow> passes op d f"
  by (intro passes_plain) (auto dest: plain_name_chars)

lemma passes_call1:
  "plain_name f \<Longrightarrow> CHR ''`'' \<notin> set a \<Longrightarrow> op = ''||'' \<or> op = ''&&'' \<Longrightarrow> passes op d (call1 f a)"
  unfolding call1_def by (intro passes_append passes_name passes_paren passes_quote)

lemma passes_call2:
  assumes "plain_name f" and "CHR ''`'' \<notin> set a" and "CHR ''`'' \<notin> set b" and "op = ''||'' \<or> op = ''&&''"
  shows "passes op d (call2 f a b)"
proof -
  have "passes op (d + 1) (quote_arg a @ '', '' @ quote_arg b)"
    using assms(4) by (intro passes_append passes_quote assms passes_plain) auto
  from passes_append [OF passes_name [OF assms(1,4), of d] passes_paren [OF this]] show ?thesis
    by (simp add: call2_def)
qed

lemma plain_names [simp]:
  "plain_name ''Host''" "plain_name ''HostRegexp''" "plain_name ''Path''" "plain_name ''PathPrefix''"
  "plain_name ''PathRegexp''" "plain_name ''Header''" "plain_name ''HeaderRegexp''" "plain_name ''Query''" "plain_name ''Method''"
  by (simp_all add: plain_name_def is_ascii_upper_def is_ascii_lower_def)

lemma passes_print:
  assumes "printable rx pat r" and "0 < d" and "op = ''||'' \<or> op = ''&&''"
  shows "passes op d (print_rule pat r)"
  using assms
proof (induction r arbitrary: d)
  case (RAnd a b)
  have "passes op d ('' && '')" using RAnd.prems by (intro passes_plain) auto
  from passes_append [OF passes_paren passes_append [OF this passes_paren]] RAnd show ?case by simp
next
  case (ROr a b)
  have "passes op d ('' || '')" using ROr.prems by (intro passes_plain) auto
  from passes_append [OF passes_paren passes_append [OF this passes_paren]] ROr show ?case by simp
next
  case (RNot r)
  have "passes op d ''!''" using RNot.prems by (intro passes_plain) auto
  from passes_append [OF this passes_paren] RNot show ?case by simp
qed (simp_all add: passes_call1 passes_call2)

text \<open>A printed rule in parentheses, the operand of every operator.\<close>

definition wrapped :: "('r \<Rightarrow> string) \<Rightarrow> 'r rule \<Rightarrow> string" where
  "wrapped pat r = ''('' @ print_rule pat r @ '')''"

lemma passes_wrapped:
  "printable rx pat r \<Longrightarrow> op = ''||'' \<or> op = ''&&'' \<Longrightarrow> passes op 0 (wrapped pat r)"
  unfolding wrapped_def by (intro passes_paren passes_print) simp_all

lemma find_none: "passes op 0 s \<Longrightarrow> find_operator s op = None"
  using find_op.simps(1) by (metis append_Nil2 find_operator_def passes_def)

lemma find_hit: "passes op 0 s \<Longrightarrow> op = ''||'' \<or> op = ''&&'' \<Longrightarrow> find_operator (s @ op @ t) op = Some (length s)"
  unfolding find_operator_def passes_def by (auto simp: starts_with_def)

lemma trim_wrapped: "sp1 \<in> {[], '' ''} \<Longrightarrow> sp2 \<in> {[], '' ''} \<Longrightarrow> trim (sp1 @ wrapped pat r @ sp2) = wrapped pat r"
  by (auto simp: wrapped_def trim_def trim_start_def trim_end_def is_whitespace_def Let_def)

lemma parse_unary_wrapped:
  assumes "sp1 \<in> {[], '' ''}" and "sp2 \<in> {[], '' ''}"
  shows "parse_unary rx (sp1 @ wrapped pat r @ sp2) = parse_or rx (print_rule pat r)"
proof -
  have "starts_with ''('' (wrapped pat r)" "ends_with '')'' (wrapped pat r)" "strip_prefix ''!'' (wrapped pat r) = None"
    "take (length (wrapped pat r) - 2) (drop 1 (wrapped pat r)) = print_rule pat r"
    by (auto simp: wrapped_def starts_with_iff ends_with_iff)
  then show ?thesis using trim_wrapped [OF assms, of pat r] trim_wrapped [of "[]" "[]" pat r]
    by (subst parse_unary.simps) (simp add: parse_primary.simps)
qed

lemma passes_space: "op = ''||'' \<or> op = ''&&'' \<Longrightarrow> passes op 0 '' ''"
  by (rule passes_plain) auto

lemma passes_spaced:
  assumes "printable rx pat r" and "op = ''||'' \<or> op = ''&&''" and "sp1 \<in> {[], '' ''}" and "sp2 \<in> {[], '' ''}"
  shows "passes op 0 (sp1 @ wrapped pat r @ sp2)"
proof -
  have "passes op 0 []" by (simp add: passes_def)
  then have "passes op 0 sp1" "passes op 0 sp2" using assms(3,4) passes_space [OF assms(2)] by auto
  then show ?thesis using passes_wrapped [OF assms(1,2)] by (intro passes_append)
qed

lemma parse_and_wrapped:
  assumes "printable rx pat r" and "sp1 \<in> {[], '' ''}" and "sp2 \<in> {[], '' ''}"
  shows "parse_and rx (sp1 @ wrapped pat r @ sp2) = parse_or rx (print_rule pat r)"
  using find_none [OF passes_spaced [OF assms(1) _ assms(2,3)], of "''&&''"] parse_unary_wrapped [OF assms(2,3), of rx pat r]
  by (subst parse_and.simps) simp

lemma parse_or_wrapped:
  assumes "printable rx pat r" and "sp1 \<in> {[], '' ''}" and "sp2 \<in> {[], '' ''}"
  shows "parse_or rx (sp1 @ wrapped pat r @ sp2) = parse_or rx (print_rule pat r)"
  using find_none [OF passes_spaced [OF assms(1) _ assms(2,3)], of "''||''"] parse_and_wrapped [OF assms]
  by (subst parse_or.simps) simp

section \<open>Atoms\<close>

lemma parse_args_quoted:
  "CHR ''`'' \<notin> set a \<Longrightarrow> parse_args_loop as cur True (a @ CHR ''`'' # rest) = parse_args_loop (as @ [cur @ a]) [] False rest"
  by (induction a arbitrary: cur) auto

lemma parse_args_one: "CHR ''`'' \<notin> set a \<Longrightarrow> parse_args (quote_arg a) = [a]"
  by (simp add: parse_args_def quote_arg_def parse_args_quoted)

lemma parse_args_two:
  "CHR ''`'' \<notin> set a \<Longrightarrow> CHR ''`'' \<notin> set b \<Longrightarrow> parse_args (quote_arg a @ '', '' @ quote_arg b) = [a, b]"
  by (simp add: parse_args_def quote_arg_def parse_args_quoted)

lemma find_paren:
  assumes "plain_name f"
  shows "find_str ''('' (f @ CHR ''('' # r) = Some (length f)"
proof -
  have "CHR ''('' \<notin> set f" using plain_name_chars(2) [OF assms] by auto
  then show ?thesis by (induction f) (auto simp: starts_with_def)
qed

lemma trim_call:
  assumes "plain_name f"
  shows "trim (f @ ''('' @ r @ '')'') = f @ ''('' @ r @ '')''"
proof (rule trim_fixed)
  obtain c f' where f: "f = c # f'" using assms by (cases f) (auto simp: plain_name_def)
  have "\<not> is_whitespace (CHR '')'')" by (simp add: is_whitespace_def)
  then show "f @ ''('' @ r @ '')'' = [] \<or> \<not> is_whitespace (hd (f @ ''('' @ r @ '')'')) \<and> \<not> is_whitespace (last (f @ ''('' @ r @ '')''))"
    using plain_name_chars(7) [OF assms, of c] f by simp
qed

lemma parse_function_call:
  assumes "plain_name f"
  shows "parse_function rx (f @ ''('' @ r @ '')'') = make_rule rx f (parse_args r)"
proof -
  let ?i = "f @ ''('' @ r @ '')''"
  have "ends_with '')'' ?i" unfolding ends_with_iff by (rule exI [of _ "f @ ''('' @ r"]) simp
  moreover have "take (length ?i - 1 - (length f + 1)) (drop (length f + 1) ?i) = r" by simp
  ultimately show ?thesis
    using trim_call [OF assms, of r] find_paren [OF assms, of "r @ '')''"] by (simp add: parse_function_def)
qed

lemma parse_call:
  assumes "plain_name f" and "passes ''||'' 0 (f @ ''('' @ r @ '')'')" and "passes ''&&'' 0 (f @ ''('' @ r @ '')'')"
  shows "parse_or rx (f @ ''('' @ r @ '')'') = make_rule rx f (parse_args r)"
proof -
  let ?i = "f @ ''('' @ r @ '')''"
  obtain c f' where f: "f = c # f'" using assms(1) by (cases f) (auto simp: plain_name_def)
  have c: "c \<noteq> CHR ''!''" "c \<noteq> CHR ''(''" using plain_name_chars [OF assms(1), of c] f by simp_all
  have "strip_prefix ''!'' ?i = None" "\<not> starts_with ''('' ?i" using c by (simp_all add: f starts_with_def)
  then have "parse_unary rx ?i = parse_function rx ?i"
    using trim_call [OF assms(1), of r] by (subst parse_unary.simps) (simp add: parse_primary.simps)
  then show ?thesis
    using find_none [OF assms(2)] find_none [OF assms(3)] parse_function_call [OF assms(1), of rx r]
    by (subst parse_or.simps) (simp add: parse_and.simps)
qed

lemma parse_call1:
  assumes "plain_name f" and "CHR ''`'' \<notin> set a"
  shows "parse_or rx (call1 f a) = make_rule rx f [a]"
  using parse_call [OF assms(1), of "quote_arg a" rx] passes_call1 [OF assms, of "''||''" 0] passes_call1 [OF assms, of "''&&''" 0]
  by (simp add: call1_def parse_args_one [OF assms(2)])

lemma parse_call2:
  assumes "plain_name f" and "CHR ''`'' \<notin> set a" and "CHR ''`'' \<notin> set b"
  shows "parse_or rx (call2 f a b) = make_rule rx f [a, b]"
  using parse_call [OF assms(1), of "quote_arg a @ '', '' @ quote_arg b" rx]
    passes_call2 [OF assms, of "''||''" 0] passes_call2 [OF assms, of "''&&''" 0] parse_args_two [OF assms(2,3)]
  by (simp add: call2_def)

lemmas make_rule_simps = make_rule_def first_arg_def two_args_def map_res_def bind_res_def compile_re_def

lemma parse_print:
  "printable rx pat r \<Longrightarrow> parse_or rx (print_rule pat r) = Inr r"
proof (induction r)
  case (RAnd a b)
  let ?op = "''&&''" and ?l = "wrapped pat a @ '' ''" and ?r = "'' '' @ wrapped pat b"
  have pr: "print_rule pat (RAnd a b) = ?l @ ?op @ ?r" by (simp add: wrapped_def)
  have pa: "printable rx pat a" "printable rx pat b" using RAnd.prems by simp_all
  have op: "passes ''||'' 0 ?op" by (rule passes_plain) auto
  have lr: "passes ''||'' 0 ?l" "passes ''||'' 0 ?r"
    using passes_spaced [OF pa(1), of "''||''" "[]" "'' ''"] passes_spaced [OF pa(2), of "''||''" "'' ''" "[]"]
    by simp_all
  have "passes ''||'' 0 (?l @ ?op @ ?r)" by (rule passes_append [OF lr(1) passes_append [OF op lr(2)]])
  then have "parse_or rx (print_rule pat (RAnd a b)) = parse_and rx (?l @ ?op @ ?r)"
    unfolding pr by (subst parse_or.simps) (simp only: find_none option.case)
  moreover have "find_operator (?l @ ?op @ ?r) ?op = Some (length ?l)"
    using passes_spaced [OF pa(1), of ?op "[]" "'' ''"] by (intro find_hit) simp_all
  moreover have "parse_and rx ?l = Inr a" "parse_and rx ?r = Inr b"
    using parse_and_wrapped [OF pa(1), of "[]" "'' ''"] parse_and_wrapped [OF pa(2), of "'' ''" "[]"] RAnd by simp_all
  ultimately show ?case by (subst (asm) parse_and.simps) simp
next
  case (ROr a b)
  let ?op = "''||''" and ?l = "wrapped pat a @ '' ''" and ?r = "'' '' @ wrapped pat b"
  have pr: "print_rule pat (ROr a b) = ?l @ ?op @ ?r" by (simp add: wrapped_def)
  have pa: "printable rx pat a" "printable rx pat b" using ROr.prems by simp_all
  have "find_operator (?l @ ?op @ ?r) ?op = Some (length ?l)"
    using passes_spaced [OF pa(1), of ?op "[]" "'' ''"] by (intro find_hit) simp_all
  moreover have "parse_or rx ?l = Inr a" "parse_or rx ?r = Inr b"
    using parse_or_wrapped [OF pa(1), of "[]" "'' ''"] parse_or_wrapped [OF pa(2), of "'' ''" "[]"] ROr by simp_all
  ultimately show ?case unfolding pr by (subst parse_or.simps) simp
next
  case (RNot r)
  let ?i = "''!'' @ wrapped pat r"
  have pa: "printable rx pat r" using RNot.prems by simp
  have ps: "passes op 0 ?i" if "op = ''||'' \<or> op = ''&&''" for op
  proof (rule passes_append [OF _ passes_wrapped [OF pa that]])
    show "passes op 0 ''!''" using that by (intro passes_plain) auto
  qed
  have "trim ?i = ?i" by (rule trim_fixed) (simp add: wrapped_def is_whitespace_def)
  moreover have "parse_unary rx (wrapped pat r) = Inr r"
    using parse_unary_wrapped [of "[]" "[]" rx pat r] RNot by simp
  ultimately have "parse_unary rx ?i = Inr (RNot r)" by (subst parse_unary.simps) simp
  then show ?case
    using find_none [OF ps [of "''||''"]] find_none [OF ps [of "''&&''"]]
    by (subst parse_or.simps) (simp add: wrapped_def parse_and.simps)
qed (simp_all add: parse_call1 parse_call2 make_rule_simps)



end
