(* ===== verification/Router.thy ===== *)
theory Router
  imports Rule_Parser Config_Types
begin

text \<open>
  \<open>Router\<close> of \<open>src/src/router/mod.rs\<close> with \<open>RouteMatcher\<close> of \<open>src/src/router/matcher.rs\<close>: the
  construction of the host and entrypoint indexes from the configuration and the two-phase search
  of \<open>match_request\<close>. The lemmas relate the indexed search to a scan of all routes: it finds a
  matching route exactly when there is one. Which of several matching routes is returned is
  stated per class of routes, since host routes are tried first.
\<close>

record 'r route =
  rt_name :: string
  rt_entrypoints :: "string list"
  rt_matcher :: "'r rule"
  rt_service :: string
  rt_middlewares :: "string list"
  rt_priority :: int
  rt_host_indexed :: bool

record 'r router =
  ro_routes :: "'r route list"
  ro_candidates_by_ep :: "nat list dict"
  ro_catch_all :: "nat list"
  ro_host_index :: "nat list dict"

text \<open>Grouping: \<open>map.entry(k).or_default().push(v)\<close> for a sequence of pairs.\<close>

definition dict_push :: "'k \<Rightarrow> 'v \<Rightarrow> ('k \<times> 'v list) list \<Rightarrow> ('k \<times> 'v list) list" where
  "dict_push k v d = dict_insert k ((case dict_get d k of Some vs \<Rightarrow> vs | None \<Rightarrow> []) @ [v]) d"

definition dict_group :: "('k \<times> 'v) list \<Rightarrow> ('k \<times> 'v list) list" where
  "dict_group kvs = foldl (\<lambda>d (k, v). dict_push k v d) [] kvs"

fun make_route :: "(string \<Rightarrow> 'e + 'r) \<Rightarrow> string \<times> router_config \<Rightarrow> 'r route list" where
  "make_route rx (name, rc) =
     (case parse_rule rx (rc_rule rc) of
        Inr matcher \<Rightarrow> [\<lparr>rt_name = name, rt_entrypoints = rc_entry_points rc, rt_matcher = matcher,
           rt_service = rc_service rc, rt_middlewares = rc_middlewares rc, rt_priority = rc_priority rc,
           rt_host_indexed = False\<rparr>]
      | Inl _ \<Rightarrow> [])"

text \<open>The merge loop of two candidate lists sorted by priority.\<close>

fun merge_candidates :: "(nat \<Rightarrow> int) \<Rightarrow> nat list \<Rightarrow> nat list \<Rightarrow> nat list" where
  "merge_candidates prio (i # is) (j # js) =
     (if prio i \<ge> prio j then i # merge_candidates prio is (j # js)
      else j # merge_candidates prio (i # is) js)"
| "merge_candidates prio [] js = js"
| "merge_candidates prio is [] = is"

definition index_hosts :: "'r route list \<Rightarrow> 'r route list" where
  "index_hosts routes = map (\<lambda>r. if extract_hosts (rt_matcher r) \<noteq> [] then r\<lparr>rt_host_indexed := True\<rparr> else r) routes"

definition router_from_config :: "(string \<Rightarrow> 'e + 'r) \<Rightarrow> router_config dict \<Rightarrow> 'r router" where
  "router_from_config rx routers =
     (let sorted_routes = sort_key (\<lambda>r. - rt_priority r) (concat (map (make_route rx) routers));
          routes = index_hosts sorted_routes;
          host_index = dict_group (concat (map (\<lambda>(idx, r).
            map (\<lambda>h. (to_lowercase h, idx)) (extract_hosts (rt_matcher r))) (enumerate 0 routes)));
          catch_all = map fst (filter (\<lambda>(idx, r). rt_entrypoints r = []) (enumerate 0 routes));
          by_ep = dict_group (concat (map (\<lambda>(idx, r). map (\<lambda>ep. (ep, idx)) (rt_entrypoints r)) (enumerate 0 routes)));
          prio = (\<lambda>i. rt_priority (routes ! i))
      in \<lparr>ro_routes = routes,
          ro_candidates_by_ep = map (\<lambda>(ep, candidates). (ep, merge_candidates prio candidates catch_all)) by_ep,
          ro_catch_all = catch_all, ro_host_index = host_index\<rparr>)"

definition ep_match :: "string \<Rightarrow> 'r route \<Rightarrow> bool" where
  "ep_match ep r \<longleftrightarrow> rt_entrypoints r = [] \<or> ep \<in> set (rt_entrypoints r)"

definition match_request :: "('r \<Rightarrow> string \<Rightarrow> bool) \<Rightarrow> 'r router \<Rightarrow> string \<Rightarrow> string option \<Rightarrow> string \<Rightarrow> string option
    \<Rightarrow> string option \<Rightarrow> headers \<Rightarrow> 'r route option" where
  "match_request im ro ep host path query mthd headers =
     (let candidates = (case dict_get (ro_candidates_by_ep ro) ep of Some v \<Rightarrow> v | None \<Rightarrow> ro_catch_all ro);
          matches = (\<lambda>r. rule_matches im host path query mthd headers (rt_matcher r));
          fast = (case host of
            Some h \<Rightarrow> (case dict_get (ro_host_index ro) (to_lowercase h) of
                Some host_candidates \<Rightarrow>
                  List.find (\<lambda>idx. ep_match ep (ro_routes ro ! idx) \<and> matches (ro_routes ro ! idx)) host_candidates
              | None \<Rightarrow> None)
          | None \<Rightarrow> None)
      in case fast of
           Some idx \<Rightarrow> Some (ro_routes ro ! idx)
         | None \<Rightarrow> map_option (\<lambda>idx. ro_routes ro ! idx)
             (List.find (\<lambda>idx. \<not> rt_host_indexed (ro_routes ro ! idx) \<and> matches (ro_routes ro ! idx)) candidates))"

section \<open>Lemmas\<close>

lemma dict_get_push:
  "dict_get (dict_push k v d) k' =
     (if k' = k then Some ((case dict_get d k of Some vs \<Rightarrow> vs | None \<Rightarrow> []) @ [v]) else dict_get d k')"
  by (simp add: dict_push_def dict_simps)

definition values_of :: "('k \<times> 'v) list \<Rightarrow> 'k \<Rightarrow> 'v list" where
  "values_of kvs k = map snd (filter (\<lambda>(k', _). k' = k) kvs)"

lemma dict_get_group: "dict_get (dict_group kvs) k = (if values_of kvs k = [] then None else Some (values_of kvs k))"
proof (induction kvs rule: rev_induct)
  case Nil
  then show ?case by (simp add: dict_group_def values_of_def)
next
  case (snoc kv kvs)
  obtain k' v where kv: "kv = (k', v)" by (cases kv)
  have "dict_group (kvs @ [kv]) = dict_push k' v (dict_group kvs)" by (simp add: dict_group_def kv)
  then show ?case using snoc by (auto simp: dict_get_push kv values_of_def)
qed

lemma dict_get_map_values: "dict_get (map (\<lambda>(k, v). (k, f v)) d) k = map_option f (dict_get d k)"
  by (induction d) (auto simp: dict_get_Cons)

lemma set_merge_candidates: "set (merge_candidates prio xs ys) = set xs \<union> set ys"
  by (induction prio xs ys rule: merge_candidates.induct) auto

lemma sorted_merge_candidates:
  "sorted_wrt (\<lambda>i j. prio j \<le> prio i) xs \<Longrightarrow> sorted_wrt (\<lambda>i j. prio j \<le> prio i) ys \<Longrightarrow>
     sorted_wrt (\<lambda>i j. prio j \<le> prio i) (merge_candidates prio xs ys)"
  by (induction prio xs ys rule: merge_candidates.induct) (fastforce simp: set_merge_candidates)+

lemma find_max:
  assumes "List.find P xs = Some x" and "sorted_wrt (\<lambda>i j. (f j :: int) \<le> f i) xs" and "y \<in> set xs" and "P y"
  shows "f y \<le> f x"
  using assms by (induction xs) (auto split: if_splits)

lemma values_of_enumerate:
  "i \<in> set (values_of (concat (map (\<lambda>(idx, r). map (\<lambda>x. (f x, idx)) (g r)) (enumerate n rs))) k) \<longleftrightarrow>
     n \<le> i \<and> i < n + length rs \<and> k \<in> f ` set (g (rs ! (i - n)))"
proof (induction rs arbitrary: n)
  case (Cons r rs)
  show ?case using Cons [of "Suc n"]
    by (cases "i = n") (auto simp: values_of_def Suc_diff_le Suc_le_eq nth_Cons' image_iff)
qed (simp add: values_of_def)

lemma values_of_append: "values_of (xs @ ys) k = values_of xs k @ values_of ys k"
  by (simp add: values_of_def)

lemma values_of_sorted:
  "sorted (values_of (concat (map (\<lambda>(idx, r). map (\<lambda>x. (f x, idx)) (g r)) (enumerate n rs))) k)"
proof (induction rs arbitrary: n)
  case (Cons r rs)
  have eq: "values_of (concat (map (\<lambda>(idx, r). map (\<lambda>x. (f x, idx)) (g r)) (enumerate n (r # rs)))) k =
      values_of (map (\<lambda>x. (f x, n)) (g r)) k @
      values_of (concat (map (\<lambda>(idx, r). map (\<lambda>x. (f x, idx)) (g r)) (enumerate (Suc n) rs))) k"
    by (simp add: values_of_append)
  have n: "\<forall>i \<in> set (values_of (map (\<lambda>x. (f x, n)) (g r)) k). i = n" by (auto simp: values_of_def)
  have "sorted xs" if "\<forall>i \<in> set xs. i = n" for xs using that by (induction xs) auto
  from this [OF n] show ?case
    unfolding eq sorted_append using Cons [of "Suc n"] n by (auto simp: values_of_enumerate)
qed (simp add: values_of_def)

lemma catch_all_members:
  "i \<in> set (map fst (filter (\<lambda>(idx, r). P r) (enumerate n rs))) \<longleftrightarrow> n \<le> i \<and> i < n + length rs \<and> P (rs ! (i - n))"
proof (induction rs arbitrary: n)
  case (Cons r rs)
  show ?case using Cons [of "Suc n"]
    by (cases "i = n") (auto simp: Suc_diff_le Suc_le_eq nth_Cons')
qed simp

lemma catch_all_sorted: "sorted (map fst (filter (\<lambda>(idx, r). P r) (enumerate n rs)))"
proof (induction rs arbitrary: n)
  case (Cons r rs)
  show ?case using Cons [of "Suc n"] catch_all_members [of _ P "Suc n" rs] by (auto simp: Suc_le_eq)
qed simp

text \<open>The observations of a constructed router.\<close>

lemma index_hosts_nth:
  "i < length rs \<Longrightarrow> rt_priority (index_hosts rs ! i) = rt_priority (rs ! i) \<and>
     rt_matcher (index_hosts rs ! i) = rt_matcher (rs ! i) \<and> rt_entrypoints (index_hosts rs ! i) = rt_entrypoints (rs ! i) \<and>
     (rt_host_indexed (index_hosts rs ! i) \<longleftrightarrow> rt_host_indexed (rs ! i) \<or> extract_hosts (rt_matcher (rs ! i)) \<noteq> [])"
  by (simp add: index_hosts_def)

lemma make_route_not_indexed: "r \<in> set (concat (map (make_route rx) routers)) \<Longrightarrow> \<not> rt_host_indexed r"
  by (auto split: sum.splits)

lemma ro_sorted:
  assumes ro: "ro = router_from_config rx routers" and "i \<le> j" and "j < length (ro_routes ro)"
  shows "rt_priority (ro_routes ro ! j) \<le> rt_priority (ro_routes ro ! i)"
proof -
  let ?s = "sort_key (\<lambda>r. - rt_priority r) (concat (map (make_route rx) routers))"
  have r: "ro_routes ro = index_hosts ?s" by (simp add: ro router_from_config_def Let_def)
  then have len: "length (ro_routes ro) = length ?s" by (simp add: index_hosts_def)
  have "sorted (map (\<lambda>r. - rt_priority r) ?s)" by (rule sorted_sort_key)
  then have "- rt_priority (?s ! i) \<le> - rt_priority (?s ! j)"
    using assms(2,3) len by (auto simp: sorted_iff_nth_mono)
  then show ?thesis using assms(2,3) len index_hosts_nth [of i ?s] index_hosts_nth [of j ?s] by (simp add: r)
qed

lemma ro_indexed:
  assumes ro: "ro = router_from_config rx routers" and "i < length (ro_routes ro)"
  shows "rt_host_indexed (ro_routes ro ! i) \<longleftrightarrow> extract_hosts (rt_matcher (ro_routes ro ! i)) \<noteq> []"
proof -
  let ?s = "sort_key (\<lambda>r. - rt_priority r) (concat (map (make_route rx) routers))"
  have r: "ro_routes ro = index_hosts ?s" by (simp add: ro router_from_config_def Let_def)
  then have i: "i < length ?s" using assms(2) by (simp add: index_hosts_def)
  then have "\<not> rt_host_indexed (?s ! i)" using make_route_not_indexed nth_mem [OF i] by fastforce
  then show ?thesis using index_hosts_nth [OF i] by (simp add: r)
qed

lemma ro_host_index_get:
  assumes ro: "ro = router_from_config rx routers"
  shows "dict_get (ro_host_index ro) h = (let vs = values_of (concat (map (\<lambda>(idx, r).
     map (\<lambda>h. (to_lowercase h, idx)) (extract_hosts (rt_matcher r))) (enumerate 0 (ro_routes ro)))) h
   in if vs = [] then None else Some vs)"
  by (simp add: ro router_from_config_def Let_def dict_get_group)

lemma ro_candidates:
  assumes ro: "ro = router_from_config rx routers"
    and c_def: "c = (case dict_get (ro_candidates_by_ep ro) ep of Some v \<Rightarrow> v | None \<Rightarrow> ro_catch_all ro)"
  shows "set c = {i. i < length (ro_routes ro) \<and> ep_match ep (ro_routes ro ! i)}"
    and "sorted_wrt (\<lambda>i j. rt_priority (ro_routes ro ! j) \<le> rt_priority (ro_routes ro ! i)) c"
proof -
  define prio where "prio = (\<lambda>i. rt_priority (ro_routes ro ! i))"
  define vs where "vs = values_of (concat (map (\<lambda>(idx, r). map (\<lambda>ep. (ep, idx)) (rt_entrypoints r)) (enumerate 0 (ro_routes ro)))) ep"
  have ca: "ro_catch_all ro = map fst (filter (\<lambda>(idx, r). rt_entrypoints r = []) (enumerate 0 (ro_routes ro)))"
    by (simp add: ro router_from_config_def Let_def)
  have c: "c = (if vs = [] then ro_catch_all ro else merge_candidates prio vs (ro_catch_all ro))"
    unfolding c_def vs_def prio_def
    by (simp add: ro router_from_config_def Let_def dict_get_map_values dict_get_group)
  have svs: "i \<in> set vs \<longleftrightarrow> i < length (ro_routes ro) \<and> ep \<in> set (rt_entrypoints (ro_routes ro ! i))" for i
    unfolding vs_def using values_of_enumerate [of i "\<lambda>x. x" rt_entrypoints 0 "ro_routes ro" ep] by simp
  have sca: "i \<in> set (ro_catch_all ro) \<longleftrightarrow> i < length (ro_routes ro) \<and> rt_entrypoints (ro_routes ro ! i) = []" for i
    unfolding ca using catch_all_members [of i "\<lambda>r. rt_entrypoints r = []" 0 "ro_routes ro"] by simp
  show "set c = {i. i < length (ro_routes ro) \<and> ep_match ep (ro_routes ro ! i)}"
  proof (cases "vs = []")
    case True
    then have "\<not> (i < length (ro_routes ro) \<and> ep \<in> set (rt_entrypoints (ro_routes ro ! i)))" for i
      using svs [of i] by simp
    then show ?thesis using True sca by (auto simp: c ep_match_def)
  next
    case False
    then show ?thesis using svs sca by (auto simp: c ep_match_def set_merge_candidates)
  qed
  have mono: "sorted_wrt (\<lambda>i j. prio j \<le> prio i) xs" if "sorted xs" and "\<forall>i \<in> set xs. i < length (ro_routes ro)" for xs
    unfolding prio_def using that by (induction xs) (auto intro: ro_sorted [OF ro])
  have "sorted vs" unfolding vs_def by (rule values_of_sorted)
  then have "sorted_wrt (\<lambda>i j. prio j \<le> prio i) vs" by (rule mono) (simp add: svs)
  moreover have "sorted (ro_catch_all ro)" unfolding ca by (rule catch_all_sorted)
  then have "sorted_wrt (\<lambda>i j. prio j \<le> prio i) (ro_catch_all ro)" by (rule mono) (simp add: sca)
  ultimately show "sorted_wrt (\<lambda>i j. rt_priority (ro_routes ro ! j) \<le> rt_priority (ro_routes ro ! i)) c"
    unfolding c using sorted_merge_candidates [of prio] by (simp add: prio_def)
qed

lemma ro_host_candidates:
  assumes ro: "ro = router_from_config rx routers"
    and c_def: "c = (case dict_get (ro_host_index ro) (to_lowercase h) of Some v \<Rightarrow> v | None \<Rightarrow> [])"
  shows "set c = {i. i < length (ro_routes ro) \<and> to_lowercase h \<in> to_lowercase ` set (extract_hosts (rt_matcher (ro_routes ro ! i)))}"
    and "sorted_wrt (\<lambda>i j. rt_priority (ro_routes ro ! j) \<le> rt_priority (ro_routes ro ! i)) c"
proof -
  let ?g = "\<lambda>r. extract_hosts (rt_matcher r)"
  have c: "c = values_of (concat (map (\<lambda>(idx, r). map (\<lambda>h. (to_lowercase h, idx)) (?g r)) (enumerate 0 (ro_routes ro)))) (to_lowercase h)"
    unfolding c_def ro_host_index_get [OF ro] by (simp add: Let_def)
  show s: "set c = {i. i < length (ro_routes ro) \<and> to_lowercase h \<in> to_lowercase ` set (extract_hosts (rt_matcher (ro_routes ro ! i)))}"
    unfolding c using values_of_enumerate [of _ to_lowercase ?g 0 "ro_routes ro" "to_lowercase h"] by auto
  have mono: "sorted_wrt (\<lambda>i j. rt_priority (ro_routes ro ! j) \<le> rt_priority (ro_routes ro ! i)) xs"
    if "sorted xs" and "\<forall>i \<in> set xs. i < length (ro_routes ro)" for xs
    using that by (induction xs) (auto intro: ro_sorted [OF ro])
  show "sorted_wrt (\<lambda>i j. rt_priority (ro_routes ro ! j) \<le> rt_priority (ro_routes ro ! i)) c"
    using s values_of_sorted [of to_lowercase ?g 0 "ro_routes ro" "to_lowercase h"] by (intro mono) (auto simp: c)
qed

section \<open>The search\<close>

abbreviation route_matches where
  "route_matches im host path query mthd headers r \<equiv> rule_matches im host path query mthd headers (rt_matcher r)"

lemma find_None_all: "List.find P xs = None \<longleftrightarrow> (\<forall>x \<in> set xs. \<not> P x)"
  by (auto simp: find_None_iff)

lemma find_Some_member: "List.find P xs = Some x \<Longrightarrow> x \<in> set xs \<and> P x"
  by (auto simp: find_Some_iff)

text \<open>The two phases as one case distinction.\<close>

lemma match_request_phases:
  assumes ro: "ro = router_from_config rx routers"
    and M_def: "M = (\<lambda>r. ep_match ep r \<and> route_matches im host path query mthd headers r)"
  shows "(\<exists>i < length (ro_routes ro). rt_host_indexed (ro_routes ro ! i) \<and> M (ro_routes ro ! i) \<and>
        match_request im ro ep host path query mthd headers = Some (ro_routes ro ! i) \<and>
        (\<forall>j < length (ro_routes ro). rt_host_indexed (ro_routes ro ! j) \<and> M (ro_routes ro ! j) \<longrightarrow>
           rt_priority (ro_routes ro ! j) \<le> rt_priority (ro_routes ro ! i))) \<or>
    (\<forall>j < length (ro_routes ro). \<not> (rt_host_indexed (ro_routes ro ! j) \<and> M (ro_routes ro ! j))) \<and>
      ((\<exists>i < length (ro_routes ro). \<not> rt_host_indexed (ro_routes ro ! i) \<and> M (ro_routes ro ! i) \<and>
        match_request im ro ep host path query mthd headers = Some (ro_routes ro ! i) \<and>
        (\<forall>j < length (ro_routes ro). M (ro_routes ro ! j) \<longrightarrow>
           rt_priority (ro_routes ro ! j) \<le> rt_priority (ro_routes ro ! i))) \<or>
       (\<forall>j < length (ro_routes ro). \<not> M (ro_routes ro ! j)) \<and>
        match_request im ro ep host path query mthd headers = None)"
proof -
  let ?rs = "ro_routes ro"
  define hc where "hc = (case host of Some h \<Rightarrow>
      (case dict_get (ro_host_index ro) (to_lowercase h) of Some v \<Rightarrow> v | None \<Rightarrow> []) | None \<Rightarrow> [])"
  define c where "c = (case dict_get (ro_candidates_by_ep ro) ep of Some v \<Rightarrow> v | None \<Rightarrow> ro_catch_all ro)"
  let ?fast = "List.find (\<lambda>i. M (?rs ! i)) hc"
  let ?slow = "List.find (\<lambda>i. \<not> rt_host_indexed (?rs ! i) \<and> route_matches im host path query mthd headers (?rs ! i)) c"
  have mr: "match_request im ro ep host path query mthd headers =
      (case ?fast of Some i \<Rightarrow> Some (?rs ! i) | None \<Rightarrow> map_option (\<lambda>i. ?rs ! i) ?slow)"
    unfolding match_request_def Let_def hc_def c_def M_def by (auto split: option.split)
  note cs = ro_candidates [OF ro c_def]
  have hcs: "j \<in> set hc" if j: "j < length ?rs" "rt_host_indexed (?rs ! j)" "M (?rs ! j)" for j
  proof -
    from j(2) obtain h where h: "h \<in> set (extract_hosts (rt_matcher (?rs ! j)))"
      using ro_indexed [OF ro j(1)] by (cases "extract_hosts (rt_matcher (?rs ! j))") auto
    from j(3) extract_hosts_match [OF _ h] obtain g where "host = Some g" "to_lowercase g = to_lowercase h"
      unfolding M_def by blast
    then show ?thesis using ro_host_candidates(1) [OF ro refl, of g] j(1) h by (auto simp: hc_def)
  qed
  have hcm: "i < length ?rs \<and> rt_host_indexed (?rs ! i)" if "i \<in> set hc" for i
    using that ro_host_candidates(1) [OF ro refl] ro_indexed [OF ro, of i]
    unfolding hc_def by (cases host) auto
  have hsort: "sorted_wrt (\<lambda>i j. rt_priority (?rs ! j) \<le> rt_priority (?rs ! i)) hc"
    unfolding hc_def using ro_host_candidates(2) [OF ro refl] by (cases host) simp_all
  show ?thesis
  proof (cases ?fast)
    case (Some i)
    then have i: "i \<in> set hc" "M (?rs ! i)" using find_Some_member by fastforce+
    have "\<forall>j < length ?rs. rt_host_indexed (?rs ! j) \<and> M (?rs ! j) \<longrightarrow> rt_priority (?rs ! j) \<le> rt_priority (?rs ! i)"
      using find_max [OF Some hsort] hcs by blast
    then show ?thesis using Some i hcm [OF i(1)] by (intro disjI1 exI [of _ i]) (simp add: mr)
  next
    case None
    then have nh: "\<forall>j < length ?rs. \<not> (rt_host_indexed (?rs ! j) \<and> M (?rs ! j))"
      using hcs unfolding find_None_all by blast
    show ?thesis
    proof (cases ?slow)
      case (Some i)
      have i: "i < length ?rs" "\<not> rt_host_indexed (?rs ! i)" "M (?rs ! i)"
        using find_Some_member [OF Some] cs(1) by (simp_all add: M_def)
      have "\<forall>j < length ?rs. M (?rs ! j) \<longrightarrow> rt_priority (?rs ! j) \<le> rt_priority (?rs ! i)"
        using find_max [OF Some cs(2)] cs(1) nh by (simp add: M_def) blast
      then show ?thesis using nh i None Some by (intro disjI2 conjI [OF nh] disjI1 exI [of _ i]) (simp add: mr)
    next
      case slow: None
      then have "\<forall>j < length ?rs. \<not> M (?rs ! j)" using nh cs(1) unfolding find_None_all by (auto simp: M_def)
      then show ?thesis using nh None slow by (intro disjI2 conjI [OF nh] disjI2) (simp add: mr)
    qed
  qed
qed

text \<open>
  C4. The indexed search is sound and complete: on a router built from any configuration it returns
  a route of the entrypoint that matches the request, and it returns nothing only if no route of
  the entrypoint matches.
\<close>

theorem match_request_sound_complete:
  assumes "ro = router_from_config rx routers"
  shows "case match_request im ro ep host path query mthd headers of
      Some r \<Rightarrow> r \<in> set (ro_routes ro) \<and> ep_match ep r \<and> rule_matches im host path query mthd headers (rt_matcher r)
    | None \<Rightarrow> \<forall>r \<in> set (ro_routes ro). \<not> (ep_match ep r \<and> rule_matches im host path query mthd headers (rt_matcher r))"
  using match_request_phases [OF assms refl, of ep im host path query mthd headers]
  by (auto simp: in_set_conv_nth)

definition router_example :: "(string \<times> router_config) list" where
  "router_example =
     [(''api'', \<lparr>rc_entry_points = [], rc_rule = ''PathPrefix(`/api`)'', rc_rule_syntax = None,
         rc_service = ''api'', rc_middlewares = [], rc_priority = 100\<rparr>),
      (''web'', \<lparr>rc_entry_points = [''https''], rc_rule = ''Host(`a.com`)'', rc_rule_syntax = None,
         rc_service = ''web'', rc_middlewares = [], rc_priority = 1\<rparr>)]"

definition no_regex :: "string \<Rightarrow> unit + unit" where
  "no_regex p = Inl ()"

theorem match_request_sound_complete_witness:
  "case match_request (\<lambda>_ _. False) (router_from_config no_regex router_example) ''https'' (Some ''b.com'') ''/x'' None None (\<lambda>_. None) of
     Some r \<Rightarrow> r \<in> set (ro_routes (router_from_config no_regex router_example)) \<and> ep_match ''https'' r \<and>
       rule_matches (\<lambda>_ _. False) (Some ''b.com'') ''/x'' None None (\<lambda>_. None) (rt_matcher r)
   | None \<Rightarrow> \<forall>r \<in> set (ro_routes (router_from_config no_regex router_example)). \<not> (ep_match ''https'' r \<and>
       rule_matches (\<lambda>_ _. False) (Some ''b.com'') ''/x'' None None (\<lambda>_. None) (rt_matcher r))"
  by (rule match_request_sound_complete) (rule refl)

text \<open>
  Priorities within a class: the returned route has the highest priority among the matching
  routes that name a host when it names one itself; a route that names no host is returned only
  if no host route matches, and it then has the highest priority of all.
\<close>

theorem match_request_priority:
  assumes "ro = router_from_config rx routers" and "match_request im ro ep host path query mthd headers = Some r"
    and "r' \<in> set (ro_routes ro)" and "ep_match ep r'" and "rule_matches im host path query mthd headers (rt_matcher r')"
    and "rt_host_indexed r \<longrightarrow> rt_host_indexed r'"
  shows "rt_priority r' \<le> rt_priority r \<and> (\<not> rt_host_indexed r \<longrightarrow> \<not> rt_host_indexed r')"
  using match_request_phases [OF assms(1) refl, of ep im host path query mthd headers] assms(2-6)
  by (auto simp: in_set_conv_nth)

theorem match_request_priority_witness:
  "rt_priority (hd (ro_routes (router_from_config no_regex router_example))) \<le> 100"
proof -
  let ?ro = "router_from_config no_regex router_example"
  have "match_request (\<lambda>_ _. False) ?ro ''https'' (Some ''b.com'') ''/api/v1'' None None (\<lambda>_. None) = Some (hd (ro_routes ?ro))"
    "hd (ro_routes ?ro) \<in> set (ro_routes ?ro)" "ep_match ''https'' (hd (ro_routes ?ro))"
    "rule_matches (\<lambda>_ _. False) (Some ''b.com'') ''/api/v1'' None None (\<lambda>_. None) (rt_matcher (hd (ro_routes ?ro)))"
    "rt_priority (hd (ro_routes ?ro)) = 100"
    by code_simp+
  with match_request_priority [OF refl, where r = "hd (ro_routes ?ro)" and r' = "hd (ro_routes ?ro)"] show ?thesis by simp
qed

text \<open>
  The documentation of \<open>match_request\<close> promises the highest-priority matching route. Host routes
  are tried before all others, so a host route of priority 1 is returned although a matching path
  route has priority 100.
\<close>

theorem host_route_beats_priority:
  "let ro = router_from_config no_regex router_example;
       found = match_request (\<lambda>_ _. False) ro ''https'' (Some ''a.com'') ''/api/v1'' None None (\<lambda>_. None)
   in map_option rt_name found = Some ''web'' \<and> map_option rt_priority found = Some 1 \<and>
      (\<exists>r \<in> set (ro_routes ro). ep_match ''https'' r \<and> rt_priority r = 100 \<and>
        rule_matches (\<lambda>_ _. False) (Some ''a.com'') ''/api/v1'' None None (\<lambda>_. None) (rt_matcher r))"
  by code_simp

end
