(* ===== verification/Service_Routers.thy ===== *)
theory Service_Routers
  imports Smooth_WRR Config_Types Active_Health Random_Balancer
begin

text \<open>
  The composite services of \<open>src/src/service\<close>: \<open>WeightedServiceRouter\<close> (\<open>weighted.rs\<close>),
  \<open>MirroringServiceRouter\<close> (\<open>mirroring.rs\<close>) and \<open>FailoverServiceRouter\<close> (\<open>failover.rs\<close>). The
  weighted router is a second machine of smooth weighted round robin, so its fairness comes from
  the interface of \<open>Smooth_WRR\<close>. The three modules each have their own copy of the thread-local
  xorshift generator; its step is \<open>fast_random\<close> and its state an argument.
\<close>

section \<open>Weighted services\<close>

record weighted_service_entry =
  wse_name :: string
  wse_weight :: u32

record weighted_service_router =
  wsr_services :: "weighted_service_entry list"
  wsr_total_weight :: int
  wsr_current_weights :: "int list"

definition wsr_new :: "weighted_service \<Rightarrow> weighted_service_router" where
  "wsr_new config =
     (let services = map (\<lambda>s. \<lparr>wse_name = wr_name s, wse_weight = wr_weight s\<rparr>) (ws_services config)
      in \<lparr>wsr_services = services,
          wsr_total_weight = i64_sum (map (\<lambda>s. uint (wse_weight s)) services),
          wsr_current_weights = map (\<lambda>_. 0) services\<rparr>)"

text \<open>The loop over the services, from index \<open>i\<close>: the selected index and the new current weights.\<close>

fun wsr_scan :: "nat \<Rightarrow> int \<Rightarrow> nat \<Rightarrow> weighted_service_entry list \<Rightarrow> int list \<Rightarrow> nat \<times> int list" where
  "wsr_scan i max_weight selected (s # ss) (c # cs) =
     (let current = i64_add c (uint (wse_weight s));
          (selected', cs') =
            (if current > max_weight then wsr_scan (i + 1) current i ss cs
             else wsr_scan (i + 1) max_weight selected ss cs)
      in (selected', current # cs'))"
| "wsr_scan i max_weight selected _ cs = (selected, cs)"

definition wsr_next_service :: "weighted_service_router \<Rightarrow> string option \<times> weighted_service_router" where
  "wsr_next_service r =
     (case wsr_services r of
        [] \<Rightarrow> (None, r)
      | [s] \<Rightarrow> (Some (wse_name s), r)
      | services \<Rightarrow>
          let (selected, cs) = wsr_scan 0 (- (2 ^ 63)) 0 services (wsr_current_weights r)
          in (Some (wse_name (services ! selected)),
              r\<lparr>wsr_current_weights := cs[selected := i64_sub (cs ! selected) (wsr_total_weight r)]\<rparr>))"

fun wsr_pick :: "int \<Rightarrow> int \<Rightarrow> weighted_service_entry list \<Rightarrow> string option" where
  "wsr_pick target cumulative [] = None"
| "wsr_pick target cumulative (s # ss) =
     (let cumulative' = i64_add cumulative (uint (wse_weight s))
      in if target < cumulative' then Some (wse_name s) else wsr_pick target cumulative' ss)"

text \<open>
  A zero divisor panics. The dividend is not negative, so Rust's remainder is \<open>mod\<close> for a positive
  total.
\<close>

definition wsr_random_service :: "weighted_service_router \<times> u32 \<Rightarrow> (panic + string option) \<times> u32" where
  "wsr_random_service st =
     (let (r, rng) = st in
      case wsr_services r of
        [] \<Rightarrow> (Inr None, rng)
      | [s] \<Rightarrow> (Inr (Some (wse_name s)), rng)
      | services \<Rightarrow>
          let rng' = fast_random rng in
          if wsr_total_weight r = 0 then (Inl DivisionByZero, rng')
          else (Inr (case wsr_pick (uint rng' mod wsr_total_weight r) 0 services of
                       Some n \<Rightarrow> Some n
                     | None \<Rightarrow> Some (wse_name (last services))), rng'))"

definition wsr_service_names :: "weighted_service_router \<Rightarrow> string list" where
  "wsr_service_names r = map wse_name (wsr_services r)"

definition wsr_is_empty :: "weighted_service_router \<Rightarrow> bool" where
  "wsr_is_empty r \<longleftrightarrow> wsr_services r = []"

section \<open>Mirroring\<close>

record mirror_entry =
  me_name :: string
  me_percent :: u32

record mirroring_service_router =
  msr_main_service :: string
  msr_mirrors :: "mirror_entry list"
  msr_max_body_size :: "int option"

definition msr_new :: "mirroring_service \<Rightarrow> mirroring_service_router" where
  "msr_new config = \<lparr>msr_main_service = ms_service config,
     msr_mirrors = map (\<lambda>m. \<lparr>me_name = mr_name m, me_percent = min (mr_percent m) 100\<rparr>) (ms_mirrors config),
     msr_max_body_size = ms_max_body_size config\<rparr>"

fun msr_select :: "mirror_entry list \<Rightarrow> u32 \<Rightarrow> string list \<times> u32" where
  "msr_select [] rng = ([], rng)"
| "msr_select (m # ms) rng =
     (let rng' = fast_random rng; (selected, rng'') = msr_select ms rng'
      in (if rng' mod 100 < me_percent m then me_name m # selected else selected, rng''))"

definition msr_mirrors_for_request :: "mirroring_service_router \<Rightarrow> u32 \<Rightarrow> string list \<times> u32" where
  "msr_mirrors_for_request r rng = (if msr_mirrors r = [] then ([], rng) else msr_select (msr_mirrors r) rng)"

definition msr_body_within_limit :: "mirroring_service_router \<Rightarrow> int \<Rightarrow> bool" where
  "msr_body_within_limit r sz =
     (case msr_max_body_size r of Some mx \<Rightarrow> if mx > 0 then sz \<le> mx else True | None \<Rightarrow> True)"

definition msr_all_mirrors :: "mirroring_service_router \<Rightarrow> string list" where
  "msr_all_mirrors r = map me_name (msr_mirrors r)"

definition msr_has_mirrors :: "mirroring_service_router \<Rightarrow> bool" where
  "msr_has_mirrors r \<longleftrightarrow> msr_mirrors r \<noteq> []"

section \<open>Failover\<close>

text \<open>
  The router may share a \<open>HealthStatus\<close> with a health checker; the field holds the current content
  of the shared status.
\<close>

record failover_service_router =
  fsr_primary :: string
  fsr_fallback :: string
  fsr_primary_healthy :: bool
  fsr_health_status :: "health_status option"

definition fsr_new :: "failover_service \<Rightarrow> failover_service_router" where
  "fsr_new config = \<lparr>fsr_primary = fs_service config, fsr_fallback = fs_fallback config,
     fsr_primary_healthy = True, fsr_health_status = None\<rparr>"

definition fsr_with_health_status :: "failover_service \<Rightarrow> health_status \<Rightarrow> failover_service_router" where
  "fsr_with_health_status config st = \<lparr>fsr_primary = fs_service config, fsr_fallback = fs_fallback config,
     fsr_primary_healthy = True, fsr_health_status = Some st\<rparr>"

definition fsr_active_service :: "failover_service_router \<Rightarrow> string" where
  "fsr_active_service r =
     (case fsr_health_status r of
        Some st \<Rightarrow> if hs_healthy st then fsr_primary r else fsr_fallback r
      | None \<Rightarrow> if fsr_primary_healthy r then fsr_primary r else fsr_fallback r)"

definition fsr_mark_primary_healthy :: "failover_service_router \<Rightarrow> failover_service_router" where
  "fsr_mark_primary_healthy r = r\<lparr>fsr_primary_healthy := True\<rparr>"

definition fsr_mark_primary_unhealthy :: "failover_service_router \<Rightarrow> failover_service_router" where
  "fsr_mark_primary_unhealthy r = r\<lparr>fsr_primary_healthy := False\<rparr>"

definition fsr_is_using_primary :: "failover_service_router \<Rightarrow> bool" where
  "fsr_is_using_primary r =
     (case fsr_health_status r of Some st \<Rightarrow> hs_healthy st | None \<Rightarrow> fsr_primary_healthy r)"

definition fsr_service_names :: "failover_service_router \<Rightarrow> string \<times> string" where
  "fsr_service_names r = (fsr_primary r, fsr_fallback r)"

section \<open>Weighted services are smooth weighted round robin\<close>

lemma wsr_scan_weights:
  "length ss = length cs \<Longrightarrow>
     snd (wsr_scan i mx sel ss cs) = map2 (\<lambda>s c. i64_add c (uint (wse_weight s))) ss cs"
  by (induction i mx sel ss cs rule: wsr_scan.induct) (auto simp: Let_def case_prod_beta)

lemma wsr_scan_selected:
  assumes "length ss = length cs" and "wsr_scan i mx sel ss cs = (j, cs')"
  shows "j = sel \<and> (\<forall>c \<in> set cs'. c \<le> mx) \<or>
    (\<exists>k < length cs'. j = i + k \<and> mx < cs' ! k \<and> (\<forall>c \<in> set cs'. c \<le> cs' ! k))"
  using assms
proof (induction i mx sel ss cs arbitrary: j cs' rule: wsr_scan.induct)
  case (1 i mx sel s ss c cs)
  let ?cur = "i64_add c (uint (wse_weight s))"
  show ?case
  proof (cases "?cur > mx")
    case True
    obtain cs1 where r: "wsr_scan (i + 1) ?cur i ss cs = (j, cs1)" "cs' = ?cur # cs1"
      using 1(4) True by (auto simp: Let_def split: prod.splits)
    from 1(1) [OF refl True _ r(1)] 1(3)
    have "j = i \<and> (\<forall>c \<in> set cs1. c \<le> ?cur) \<or>
        (\<exists>k < length cs1. j = i + 1 + k \<and> ?cur < cs1 ! k \<and> (\<forall>c \<in> set cs1. c \<le> cs1 ! k))" by simp
    then show ?thesis
    proof
      assume "j = i \<and> (\<forall>c \<in> set cs1. c \<le> ?cur)"
      then show ?thesis using True by (intro disjI2 exI [of _ 0]) (simp add: r)
    next
      assume "\<exists>k < length cs1. j = i + 1 + k \<and> ?cur < cs1 ! k \<and> (\<forall>c \<in> set cs1. c \<le> cs1 ! k)"
      then obtain k where "k < length cs1" "j = i + 1 + k" "?cur < cs1 ! k" "\<forall>c \<in> set cs1. c \<le> cs1 ! k" by blast
      then show ?thesis using True by (intro disjI2 exI [of _ "Suc k"]) (simp add: r)
    qed
  next
    case False
    obtain cs1 where r: "wsr_scan (i + 1) mx sel ss cs = (j, cs1)" "cs' = ?cur # cs1"
      using 1(4) False by (auto simp: Let_def split: prod.splits)
    from 1(2) [OF refl False _ r(1)] 1(3)
    have "j = sel \<and> (\<forall>c \<in> set cs1. c \<le> mx) \<or>
        (\<exists>k < length cs1. j = i + 1 + k \<and> mx < cs1 ! k \<and> (\<forall>c \<in> set cs1. c \<le> cs1 ! k))" by simp
    then show ?thesis
    proof
      assume "j = sel \<and> (\<forall>c \<in> set cs1. c \<le> mx)"
      then show ?thesis using False by (simp add: r)
    next
      assume "\<exists>k < length cs1. j = i + 1 + k \<and> mx < cs1 ! k \<and> (\<forall>c \<in> set cs1. c \<le> cs1 ! k)"
      then obtain k where "k < length cs1" "j = i + 1 + k" "mx < cs1 ! k" "\<forall>c \<in> set cs1. c \<le> cs1 ! k" by blast
      then show ?thesis using False by (intro disjI2 exI [of _ "Suc k"]) (simp add: r)
    qed
  qed
qed simp_all

text \<open>The observations for the interface.\<close>

definition wsr_active :: "weighted_service_router \<Rightarrow> nat set" where
  "wsr_active r = {..< length (wsr_services r)}"

definition wsr_weight :: "weighted_service_router \<Rightarrow> nat \<Rightarrow> int" where
  "wsr_weight r i = (if i < length (wsr_services r) then uint (wse_weight (wsr_services r ! i)) else 0)"

definition wsr_current :: "weighted_service_router \<Rightarrow> nat \<Rightarrow> int" where
  "wsr_current r i = wsr_current_weights r ! i"

definition wsr_ok :: "weighted_service_router \<Rightarrow> bool" where
  "wsr_ok r \<longleftrightarrow> length (wsr_current_weights r) = length (wsr_services r) \<and> length (wsr_services r) < 2 ^ 15 \<and>
     wsr_total_weight r = i64_sum (map (\<lambda>s. uint (wse_weight s)) (wsr_services r)) \<and>
     (\<exists>s \<in> set (wsr_services r). wse_weight s \<noteq> 0)"

lemma wsr_weight_range: "0 \<le> wsr_weight r i" "wsr_weight r i < 2 ^ 32"
  using uint_bounded [of "wse_weight (wsr_services r ! i)"] by (auto simp: wsr_weight_def)

lemma wsr_ok_weights:
  assumes "wsr_ok r"
  shows "swrr_weights (wsr_active r) (wsr_weight r)"
proof -
  from assms obtain i where "i < length (wsr_services r)" "wse_weight (wsr_services r ! i) \<noteq> 0"
    by (auto simp: wsr_ok_def in_set_conv_nth)
  then have "i \<in> wsr_active r" "0 < wsr_weight r i"
    by (simp_all add: wsr_active_def wsr_weight_def uint_pos_iff)
  then have "0 < sum (wsr_weight r) (wsr_active r)"
    using wsr_weight_range(1) by (intro sum_pos2 [of _ i]) (auto simp: wsr_active_def)
  then show ?thesis using wsr_weight_range(1) by (simp add: swrr_weights_def wsr_active_def)
qed

lemma wsr_bounds:
  assumes "wsr_ok r"
  shows "finite (wsr_active r)" "card (wsr_active r) < 2 ^ 15" "\<forall>i \<in> wsr_active r. wsr_weight r i < 2 ^ 32"
  using assms wsr_weight_range(2) by (simp_all add: wsr_ok_def wsr_active_def)

lemma wsr_total_eq:
  assumes "wsr_ok r"
  shows "wsr_total_weight r = sum (wsr_weight r) (wsr_active r)"
proof -
  let ?xs = "map (\<lambda>s. uint (wse_weight s)) (wsr_services r)"
  have eq: "sum_list ?xs = sum (wsr_weight r) (wsr_active r)"
    unfolding sum_list_sum_nth by (rule sum.cong) (auto simp: wsr_active_def wsr_weight_def)
  have "sum (wsr_weight r) (wsr_active r) \<le> 2 ^ 47" by (rule swrr_total_bound [OF wsr_bounds [OF assms]])
  then have "i64_sum ?xs = sum_list ?xs" by (intro i64_sum_exact) (auto simp: eq)
  then show ?thesis using assms eq by (simp add: wsr_ok_def)
qed

lemma wsr_next_step:
  assumes ok: "wsr_ok r" and I: "swrr_inv (wsr_active r) (wsr_weight r) (wsr_current r)"
  shows "\<exists>j. swrr_step (wsr_active r) (wsr_weight r) (wsr_current r) j (wsr_current (snd (wsr_next_service r))) \<and>
    fst (wsr_next_service r) = Some (wsr_service_names r ! j)"
proof (cases "\<exists>s. wsr_services r = [s]")
  case True
  then show ?thesis
    by (intro exI [of _ 0])
      (auto simp: wsr_next_service_def swrr_step_def wsr_active_def wsr_service_names_def lessThan_Suc)
next
  case False
  let ?A = "wsr_active r" and ?w = "wsr_weight r" and ?c = "wsr_current r"
  have ne: "wsr_services r \<noteq> []" using ok by (auto simp: wsr_ok_def)
  have len: "length (wsr_services r) = length (wsr_current_weights r)" using ok by (simp add: wsr_ok_def)
  obtain j cs where sc: "wsr_scan 0 (- (2 ^ 63)) 0 (wsr_services r) (wsr_current_weights r) = (j, cs)" by fastforce
  have nx: "wsr_next_service r = (Some (wse_name (wsr_services r ! j)),
      r\<lparr>wsr_current_weights := cs[j := i64_sub (cs ! j) (wsr_total_weight r)]\<rparr>)"
    using sc ne False unfolding wsr_next_service_def by (auto split: list.splits)
  note B = wsr_bounds [OF ok] and bnd = swrr_current_bound [OF wsr_ok_weights [OF ok] I _ wsr_bounds(2,3) [OF ok]]
  have cs: "cs = map2 (\<lambda>s c. i64_add c (uint (wse_weight s))) (wsr_services r) (wsr_current_weights r)"
    using wsr_scan_weights [OF len] sc by (metis snd_conv)
  then have lcs: "length cs = length (wsr_services r)" using len by simp
  have bump: "cs ! i = ?c i + ?w i" "- (2 ^ 63) < ?c i + ?w i" if i: "i \<in> ?A" for i
  proof -
    have r: "- (2 ^ 63) < ?c i + ?w i" "?c i + ?w i < 2 ^ 63"
      using bnd [OF i] wsr_weight_range [of r i] by simp_all
    then show "- (2 ^ 63) < ?c i + ?w i" by simp
    show "cs ! i = ?c i + ?w i" using i r len
      by (simp add: cs wsr_active_def wsr_current_def wsr_weight_def i64_add_def i64_wrap_id)
  qed
  have "0 \<in> ?A" using ne by (simp add: wsr_active_def)
  then have "cs ! 0 \<in> set cs" "- (2 ^ 63) < cs ! 0" using bump [of 0] lcs ne nth_mem [of 0 cs] by simp_all
  then have sel: "j \<in> ?A" "\<forall>c \<in> set cs. c \<le> cs ! j"
    using wsr_scan_selected [OF len sc] lcs by (auto simp: wsr_active_def)
  have mx: "?c i + ?w i \<le> ?c j + ?w j" if "i \<in> ?A" for i
  proof -
    have "cs ! i \<in> set cs" using that lcs by (simp add: wsr_active_def)
    then show ?thesis using sel bump(1) [OF that] bump(1) [OF sel(1)] by fastforce
  qed
  have T: "wsr_total_weight r = sum ?w ?A" by (rule wsr_total_eq [OF ok])
  have Tb: "sum ?w ?A \<le> 2 ^ 47" "0 < sum ?w ?A"
    using swrr_total_bound [OF B] wsr_ok_weights [OF ok] by (simp_all add: swrr_weights_def)
  have sub: "i64_sub (cs ! j) (sum ?w ?A) = ?c j + ?w j - sum ?w ?A"
    unfolding i64_sub_def bump(1) [OF sel(1)]
    by (rule i64_wrap_id) (use bnd [OF sel(1)] wsr_weight_range [of r j] Tb in simp_all)
  have "wsr_current (snd (wsr_next_service r)) i = ?c i + ?w i - (if i = j then sum ?w ?A else 0)" if i: "i \<in> ?A" for i
    using i lcs bump(1) [OF i] sub sel(1) by (simp add: nx wsr_current_def T nth_list_update wsr_active_def)
  with sel mx have "swrr_step ?A ?w ?c j (wsr_current (snd (wsr_next_service r)))" by (simp add: swrr_step_def)
  then show ?thesis using sel(1) by (intro exI [of _ j]) (simp add: nx wsr_service_names_def wsr_active_def)
qed

lemma wsr_next_frame:
  "wsr_services (snd (wsr_next_service r)) = wsr_services r"
  "wsr_total_weight (snd (wsr_next_service r)) = wsr_total_weight r"
  "length (wsr_current_weights r) = length (wsr_services r) \<Longrightarrow>
     length (wsr_current_weights (snd (wsr_next_service r))) = length (wsr_services r)"
  using wsr_scan_weights [of "wsr_services r" "wsr_current_weights r" 0 "- (2 ^ 63)" 0]
  by (auto simp: wsr_next_service_def Let_def case_prod_beta split: list.splits)

lemma wsr_next_ok: "wsr_ok r \<Longrightarrow> wsr_ok (snd (wsr_next_service r))"
  by (simp add: wsr_ok_def wsr_next_frame)

interpretation wsm: swrr_machine wsr_next_service wsr_active wsr_weight wsr_current
  "\<lambda>r j. Some (wsr_service_names r ! j)" wsr_ok
proof unfold_locales
  fix r
  show "wsr_active (snd (wsr_next_service r)) = wsr_active r \<and> wsr_weight (snd (wsr_next_service r)) = wsr_weight r \<and>
      (\<lambda>j. Some (wsr_service_names (snd (wsr_next_service r)) ! j)) = (\<lambda>j. Some (wsr_service_names r ! j))"
    by (simp add: wsr_next_frame wsr_active_def wsr_weight_def wsr_service_names_def fun_eq_iff)
qed (simp_all add: wsr_ok_weights wsr_next_step wsr_next_ok)

text \<open>
  Traffic splitting is exact: a weighted service router built from a configuration with fewer
  than \<open>2 ^ 15\<close> services of distinct names, some of positive weight, sends over every period of
  \<open>total_weight\<close> requests exactly as many to a service as its weight says.
\<close>

theorem weighted_service_split:
  assumes r: "r = wsr_new config" and n: "length (ws_services config) < 2 ^ 15"
    and pos: "\<exists>s \<in> set (ws_services config). wr_weight s \<noteq> 0"
    and d: "distinct (map wr_name (ws_services config))" and i: "i < length (ws_services config)"
  shows "count_list (fst (iter_calls wsr_next_service (nat (wsr_total_weight r)) r))
      (Some (wr_name (ws_services config ! i))) = unat (wr_weight (ws_services config ! i))"
proof -
  let ?n = "nat (wsr_total_weight r)"
  have ok: "wsr_ok r" using n pos by (simp add: r wsr_new_def wsr_ok_def Let_def comp_def)
  have names: "wsr_service_names r = map wr_name (ws_services config)"
    by (simp add: r wsr_new_def wsr_service_names_def Let_def comp_def)
  have z: "\<forall>i \<in> wsr_active r. wsr_current r i = 0"
    by (simp add: r wsr_new_def wsr_active_def wsr_current_def Let_def comp_def)
  note W = wsr_ok_weights [OF ok]
  have "swrr_inv (wsr_active r) (wsr_weight r) (wsr_current r)"
    using swrr_inv_zero [OF W] z by (simp add: swrr_inv_def)
  from wsm.calls_run [OF ok this, of ?n] swrr_run_cong [OF _ z] obtain js c where
    js: "swrr_run (wsr_active r) (wsr_weight r) (\<lambda>_. 0) js c" "length js = ?n"
      "fst (iter_calls wsr_next_service ?n r) = map (\<lambda>j. Some (wsr_service_names r ! j)) js" by blast
  have act: "wsr_active r = {..< length (ws_services config)}"
    by (simp add: r wsr_new_def wsr_active_def Let_def)
  have "count_list (fst (iter_calls wsr_next_service ?n r)) (Some (wsr_service_names r ! i)) = count_list js i"
    unfolding js(3) by (rule count_list_map_Some_nth) (use swrr_run_active [OF js(1)] d i in \<open>auto simp: names act\<close>)
  moreover have "int (count_list js i) = wsr_weight r i"
    by (rule swrr_period(1) [OF W js(1)]) (use js(2) wsr_total_eq [OF ok] W i in \<open>simp_all add: swrr_weights_def act\<close>)
  then have "count_list js i = unat (wr_weight (ws_services config ! i))"
    using i by (simp add: r wsr_new_def wsr_weight_def Let_def) (metis nat_int nat_uint_eq)
  ultimately show ?thesis using i by (simp add: names)
qed

definition ws_example :: weighted_service where
  "ws_example = \<lparr>ws_services = [\<lparr>wr_name = ''v1'', wr_weight = 3\<rparr>, \<lparr>wr_name = ''v2'', wr_weight = 1\<rparr>],
     ws_sticky = None, ws_health_check = None\<rparr>"

theorem weighted_service_split_witness:
  "wsr_total_weight (wsr_new ws_example) = 4 \<and>
   count_list (fst (iter_calls wsr_next_service 4 (wsr_new ws_example))) (Some ''v1'') = 3"
proof -
  have t: "wsr_total_weight (wsr_new ws_example) = 4" by code_simp
  have e: "length (ws_services ws_example) < 2 ^ 15" "\<exists>s \<in> set (ws_services ws_example). wr_weight s \<noteq> 0"
    "distinct (map wr_name (ws_services ws_example))" "0 < length (ws_services ws_example)"
    "ws_services ws_example ! 0 = \<lparr>wr_name = ''v1'', wr_weight = 3\<rparr>"
    by (simp_all add: ws_example_def)
  show ?thesis using weighted_service_split [OF refl e(1,2,3,4)] t e(5) by simp
qed

section \<open>Random selection, mirroring and failover\<close>

text \<open>With two services of weight zero the remainder by the total weight panics.\<close>

lemma random_service_panics:
  assumes "2 \<le> length (ws_services config)" and "\<forall>s \<in> set (ws_services config). wr_weight s = 0"
  shows "fst (wsr_random_service (wsr_new config, rng)) = Inl DivisionByZero"
proof -
  have "i64_sum xs = 0" if "\<forall>x \<in> set xs. x = 0" for xs
  proof -
    have "sum_list xs = 0" using that by (induction xs) auto
    moreover have "\<forall>x \<in> set xs. 0 \<le> x" using that by auto
    ultimately show ?thesis using i64_sum_exact [of xs] by simp
  qed
  then have "wsr_total_weight (wsr_new config) = 0" using assms(2) by (simp add: wsr_new_def Let_def)
  moreover obtain a b ss where "wsr_services (wsr_new config) = a # b # ss"
    using assms(1) by (cases "ws_services config"; cases "tl (ws_services config)") (auto simp: wsr_new_def Let_def)
  ultimately show ?thesis by (simp add: wsr_random_service_def Let_def)
qed

lemma msr_select_nth:
  "fst (msr_select ms rng) = map (\<lambda>k. me_name (ms ! k))
     (filter (\<lambda>k. (fast_random ^^ Suc k) rng mod 100 < me_percent (ms ! k)) [0 ..< length ms])"
proof (induction ms arbitrary: rng)
  case (Cons m ms)
  have "[0 ..< length (m # ms)] = 0 # map Suc [0 ..< length ms]"
    by (simp add: map_Suc_upt upt_conv_Cons del: upt_Suc)
  then show ?case using Cons [of "fast_random rng"]
    by (simp add: Let_def case_prod_beta filter_map comp_def funpow_swap1)
qed simp

text \<open>
  Mirroring: the mirrors chosen for a request are those whose roll of the generator, one per
  mirror in the configured order, is below their percentage; a mirror with 100 percent or more is
  always chosen and one with zero percent never.
\<close>

theorem mirrors_by_percentage:
  assumes "i < length (ms_mirrors config)"
  shows "(\<exists>ks. fst (msr_mirrors_for_request (msr_new config) rng) = map (\<lambda>k. mr_name (ms_mirrors config ! k)) ks \<and>
      sorted_wrt (<) ks \<and> set ks \<subseteq> {..< length (ms_mirrors config)} \<and>
      (i \<in> set ks \<longleftrightarrow> (fast_random ^^ Suc i) rng mod 100 < mr_percent (ms_mirrors config ! i)) \<and>
      (100 \<le> mr_percent (ms_mirrors config ! i) \<longrightarrow> i \<in> set ks) \<and> (mr_percent (ms_mirrors config ! i) = 0 \<longrightarrow> i \<notin> set ks))"
proof -
  let ?ms = "msr_mirrors (msr_new config)"
  define ks where "ks = filter (\<lambda>k. (fast_random ^^ Suc k) rng mod 100 < me_percent (?ms ! k)) [0 ..< length ?ms]"
  let ?p = "mr_percent (ms_mirrors config ! i)" and ?roll = "(fast_random ^^ Suc i) rng mod 100"
  have roll: "?roll < 100" by (simp add: word_less_nat_alt unat_mod)
  have len: "length ?ms = length (ms_mirrors config)" by (simp add: msr_new_def)
  have "me_percent (?ms ! i) = min ?p 100" using assms by (simp add: msr_new_def)
  then have mem: "i \<in> set ks \<longleftrightarrow> ?roll < ?p" using assms roll len by (auto simp: ks_def min_def)
  show ?thesis
  proof (intro exI [of _ ks] conjI impI)
    have "fst (msr_mirrors_for_request (msr_new config) rng) = fst (msr_select ?ms rng)"
      by (cases ?ms) (simp_all add: msr_mirrors_for_request_def)
    also have "\<dots> = map (\<lambda>k. me_name (?ms ! k)) ks" unfolding ks_def by (rule msr_select_nth)
    also have "\<dots> = map (\<lambda>k. mr_name (ms_mirrors config ! k)) ks"
      by (rule map_cong) (auto simp: ks_def msr_new_def)
    finally show "fst (msr_mirrors_for_request (msr_new config) rng) = map (\<lambda>k. mr_name (ms_mirrors config ! k)) ks" .
    show "sorted_wrt (<) ks" by (simp add: ks_def sorted_wrt_filter)
    show "set ks \<subseteq> {..< length (ms_mirrors config)}" using len by (auto simp: ks_def)
    show "i \<in> set ks \<longleftrightarrow> ?roll < ?p" by (rule mem)
    show "i \<in> set ks" if "100 \<le> ?p" unfolding mem using roll that by (rule order.strict_trans2)
    show "i \<notin> set ks" if "?p = 0" unfolding mem that by simp
  qed
qed

definition ms_example :: mirroring_service where
  "ms_example = \<lparr>ms_service = ''main'', ms_mirrors = [\<lparr>mr_name = ''shadow'', mr_percent = 150\<rparr>],
     ms_max_body_size = None, ms_mirror_body = True\<rparr>"

theorem mirrors_by_percentage_witness:
  "fst (msr_mirrors_for_request (msr_new ms_example) 1) \<noteq> []"
proof -
  have "0 < length (ms_mirrors ms_example)" "100 \<le> mr_percent (ms_mirrors ms_example ! 0)"
    by (simp_all add: ms_example_def)
  from mirrors_by_percentage [OF this(1), of 1] this(2) show ?thesis by (metis empty_iff list.set(1) map_is_Nil_conv)
qed

text \<open>
  Failover follows the health checker: with the status shared between a failover router and the
  active checker of its primary, the active service is the primary exactly when the history of
  probe outcomes is healthy under the checker's hysteresis, and the fallback otherwise.
\<close>

theorem failover_follows_checker:
  "fsr_active_service (fsr_with_health_status config (checker_run ss c ps)) =
     (if hysteresis (rev (map (\<lambda>(_, p). perform_http_check ss c p = None) ps)) then fs_service config else fs_fallback config)"
  using checker_run_hysteresis [of ss c ps] by (simp add: fsr_active_service_def fsr_with_health_status_def)

end
