(* ===== verification/Ip_Addr.thy ===== *)
theory Ip_Addr
  imports Rust_Std
begin

text \<open>
  \<open>std::net::IpAddr\<close> with its textual form, as the forwarding headers and the address filters use
  it: the display form of both families (with the compression of the longest run of zero groups
  and the mapped form of IPv6) and the parser, which reads prefixes of the input as the library
  does. The parser gives back every IPv4 address from its display form.
\<close>

datatype ip_addr = V4 u32 | V6 "128 word"

section \<open>Display\<close>

definition ipv4_octets :: "u32 \<Rightarrow> nat list" where
  "ipv4_octets a = [unat a div 2 ^ 24, unat a div 2 ^ 16 mod 256, unat a div 2 ^ 8 mod 256, unat a mod 256]"

definition show_ipv4 :: "u32 \<Rightarrow> string" where
  "show_ipv4 a = join_char CHR ''.'' (map show_nat (ipv4_octets a))"

definition ipv6_segments :: "128 word \<Rightarrow> nat list" where
  "ipv6_segments a = map (\<lambda>i. unat a div 2 ^ (16 * i) mod 65536) (rev [0 ..< 8])"

text \<open>Start and length of the first longest run of zeros.\<close>

fun zero_run :: "nat \<Rightarrow> nat \<times> nat \<Rightarrow> nat \<times> nat \<Rightarrow> nat list \<Rightarrow> nat \<times> nat" where
  "zero_run i longest current [] = longest"
| "zero_run i longest current (x # xs) =
     (if x = 0 then
        (let current' = (if snd current = 0 then i else fst current, snd current + 1);
             longest' = (if snd current' > snd longest then current' else longest)
         in zero_run (i + 1) longest' current' xs)
      else zero_run (i + 1) longest (0, 0) xs)"

definition show_ipv6 :: "128 word \<Rightarrow> string" where
  "show_ipv6 a =
     (let segments = ipv6_segments a in
      if take 5 segments = replicate 5 0 \<and> segments ! 5 = 65535
      then ''::ffff:'' @ show_ipv4 (of_nat (unat a mod 2 ^ 32))
      else let (start, len) = zero_run 0 (0, 0) (0, 0) segments; groups = (\<lambda>gs. join_char CHR '':'' (map show_hex gs)) in
        if len > 1 then groups (take start segments) @ ''::'' @ groups (drop (start + len) segments)
        else groups segments)"

fun show_ip :: "ip_addr \<Rightarrow> string" where
  "show_ip (V4 a) = show_ipv4 a"
| "show_ip (V6 a) = show_ipv6 a"

section \<open>Parsing\<close>

definition read_dec :: "string \<Rightarrow> (nat \<times> string) option" where
  "read_dec s =
     (let ds = takeWhile is_ascii_digit s in
      if ds = [] \<or> length ds > 3 \<or> (hd ds = CHR ''0'' \<and> length ds > 1) \<or> digits_value ds > 255 then None
      else Some (digits_value ds, drop (length ds) s))"

definition read_hex :: "string \<Rightarrow> (nat \<times> string) option" where
  "read_hex s =
     (let ds = takeWhile is_hexdigit s in
      if ds = [] \<or> length ds > 4 then None else Some (hex_digits_value ds, drop (length ds) s))"

text \<open>A separator is expected before every element but the first.\<close>

definition read_separator :: "char \<Rightarrow> nat \<Rightarrow> (string \<Rightarrow> 'a option) \<Rightarrow> string \<Rightarrow> 'a option" where
  "read_separator sep i p s =
     (if i = 0 then p s else case s of c # r \<Rightarrow> if c = sep then p r else None | [] \<Rightarrow> None)"

fun read_octets :: "nat \<Rightarrow> nat \<Rightarrow> string \<Rightarrow> (nat list \<times> string) option" where
  "read_octets i 0 s = Some ([], s)"
| "read_octets i (Suc n) s =
     (case read_separator CHR ''.'' i read_dec s of
        None \<Rightarrow> None
      | Some (o1, r) \<Rightarrow> map_option (\<lambda>(os, r'). (o1 # os, r')) (read_octets (i + 1) n r))"

definition read_ipv4 :: "string \<Rightarrow> (u32 \<times> string) option" where
  "read_ipv4 s = map_option (\<lambda>(os, r). (of_nat (foldl (\<lambda>a x. a * 256 + x) 0 os), r)) (read_octets 0 4 s)"

text \<open>
  \<open>read_groups\<close>: up to \<open>n\<close> more groups, the next one with index \<open>i\<close>; the flag says that a trailing
  IPv4 address was read.
\<close>

fun read_groups :: "nat \<Rightarrow> nat \<Rightarrow> string \<Rightarrow> nat list \<times> bool \<times> string" where
  "read_groups i 0 s = ([], False, s)"
| "read_groups i (Suc n) s =
     (case (if n > 0 then read_separator CHR '':'' i read_ipv4 s else None) of
        Some (a, r) \<Rightarrow> ([unat a div 65536, unat a mod 65536], True, r)
      | None \<Rightarrow>
          (case read_separator CHR '':'' i read_hex s of
             Some (g, r) \<Rightarrow> (let (gs, v4, r') = read_groups (i + 1) n r in (g # gs, v4, r'))
           | None \<Rightarrow> ([], False, s)))"

definition read_ipv6 :: "string \<Rightarrow> (128 word \<times> string) option" where
  "read_ipv6 s =
     (let value = (\<lambda>gs. of_nat (foldl (\<lambda>a x. a * 65536 + x) 0 gs)); (head, head_ipv4, r) = read_groups 0 8 s in
      if length head = 8 then Some (value head, r)
      else if head_ipv4 then None
      else case strip_prefix ''::'' r of
        None \<Rightarrow> None
      | Some r' \<Rightarrow>
          let (tail, _, r'') = read_groups 0 (8 - (length head + 1)) r'
          in Some (value (head @ replicate (8 - length head - length tail) 0 @ tail), r''))"

definition parse_ip :: "string \<Rightarrow> ip_addr option" where
  "parse_ip s =
     (case read_ipv4 s of
        Some (a, r) \<Rightarrow> if r = [] then Some (V4 a) else None
      | None \<Rightarrow> (case read_ipv6 s of Some (a, r) \<Rightarrow> if r = [] then Some (V6 a) else None | None \<Rightarrow> None))"

section \<open>IPv4 round trip\<close>

lemma takeWhile_digits:
  assumes "list_all P ds" and "r = [] \<or> \<not> P (hd r)"
  shows "takeWhile P (ds @ r) = ds"
  using assms by (induction ds) (cases r, auto)+

lemma read_dec_show:
  assumes "n < 256" and "r = [] \<or> \<not> is_ascii_digit (hd r)"
  shows "read_dec (show_nat n @ r) = Some (n, r)"
proof -
  have t: "takeWhile is_ascii_digit (show_nat n @ r) = show_nat n"
    using show_nat_digits assms(2) by (intro takeWhile_digits) auto
  have "length (show_nat n) \<le> Suc 2" by (rule length_show_nat) (use assms(1) in simp)
  moreover have "\<not> (hd (show_nat n) = CHR ''0'' \<and> length (show_nat n) > 1)"
    using show_nat_no_leading_zero [of n] by (cases "n = 0") (auto simp: show_nat.simps [of 0])
  ultimately show ?thesis
    using t show_nat_digits [of n] digits_value_show [of n] assms(1) by (auto simp: read_dec_def)
qed

lemma ipv4_octets_bound: "\<forall>x \<in> set (ipv4_octets a). x < 256"
proof -
  have "unat a < 256 * 2 ^ 24" using unsigned_less [of a, where 'a = nat] by simp
  then show ?thesis by (simp add: ipv4_octets_def less_mult_imp_div_less)
qed

lemma ipv4_octets_value: "foldl (\<lambda>a x. a * 256 + x) 0 (ipv4_octets a) = unat a"
proof -
  have "unat a div 65536 = unat a div 16777216 * 256 + unat a div 65536 mod 256"
    "unat a div 256 = unat a div 65536 * 256 + unat a div 256 mod 256"
    using div_mult2_eq [of "unat a" 65536 256] div_mult2_eq [of "unat a" 256 256] by simp_all
  then show ?thesis by (simp add: ipv4_octets_def)
qed

lemma read_octets_show:
  assumes "\<forall>x \<in> set os. x < 256" and "r = [] \<or> \<not> is_ascii_digit (hd r)" and "os \<noteq> []"
  shows "read_octets i (length os) ((if i = 0 then [] else [CHR ''.'']) @ join_char CHR ''.'' (map show_nat os) @ r) = Some (os, r)"
  using assms
proof (induction os arbitrary: i)
  case (Cons x os)
  show ?case
  proof (cases os)
    case Nil
    then show ?thesis using Cons.prems read_dec_show [of x r] by (simp add: read_separator_def)
  next
    case (Cons y ys)
    let ?rest = "CHR ''.'' # join_char CHR ''.'' (map show_nat os) @ r"
    have "read_dec (show_nat x @ ?rest) = Some (x, ?rest)"
      using Cons.prems(1) by (intro read_dec_show) (simp_all add: is_ascii_digit_def)
    moreover have "read_octets (i + 1) (length os) ?rest = Some (os, r)"
      using Cons.IH [of "i + 1"] Cons.prems Cons by simp
    ultimately have "read_octets i (Suc (length os)) ((if i = 0 then [] else [CHR ''.'']) @ show_nat x @ ?rest) = Some (x # os, r)"
      by (cases "i = 0") (simp_all add: read_separator_def)
    then show ?thesis using Cons by simp
  qed
qed simp

lemma read_ipv4_show:
  assumes "r = [] \<or> \<not> is_ascii_digit (hd r)"
  shows "read_ipv4 (show_ipv4 a @ r) = Some (a, r)"
proof -
  have "length (ipv4_octets a) = 4" "ipv4_octets a \<noteq> []" by (simp_all add: ipv4_octets_def)
  with read_octets_show [OF ipv4_octets_bound [of a] assms, of 0] ipv4_octets_value [of a]
  show ?thesis by (simp add: read_ipv4_def show_ipv4_def)
qed

lemma parse_show_ipv4: "parse_ip (show_ip (V4 a)) = Some (V4 a)"
  using read_ipv4_show [of "[]" a] by (simp add: parse_ip_def)

end
