(* ===== verification/Http.thy ===== *)
theory Http
  imports Rule Ip_Addr Dict
begin

text \<open>
  Requests and responses as the handler and the middlewares see them. The types \<open>HeaderMap\<close>,
  \<open>HeaderValue\<close> and \<open>Uri\<close> come from the crate \<open>http\<close>, which is outside the sources, so their
  operations are parameters: the fields of \<open>http_ops\<close>, with \<open>'h\<close> for header maps, \<open>'v\<close> for header
  values and \<open>'u\<close> for URIs. What the code relies on is \<open>header_laws\<close>: a header map is a lookup
  table (the contract of \<open>Dict\<close>) and visible text survives the conversion to a header value.
  Header names are lower case, as \<open>HeaderName\<close> keeps them. Bodies are passed through by the code
  and not represented, except for the texts of the responses that the proxy makes itself.
\<close>

record ('h, 'v) header_ops =
  hm_empty :: 'h
  hm_get :: "'h \<Rightarrow> string \<Rightarrow> 'v option"
  hm_insert :: "string \<Rightarrow> 'v \<Rightarrow> 'h \<Rightarrow> 'h"
  hm_append :: "string \<Rightarrow> 'v \<Rightarrow> 'h \<Rightarrow> 'h"
  hm_remove :: "string \<Rightarrow> 'h \<Rightarrow> 'h"
  hv_to_str :: "'v \<Rightarrow> string option"
  hv_from_str :: "string \<Rightarrow> 'v option"
  hv_static :: "string \<Rightarrow> 'v"

text \<open>
  \<open>ur_build\<close> is \<open>Uri::builder\<close> with the given scheme, authority and path with query; \<open>ur_set_scheme\<close>
  takes the parts of a URI, replaces the scheme and puts them together again. Errors carry their
  display text.
\<close>

record ('h, 'v, 'u) http_ops = "('h, 'v) header_ops" +
  ur_path :: "'u \<Rightarrow> string"
  ur_query :: "'u \<Rightarrow> string option"
  ur_host :: "'u \<Rightarrow> string option"
  ur_scheme :: "'u \<Rightarrow> string option"
  ur_authority :: "'u \<Rightarrow> string option"
  ur_path_and_query :: "'u \<Rightarrow> string option"
  ur_parse :: "string \<Rightarrow> string + 'u"
  ur_build :: "string option \<Rightarrow> string option \<Rightarrow> string \<Rightarrow> string + 'u"
  ur_set_scheme :: "string \<Rightarrow> 'u \<Rightarrow> 'u"

record request_context =
  ctx_remote_ip :: ip_addr
  ctx_is_tls :: bool

record ('h, 'u) request =
  rq_method :: string
  rq_uri :: 'u
  rq_headers :: 'h
  rq_context :: "request_context option"

record 'h response =
  rs_status :: u16
  rs_headers :: 'h
  rs_body :: string

text \<open>\<open>headers.get(name).and_then(|v| v.to_str().ok())\<close> and \<open>contains_key\<close>.\<close>

definition header_text :: "('h, 'v, 'm) header_ops_scheme \<Rightarrow> 'h \<Rightarrow> string \<Rightarrow> string option" where
  "header_text H h name = Option.bind (hm_get H h name) (hv_to_str H)"

definition has_header :: "('h, 'v, 'm) header_ops_scheme \<Rightarrow> 'h \<Rightarrow> string \<Rightarrow> bool" where
  "has_header H h name \<longleftrightarrow> hm_get H h name \<noteq> None"

definition header_view :: "('h, 'v, 'm) header_ops_scheme \<Rightarrow> 'h \<Rightarrow> headers" where
  "header_view H h = (\<lambda>name. map_option (hv_to_str H) (hm_get H h name))"

definition remove_all :: "('h, 'v, 'm) header_ops_scheme \<Rightarrow> string list \<Rightarrow> 'h \<Rightarrow> 'h" where
  "remove_all H names h = foldl (\<lambda>h n. hm_remove H n h) h names"

text \<open>Insertion of a text where \<open>HeaderValue::from_str\<close> accepts it.\<close>

definition insert_text :: "('h, 'v, 'm) header_ops_scheme \<Rightarrow> string \<Rightarrow> string \<Rightarrow> 'h \<Rightarrow> 'h" where
  "insert_text H name s h = (case hv_from_str H s of Some v \<Rightarrow> hm_insert H name v h | None \<Rightarrow> h)"

section \<open>The documented behaviour of header maps\<close>

definition visible_char :: "char \<Rightarrow> bool" where
  "visible_char c \<longleftrightarrow> (32 \<le> (of_char c :: nat) \<and> (of_char c :: nat) < 127) \<or> (of_char c :: nat) = 9"

definition header_laws :: "('h, 'v, 'm) header_ops_scheme \<Rightarrow> bool" where
  "header_laws H \<longleftrightarrow>
     lookup_table (hm_get H) (hm_insert H) (hm_remove H) \<and>
     (\<forall>k. hm_get H (hm_empty H) k = None) \<and>
     (\<forall>k v h k'. hm_get H (hm_append H k v h) k' =
        (if k' = k \<and> hm_get H h k = None then Some v else hm_get H h k')) \<and>
     (\<forall>s. list_all visible_char s \<longrightarrow> hv_from_str H s = Some (hv_static H s)) \<and>
     (\<forall>s. list_all visible_char s \<longrightarrow> hv_to_str H (hv_static H s) = Some s) \<and>
     (\<forall>s v. hv_from_str H s = Some v \<longrightarrow> hv_to_str H v = Some s)"

lemma header_laws_simps:
  assumes "header_laws H"
  shows "hm_get H (hm_insert H k v h) k' = (if k' = k then Some v else hm_get H h k')"
    and "hm_get H (hm_remove H k h) k' = (if k' = k then None else hm_get H h k')"
    and "hm_get H (hm_empty H) k = None"
    and "hm_get H (hm_append H k v h) k' = (if k' = k \<and> hm_get H h k = None then Some v else hm_get H h k')"
    and "list_all visible_char s \<Longrightarrow> hv_from_str H s = Some (hv_static H s)"
    and "list_all visible_char s \<Longrightarrow> hv_to_str H (hv_static H s) = Some s"
    and "hv_from_str H s = Some w \<Longrightarrow> hv_to_str H w = Some s"
  using assms unfolding header_laws_def lookup_table_def by blast+

lemma header_text_insert:
  assumes "header_laws H"
  shows "header_text H (hm_insert H k v h) k' = (if k' = k then hv_to_str H v else header_text H h k')"
  by (simp add: header_text_def header_laws_simps [OF assms])

lemma header_text_remove:
  assumes "header_laws H"
  shows "header_text H (hm_remove H k h) k' = (if k' = k then None else header_text H h k')"
  by (simp add: header_text_def header_laws_simps [OF assms])

lemma header_text_insert_text:
  assumes "header_laws H"
  shows "header_text H (insert_text H k s h) k' =
    (if k' = k \<and> hv_from_str H s \<noteq> None then Some s else header_text H h k')"
proof (cases "hv_from_str H s")
  case (Some v)
  then show ?thesis
    using header_laws_simps(7) [OF assms Some] by (simp add: insert_text_def header_text_insert [OF assms])
qed (simp add: insert_text_def)

lemma hm_get_remove_all:
  assumes "header_laws H"
  shows "hm_get H (remove_all H names h) k = (if k \<in> set names then None else hm_get H h k)"
proof (induction names arbitrary: h)
  case (Cons n names)
  show ?case using Cons [of "hm_remove H n h"]
    by (simp add: remove_all_def header_laws_simps(2) [OF assms])
qed (simp add: remove_all_def)

lemma header_text_remove_all:
  assumes "header_laws H"
  shows "header_text H (remove_all H names h) k = (if k \<in> set names then None else header_text H h k)"
  by (simp add: header_text_def hm_get_remove_all [OF assms])

section \<open>A concrete instance\<close>

text \<open>
  Header maps as association lists of texts and URIs as their parts, for concrete examples; the
  laws hold for it.
\<close>

type_synonym simple_uri = "string option \<times> string option \<times> string"

definition simple_http :: "(string dict, string, simple_uri) http_ops" where
  "simple_http = \<lparr>hm_empty = [], hm_get = dict_get, hm_insert = dict_insert,
     hm_append = (\<lambda>k v d. if dict_get d k = None then dict_insert k v d else d), hm_remove = dict_remove,
     hv_to_str = Some, hv_from_str = (\<lambda>s. if list_all visible_char s then Some s else None), hv_static = (\<lambda>s. s),
     ur_path = (\<lambda>(_, _, pq). case split_once ''?'' pq of Some (p, _) \<Rightarrow> p | None \<Rightarrow> pq),
     ur_query = (\<lambda>(_, _, pq). map_option snd (split_once ''?'' pq)),
     ur_host = (\<lambda>(_, a, _). a), ur_scheme = (\<lambda>(s, _, _). s), ur_authority = (\<lambda>(_, a, _). a),
     ur_path_and_query = (\<lambda>(_, _, pq). Some pq),
     ur_parse = (\<lambda>s. case split_once ''://'' s of
        Some (sch, r) \<Rightarrow> (case split_once ''/'' r of Some (a, p) \<Rightarrow> Inr (Some sch, Some a, CHR ''/'' # p)
          | None \<Rightarrow> Inr (Some sch, Some r, ''/''))
      | None \<Rightarrow> Inr (None, None, s)),
     ur_build = (\<lambda>sch a pq. Inr (sch, a, pq)), ur_set_scheme = (\<lambda>sch (_, a, pq). (Some sch, a, pq))\<rparr>"

lemma header_laws_simple: "header_laws simple_http"
  using dict.lookup_table_axioms
  by (simp add: header_laws_def simple_http_def dict_get_insert)

end
