(* ===== verification/Grpc.thy ===== *)
theory Grpc
  imports Http
begin

text \<open>
  \<open>src/src/proxy/grpc.rs\<close>: recognition of gRPC requests, the status codes, and the responses that
  report a proxy error to a gRPC client. The encoding of the message is undone by percent decoding.
\<close>

definition is_grpc_request :: "('h, 'v, 'u, 'm) http_ops_scheme \<Rightarrow> ('h, 'u) request \<Rightarrow> bool" where
  "is_grpc_request H req =
     (case header_text H (rq_headers req) ''content-type'' of
        Some v \<Rightarrow> starts_with ''application/grpc'' v | None \<Rightarrow> False)"

definition is_grpc_web_request :: "('h, 'v, 'u, 'm) http_ops_scheme \<Rightarrow> ('h, 'u) request \<Rightarrow> bool" where
  "is_grpc_web_request H req =
     (case header_text H (rq_headers req) ''content-type'' of
        Some v \<Rightarrow> starts_with ''application/grpc-web'' v \<or> starts_with ''application/grpc-web-text'' v | None \<Rightarrow> False)"

datatype grpc_status =
    GrpcOk | GrpcCancelled | GrpcUnknown | GrpcInvalidArgument | GrpcDeadlineExceeded | GrpcNotFound
  | GrpcAlreadyExists | GrpcPermissionDenied | GrpcResourceExhausted | GrpcFailedPrecondition | GrpcAborted
  | GrpcOutOfRange | GrpcUnimplemented | GrpcInternal | GrpcUnavailable | GrpcDataLoss | GrpcUnauthenticated

fun grpc_code :: "grpc_status \<Rightarrow> nat" where
  "grpc_code GrpcOk = 0"
| "grpc_code GrpcCancelled = 1"
| "grpc_code GrpcUnknown = 2"
| "grpc_code GrpcInvalidArgument = 3"
| "grpc_code GrpcDeadlineExceeded = 4"
| "grpc_code GrpcNotFound = 5"
| "grpc_code GrpcAlreadyExists = 6"
| "grpc_code GrpcPermissionDenied = 7"
| "grpc_code GrpcResourceExhausted = 8"
| "grpc_code GrpcFailedPrecondition = 9"
| "grpc_code GrpcAborted = 10"
| "grpc_code GrpcOutOfRange = 11"
| "grpc_code GrpcUnimplemented = 12"
| "grpc_code GrpcInternal = 13"
| "grpc_code GrpcUnavailable = 14"
| "grpc_code GrpcDataLoss = 15"
| "grpc_code GrpcUnauthenticated = 16"

fun grpc_as_str :: "grpc_status \<Rightarrow> string" where
  "grpc_as_str GrpcOk = ''OK''"
| "grpc_as_str GrpcCancelled = ''CANCELLED''"
| "grpc_as_str GrpcUnknown = ''UNKNOWN''"
| "grpc_as_str GrpcInvalidArgument = ''INVALID_ARGUMENT''"
| "grpc_as_str GrpcDeadlineExceeded = ''DEADLINE_EXCEEDED''"
| "grpc_as_str GrpcNotFound = ''NOT_FOUND''"
| "grpc_as_str GrpcAlreadyExists = ''ALREADY_EXISTS''"
| "grpc_as_str GrpcPermissionDenied = ''PERMISSION_DENIED''"
| "grpc_as_str GrpcResourceExhausted = ''RESOURCE_EXHAUSTED''"
| "grpc_as_str GrpcFailedPrecondition = ''FAILED_PRECONDITION''"
| "grpc_as_str GrpcAborted = ''ABORTED''"
| "grpc_as_str GrpcOutOfRange = ''OUT_OF_RANGE''"
| "grpc_as_str GrpcUnimplemented = ''UNIMPLEMENTED''"
| "grpc_as_str GrpcInternal = ''INTERNAL''"
| "grpc_as_str GrpcUnavailable = ''UNAVAILABLE''"
| "grpc_as_str GrpcDataLoss = ''DATA_LOSS''"
| "grpc_as_str GrpcUnauthenticated = ''UNAUTHENTICATED''"

definition from_http_status :: "u16 \<Rightarrow> grpc_status" where
  "from_http_status status =
     (if status = 200 then GrpcOk
      else if status = 400 then GrpcInvalidArgument
      else if status = 401 then GrpcUnauthenticated
      else if status = 403 then GrpcPermissionDenied
      else if status = 404 then GrpcNotFound
      else if status = 408 then GrpcDeadlineExceeded
      else if status = 409 then GrpcAborted
      else if status = 429 then GrpcResourceExhausted
      else if status = 499 then GrpcCancelled
      else if status = 500 then GrpcInternal
      else if status = 501 then GrpcUnimplemented
      else if status = 502 \<or> status = 503 then GrpcUnavailable
      else if status = 504 then GrpcDeadlineExceeded
      else GrpcUnknown)"

definition is_ascii_alphanumeric :: "char \<Rightarrow> bool" where
  "is_ascii_alphanumeric c \<longleftrightarrow> is_ascii_upper c \<or> is_ascii_lower c \<or> is_ascii_digit c"

text \<open>
  The bytes of a character above \<open>U+007F\<close> are encoded one by one; a string here is the sequence
  of its bytes.
\<close>

definition percent_encode_char :: "char \<Rightarrow> string" where
  "percent_encode_char c =
     (if c = CHR ''%'' then ''%25''
      else if c = CHR '' '' then ''%20''
      else if c = CHR 0x0A then ''%0A''
      else if c = CHR 0x0D then ''%0D''
      else if is_ascii_alphanumeric c \<or> c \<in> set ''-_.~'' then [c]
      else [CHR ''%'', upper_hex_char (of_char c div 16), upper_hex_char (of_char c mod 16)])"

definition percent_encode :: "string \<Rightarrow> string" where
  "percent_encode s = concat (map percent_encode_char s)"

definition grpc_error_response :: "('h, 'v, 'm) header_ops_scheme \<Rightarrow> grpc_status \<Rightarrow> string \<Rightarrow> 'h response" where
  "grpc_error_response H status message =
     \<lparr>rs_status = 200,
      rs_headers = hm_append H ''grpc-message'' (hv_static H (percent_encode message))
        (hm_append H ''grpc-status'' (hv_static H (show_nat (grpc_code status)))
          (hm_append H ''content-type'' (hv_static H ''application/grpc'') (hm_empty H))),
      rs_body = []\<rparr>"

definition grpc_gateway_error :: "('h, 'v, 'm) header_ops_scheme \<Rightarrow> u16 \<Rightarrow> string \<Rightarrow> 'h response" where
  "grpc_gateway_error H http_status message =
     (let grpc_status = from_http_status http_status in
     \<lparr>rs_status = 200,
      rs_headers = hm_append H ''grpc-message'' (hv_static H (percent_encode message))
        (hm_append H ''grpc-status'' (hv_static H (show_nat (grpc_code grpc_status)))
          (hm_append H ''content-type'' (hv_static H ''application/grpc'') (hm_empty H))),
      rs_body = []\<rparr>)"

definition prepare_grpc_request :: "('h, 'v, 'u, 'm) http_ops_scheme \<Rightarrow> ('h, 'u) request \<Rightarrow> ('h, 'u) request" where
  "prepare_grpc_request H req =
     (if has_header H (rq_headers req) ''te'' then req
      else req\<lparr>rq_headers := hm_insert H ''te'' (hv_static H ''trailers'') (rq_headers req)\<rparr>)"

definition copy_grpc_trailers :: "('h, 'v, 'm) header_ops_scheme \<Rightarrow> string option \<Rightarrow> string option \<Rightarrow> 'h response \<Rightarrow> 'h response" where
  "copy_grpc_trailers H grpc_status grpc_message resp =
     (let put = (\<lambda>name val h. case val of Some s \<Rightarrow> insert_text H name s h | None \<Rightarrow> h)
      in resp\<lparr>rs_headers := put ''grpc-message'' grpc_message (put ''grpc-status'' grpc_status (rs_headers resp))\<rparr>)"

section \<open>The message survives\<close>

lemma url_decode_percent_char: "url_decode (percent_encode_char c @ r) = c # url_decode r"
proof (cases "is_ascii_alphanumeric c \<or> c \<in> set ''-_.~''")
  case True
  then have "c \<noteq> CHR ''%''" "c \<noteq> CHR '' ''" "c \<noteq> CHR ''+''" "c \<noteq> CHR 0x0A" "c \<noteq> CHR 0x0D"
    by (auto simp: is_ascii_alphanumeric_def is_ascii_upper_def is_ascii_lower_def is_ascii_digit_def)
  then show ?thesis using True by (simp add: percent_encode_char_def)
next
  case False
  let ?a = "upper_hex_char (of_char c div 16)" and ?b = "upper_hex_char (of_char c mod 16)"
  have hc: "upper_hex_char 0 = CHR ''0''" "upper_hex_char 2 = CHR ''2''" "upper_hex_char 5 = CHR ''5''"
    "upper_hex_char 10 = CHR ''A''" "upper_hex_char 13 = CHR ''D''"
    by code_simp+
  have "percent_encode_char c = [CHR ''%'', ?a, ?b]"
    using False hc by (auto simp: percent_encode_char_def)
  moreover have "is_hexdigit ?a" "hex_value ?a = of_char c div 16" "is_hexdigit ?b" "hex_value ?b = of_char c mod 16"
    using upper_hex_char_value [OF of_char_div_lt [of c]] upper_hex_char_value [of "of_char c mod 16"] by simp_all
  ultimately show ?thesis by simp
qed

lemma url_decode_percent_encode: "url_decode (percent_encode s) = s"
  by (induction s) (simp_all add: percent_encode_def url_decode_percent_char)

end
