(* ===== verification/Proxy_Request.thy ===== *)
theory Proxy_Request
  imports Grpc Passive_Health Router
begin

text \<open>
  The functions of \<open>src/src/proxy/handler.rs\<close> that need no state: error responses, the URI of the
  backend, the host of a request and the request that goes to the backend, with the theorem on what
  the backend sees of the client.
\<close>

section \<open>Responses and requests\<close>

definition error_response :: "('h, 'v, 'm) header_ops_scheme \<Rightarrow> u16 \<Rightarrow> string \<Rightarrow> 'h response" where
  "error_response H status message =
     \<lparr>rs_status = status,
      rs_headers = hm_append H ''content-type'' (hv_static H ''text/plain; charset=utf-8'') (hm_empty H),
      rs_body = message\<rparr>"

definition error_response_maybe_grpc :: "('h, 'v, 'm) header_ops_scheme \<Rightarrow> u16 \<Rightarrow> string \<Rightarrow> bool \<Rightarrow> 'h response" where
  "error_response_maybe_grpc H status message is_grpc =
     (if is_grpc then grpc_gateway_error H status message else error_response H status message)"

definition hop_by_hop_headers :: "string list" where
  "hop_by_hop_headers = [''connection'', ''transfer-encoding'', ''upgrade'']"

definition is_websocket_upgrade :: "('h, 'v, 'u, 'm) http_ops_scheme \<Rightarrow> ('h, 'u) request \<Rightarrow> bool" where
  "is_websocket_upgrade H req =
     (let has_upgrade = (case header_text H (rq_headers req) ''upgrade'' of
            Some v \<Rightarrow> eq_ignore_ascii_case v ''websocket'' | None \<Rightarrow> False);
          has_connection = (case header_text H (rq_headers req) ''connection'' of
            Some v \<Rightarrow> list_ex (\<lambda>part. eq_ignore_ascii_case (trim part) ''upgrade'') (split_char CHR '','' v) | None \<Rightarrow> False)
      in has_upgrade \<and> has_connection)"

definition build_backend_uri :: "('h, 'v, 'u, 'm) http_ops_scheme \<Rightarrow> string \<Rightarrow> 'u \<Rightarrow> string + 'u" where
  "build_backend_uri H backend_url original_uri =
     (case ur_parse H backend_url of
        Inl e \<Rightarrow> Inl (''Invalid backend URL: '' @ e)
      | Inr backend_base \<Rightarrow>
          let path_and_query = (case ur_path_and_query H original_uri of Some pq \<Rightarrow> pq | None \<Rightarrow> ''/'');
              scheme = (case ur_scheme H backend_base of Some s \<Rightarrow> s | None \<Rightarrow> ''http'');
              authority = (case ur_authority H backend_base of Some a \<Rightarrow> a | None \<Rightarrow> [])
          in case ur_parse H (scheme @ ''://'' @ authority @ path_and_query) of
               Inl e \<Rightarrow> Inl (''Failed to build URI: '' @ e)
             | Inr u \<Rightarrow> Inr u)"

definition build_backend_uri_fast ::
  "('h, 'v, 'u, 'm) http_ops_scheme \<Rightarrow> string \<Rightarrow> 'u \<Rightarrow> parsed_backend_uri option \<Rightarrow> string + 'u" where
  "build_backend_uri_fast H backend_url original_uri parsed =
     (case parsed of
        None \<Rightarrow> build_backend_uri H backend_url original_uri
      | Some p \<Rightarrow>
          let path_and_query = (case ur_path_and_query H original_uri of Some pq \<Rightarrow> pq | None \<Rightarrow> ''/'')
          in case ur_build H (Some (pbu_scheme p)) (Some (pbu_authority p)) path_and_query of
               Inl e \<Rightarrow> Inl (''Failed to build URI: '' @ e)
             | Inr u \<Rightarrow> Inr u)"

definition is_h2c_backend :: "parsed_backend_uri option \<Rightarrow> string \<Rightarrow> bool" where
  "is_h2c_backend parsed raw_url =
     (case parsed of Some p \<Rightarrow> pbu_scheme p = ''h2c'' | None \<Rightarrow> starts_with ''h2c://'' raw_url)"

definition rewrite_h2c_scheme :: "('h, 'v, 'u, 'm) http_ops_scheme \<Rightarrow> 'u \<Rightarrow> 'u" where
  "rewrite_h2c_scheme H u = (if ur_scheme H u = Some ''h2c'' then ur_set_scheme H ''http'' u else u)"

definition forward_headers ::
  "('h, 'v, 'u, 'm) http_ops_scheme \<Rightarrow> 'u \<Rightarrow> ip_addr \<Rightarrow> string option \<Rightarrow> bool \<Rightarrow> bool \<Rightarrow> 'h \<Rightarrow> 'h" where
  "forward_headers H backend_uri remote_ip original_host is_tls is_grpc h =
     (let h1 = (if \<not> is_grpc then
                  remove_all H [''keep-alive'', ''proxy-authenticate'', ''proxy-authorization'', ''te'', ''trailers'']
                    (remove_all H hop_by_hop_headers h)
                else
                  let h' = remove_all H [''keep-alive'', ''proxy-authenticate'', ''proxy-authorization''] h
                  in if has_header H h' ''te'' then h' else hm_insert H ''te'' (hv_static H ''trailers'') h');
          ip_str = show_ip remote_ip;
          xff = (case hm_get H h1 ''x-forwarded-for'' of
                   Some existing \<Rightarrow> (case hv_to_str H existing of
                      Some existing_str \<Rightarrow> existing_str @ '', '' @ ip_str | None \<Rightarrow> ip_str)
                 | None \<Rightarrow> ip_str);
          h2 = insert_text H ''x-forwarded-for'' xff h1;
          h3 = (case original_host of Some host \<Rightarrow> insert_text H ''x-forwarded-host'' host h2 | None \<Rightarrow> h2);
          h4 = hm_insert H ''x-forwarded-proto'' (hv_static H (if is_tls then ''https'' else ''http'')) h3
      in case ur_authority H backend_uri of
           Some authority \<Rightarrow> insert_text H ''host'' authority h4
         | None \<Rightarrow> h4)"

definition build_proxied_request ::
  "('h, 'v, 'u, 'm) http_ops_scheme \<Rightarrow> ('h, 'u) request \<Rightarrow> 'u \<Rightarrow> ip_addr \<Rightarrow> string option \<Rightarrow> bool \<Rightarrow> bool \<Rightarrow> ('h, 'u) request" where
  "build_proxied_request H req backend_uri remote_ip original_host is_tls is_grpc =
     req\<lparr>rq_uri := backend_uri,
       rq_headers := forward_headers H backend_uri remote_ip original_host is_tls is_grpc (rq_headers req)\<rparr>"

definition request_host :: "('h, 'v, 'u, 'm) http_ops_scheme \<Rightarrow> ('h, 'u) request \<Rightarrow> string option" where
  "request_host H req =
     (case header_text H (rq_headers req) ''host'' of
        Some h \<Rightarrow> Some (hd (split_char CHR '':'' h))
      | None \<Rightarrow> ur_host H (rq_uri req))"

section \<open>What the backend sees\<close>

definition request_example :: "(string dict, simple_uri) request" where
  "request_example = \<lparr>rq_method = ''GET'', rq_uri = (None, None, ''/''), rq_headers = [(''host'', ''a.com'')], rq_context = None\<rparr>"

text \<open>
  C16. The forwarded headers: under the documented behaviour of header maps, a request that is not
  gRPC reaches the backend without hop-by-hop headers and proxy credentials, with the client's
  address appended to \<open>X-Forwarded-For\<close>, the protocol in \<open>X-Forwarded-Proto\<close>, the original host in
  \<open>X-Forwarded-Host\<close> and the backend's authority as \<open>Host\<close>; every other header is unchanged.
\<close>

theorem forwarded_headers:
  assumes H: "header_laws H" and "ur_authority H uri = Some auth"
    and "hv_from_str H auth \<noteq> None" and "hv_from_str H host \<noteq> None"
    and "hv_from_str H (case header_text H (rq_headers req) ''x-forwarded-for'' of
           Some x \<Rightarrow> x @ '', '' @ show_ip ip | None \<Rightarrow> show_ip ip) \<noteq> None"
    and h_def: "h = rq_headers (build_proxied_request H req uri ip (Some host) tls False)"
  shows "(\<forall>n \<in> {''connection'', ''transfer-encoding'', ''upgrade'', ''keep-alive'', ''proxy-authenticate'', ''proxy-authorization'',
        ''te'', ''trailers''}. hm_get H h n = None) \<and>
    header_text H h ''x-forwarded-for'' = Some (case header_text H (rq_headers req) ''x-forwarded-for'' of
           Some x \<Rightarrow> x @ '', '' @ show_ip ip | None \<Rightarrow> show_ip ip) \<and>
    header_text H h ''x-forwarded-proto'' = Some (if tls then ''https'' else ''http'') \<and>
    header_text H h ''x-forwarded-host'' = Some host \<and> header_text H h ''host'' = Some auth \<and>
    (\<forall>n. n \<notin> {''connection'', ''transfer-encoding'', ''upgrade'', ''keep-alive'', ''proxy-authenticate'', ''proxy-authorization'',
        ''te'', ''trailers'', ''x-forwarded-for'', ''x-forwarded-proto'', ''x-forwarded-host'', ''host''} \<longrightarrow>
      hm_get H h n = hm_get H (rq_headers req) n)"
proof -
  let ?drop = "[''connection'', ''transfer-encoding'', ''upgrade'', ''keep-alive'', ''proxy-authenticate'', ''proxy-authorization'',
        ''te'', ''trailers'']"
  define h1 where "h1 = remove_all H ?drop (rq_headers req)"
  have get1: "hm_get H h1 n = (if n \<in> set ?drop then None else hm_get H (rq_headers req) n)" for n
    unfolding h1_def by (rule hm_get_remove_all [OF H])
  define xff where "xff = (case header_text H (rq_headers req) ''x-forwarded-for'' of
           Some x \<Rightarrow> x @ '', '' @ show_ip ip | None \<Rightarrow> show_ip ip)"
  obtain vf va vh where v: "hv_from_str H xff = Some vf" "hv_from_str H auth = Some va" "hv_from_str H host = Some vh"
    using assms(3-5) by (auto simp: xff_def)
  have xff: "(case hm_get H h1 ''x-forwarded-for'' of Some existing \<Rightarrow> (case hv_to_str H existing of
        Some existing_str \<Rightarrow> existing_str @ '', '' @ show_ip ip | None \<Rightarrow> show_ip ip) | None \<Rightarrow> show_ip ip) = xff"
    by (simp add: get1 xff_def header_text_def split: option.splits bind_splits)
  have "remove_all H [''keep-alive'', ''proxy-authenticate'', ''proxy-authorization'', ''te'', ''trailers'']
      (remove_all H hop_by_hop_headers (rq_headers req)) = h1"
    by (simp add: h1_def remove_all_def hop_by_hop_headers_def)
  then have h: "h = hm_insert H ''host'' va (hm_insert H ''x-forwarded-proto'' (hv_static H (if tls then ''https'' else ''http''))
      (hm_insert H ''x-forwarded-host'' vh (hm_insert H ''x-forwarded-for'' vf h1)))"
    unfolding h_def build_proxied_request_def forward_headers_def Let_def
    using v assms(2) by (simp add: xff insert_text_def)
  have proto: "hv_to_str H (hv_static H (if tls then ''https'' else ''http'')) = Some (if tls then ''https'' else ''http'')"
    by (rule header_laws_simps(6) [OF H]) (simp add: visible_char_def)
  show ?thesis
    unfolding h xff_def [symmetric]
    by (simp add: header_laws_simps(1) [OF H] get1 header_text_insert [OF H] proto header_laws_simps(7) [OF H v(1)]
        header_laws_simps(7) [OF H v(2)] header_laws_simps(7) [OF H v(3)])
qed

theorem forwarded_headers_witness:
  "header_text simple_http (rq_headers (build_proxied_request simple_http request_example (None, Some ''b:80'', ''/'') (V4 0x0A000001) (Some ''a.com'') True False))
     ''x-forwarded-for'' = Some ''10.0.0.1''"
proof -
  have ip: "show_ip (V4 0x0A000001) = ''10.0.0.1''"
    by (simp add: show_ipv4_def ipv4_octets_def show_nat.simps digit_char_def) code_simp
  have "ur_authority simple_http (None, Some ''b:80'', ''/'') = Some ''b:80''" "hv_from_str simple_http ''b:80'' \<noteq> None"
    "hv_from_str simple_http ''a.com'' \<noteq> None" "header_text simple_http (rq_headers request_example) ''x-forwarded-for'' = None"
    "hv_from_str simple_http ''10.0.0.1'' \<noteq> None"
    by (simp_all add: simple_http_def visible_char_def header_text_def request_example_def dict_get_def)
  with forwarded_headers [OF header_laws_simple this(1-3) _ refl, where req = request_example and ip = "V4 0x0A000001" and tls = True] ip show ?thesis by simp
qed

end
