(* ===== verification/Access_Log.thy ===== *)
theory Access_Log
  imports Ip_Addr Dict
begin

text \<open>
  The access log of \<open>src/src/middleware/builtin/access_log.rs\<close>: the entry, the builder the handler
  fills, the time stamp and the writer. The writer's file is the list of its lines; the JSON form
  of an entry comes from the crate \<open>serde_json\<close> and is a parameter. A duration is kept in
  nanoseconds, where the entry has it as a floating point number of milliseconds.
\<close>

record access_log_entry =
  ale_timestamp :: string
  ale_remote_addr :: string
  ale_method :: string
  ale_path :: string
  ale_query :: "string option"
  ale_host :: "string option"
  ale_status :: u16
  ale_body_bytes :: "u64 option"
  ale_duration :: duration
  ale_user_agent :: "string option"
  ale_referer :: "string option"
  ale_forwarded_for :: "string option"
  ale_request_id :: "string option"
  ale_route :: "string option"
  ale_service :: "string option"
  ale_backend :: "string option"
  ale_tls_version :: "string option"
  ale_protocol :: string

record access_log_builder =
  alb_start :: instant
  alb_remote_addr :: "ip_addr \<times> u16"
  alb_method :: string
  alb_path :: string
  alb_query :: "string option"
  alb_host :: "string option"
  alb_user_agent :: "string option"
  alb_referer :: "string option"
  alb_forwarded_for :: "string option"
  alb_request_id :: "string option"
  alb_protocol :: string
  alb_is_tls :: bool

definition alb_new :: "instant \<Rightarrow> ip_addr \<times> u16 \<Rightarrow> string \<Rightarrow> string \<Rightarrow> string \<Rightarrow> access_log_builder" where
  "alb_new now remote_addr method path protocol =
     \<lparr>alb_start = now, alb_remote_addr = remote_addr, alb_method = method, alb_path = path, alb_query = None, alb_host = None,
      alb_user_agent = None, alb_referer = None, alb_forwarded_for = None, alb_request_id = None,
      alb_protocol = protocol, alb_is_tls = False\<rparr>"

text \<open>The display of a socket address.\<close>

definition show_socket :: "ip_addr \<times> u16 \<Rightarrow> string" where
  "show_socket a = (case fst a of
     V4 _ \<Rightarrow> show_ip (fst a) @ '':'' @ show_nat (unat (snd a))
   | V6 _ \<Rightarrow> ''['' @ show_ip (fst a) @ '']:'' @ show_nat (unat (snd a)))"

section \<open>The time stamp\<close>

text \<open>\<open>{:0n}\<close>: padded with zeros on the left.\<close>

definition pad_zeros :: "nat \<Rightarrow> nat \<Rightarrow> string" where
  "pad_zeros n v = replicate (n - length (show_nat v)) (CHR ''0'') @ show_nat v"

definition chrono_date :: "nat \<Rightarrow> nat \<times> nat \<times> nat" where
  "chrono_date days_since_epoch =
     (let years_approx = days_since_epoch div 365;
          year = 1970 + years_approx;
          day_of_year = days_since_epoch mod 365;
          month = min (day_of_year div 30) 11 + 1;
          day = (day_of_year mod 30) + 1
      in (year, month, day))"

definition chrono_lite :: "nat \<Rightarrow> nat \<Rightarrow> string" where
  "chrono_lite secs millis =
     (let (year, month, day) = chrono_date (secs div 86400);
          secs_today = secs mod 86400;
          hours = secs_today div 3600;
          mins = (secs_today mod 3600) div 60;
          secs_remaining = secs_today mod 60
      in pad_zeros 4 year @ ''-'' @ pad_zeros 2 month @ ''-'' @ pad_zeros 2 day @ ''T'' @ pad_zeros 2 hours @ '':'' @
         pad_zeros 2 mins @ '':'' @ pad_zeros 2 secs_remaining @ ''.'' @ pad_zeros 3 millis @ ''Z'')"

text \<open>\<open>now\<close> is the clock at the end, \<open>wall\<close> the seconds and milliseconds since the Unix epoch.\<close>

definition alb_finish :: "instant \<Rightarrow> nat \<times> nat \<Rightarrow> u16 \<Rightarrow> u64 option \<Rightarrow> string option \<Rightarrow> string option \<Rightarrow> string option
    \<Rightarrow> access_log_builder \<Rightarrow> access_log_entry" where
  "alb_finish now wall status body_bytes route service backend b =
     \<lparr>ale_timestamp = chrono_lite (fst wall) (snd wall), ale_remote_addr = show_socket (alb_remote_addr b),
      ale_method = alb_method b, ale_path = alb_path b, ale_query = alb_query b, ale_host = alb_host b,
      ale_status = status, ale_body_bytes = body_bytes, ale_duration = now - alb_start b,
      ale_user_agent = alb_user_agent b, ale_referer = alb_referer b, ale_forwarded_for = alb_forwarded_for b,
      ale_request_id = alb_request_id b, ale_route = route, ale_service = service, ale_backend = backend,
      ale_tls_version = (if alb_is_tls b then Some ''TLSv1.3'' else None), ale_protocol = alb_protocol b\<rparr>"

section \<open>The writer\<close>

type_synonym access_log_writer = "string list option"

record access_log_config =
  alc_file_path :: "string option"
  alc_format :: "string option"
  alc_bufferingsize :: "u64 option"

text \<open>\<open>open\<close> gives the lines of the file it could open for appending.\<close>

definition alw_new :: "(string \<Rightarrow> string list option) \<Rightarrow> access_log_config option \<Rightarrow> access_log_writer" where
  "alw_new open_file config = Option.bind config (\<lambda>c. Option.bind (alc_file_path c) open_file)"

definition alw_log :: "(access_log_entry \<Rightarrow> string option) \<Rightarrow> access_log_entry \<Rightarrow> access_log_writer \<Rightarrow> access_log_writer" where
  "alw_log js e w = map_option (\<lambda>lines. case js e of Some json \<Rightarrow> lines @ [json] | None \<Rightarrow> lines) w"

section \<open>The dates\<close>

lemma chrono_date_range:
  assumes "chrono_date d = (y, m, t)"
  shows "1970 \<le> y \<and> m \<in> {1..12} \<and> t \<in> {1..30}"
  using assms by (auto simp: chrono_date_def Let_def less_Suc_eq_le)

text \<open>
  The time stamp is not the date: years have 365 days and months have 30. The first of January
  2024 is day 19723 and gets the fourteenth, and the days 330 and 360 of a year get the same date,
  so the order of the entries is not the order of their time stamps.
\<close>

lemma chrono_date_2024: "chrono_date 19723 = (2024, 1, 14)"
  by (simp add: chrono_date_def Let_def)

lemma chrono_date_repeats: "d mod 365 = 330 \<Longrightarrow> chrono_date (d + 30) = chrono_date d"
proof -
  assume "d mod 365 = 330"
  then obtain q where "d = 365 * q + 330" by (metis mult_div_mod_eq)
  then show ?thesis by (simp add: chrono_date_def Let_def)
qed

end
