(* ===== verification/Service_Manager.thy ===== *)
theory Service_Manager
  imports Load_Balancer Active_Health
begin

text \<open>
  \<open>ServiceManager\<close> of \<open>src/src/service/manager.rs\<close>: the table of services with their balancers and
  health statuses, and the health checkers started for it. A checker that is spawned shows as a
  \<open>health_task\<close>: the service, the configuration, the server and the index of the status it updates.
\<close>

record service_state =
  ss_config :: service_config
  ss_balancer :: "load_balancer option"
  ss_health_statuses :: "health_status list"

definition make_service_state :: "service_config \<Rightarrow> service_state" where
  "make_service_state c =
     (case sv_load_balancer c of
        Some lb \<Rightarrow> \<lparr>ss_config = c, ss_balancer = Some (from_load_balancer lb),
          ss_health_statuses = map (\<lambda>_. hs_new) (lb_servers lb)\<rparr>
      | None \<Rightarrow> \<lparr>ss_config = c, ss_balancer = None, ss_health_statuses = []\<rparr>)"

definition sm_new :: "service_config dict \<Rightarrow> service_state dict" where
  "sm_new services = foldl (\<lambda>d (name, c). dict_insert name (make_service_state c) d) [] services"

definition sm_get_service :: "service_state dict \<Rightarrow> string \<Rightarrow> service_state option" where
  "sm_get_service services name = dict_get services name"

definition sm_get_load_balancer_config :: "service_state dict \<Rightarrow> string \<Rightarrow> load_balancer_service option" where
  "sm_get_load_balancer_config services name =
     Option.bind (dict_get services name) (\<lambda>s. sv_load_balancer (ss_config s))"

record health_task =
  ht_service :: string
  ht_config :: health_check_config
  ht_server_url :: string
  ht_status_index :: nat

text \<open>The loop over the servers of one service; indexing the statuses out of range panics.\<close>

fun spawn_checkers :: "string \<Rightarrow> health_check_config \<Rightarrow> health_status list \<Rightarrow> nat \<Rightarrow> server list \<Rightarrow> panic + health_task list" where
  "spawn_checkers name hc statuses idx [] = Inr []"
| "spawn_checkers name hc statuses idx (s # ss) =
     (if idx < length statuses then
        (case spawn_checkers name hc statuses (idx + 1) ss of
           Inr ts \<Rightarrow> Inr (\<lparr>ht_service = name, ht_config = hc, ht_server_url = srv_url s, ht_status_index = idx\<rparr> # ts)
         | Inl p \<Rightarrow> Inl p)
      else Inl IndexOutOfBounds)"

fun sm_start_health_checks :: "service_state dict \<Rightarrow> panic + health_task list" where
  "sm_start_health_checks [] = Inr []"
| "sm_start_health_checks ((name, service) # rest) =
     (case (case sv_load_balancer (ss_config service) of
              Some lb \<Rightarrow> (case lb_health_check lb of
                 Some hc \<Rightarrow> spawn_checkers name hc (ss_health_statuses service) 0 (lb_servers lb)
               | None \<Rightarrow> Inr [])
            | None \<Rightarrow> Inr []) of
        Inl p \<Rightarrow> Inl p
      | Inr ts \<Rightarrow> (case sm_start_health_checks rest of Inl p \<Rightarrow> Inl p | Inr ts' \<Rightarrow> Inr (ts @ ts')))"

section \<open>Lemmas\<close>

lemma dict_get_sm_new:
  assumes "distinct (map fst services)"
  shows "dict_get (sm_new services) name = map_option make_service_state (dict_get services name)"
proof -
  have "dict_get (foldl (\<lambda>d (name, c). dict_insert name (make_service_state c) d) d services) name =
      (case map_of services name of Some c \<Rightarrow> Some (make_service_state c) | None \<Rightarrow> dict_get d name)" for d
    using assms
  proof (induction services arbitrary: d)
    case (Cons p services)
    obtain n c where p: "p = (n, c)" by (cases p)
    have "map_of services n = None" using Cons.prems by (simp add: p map_of_eq_None_iff)
    then show ?case using Cons.IH [of "dict_insert n (make_service_state c) d"] Cons.prems
      by (auto simp: p dict_simps split: option.splits)
  qed simp
  then show ?thesis by (simp add: sm_new_def dict_get_def split: option.splits)
qed

text \<open>Every entry of the table comes from a configuration.\<close>

definition sm_wf :: "service_state dict \<Rightarrow> bool" where
  "sm_wf d \<longleftrightarrow> (\<forall>(name, s) \<in> set d. \<forall>lb. sv_load_balancer (ss_config s) = Some lb \<longrightarrow>
     length (ss_health_statuses s) = length (lb_servers lb))"

lemma sm_wf_new: "sm_wf (sm_new services)"
proof -
  have "sm_wf (foldl (\<lambda>d (name, c). dict_insert name (make_service_state c) d) d services)" if "sm_wf d" for d
    using that
  proof (induction services arbitrary: d)
    case (Cons p services)
    obtain n c where p: "p = (n, c)" by (cases p)
    have "set (dict_insert n (make_service_state c) d) \<subseteq> insert (n, make_service_state c) (set d)"
      unfolding dict_insert_def by (induction d) auto
    moreover have "sm_wf ((n, make_service_state c) # d)"
      using Cons.prems by (auto simp: sm_wf_def make_service_state_def split: option.splits)
    ultimately have "sm_wf (dict_insert n (make_service_state c) d)" unfolding sm_wf_def list.set(2) by blast
    then show ?case using Cons.IH by (simp add: p)
  qed simp
  from this [of "[]"] show ?thesis by (simp add: sm_new_def) (simp add: sm_wf_def)
qed

lemma spawn_checkers_ok:
  "idx + length ss \<le> length statuses \<Longrightarrow>
     spawn_checkers name hc statuses idx ss =
       Inr (map (\<lambda>(i, s). \<lparr>ht_service = name, ht_config = hc, ht_server_url = srv_url s, ht_status_index = i\<rparr>)
         (enumerate idx ss))"
  by (induction name hc statuses idx ss rule: spawn_checkers.induct) auto

lemma start_health_checks_ok:
  assumes "sm_wf d"
  shows "\<exists>ts. sm_start_health_checks d = Inr ts \<and>
    (\<forall>name s lb hc i. (name, s) \<in> set d \<and> sv_load_balancer (ss_config s) = Some lb \<and> lb_health_check lb = Some hc \<and>
       i < length (lb_servers lb) \<longrightarrow>
       \<lparr>ht_service = name, ht_config = hc, ht_server_url = srv_url (lb_servers lb ! i), ht_status_index = i\<rparr> \<in> set ts)"
  using assms
proof (induction d)
  case (Cons p d)
  obtain name s where p: "p = (name, s)" by (cases p)
  have wf: "sm_wf d" using Cons.prems by (simp add: sm_wf_def)
  from Cons.IH [OF wf] obtain ts where ts: "sm_start_health_checks d = Inr ts"
    "\<forall>name s lb hc i. (name, s) \<in> set d \<and> sv_load_balancer (ss_config s) = Some lb \<and> lb_health_check lb = Some hc \<and>
       i < length (lb_servers lb) \<longrightarrow>
       \<lparr>ht_service = name, ht_config = hc, ht_server_url = srv_url (lb_servers lb ! i), ht_status_index = i\<rparr> \<in> set ts"
    by blast
  show ?case
  proof (cases "\<exists>lb hc. sv_load_balancer (ss_config s) = Some lb \<and> lb_health_check lb = Some hc")
    case True
    then obtain lb hc where lb: "sv_load_balancer (ss_config s) = Some lb" "lb_health_check lb = Some hc" by blast
    have "length (ss_health_statuses s) = length (lb_servers lb)" using Cons.prems lb by (simp add: sm_wf_def p)
    then have sp: "spawn_checkers name hc (ss_health_statuses s) 0 (lb_servers lb) =
        Inr (map (\<lambda>(i, s). \<lparr>ht_service = name, ht_config = hc, ht_server_url = srv_url s, ht_status_index = i\<rparr>)
          (enumerate 0 (lb_servers lb)))" (is "_ = Inr ?mine")
      by (intro spawn_checkers_ok) simp
    have "\<lparr>ht_service = name, ht_config = hc, ht_server_url = srv_url (lb_servers lb ! i), ht_status_index = i\<rparr> \<in> set ?mine"
      if "i < length (lb_servers lb)" for i
      using that by (auto simp: in_set_enumerate_eq image_iff intro!: bexI [of _ "(i, lb_servers lb ! i)"])
    then show ?thesis using ts lb sp by (intro exI [of _ "?mine @ ts"]) (auto simp: p)
  next
    case False
    then show ?thesis using ts by (intro exI [of _ ts]) (auto simp: p split: option.splits)
  qed
qed simp

text \<open>
  Every server of a service with a health check gets a checker: for any configuration the
  health checks start without an index out of range, and for every registered service with a
  health check and each of its servers there is a task for that server with the server's own status.
\<close>

theorem health_checks_started:
  assumes "distinct (map fst services)" and "dict_get services name = Some c"
    and "sv_load_balancer c = Some lb" and "lb_health_check lb = Some hc" and "i < length (lb_servers lb)"
  shows "\<exists>ts. sm_start_health_checks (sm_new services) = Inr ts \<and>
    \<lparr>ht_service = name, ht_config = hc, ht_server_url = srv_url (lb_servers lb ! i), ht_status_index = i\<rparr> \<in> set ts"
proof -
  have "dict_get (sm_new services) name = Some (make_service_state c)"
    using dict_get_sm_new [OF assms(1)] assms(2) by simp
  then have "(name, make_service_state c) \<in> set (sm_new services)" by (simp add: dict_get_def map_of_SomeD)
  moreover have "ss_config (make_service_state c) = c" by (simp add: make_service_state_def split: option.split)
  ultimately show ?thesis using start_health_checks_ok [OF sm_wf_new [of services]] assms(3-5) by metis
qed

definition sm_example :: "service_config dict" where
  "sm_example = [(''web'', \<lparr>sv_load_balancer = Some ((lb_example [plain_server ''http://a'' 1, plain_server ''http://b'' 1])\<lparr>lb_health_check :=
      Some \<lparr>hc_path = ''/health'', hc_interval = 10, hc_timeout = 5, hc_scheme = None, hc_mode = None, hc_method = None, hc_status = None,
        hc_port = None, hc_hostname = None, hc_headers = [], hc_follow_redirects = True\<rparr>\<rparr>),
     sv_weighted = None, sv_mirroring = None, sv_failover = None\<rparr>)]"

theorem health_checks_started_witness:
  "\<exists>ts. sm_start_health_checks (sm_new sm_example) = Inr ts \<and> (\<exists>t \<in> set ts. ht_server_url t = ''http://b'' \<and> ht_status_index t = 1)"
proof -
  obtain c lb hc where c: "sm_example = [(''web'', c)]" and lb: "sv_load_balancer c = Some lb" "lb_health_check lb = Some hc"
    "lb_servers lb = [plain_server ''http://a'' 1, plain_server ''http://b'' 1]"
    by (simp add: sm_example_def lb_example_def)
  have "\<exists>ts. sm_start_health_checks (sm_new sm_example) = Inr ts \<and>
    \<lparr>ht_service = ''web'', ht_config = hc, ht_server_url = srv_url (lb_servers lb ! 1), ht_status_index = 1\<rparr> \<in> set ts"
    by (rule health_checks_started [where c = c]) (simp_all add: c lb dict_get_def)
  then show ?thesis by (force simp: lb plain_server_def)
qed

end
