(* ===== verification/Handler.thy ===== *)
theory Handler
  imports Proxy_Request Access_Log Service_Manager
begin

text \<open>
  \<open>ProxyHandler\<close> of \<open>src/src/proxy/handler.rs\<close> with the continuation \<open>Next\<close> of
  \<open>src/src/middleware/mod.rs\<close>: the path of a request from the router through the middlewares to a
  backend and back, with the feedback of every response into passive health and the balancer.

  The network is a parameter of each step: \<open>exchange\<close> holds what the HTTP client answers, what the
  WebSocket handover answers, and the clock readings. The state \<open>proxy_state\<close> holds what requests
  share: the services with their balancers, the passive health checker and the random generator
  of the thread, and the file of the access log. The diagnostic messages are left out.
\<close>

datatype 'h backend_outcome = BackendResponse "'h response" | BackendFailed | BackendTimeout

record ('h, 'u) exchange =
  ex_send :: "bool \<Rightarrow> ('h, 'u) request \<Rightarrow> 'h backend_outcome"
  ex_websocket :: "('h, 'u) request \<Rightarrow> string \<Rightarrow> 'h response"
  ex_elapsed :: duration
  ex_now :: instant
  ex_now' :: instant
  ex_log_start :: instant
  ex_log_end :: instant
  ex_wall :: "nat \<times> nat"

record proxy_state =
  px_services :: "service_state dict"
  px_passive :: passive_health_checker
  px_rng :: u32
  px_access_log :: access_log_writer

section \<open>Forwarding\<close>

text \<open>The lookup of the service, its balancer and the index, then the mark.\<close>

definition px_apply_health_change :: "health_change \<Rightarrow> string \<Rightarrow> string \<Rightarrow> 'z proxy_state_scheme \<Rightarrow> 'z proxy_state_scheme" where
  "px_apply_health_change change backend_url service_name px =
     (if change = NoChange then px
      else case sm_get_service (px_services px) service_name of
        None \<Rightarrow> px
      | Some service \<Rightarrow>
          (case ss_balancer service of
             None \<Rightarrow> px
           | Some bal \<Rightarrow>
               let (bal', rng') = apply_health_change lbal_mark_healthy lbal_mark_unhealthy lbal_find_server_index
                     change backend_url (bal, px_rng px)
               in px\<lparr>px_services := dict_insert service_name (service\<lparr>ss_balancer := Some bal'\<rparr>) (px_services px)\<rparr>))"

definition px_record :: "('h, 'u) exchange \<Rightarrow> string \<Rightarrow> string \<Rightarrow> u16 \<Rightarrow> 'z proxy_state_scheme \<Rightarrow> 'z proxy_state_scheme" where
  "px_record E service_name backend_url status px =
     (let (change, k) = phk_record_response backend_url status (ex_elapsed E) (ex_now E) (ex_now' E) (px_passive px)
      in px_apply_health_change change backend_url service_name (px\<lparr>px_passive := k\<rparr>))"

definition forward_to_server ::
  "('h, 'v, 'u, 'm) http_ops_scheme \<Rightarrow> ('h, 'u) exchange \<Rightarrow> ip_addr \<Rightarrow> string \<Rightarrow> string option \<Rightarrow> bool \<Rightarrow> bool
    \<Rightarrow> server \<Rightarrow> ('h, 'u) request \<Rightarrow> 'z proxy_state_scheme \<Rightarrow> 'h response \<times> 'z proxy_state_scheme" where
  "forward_to_server H E remote_ip service_name host is_tls is_grpc s req px =
     (let backend_url = (case srv_url_arc s of Some u \<Rightarrow> u | None \<Rightarrow> srv_url s);
          use_h2 = (is_grpc \<or> is_h2c_backend (srv_parsed_uri s) backend_url) in
      if \<not> use_h2 \<and> is_websocket_upgrade H req then (ex_websocket E req backend_url, px)
      else case build_backend_uri_fast H backend_url (rq_uri req) (srv_parsed_uri s) of
        Inl e \<Rightarrow> (error_response_maybe_grpc H 500 ''Internal Server Error'' is_grpc, px)
      | Inr uri0 \<Rightarrow>
          let uri = (if use_h2 then rewrite_h2c_scheme H uri0 else uri0);
              proxied_req = build_proxied_request H req uri remote_ip host is_tls is_grpc
          in case ex_send E use_h2 proxied_req of
               BackendResponse resp \<Rightarrow>
                 (if is_grpc then resp else resp\<lparr>rs_headers := remove_all H hop_by_hop_headers (rs_headers resp)\<rparr>,
                  px_record E service_name backend_url (rs_status resp) px)
             | BackendFailed \<Rightarrow>
                 (error_response_maybe_grpc H 502 ''Bad Gateway'' is_grpc, px_record E service_name backend_url 502 px)
             | BackendTimeout \<Rightarrow>
                 (error_response_maybe_grpc H 504 ''Gateway Timeout'' is_grpc, px_record E service_name backend_url 504 px))"

definition forward_to_backend ::
  "('h, 'v, 'u, 'm) http_ops_scheme \<Rightarrow> ('h, 'u) exchange \<Rightarrow> ip_addr \<Rightarrow> string \<Rightarrow> string option \<Rightarrow> bool \<Rightarrow> bool
    \<Rightarrow> ('h, 'u) request \<Rightarrow> 'z proxy_state_scheme \<Rightarrow> 'h response \<times> 'z proxy_state_scheme" where
  "forward_to_backend H E remote_ip service_name host is_tls is_grpc req px =
     (case sm_get_service (px_services px) service_name of
        None \<Rightarrow> (error_response_maybe_grpc H 503 ''Service Unavailable'' is_grpc, px)
      | Some service \<Rightarrow>
          (case ss_balancer service of
             None \<Rightarrow> (error_response_maybe_grpc H 503 ''Service Not Configured'' is_grpc, px)
           | Some bal \<Rightarrow>
               let (selected, (bal', rng')) = lbal_next_server (bal, px_rng px);
                   px' = px\<lparr>px_services := dict_insert service_name (service\<lparr>ss_balancer := Some bal'\<rparr>) (px_services px), px_rng := rng'\<rparr>
               in case selected of
                    None \<Rightarrow> (error_response_maybe_grpc H 503 ''No Healthy Backends'' is_grpc, px')
                  | Some s \<Rightarrow> forward_to_server H E remote_ip service_name host is_tls is_grpc s req px'))"

section \<open>The middleware chain and the handler\<close>

type_synonym ('q, 'p, 's) endpoint = "'q \<Rightarrow> 's \<Rightarrow> 'p \<times> 's"
type_synonym ('q, 'p, 's) middleware = "'q \<Rightarrow> ('q, 'p, 's) endpoint \<Rightarrow> 's \<Rightarrow> 'p \<times> 's"

fun next_run :: "('q, 'p, 's) middleware list \<Rightarrow> ('q, 'p, 's) endpoint \<Rightarrow> ('q, 'p, 's) endpoint" where
  "next_run [] ep = ep"
| "next_run (current # rest) ep = (\<lambda>req. current req (next_run rest ep))"

text \<open>
  The entry of the access log, from what the handler kept of the request. Its builder is made when
  the response is there, so its duration is that of the logging only.
\<close>

definition log_access ::
  "('h, 'v, 'u, 'm) http_ops_scheme \<Rightarrow> (access_log_entry \<Rightarrow> string option) \<Rightarrow> ('h, 'u) exchange \<Rightarrow> ip_addr \<times> u16 \<Rightarrow> bool
    \<Rightarrow> ('h, 'u) request \<Rightarrow> u16 \<Rightarrow> (string \<times> string) option \<Rightarrow> 'z proxy_state_scheme \<Rightarrow> 'z proxy_state_scheme" where
  "log_access H js E remote_addr is_tls req status route_service px =
     (let b = (alb_new (ex_log_start E) remote_addr (rq_method req) (ur_path H (rq_uri req)) ''HTTP/1.1'')
            \<lparr>alb_host := request_host H req, alb_query := ur_query H (rq_uri req),
             alb_user_agent := header_text H (rq_headers req) ''user-agent'',
             alb_referer := header_text H (rq_headers req) ''referer'',
             alb_forwarded_for := header_text H (rq_headers req) ''x-forwarded-for'', alb_is_tls := is_tls\<rparr>;
          entry = alb_finish (ex_log_end E) (ex_wall E) status None (map_option fst route_service) (map_option snd route_service) None b
      in px\<lparr>px_access_log := alw_log js entry (px_access_log px)\<rparr>)"

text \<open>A middleware may panic while it handles a request; then nothing is logged.\<close>

definition proxy_handle ::
  "('h, 'v, 'u, 'm) http_ops_scheme \<Rightarrow> ('r \<Rightarrow> string \<Rightarrow> bool) \<Rightarrow> (access_log_entry \<Rightarrow> string option) \<Rightarrow> ('h, 'u) exchange \<Rightarrow> 'r router
    \<Rightarrow> (string list \<Rightarrow> (('h, 'u) request, panic + 'h response, 'z proxy_state_scheme) middleware list)
    \<Rightarrow> ip_addr \<times> u16 \<Rightarrow> string \<Rightarrow> bool \<Rightarrow> ('h, 'u) request \<Rightarrow> 'z proxy_state_scheme \<Rightarrow> (panic + 'h response) \<times> 'z proxy_state_scheme" where
  "proxy_handle H im js E router resolve remote_addr entrypoint is_tls req px =
     (let is_grpc = (is_grpc_request H req \<or> is_grpc_web_request H req);
          host = request_host H req in
      case match_request im router entrypoint host (ur_path H (rq_uri req)) (ur_query H (rq_uri req)) (Some (rq_method req))
             (header_view H (rq_headers req)) of
        None \<Rightarrow> (let response = error_response_maybe_grpc H 404 ''Not Found'' is_grpc
                  in (Inr response, log_access H js E remote_addr is_tls req (rs_status response) None px))
      | Some route \<Rightarrow>
          (let forward = (\<lambda>req px. let (r, px') = forward_to_backend H E (fst remote_addr) (rt_service route) host is_tls is_grpc req px
                 in (Inr r, px'))
           in case next_run (resolve (rt_middlewares route)) forward req px of
                (Inl e, px') \<Rightarrow> (Inl e, px')
              | (Inr resp, px') \<Rightarrow>
                  (Inr resp, log_access H js E remote_addr is_tls req (rs_status resp) (Some (rt_name route, rt_service route)) px')))"

section \<open>Pools\<close>

text \<open>What a request sees of a service: the servers of its balancer and their flags.\<close>

definition px_pool :: "'z proxy_state_scheme \<Rightarrow> string \<Rightarrow> (server list \<times> bool list) option" where
  "px_pool px name = Option.bind (dict_get (px_services px) name)
     (\<lambda>s. map_option (\<lambda>b. (lbal_configs (b, 0), lbal_flags (b, 0))) (ss_balancer s))"

definition px_inv :: "'z proxy_state_scheme \<Rightarrow> bool" where
  "px_inv px \<longleftrightarrow> (\<forall>name s b. dict_get (px_services px) name = Some s \<and> ss_balancer s = Some b \<longrightarrow> lbal_inv (b, 0))"

lemma lbal_rng_irrelevant:
  "lbal_inv (b, x) = lbal_inv (b, y)" "lbal_configs (b, x) = lbal_configs (b, y)"
  "lbal_flags (b, x) = lbal_flags (b, y)" "lbal_eligible (b, x) = lbal_eligible (b, y)"
  by (simp_all add: lbal_inv_def lbal_configs_def lbal_flags_def lbal_eligible_def)

lemma lbal_rng_irrelevant_pair:
  "lbal_inv st = lbal_inv (fst st, 0)" "lbal_configs st = lbal_configs (fst st, 0)" "lbal_flags st = lbal_flags (fst st, 0)"
  by (simp_all add: lbal_inv_def lbal_configs_def lbal_flags_def)

lemma px_next_pool:
  assumes "px_inv px" and "dict_get (px_services px) svc = Some s" and "ss_balancer s = Some b"
    and "px' = px\<lparr>px_services := dict_insert svc (s\<lparr>ss_balancer := Some (fst (snd (lbal_next_server (b, px_rng px))))\<rparr>) (px_services px), px_rng := r\<rparr>"
  shows "px_inv px'" and "px_pool px' = px_pool px" and "px_passive px' = px_passive px"
proof -
  have "lbal_inv (b, px_rng px)" using assms(1-3) lbal_rng_irrelevant(1) unfolding px_inv_def by blast
  from lbal.next_frame [OF this] lbal_rng_irrelevant_pair [of "snd (lbal_next_server (b, px_rng px))"]
    lbal_rng_irrelevant_pair [of "(b, px_rng px)"]
  have fr: "lbal_inv (fst (snd (lbal_next_server (b, px_rng px))), 0)"
    "lbal_configs (fst (snd (lbal_next_server (b, px_rng px))), 0) = lbal_configs (b, 0)"
    "lbal_flags (fst (snd (lbal_next_server (b, px_rng px))), 0) = lbal_flags (b, 0)"
    by simp_all
  show "px_inv px'" using assms(1) fr(1) by (auto simp: px_inv_def assms(4) dict_simps split: if_splits)
  show "px_pool px' = px_pool px" by (rule ext) (simp add: px_pool_def assms(2-4) dict_simps fr)
  show "px_passive px' = px_passive px" by (simp add: assms(4))
qed

definition change_flags :: "health_change \<Rightarrow> string \<Rightarrow> server list \<times> bool list \<Rightarrow> server list \<times> bool list" where
  "change_flags c u p = (fst p, case position (\<lambda>s. srv_url s = u) (fst p) of
       None \<Rightarrow> snd p
     | Some i \<Rightarrow> (case c of NoChange \<Rightarrow> snd p | BecameHealthy \<Rightarrow> (snd p)[i := True] | BecameUnhealthy \<Rightarrow> (snd p)[i := False]))"

lemma px_apply_pool:
  assumes "px_inv px"
  shows "px_inv (px_apply_health_change c u svc px)"
    and "px_pool (px_apply_health_change c u svc px) n = (if n = svc then map_option (change_flags c u) (px_pool px n) else px_pool px n)"
    and "px_passive (px_apply_health_change c u svc px) = px_passive px"
proof -
  let ?ap = "apply_health_change lbal_mark_healthy lbal_mark_unhealthy lbal_find_server_index c u"
  have fr: "lbal_inv (fst (?ap (b, r)), 0)" "lbal_configs (fst (?ap (b, r)), 0) = lbal_configs (b, 0)"
    "(lbal_configs (b, 0), lbal_flags (fst (?ap (b, r)), 0)) = change_flags c u (lbal_configs (b, 0), lbal_flags (b, 0))"
    if "lbal_inv (b, 0)" for b r
  proof -
    have i: "lbal_inv (b, r)" using that lbal_rng_irrelevant(1) by blast
    note p = lbal_rng_irrelevant_pair [of "?ap (b, r)"] lbal_rng_irrelevant_pair [of "(b, r)"]
    show "lbal_inv (fst (?ap (b, r)), 0)" "lbal_configs (fst (?ap (b, r)), 0) = lbal_configs (b, 0)"
      using lbal.apply_change_frame [OF i, of c u] p by simp_all
    show "(lbal_configs (b, 0), lbal_flags (fst (?ap (b, r)), 0)) = change_flags c u (lbal_configs (b, 0), lbal_flags (b, 0))"
      using lbal.apply_change_healthy [OF i, of c u] p by (simp add: change_flags_def split: option.split health_change.split)
  qed
  have nc: "change_flags NoChange u p = p" for p by (cases p) (simp add: change_flags_def split: option.splits)
  have get: "lbal_inv (b, 0)" if "dict_get (px_services px) m = Some s" "ss_balancer s = Some b" for m s b
    using assms that unfolding px_inv_def by blast
  show "px_inv (px_apply_health_change c u svc px)"
    using assms fr(1) get
    by (auto simp: px_apply_health_change_def px_inv_def sm_get_service_def dict_simps split_beta Let_def split: option.splits if_splits)
  show "px_passive (px_apply_health_change c u svc px) = px_passive px"
    by (simp add: px_apply_health_change_def split_beta Let_def split: option.splits)
  show "px_pool (px_apply_health_change c u svc px) n = (if n = svc then map_option (change_flags c u) (px_pool px n) else px_pool px n)"
  proof (cases "c = NoChange")
    case True
    then show ?thesis by (simp add: px_apply_health_change_def nc option.map_ident [unfolded id_def] map_option_idI)
  next
    case False
    then show ?thesis using fr get
      by (auto simp: px_apply_health_change_def px_pool_def sm_get_service_def dict_simps split_beta Let_def split: option.splits)
  qed
qed

lemma px_apply_access_log: "px_access_log (px_apply_health_change c u svc px) = px_access_log px"
  by (simp add: px_apply_health_change_def split_beta Let_def split: option.split)

lemma px_record_access_log: "px_access_log (px_record E svc u st px) = px_access_log px"
  by (simp add: px_record_def px_apply_access_log split_beta)

lemma forward_to_server_access_log: "px_access_log (snd (forward_to_server H E ip svc host tls grpc s q px)) = px_access_log px"
proof -
  have out: "px_access_log (snd (case o' of
       BackendResponse resp \<Rightarrow> (f resp, px_record E svc u (rs_status resp) px)
     | BackendFailed \<Rightarrow> (a, px_record E svc u 502 px) | BackendTimeout \<Rightarrow> (b, px_record E svc u 504 px))) = px_access_log px" for o' f u a b
    by (cases o') (simp_all add: px_record_access_log)
  show ?thesis unfolding forward_to_server_def Let_def by (simp only: out snd_conv split: sum.split if_split) simp
qed

lemma forward_access_log:
  "px_access_log (snd (forward_to_backend H E ip svc host tls grpc q px)) = px_access_log px"
  by (simp add: forward_to_backend_def forward_to_server_access_log split_beta Let_def split: option.split)

section \<open>Passive health and the balancers agree\<close>

text \<open>
  The condition on the configuration: the servers of all services have distinct URLs, and the
  cached form of a URL is the URL itself.
\<close>

definition pools_ok :: "'z proxy_state_scheme \<Rightarrow> bool" where
  "pools_ok px \<longleftrightarrow>
     (\<forall>n cs fl. px_pool px n = Some (cs, fl) \<longrightarrow> distinct (map srv_url cs) \<and>
        (\<forall>c \<in> set cs. srv_url_arc c = None \<or> srv_url_arc c = Some (srv_url c))) \<and>
     (\<forall>n n' cs fl cs' fl'. n \<noteq> n' \<and> px_pool px n = Some (cs, fl) \<and> px_pool px n' = Some (cs', fl') \<longrightarrow>
        srv_url ` set cs \<inter> srv_url ` set cs' = {})"

definition px_synced :: "'z proxy_state_scheme \<Rightarrow> bool" where
  "px_synced px \<longleftrightarrow> px_inv px \<and> pools_ok px \<and>
     (\<forall>n cs fl. px_pool px n = Some (cs, fl) \<longrightarrow> fl = map (\<lambda>c. phk_is_healthy (px_passive px) (srv_url c)) cs)"

lemma pools_ok_configs:
  assumes "pools_ok px" and "\<And>n. map_option fst (px_pool px' n) = map_option fst (px_pool px n)"
  shows "pools_ok px'"
proof -
  have "\<exists>fl0. px_pool px n = Some (cs, fl0)" if "px_pool px' n = Some (cs, fl)" for n cs fl
    using assms(2) [of n] that by (cases "px_pool px n") auto
  then show ?thesis using assms(1) unfolding pools_ok_def by meson
qed

lemma px_synced_same:
  assumes "px_synced px" and "px_inv px'" and "px_pool px' = px_pool px" and "px_passive px' = px_passive px"
  shows "px_synced px'"
  using assms by (simp add: px_synced_def pools_ok_def)

lemma change_flags_sync:
  assumes d: "distinct (map srv_url cs)" and u: "u \<in> srv_url ` set cs"
    and k: "\<And>url. h' url = (if url = u then (case c of NoChange \<Rightarrow> h u | BecameHealthy \<Rightarrow> True | BecameUnhealthy \<Rightarrow> False) else h url)"
  shows "change_flags c u (cs, map (\<lambda>c. h (srv_url c)) cs) = (cs, map (\<lambda>c. h' (srv_url c)) cs)"
proof -
  obtain i where i: "position (\<lambda>s. srv_url s = u) cs = Some i"
    using u by (cases "position (\<lambda>s. srv_url s = u) cs") (auto simp: position_None)
  have iu: "i < length cs" "srv_url (cs ! i) = u" using position_SomeD [OF i] by simp_all
  have other: "srv_url (cs ! j) \<noteq> u" if "j < length cs" "j \<noteq> i" for j
    using d iu that by (auto simp: distinct_conv_nth)
  have upd: "(map (\<lambda>c. h (srv_url c)) cs)[i := b] = map (\<lambda>c. if srv_url c = u then b else h (srv_url c)) cs" for b
    by (rule nth_equalityI) (use iu other in \<open>auto simp: nth_list_update\<close>)
  show ?thesis using i by (cases c) (simp_all add: change_flags_def k upd)
qed

lemma px_record_synced:
  assumes S: "px_synced px" and p: "px_pool px svc = Some (cs, fl)" and u: "u \<in> srv_url ` set cs"
  shows "px_synced (px_record E svc u st px)"
proof -
  obtain ch k where rec: "phk_record_response u st (ex_elapsed E) (ex_now E) (ex_now' E) (px_passive px) = (ch, k)" by fastforce
  let ?px1 = "px\<lparr>px_passive := k\<rparr>" and ?px2 = "px_record E svc u st px"
  have px2: "?px2 = px_apply_health_change ch u svc ?px1" by (simp add: px_record_def rec)
  have pool1: "px_pool ?px1 = px_pool px" by (rule ext) (simp add: px_pool_def)
  have inv1: "px_inv ?px1" using S by (simp add: px_synced_def px_inv_def)
  note ap = px_apply_pool [OF inv1, of ch u svc, folded px2, unfolded pool1]
  have h: "phk_is_healthy k url = (if url = u then (case ch of NoChange \<Rightarrow> phk_is_healthy (px_passive px) u
      | BecameHealthy \<Rightarrow> True | BecameUnhealthy \<Rightarrow> False) else phk_is_healthy (px_passive px) url)" for url
    using phk_record_healthy [of u st "ex_elapsed E" "ex_now E" "ex_now' E" "px_passive px" url] rec by simp
  have ok: "pools_ok ?px2"
  proof (rule pools_ok_configs)
    show "pools_ok px" using S by (simp add: px_synced_def)
    show "map_option fst (px_pool ?px2 n) = map_option fst (px_pool px n)" for n
      by (simp add: ap(2) option.map_comp comp_def change_flags_def)
  qed
  have "fl' = map (\<lambda>c. phk_is_healthy (px_passive ?px2) (srv_url c)) cs'" if q: "px_pool ?px2 n = Some (cs', fl')" for n cs' fl'
  proof (cases "n = svc")
    case True
    have "distinct (map srv_url cs)" "fl = map (\<lambda>c. phk_is_healthy (px_passive px) (srv_url c)) cs"
      using S p by (auto simp: px_synced_def pools_ok_def)
    with change_flags_sync [OF _ u h] have "change_flags ch u (cs, fl) = (cs, map (\<lambda>c. phk_is_healthy k (srv_url c)) cs)" by simp
    then show ?thesis using True q p by (auto simp: ap)
  next
    case False
    then have q': "px_pool px n = Some (cs', fl')" using q by (simp add: ap(2))
    then have "srv_url ` set cs \<inter> srv_url ` set cs' = {}"
      using S p False unfolding px_synced_def pools_ok_def by blast
    then have "\<forall>c \<in> set cs'. srv_url c \<noteq> u" using u by auto
    then show ?thesis using S q' by (simp add: px_synced_def ap(3) h cong: map_cong)
  qed
  then show ?thesis using ok ap(1) by (simp add: px_synced_def)
qed

text \<open>The state after a request: only the balancer moved, or an outcome was recorded as well.\<close>

lemma forward_state:
  assumes inv: "px_inv px"
  obtains px' where "px_inv px'" and "px_pool px' = px_pool px" and "px_passive px' = px_passive px"
    and "snd (forward_to_backend H E ip svc host tls grpc req px) = px' \<or>
      (\<exists>s cs fl st. px_pool px svc = Some (cs, fl) \<and> s \<in> set cs \<and>
        snd (forward_to_backend H E ip svc host tls grpc req px) =
          px_record E svc (case srv_url_arc s of Some u \<Rightarrow> u | None \<Rightarrow> srv_url s) st px')"
proof (cases "dict_get (px_services px) svc")
  case None
  then show ?thesis using that [of px] inv by (simp add: forward_to_backend_def sm_get_service_def)
next
  case (Some service)
  show ?thesis
  proof (cases "ss_balancer service")
    case None
    then show ?thesis using that [of px] inv Some by (simp add: forward_to_backend_def sm_get_service_def)
  next
    case bal: (Some b)
    obtain sel b' rng' where nx: "lbal_next_server (b, px_rng px) = (sel, (b', rng'))" by (metis prod_cases3)
    define px' where "px' = px\<lparr>px_services := dict_insert svc (service\<lparr>ss_balancer := Some b'\<rparr>) (px_services px), px_rng := rng'\<rparr>"
    have px'': "px' = px\<lparr>px_services := dict_insert svc (service\<lparr>ss_balancer := Some (fst (snd (lbal_next_server (b, px_rng px))))\<rparr>) (px_services px),
        px_rng := rng'\<rparr>" by (simp add: px'_def nx)
    note np = px_next_pool [OF inv Some bal px'']
    show ?thesis
    proof (cases sel)
      case None
      then show ?thesis using that [OF np] Some bal nx by (simp add: forward_to_backend_def sm_get_service_def px'_def)
    next
      case sel: (Some s)
      have "lbal_inv (b, px_rng px)" using inv Some bal lbal_rng_irrelevant(1) unfolding px_inv_def by blast
      then have s: "s \<in> set (lbal_configs (b, 0))"
        using lbal.next_member [of "(b, px_rng px)" s] nx sel lbal_rng_irrelevant(2) [of b "px_rng px" 0] by simp
      have fw: "snd (forward_to_backend H E ip svc host tls grpc req px) = snd (forward_to_server H E ip svc host tls grpc s req px')"
        using Some bal nx sel by (simp add: forward_to_backend_def sm_get_service_def px'_def)
      have "snd (forward_to_server H E ip svc host tls grpc s req px') = px' \<or>
          (\<exists>st. snd (forward_to_server H E ip svc host tls grpc s req px') =
            px_record E svc (case srv_url_arc s of Some u \<Rightarrow> u | None \<Rightarrow> srv_url s) st px')"
        unfolding forward_to_server_def Let_def by (auto split: sum.split backend_outcome.split)
      then show ?thesis using that [OF np] s Some bal unfolding fw px_pool_def by fastforce
    qed
  qed
qed

lemma px_record_configs:
  assumes "px_inv px"
  shows "px_inv (px_record E svc u st px)" and "map_option fst (px_pool (px_record E svc u st px) n) = map_option fst (px_pool px n)"
proof -
  obtain ch k where rec: "phk_record_response u st (ex_elapsed E) (ex_now E) (ex_now' E) (px_passive px) = (ch, k)" by fastforce
  have "px_inv (px\<lparr>px_passive := k\<rparr>)" "px_pool (px\<lparr>px_passive := k\<rparr>) = px_pool px"
    using assms by (simp_all add: px_inv_def px_pool_def fun_eq_iff)
  with px_apply_pool [of "px\<lparr>px_passive := k\<rparr>" ch u svc]
  show "px_inv (px_record E svc u st px)" "map_option fst (px_pool (px_record E svc u st px) n) = map_option fst (px_pool px n)"
    by (simp_all add: px_record_def rec option.map_comp comp_def change_flags_def)
qed

text \<open>The invariant of request handling, with the configured servers \<open>C\<close> of each service.\<close>

definition px_good :: "(string \<Rightarrow> server list option) \<Rightarrow> 'z proxy_state_scheme \<Rightarrow> bool" where
  "px_good C px \<longleftrightarrow> px_synced px \<and> (\<forall>n. map_option fst (px_pool px n) = C n)"

lemma forward_good:
  assumes G: "px_good C px"
  shows "px_good C (snd (forward_to_backend H E ip svc host tls grpc req px))"
proof -
  have S: "px_synced px" and inv: "px_inv px" and C: "\<And>n. map_option fst (px_pool px n) = C n"
    using G by (simp_all add: px_good_def px_synced_def)
  obtain px' where px': "px_inv px'" "px_pool px' = px_pool px" "px_passive px' = px_passive px"
    and st: "snd (forward_to_backend H E ip svc host tls grpc req px) = px' \<or>
      (\<exists>s cs fl st. px_pool px svc = Some (cs, fl) \<and> s \<in> set cs \<and>
        snd (forward_to_backend H E ip svc host tls grpc req px) =
          px_record E svc (case srv_url_arc s of Some u \<Rightarrow> u | None \<Rightarrow> srv_url s) st px')"
    by (rule forward_state [OF inv, of H E ip svc host tls grpc req]) blast
  have S': "px_synced px'" by (rule px_synced_same [OF S px'])
  from st show ?thesis
  proof
    assume "\<exists>s cs fl st. px_pool px svc = Some (cs, fl) \<and> s \<in> set cs \<and>
        snd (forward_to_backend H E ip svc host tls grpc req px) =
          px_record E svc (case srv_url_arc s of Some u \<Rightarrow> u | None \<Rightarrow> srv_url s) st px'"
    then obtain s cs fl st where s: "px_pool px' svc = Some (cs, fl)" "s \<in> set cs"
      "snd (forward_to_backend H E ip svc host tls grpc req px) =
          px_record E svc (case srv_url_arc s of Some u \<Rightarrow> u | None \<Rightarrow> srv_url s) st px'" using px'(2) by auto
    have "srv_url_arc s = None \<or> srv_url_arc s = Some (srv_url s)" using S' s unfolding px_synced_def pools_ok_def by blast
    then have "(case srv_url_arc s of Some u \<Rightarrow> u | None \<Rightarrow> srv_url s) = srv_url s" by auto
    then show ?thesis
      using px_record_synced [OF S' s(1) imageI [OF s(2)], of E st] px_record_configs(2) [OF px'(1), of E svc "srv_url s" st]
        C px'(2) s(3) by (simp add: px_good_def)
  qed (use S' C px' in \<open>simp add: px_good_def\<close>)
qed

text \<open>A middleware acts on the shared state through its continuation only.\<close>

definition mw_keeps :: "('s \<Rightarrow> bool) \<Rightarrow> ('q, 'p, 's) middleware \<Rightarrow> bool" where
  "mw_keeps P m \<longleftrightarrow> (\<forall>ep. (\<forall>q s. P s \<longrightarrow> P (snd (ep q s))) \<longrightarrow> (\<forall>q s. P s \<longrightarrow> P (snd (m q ep s))))"

lemma next_run_keeps:
  assumes "\<forall>m \<in> set ms. mw_keeps P m" and "\<And>q s. P s \<Longrightarrow> P (snd (ep q s))" and "P s"
  shows "P (snd (next_run ms ep q s))"
  using assms(1,3)
proof (induction ms arbitrary: q s)
  case Nil
  then show ?case using assms(2) by simp
next
  case (Cons m ms)
  then have "mw_keeps P m" "\<And>q s. P s \<Longrightarrow> P (snd (next_run ms ep q s))" by simp_all
  then show ?case using Cons.prems(2) unfolding mw_keeps_def by simp
qed

lemma log_access_good: "px_good C (log_access H js E addr tls req st rs px) = px_good C px"
  by (simp add: log_access_def px_good_def px_synced_def pools_ok_def px_inv_def px_pool_def Let_def)

lemma proxy_handle_good:
  assumes "px_good C px" and "\<And>names m. m \<in> set (resolve names) \<Longrightarrow> mw_keeps (px_good C) m"
  shows "px_good C (snd (proxy_handle H im js E router resolve addr entrypoint tls req px))"
proof -
  have fwd: "px_good C (snd (let (r, px') = forward_to_backend H E ip svc host tls grpc req px in (Inr r, px')))"
    if "px_good C px" for svc host grpc req px ip
    using forward_good [OF that, of H E ip svc host tls grpc req] by (simp add: split_beta)
  have "px_good C (snd (next_run (resolve names) (\<lambda>req px. let (r, px') = forward_to_backend H E ip svc host tls grpc req px in (Inr r, px')) req px))"
    for names svc host grpc ip
    by (rule next_run_keeps [where P = "px_good C"]) (use assms fwd in blast)+
  then show ?thesis using assms(1)
    by (auto simp: proxy_handle_def log_access_good Let_def split: option.split prod.split sum.split) (metis snd_conv)+
qed

section \<open>Reachable states\<close>

definition px_init :: "service_config dict \<Rightarrow> passive_health_config \<Rightarrow> u32 \<Rightarrow> proxy_state" where
  "px_init services config rng = \<lparr>px_services = sm_new services, px_passive = phk_new config, px_rng = rng, px_access_log = None\<rparr>"

inductive px_reach ::
  "('h, 'v, 'u, 'm) http_ops_scheme \<Rightarrow> ('r \<Rightarrow> string \<Rightarrow> bool) \<Rightarrow> (access_log_entry \<Rightarrow> string option) \<Rightarrow> 'r router
    \<Rightarrow> (string list \<Rightarrow> (('h, 'u) request, panic + 'h response, 'z proxy_state_scheme) middleware list) set
    \<Rightarrow> 'z proxy_state_scheme \<Rightarrow> 'z proxy_state_scheme \<Rightarrow> bool"
  for H im js router resolvers px0 where
  reach_init: "px_reach H im js router resolvers px0 px0"
| reach_step: "px_reach H im js router resolvers px0 px \<Longrightarrow> resolve \<in> resolvers \<Longrightarrow>
    px_reach H im js router resolvers px0 (snd (proxy_handle H im js E router resolve addr entrypoint tls req px))"

lemma px_reach_good:
  assumes "px_reach H im js router resolvers px0 px" and "px_good C px0"
    and "\<And>resolve names m. resolve \<in> resolvers \<Longrightarrow> m \<in> set (resolve names) \<Longrightarrow> mw_keeps (px_good C) m"
  shows "px_good C px"
  using assms by (induction rule: px_reach.induct) (simp_all add: proxy_handle_good)

text \<open>The condition on a configuration, as a check of its services.\<close>

definition service_servers :: "service_config \<Rightarrow> server list" where
  "service_servers c = (case sv_load_balancer c of Some lb \<Rightarrow> lb_servers lb | None \<Rightarrow> [])"

definition services_ok :: "service_config dict \<Rightarrow> bool" where
  "services_ok services \<longleftrightarrow> distinct (map fst services) \<and>
     distinct (map srv_url (concat (map (\<lambda>(n, c). service_servers c) services))) \<and>
     list_all (\<lambda>(n, c). length (service_servers c) < 2 ^ 63 \<and>
       list_all (\<lambda>s. srv_url_arc s = None \<or> srv_url_arc s = Some (srv_url s)) (service_servers c)) services"

definition configured :: "service_config dict \<Rightarrow> string \<Rightarrow> server list option" where
  "configured services name = Option.bind (dict_get services name) (\<lambda>c. map_option lb_servers (sv_load_balancer c))"

lemma concat_urls_disjoint:
  assumes "distinct (map f (concat (map g xs)))" and "i < length xs" and "j < length xs" and "i \<noteq> j"
  shows "f ` set (g (xs ! i)) \<inter> f ` set (g (xs ! j)) = {}"
  using assms
proof (induction xs arbitrary: i j)
  case (Cons x xs)
  have ih: "f ` set (g (xs ! i)) \<inter> f ` set (g (xs ! j)) = {}" if "i < length xs" "j < length xs" "i \<noteq> j" for i j
    using Cons.IH Cons.prems(1) that by (auto simp: distinct_append)
  have hd: "f ` set (g x) \<inter> f ` set (g (xs ! k)) = {}" if "k < length xs" for k
  proof -
    have "f ` set (g (xs ! k)) \<subseteq> f ` set (concat (map g xs))" using that by (auto intro!: imageI) (meson nth_mem)
    then show ?thesis using Cons.prems(1) by (auto simp: distinct_append)
  qed
  show ?case
  proof (cases i)
    case 0
    then show ?thesis using Cons.prems hd by (cases j) auto
  next
    case (Suc i')
    then show ?thesis using Cons.prems ih [of i'] hd [of i'] by (cases j) (auto simp: Int_commute)
  qed
qed simp

lemma px_init_pool:
  assumes "services_ok services"
  shows "px_pool (px_init services config rng) name = map_option (\<lambda>cs. (cs, map (\<lambda>_. True) cs)) (configured services name)"
    and "px_inv (px_init services config rng)"
proof -
  have d: "distinct (map fst services)" using assms by (simp add: services_ok_def)
  have get: "dict_get (px_services (px_init services config rng)) n = map_option make_service_state (dict_get services n)" for n
    by (simp add: px_init_def dict_get_sm_new [OF d])
  have len: "length (lb_servers lb) < 2 ^ 63" if "dict_get services n = Some c" "sv_load_balancer c = Some lb" for n c lb
  proof -
    have "(n, c) \<in> set services" using that(1) by (simp add: dict_get_def map_of_SomeD)
    then show ?thesis using assms that(2) by (auto simp: services_ok_def list_all_iff service_servers_def)
  qed
  show "px_inv (px_init services config rng)"
    unfolding px_inv_def get using from_load_balancer_start(1) [OF len]
    by (auto simp: make_service_state_def split: option.splits)
  show "px_pool (px_init services config rng) name = map_option (\<lambda>cs. (cs, map (\<lambda>_. True) cs)) (configured services name)"
    unfolding px_pool_def get configured_def using from_load_balancer_start(2,3) [OF len]
    by (auto simp: make_service_state_def split: option.splits bind_splits)
qed

lemma px_init_good:
  assumes ok: "services_ok services"
  shows "px_good (configured services) (px_init services config rng)"
proof -
  let ?px = "px_init services config rng"
  note pool = px_init_pool(1) [OF ok, of config rng]
  have mem: "\<exists>i < length services. services ! i = (n, c) \<and> service_servers c = cs"
    if "configured services n = Some cs" "dict_get services n = Some c" for n cs c
  proof -
    have "(n, c) \<in> set services" using that(2) by (simp add: dict_get_def map_of_SomeD)
    then show ?thesis using that by (auto simp: configured_def service_servers_def in_set_conv_nth)
  qed
  have conf: "\<exists>i < length services. \<exists>c. services ! i = (n, c) \<and> service_servers c = cs" if "configured services n = Some cs" for n cs
    using mem [OF that] that by (auto simp: configured_def split: bind_splits)
  have D: "distinct (map srv_url (concat (map (\<lambda>(n, c). service_servers c) services)))" using ok by (simp add: services_ok_def)
  have one: "distinct (map srv_url cs) \<and> (\<forall>c \<in> set cs. srv_url_arc c = None \<or> srv_url_arc c = Some (srv_url c))"
    if n: "configured services n = Some cs" for n cs
  proof -
    obtain i c where i: "i < length services" "services ! i = (n, c)" "service_servers c = cs" using conf [OF n] by blast
    have nc: "(n, c) \<in> set services" using i nth_mem by metis
    moreover have "distinct (map srv_url cs)"
    proof -
      have "cs \<in> set (map (\<lambda>(n, c). service_servers c) services)" using nc i(3) by (auto intro!: image_eqI [of _ _ "(n, c)"])
      then show ?thesis using D by (metis (no_types, lifting) distinct_concat_iff map_concat removeAll_id list.set_map imageI distinct_map)
    qed
    ultimately show ?thesis using ok i(3) by (auto simp: services_ok_def list_all_iff)
  qed
  have two: "srv_url ` set cs \<inter> srv_url ` set cs' = {}"
    if tn: "configured services n = Some cs" "configured services n' = Some cs'" "n \<noteq> n'" for n n' cs cs'
  proof -
    obtain i c where i: "i < length services" "services ! i = (n, c)" "service_servers c = cs" using conf [OF tn(1)] by blast
    obtain j c' where j: "j < length services" "services ! j = (n', c')" "service_servers c' = cs'" using conf [OF tn(2)] by blast
    have "i \<noteq> j" using i(2) j(2) tn(3) by auto
    from concat_urls_disjoint [OF D i(1) j(1) this] show ?thesis using i j by simp
  qed
  have "pools_ok ?px" unfolding pools_ok_def pool using one two by fastforce
  moreover have "phk_is_healthy (px_passive ?px) u" for u by (simp add: px_init_def phk_new_def phk_is_healthy_def)
  ultimately have "px_synced ?px" using px_init_pool(2) [OF ok] by (auto simp: px_synced_def pool)
  moreover have "map_option fst (px_pool ?px n) = configured services n" for n
    by (simp add: pool option.map_comp comp_def option.map_ident)
  ultimately show ?thesis by (simp add: px_good_def)
qed

section \<open>Properties\<close>

lemma good_in_sync:
  assumes G: "px_good C px" and svc: "C name = Some servers"
  shows "\<exists>s b. sm_get_service (px_services px) name = Some s \<and> ss_balancer s = Some b \<and>
    lbal_configs (b, px_rng px) = servers \<and>
    lbal_flags (b, px_rng px) = map (\<lambda>c. phk_is_healthy (px_passive px) (srv_url c)) servers \<and>
    (lbal_eligible (b, px_rng px) \<and> (\<exists>c \<in> set servers. phk_is_healthy (px_passive px) (srv_url c)) \<longrightarrow>
      (\<exists>c \<in> set servers. fst (lbal_next_server (b, px_rng px)) = Some c \<and> phk_is_healthy (px_passive px) (srv_url c)))"
proof -
  obtain fl where pool: "px_pool px name = Some (servers, fl)" using G svc by (auto simp: px_good_def dest!: spec [of _ name])
  then obtain s b where s: "dict_get (px_services px) name = Some s" "ss_balancer s = Some b"
      "lbal_configs (b, 0) = servers" "lbal_flags (b, 0) = fl" by (auto simp: px_pool_def split: bind_splits)
  have fl: "fl = map (\<lambda>c. phk_is_healthy (px_passive px) (srv_url c)) servers"
    using G pool by (auto simp: px_good_def px_synced_def)
  have inv: "lbal_inv (b, px_rng px)"
    using G s(1,2) lbal_rng_irrelevant(1) [of b "px_rng px" 0] unfolding px_good_def px_synced_def px_inv_def by blast
  have cf: "lbal_configs (b, px_rng px) = servers" "lbal_flags (b, px_rng px) = fl"
    using s(3,4) lbal_rng_irrelevant [of b "px_rng px" 0] by simp_all
  have "\<exists>c \<in> set servers. fst (lbal_next_server (b, px_rng px)) = Some c \<and> phk_is_healthy (px_passive px) (srv_url c)"
    if "lbal_eligible (b, px_rng px)" "\<exists>c \<in> set servers. phk_is_healthy (px_passive px) (srv_url c)"
    using lbalh.next_healthy [OF inv that(1)] that(2) unfolding cf fl by (auto simp: nth_mem intro: bexI)
  then show ?thesis using s(1,2) cf fl by (simp add: sm_get_service_def)
qed

definition px_services_example :: "service_config dict" where
  "px_services_example = [(''web'', \<lparr>sv_load_balancer = Some (lb_example [plain_server ''http://a'' 1, plain_server ''http://b'' 1]),
     sv_weighted = None, sv_mirroring = None, sv_failover = None\<rparr>)]"

definition exchange_example :: "(string dict, simple_uri) exchange" where
  "exchange_example = \<lparr>ex_send = (\<lambda>_ _. BackendFailed), ex_websocket = (\<lambda>_ _. error_response simple_http 502 []),
     ex_elapsed = 0, ex_now = 0, ex_now' = 0, ex_log_start = 0, ex_log_end = 0, ex_wall = (0, 0)\<rparr>"

text \<open>
  Composite services answer 503: a service that is configured as weighted, mirroring or failover
  has no balancer of its own, and every request routed to it is refused with \<open>Service Not
  Configured\<close>, whatever the state of the proxy, although the configuration accepts it.
\<close>

theorem composite_service_refused:
  assumes "services_ok services" and "dict_get services name = Some c" and "sv_load_balancer c = None"
    and "\<not> is_grpc"
  shows "rs_status (fst (forward_to_backend H E ip name host tls is_grpc req (px_init services config rng))) = 503 \<and>
    rs_body (fst (forward_to_backend H E ip name host tls is_grpc req (px_init services config rng))) = ''Service Not Configured''"
proof -
  have "dict_get (px_services (px_init services config rng)) name = Some (make_service_state c)"
    using assms(1,2) by (simp add: px_init_def dict_get_sm_new services_ok_def)
  then show ?thesis using assms(3,4)
    by (simp add: forward_to_backend_def sm_get_service_def make_service_state_def error_response_maybe_grpc_def error_response_def)
qed

theorem composite_service_refused_witness:
  "rs_status (fst (forward_to_backend simple_http exchange_example (V4 1) ''canary'' None False False request_example
     (px_init [(''canary'', \<lparr>sv_load_balancer = None, sv_weighted = Some (\<lparr>ws_services = [], ws_sticky = None, ws_health_check = None\<rparr>),
        sv_mirroring = None, sv_failover = None\<rparr>)] phc_default 1))) = 503"
proof -
  let ?c = "\<lparr>sv_load_balancer = None, sv_weighted = Some (\<lparr>ws_services = [], ws_sticky = None, ws_health_check = None\<rparr>),
        sv_mirroring = None, sv_failover = None\<rparr>"
  have "services_ok [(''canary'', ?c)]" "dict_get [(''canary'', ?c)] ''canary'' = Some ?c" "sv_load_balancer ?c = None"
    by (simp_all add: services_ok_def service_servers_def dict_get_def)
  then show ?thesis by (rule composite_service_refused [THEN conjunct1]) simp
qed

definition shared_example :: proxy_state where
  "shared_example =
     (let c = \<lparr>sv_load_balancer = Some (lb_example [plain_server ''http://x'' 1]), sv_weighted = None, sv_mirroring = None, sv_failover = None\<rparr>
      in px_record exchange_example ''a'' ''http://x'' 502
           (px_init [(''a'', c), (''b'', c)] (phc_example\<lparr>phc_failure_threshold := 1\<rparr>) 1))"

text \<open>
  Where two services share a backend the agreement fails: the passive checker knows the backend
  by its URL only, but a change of its health is applied to the service whose request saw it. After
  one failure through the first service the backend is passively unhealthy, and the balancer of
  the second service still takes it for healthy.
\<close>

theorem shared_backend_out_of_sync:
  "\<not> phk_is_healthy (px_passive shared_example) ''http://x'' \<and>
   px_pool shared_example ''a'' = Some ([plain_server ''http://x'' 1], [False]) \<and>
   px_pool shared_example ''b'' = Some ([plain_server ''http://x'' 1], [True])"
  by code_simp

end
