(* ===== verification/Mw_Config.thy ===== *)
theory Mw_Config
  imports Config_Types
begin

text \<open>
  The middleware options of \<open>src/src/config/types.rs\<close> that the middlewares of the registry read, one
  record per struct. Of \<open>HeadersConfig\<close> the record has the fields that are read; the security
  headers, host checks and redirects that the struct also declares are read nowhere. The options
  of the middlewares the registry does not create are of interest only as present or absent.
\<close>

record headers_config =
  hcf_custom_request_headers :: "string dict"
  hcf_custom_response_headers :: "string dict"
  hcf_allow_credentials :: bool
  hcf_allow_headers :: "string list"
  hcf_allow_methods :: "string list"
  hcf_allow_origin_list :: "string list"
  hcf_allow_origin_list_regex :: "string list"
  hcf_expose_headers :: "string list"
  hcf_max_age :: "int option"
  hcf_add_vary_header :: bool

record basic_auth_config =
  bac_users :: "string list"
  bac_users_file :: "string option"
  bac_realm :: "string option"
  bac_header_field :: "string option"
  bac_remove_header :: bool

record redirect_scheme_config =
  rsc_scheme :: string
  rsc_permanent :: bool
  rsc_port :: "string option"

record strip_prefix_config =
  spc_prefixes :: "string list"
  spc_force_slash :: bool

record strip_prefix_regex_config =
  sprc_regex :: "string list"

record add_prefix_config =
  apc_prefix :: string

record replace_path_config =
  rpc_path :: string

record replace_path_regex_config =
  rprc_regex :: string
  rprc_replacement :: string

record compress_config =
  cc_excluded_content_types :: "string list"
  cc_included_content_types :: "string list"
  cc_min_response_body_bytes :: u64
  cc_default_encoding :: "string option"
  cc_encodings :: "string list"

record middleware_config =
  mc_rate_limit :: "rate_limit_config option"
  mc_ip_allow_list :: "ip_allow_list_config option"
  mc_ip_deny_list :: "ip_deny_list_config option"
  mc_headers :: "headers_config option"
  mc_basic_auth :: "basic_auth_config option"
  mc_digest_auth :: bool
  mc_forward_auth :: bool
  mc_compress :: "compress_config option"
  mc_retry :: "retry_config option"
  mc_circuit_breaker :: bool
  mc_redirect_scheme :: "redirect_scheme_config option"
  mc_redirect_regex :: bool
  mc_strip_prefix :: "strip_prefix_config option"
  mc_strip_prefix_regex :: "strip_prefix_regex_config option"
  mc_add_prefix :: "add_prefix_config option"
  mc_replace_path :: "replace_path_config option"
  mc_replace_path_regex :: "replace_path_regex_config option"
  mc_chain :: "string list option"
  mc_buffering :: bool
  mc_in_flight_req :: bool
  mc_pass_tls_client_cert :: bool
  mc_content_type :: bool
  mc_grpc_web :: bool
  mc_jwt :: bool
  mc_errors :: bool
  mc_ip_white_list :: "ip_allow_list_config option"

definition middleware_type :: "middleware_config \<Rightarrow> string" where
  "middleware_type c =
     (if mc_rate_limit c \<noteq> None then ''rateLimit''
      else if mc_ip_allow_list c \<noteq> None then ''ipAllowList''
      else if mc_ip_white_list c \<noteq> None then ''ipWhiteList''
      else if mc_ip_deny_list c \<noteq> None then ''ipDenyList''
      else if mc_headers c \<noteq> None then ''headers''
      else if mc_basic_auth c \<noteq> None then ''basicAuth''
      else if mc_digest_auth c then ''digestAuth''
      else if mc_forward_auth c then ''forwardAuth''
      else if mc_compress c \<noteq> None then ''compress''
      else if mc_retry c \<noteq> None then ''retry''
      else if mc_circuit_breaker c then ''circuitBreaker''
      else if mc_redirect_scheme c \<noteq> None then ''redirectScheme''
      else if mc_redirect_regex c then ''redirectRegex''
      else if mc_strip_prefix c \<noteq> None then ''stripPrefix''
      else if mc_strip_prefix_regex c \<noteq> None then ''stripPrefixRegex''
      else if mc_add_prefix c \<noteq> None then ''addPrefix''
      else if mc_replace_path c \<noteq> None then ''replacePath''
      else if mc_replace_path_regex c \<noteq> None then ''replacePathRegex''
      else if mc_chain c \<noteq> None then ''chain''
      else if mc_buffering c then ''buffering''
      else if mc_in_flight_req c then ''inFlightReq''
      else if mc_pass_tls_client_cert c then ''passTLSClientCert''
      else if mc_content_type c then ''contentType''
      else if mc_grpc_web c then ''grpcWeb''
      else if mc_jwt c then ''jwt''
      else if mc_errors c then ''errors''
      else ''unknown'')"

definition get_ip_allow_list :: "middleware_config \<Rightarrow> ip_allow_list_config option" where
  "get_ip_allow_list c = (case mc_ip_allow_list c of Some a \<Rightarrow> Some a | None \<Rightarrow> mc_ip_white_list c)"

text \<open>A configuration with no middleware set, for concrete instances.\<close>

definition no_middleware :: middleware_config where
  "no_middleware = \<lparr>mc_rate_limit = None, mc_ip_allow_list = None, mc_ip_deny_list = None, mc_headers = None,
     mc_basic_auth = None, mc_digest_auth = False, mc_forward_auth = False, mc_compress = None, mc_retry = None,
     mc_circuit_breaker = False, mc_redirect_scheme = None, mc_redirect_regex = False, mc_strip_prefix = None,
     mc_strip_prefix_regex = None, mc_add_prefix = None, mc_replace_path = None, mc_replace_path_regex = None,
     mc_chain = None, mc_buffering = False, mc_in_flight_req = False, mc_pass_tls_client_cert = False,
     mc_content_type = False, mc_grpc_web = False, mc_jwt = False, mc_errors = False, mc_ip_white_list = None\<rparr>"

end
