(* ===== verification/Path_Mw.thy ===== *)
theory Path_Mw
  imports Http Mw_Config
begin

text \<open>
  The path middlewares of \<open>src/src/middleware/builtin/path.rs\<close> and the scheme redirect of
  \<open>src/src/middleware/builtin/redirect_scheme.rs\<close>. Regular expressions are parameters: \<open>rx\<close>
  compiles a pattern, \<open>rfind\<close> gives start and end of the leftmost match and \<open>rreplace\<close> replaces it.
  The documented behaviour of the URI builder that the round trip relies on is \<open>uri_laws\<close>.
\<close>

definition rebuild_uri_with_path :: "('h, 'v, 'u, 'm) http_ops_scheme \<Rightarrow> 'u \<Rightarrow> string \<Rightarrow> 'u option" where
  "rebuild_uri_with_path H uri new_path =
     (let path_and_query = (case ur_query H uri of Some query \<Rightarrow> new_path @ ''?'' @ query | None \<Rightarrow> new_path)
      in case ur_build H (ur_scheme H uri) (ur_authority H uri) path_and_query of
           Inr u \<Rightarrow> Some u | Inl _ \<Rightarrow> None)"

section \<open>Prefixes\<close>

record strip_prefix_middleware =
  spm_prefixes :: "string list"
  spm_force_slash :: bool

definition spm_new :: "strip_prefix_config \<Rightarrow> strip_prefix_middleware" where
  "spm_new config = \<lparr>spm_prefixes = spc_prefixes config, spm_force_slash = spc_force_slash config\<rparr>"

fun spm_try :: "('h, 'v, 'u, 'm) http_ops_scheme \<Rightarrow> bool \<Rightarrow> 'u \<Rightarrow> string list \<Rightarrow> ('u \<times> string) option" where
  "spm_try H force_slash uri [] = None"
| "spm_try H force_slash uri (prefix # rest) =
     (case strip_prefix prefix (ur_path H uri) of
        Some stripped \<Rightarrow>
          (let new_path = (if stripped = [] \<or> (\<not> starts_with ''/'' stripped \<and> force_slash) then ''/'' @ stripped else stripped)
           in case rebuild_uri_with_path H uri new_path of
                Some new_uri \<Rightarrow> Some (new_uri, prefix)
              | None \<Rightarrow> spm_try H force_slash uri rest)
      | None \<Rightarrow> spm_try H force_slash uri rest)"

definition spm_transform_uri :: "('h, 'v, 'u, 'm) http_ops_scheme \<Rightarrow> strip_prefix_middleware \<Rightarrow> 'u \<Rightarrow> ('u \<times> string) option" where
  "spm_transform_uri H m uri = spm_try H (spm_force_slash m) uri (spm_prefixes m)"

fun compile_all :: "(string \<Rightarrow> 'e + 'r) \<Rightarrow> string list \<Rightarrow> 'r list option" where
  "compile_all rx [] = Some []"
| "compile_all rx (p # ps) =
     (case rx p of Inl _ \<Rightarrow> None | Inr r \<Rightarrow> map_option (\<lambda>rs. r # rs) (compile_all rx ps))"

definition sprm_new :: "(string \<Rightarrow> 'e + 'r) \<Rightarrow> strip_prefix_regex_config \<Rightarrow> 'r list option" where
  "sprm_new rx config = compile_all rx (sprc_regex config)"

fun sprm_transform_uri :: "('h, 'v, 'u, 'm) http_ops_scheme \<Rightarrow> ('r \<Rightarrow> string \<Rightarrow> (nat \<times> nat) option) \<Rightarrow> 'r list \<Rightarrow> 'u \<Rightarrow> ('u \<times> string) option" where
  "sprm_transform_uri H rfind [] uri = None"
| "sprm_transform_uri H rfind (pattern # rest) uri =
     (let path = ur_path H uri in
      case rfind pattern path of
        Some (start, stop) \<Rightarrow>
          (if start = 0 then
             (let matched = take stop path; stripped = drop stop path;
                  new_path = (if stripped = [] \<or> \<not> starts_with ''/'' stripped then ''/'' @ stripped else stripped)
              in case rebuild_uri_with_path H uri new_path of
                   Some new_uri \<Rightarrow> Some (new_uri, matched)
                 | None \<Rightarrow> sprm_transform_uri H rfind rest uri)
           else sprm_transform_uri H rfind rest uri)
      | None \<Rightarrow> sprm_transform_uri H rfind rest uri)"

definition apm_transform_uri :: "('h, 'v, 'u, 'm) http_ops_scheme \<Rightarrow> add_prefix_config \<Rightarrow> 'u \<Rightarrow> 'u option" where
  "apm_transform_uri H m uri = rebuild_uri_with_path H uri (apc_prefix m @ ur_path H uri)"

section \<open>Replacement\<close>

definition rpm_transform_uri :: "('h, 'v, 'u, 'm) http_ops_scheme \<Rightarrow> replace_path_config \<Rightarrow> 'u \<Rightarrow> ('u \<times> string) option" where
  "rpm_transform_uri H m uri = map_option (\<lambda>u. (u, ur_path H uri)) (rebuild_uri_with_path H uri (rpc_path m))"

record 'r replace_path_regex_middleware =
  rprm_pattern :: 'r
  rprm_replacement :: string

definition rprm_new :: "(string \<Rightarrow> 'e + 'r) \<Rightarrow> replace_path_regex_config \<Rightarrow> 'r replace_path_regex_middleware option" where
  "rprm_new rx config =
     (case rx (rprc_regex config) of
        Inr pattern \<Rightarrow> Some \<lparr>rprm_pattern = pattern, rprm_replacement = rprc_replacement config\<rparr>
      | Inl _ \<Rightarrow> None)"

definition rprm_transform_uri ::
  "('h, 'v, 'u, 'm) http_ops_scheme \<Rightarrow> ('r \<Rightarrow> string \<Rightarrow> string \<Rightarrow> string) \<Rightarrow> 'r replace_path_regex_middleware \<Rightarrow> 'u \<Rightarrow> ('u \<times> string) option" where
  "rprm_transform_uri H rreplace m uri =
     (let original_path = ur_path H uri; new_path = rreplace (rprm_pattern m) original_path (rprm_replacement m)
      in if new_path \<noteq> original_path
         then map_option (\<lambda>u. (u, original_path)) (rebuild_uri_with_path H uri new_path)
         else None)"

section \<open>Scheme redirect\<close>

record redirect_scheme_middleware =
  rsm_scheme :: string
  rsm_permanent :: bool
  rsm_port :: "u16 option"

definition rsm_new :: "redirect_scheme_config \<Rightarrow> redirect_scheme_middleware" where
  "rsm_new config = \<lparr>rsm_scheme = to_lowercase (rsc_scheme config), rsm_permanent = rsc_permanent config,
     rsm_port = Option.bind (rsc_port config) (\<lambda>p. map_option of_nat (parse_unsigned 65536 p))\<rparr>"

definition rsm_should_redirect :: "redirect_scheme_middleware \<Rightarrow> bool \<Rightarrow> bool" where
  "rsm_should_redirect m is_tls \<longleftrightarrow> (if is_tls then ''https'' else ''http'') \<noteq> rsm_scheme m"

definition is_default_port :: "string \<Rightarrow> u16 \<Rightarrow> bool" where
  "is_default_port scheme port \<longleftrightarrow> (scheme = ''http'' \<and> port = 80) \<or> (scheme = ''https'' \<and> port = 443)"

definition rsm_status_code :: "redirect_scheme_middleware \<Rightarrow> u16" where
  "rsm_status_code m = (if rsm_permanent m then 301 else 302)"

definition rsm_location :: "('h, 'v, 'u, 'm) http_ops_scheme \<Rightarrow> redirect_scheme_middleware \<Rightarrow> ('h, 'u) request \<Rightarrow> string" where
  "rsm_location H m req =
     (let host = (case header_text H (rq_headers req) ''host'' of
            Some h \<Rightarrow> hd (split_char CHR '':'' h) | None \<Rightarrow> ''localhost'');
          path_and_query = (case ur_path_and_query H (rq_uri req) of Some pq \<Rightarrow> pq | None \<Rightarrow> ''/'')
      in case rsm_port m of
           Some port \<Rightarrow>
             if \<not> is_default_port (rsm_scheme m) port
             then rsm_scheme m @ ''://'' @ host @ '':'' @ show_nat (unat port) @ path_and_query
             else rsm_scheme m @ ''://'' @ host @ path_and_query
         | None \<Rightarrow> rsm_scheme m @ ''://'' @ host @ path_and_query)"

definition rsm_build_redirect :: "('h, 'v, 'u, 'm) http_ops_scheme \<Rightarrow> redirect_scheme_middleware \<Rightarrow> ('h, 'u) request \<Rightarrow> 'h response" where
  "rsm_build_redirect H m req =
     \<lparr>rs_status = (if rsm_permanent m then 301 else 302),
      rs_headers = (case hv_from_str H (rsm_location H m req) of
         Some v \<Rightarrow> hm_append H ''location'' v (hm_empty H) | None \<Rightarrow> hm_empty H),
      rs_body = []\<rparr>"

section \<open>Round trip of prefixes\<close>

definition clean_path :: "string \<Rightarrow> bool" where
  "clean_path p \<longleftrightarrow> starts_with ''/'' p \<and> CHR ''?'' \<notin> set p \<and> CHR ''#'' \<notin> set p"

text \<open>
  The builder accepts a path that starts with a slash and contains no query or fragment sign,
  with or without a query, and the URI it builds has the scheme, authority, path and query given.
\<close>

definition uri_laws :: "('h, 'v, 'u, 'm) http_ops_scheme \<Rightarrow> bool" where
  "uri_laws H \<longleftrightarrow>
     (\<forall>s a p. clean_path p \<longrightarrow>
        (\<exists>u. ur_build H s a p = Inr u \<and> ur_path H u = p \<and> ur_query H u = None \<and> ur_scheme H u = s \<and> ur_authority H u = a)) \<and>
     (\<forall>s a p q. clean_path p \<and> CHR ''#'' \<notin> set q \<longrightarrow>
        (\<exists>u. ur_build H s a (p @ ''?'' @ q) = Inr u \<and> ur_path H u = p \<and> ur_query H u = Some q \<and> ur_scheme H u = s \<and> ur_authority H u = a))"

definition clean_uri :: "('h, 'v, 'u, 'm) http_ops_scheme \<Rightarrow> 'u \<Rightarrow> bool" where
  "clean_uri H u \<longleftrightarrow> clean_path (ur_path H u) \<and> (case ur_query H u of Some q \<Rightarrow> CHR ''#'' \<notin> set q | None \<Rightarrow> True)"

lemma rebuild_uri:
  assumes L: "uri_laws H" and p: "clean_path p" and c: "clean_uri H uri"
  shows "\<exists>u. rebuild_uri_with_path H uri p = Some u \<and> ur_path H u = p \<and> ur_query H u = ur_query H uri \<and>
    ur_scheme H u = ur_scheme H uri \<and> ur_authority H u = ur_authority H uri"
proof (cases "ur_query H uri")
  case None
  from L p obtain u where "ur_build H (ur_scheme H uri) (ur_authority H uri) p = Inr u" "ur_path H u = p"
    "ur_query H u = None" "ur_scheme H u = ur_scheme H uri" "ur_authority H u = ur_authority H uri"
    unfolding uri_laws_def by metis
  then show ?thesis using None by (simp add: rebuild_uri_with_path_def)
next
  case (Some q)
  then have "CHR ''#'' \<notin> set q" using c by (simp add: clean_uri_def)
  with L p obtain u where "ur_build H (ur_scheme H uri) (ur_authority H uri) (p @ ''?'' @ q) = Inr u" "ur_path H u = p"
    "ur_query H u = Some q" "ur_scheme H u = ur_scheme H uri" "ur_authority H u = ur_authority H uri"
    unfolding uri_laws_def by metis
  then show ?thesis using Some by (simp add: rebuild_uri_with_path_def)
qed

text \<open>
  Adding a prefix and stripping it are inverse: under the documented behaviour of the URI
  builder, whatever prefix that is a path is added to a request's path, a middleware that strips
  this prefix finds it and restores the path; scheme, authority and query are kept by both.
\<close>

theorem strip_added_prefix:
  assumes L: "uri_laws H" and c: "clean_uri H uri" and p: "clean_path (apc_prefix a)" and m: "spm_prefixes m = apc_prefix a # rest"
  shows "\<exists>u u'. apm_transform_uri H a uri = Some u \<and> ur_path H u = apc_prefix a @ ur_path H uri \<and>
    spm_transform_uri H m u = Some (u', apc_prefix a) \<and> ur_path H u' = ur_path H uri \<and>
    ur_query H u' = ur_query H uri \<and> ur_scheme H u' = ur_scheme H uri \<and> ur_authority H u' = ur_authority H uri"
proof -
  have path: "clean_path (ur_path H uri)" using c by (simp add: clean_uri_def)
  then have long: "clean_path (apc_prefix a @ ur_path H uri)" using p by (auto simp: clean_path_def starts_with_iff)
  from rebuild_uri [OF L long c] obtain u where u: "apm_transform_uri H a uri = Some u"
    "ur_path H u = apc_prefix a @ ur_path H uri" "ur_query H u = ur_query H uri"
    "ur_scheme H u = ur_scheme H uri" "ur_authority H u = ur_authority H uri" by (auto simp: apm_transform_uri_def)
  have "clean_uri H u" using long c u(2,3) by (simp add: clean_uri_def)
  from rebuild_uri [OF L path this] obtain u' where u': "rebuild_uri_with_path H u (ur_path H uri) = Some u'"
    "ur_path H u' = ur_path H uri" "ur_query H u' = ur_query H u" "ur_scheme H u' = ur_scheme H u"
    "ur_authority H u' = ur_authority H u" by blast
  have "ur_path H uri \<noteq> [] \<and> starts_with ''/'' (ur_path H uri)" using path by (auto simp: clean_path_def starts_with_iff)
  then have "spm_transform_uri H m u = Some (u', apc_prefix a)"
    using u(2) u'(1) by (simp add: spm_transform_uri_def m)
  with u u' show ?thesis by auto
qed

lemma uri_laws_simple: "uri_laws simple_http"
proof -
  have none: "split_once ''?'' p = None" if "CHR ''?'' \<notin> set p" for p
    using that split_once_Some [of "''?''" p] by (cases "split_once ''?'' p") force+
  show ?thesis
    unfolding uri_laws_def clean_path_def by (simp add: simple_http_def none split_once_char)
qed

theorem strip_added_prefix_witness:
  "\<exists>u u'. apm_transform_uri simple_http \<lparr>apc_prefix = ''/api''\<rparr> (None, None, ''/users?id=1'') = Some u \<and>
     ur_path simple_http u = ''/api/users'' \<and>
     spm_transform_uri simple_http \<lparr>spm_prefixes = [''/api''], spm_force_slash = True\<rparr> u = Some (u', ''/api'') \<and>
     ur_path simple_http u' = ''/users'' \<and> ur_query simple_http u' = Some ''id=1''"
proof -
  have "clean_uri simple_http (None, None, ''/users?id=1'')" "clean_path ''/api''"
    "ur_path simple_http (None, None, ''/users?id=1'') = ''/users''"
    "ur_query simple_http (None, None, ''/users?id=1'') = Some ''id=1''"
    by code_simp+
  with strip_added_prefix [OF uri_laws_simple this(1), of "\<lparr>apc_prefix = ''/api''\<rparr>" "\<lparr>spm_prefixes = [''/api''], spm_force_slash = True\<rparr>" "[]"]
  show ?thesis by fastforce
qed

end
