(* ===== verification/Headers_Cors.thy ===== *)
theory Headers_Cors
  imports Http Mw_Config
begin

text \<open>
  \<open>HeadersMiddleware\<close> of \<open>src/src/middleware/builtin/headers.rs\<close> and \<open>CorsMiddleware\<close> of
  \<open>src/src/middleware/builtin/cors.rs\<close>. \<open>hn_parse\<close> is \<open>HeaderName::try_from\<close>, which gives the name in
  lower case.
\<close>

section \<open>Custom headers\<close>

record 'v headers_middleware =
  hdm_request_headers :: "(string \<times> 'v) list"
  hdm_response_headers :: "(string \<times> 'v) list"
  hdm_remove_request :: "string list"
  hdm_remove_response :: "string list"

text \<open>The two loops of \<open>new\<close>: headers to set and headers to remove.\<close>

fun split_custom :: "('h, 'v, 'm) header_ops_scheme \<Rightarrow> (string \<Rightarrow> string option) \<Rightarrow> (string \<times> string) list \<Rightarrow> (string \<times> 'v) list \<times> string list" where
  "split_custom H hn [] = ([], [])"
| "split_custom H hn ((k, v) # rest) =
     (let (sets, removes) = split_custom H hn rest in
      case hn k of
        None \<Rightarrow> (sets, removes)
      | Some name \<Rightarrow>
          if v = [] then (sets, name # removes)
          else case hv_from_str H v of Some val \<Rightarrow> ((name, val) # sets, removes) | None \<Rightarrow> (sets, removes))"

definition hdm_new :: "('h, 'v, 'm) header_ops_scheme \<Rightarrow> (string \<Rightarrow> string option) \<Rightarrow> headers_config \<Rightarrow> 'v headers_middleware" where
  "hdm_new H hn config =
     (let (rq, rmq) = split_custom H hn (hcf_custom_request_headers config);
          (rs, rms) = split_custom H hn (hcf_custom_response_headers config)
      in \<lparr>hdm_request_headers = rq, hdm_response_headers = rs, hdm_remove_request = rmq, hdm_remove_response = rms\<rparr>)"

definition set_all :: "('h, 'v, 'm) header_ops_scheme \<Rightarrow> (string \<times> 'v) list \<Rightarrow> 'h \<Rightarrow> 'h" where
  "set_all H sets h = foldl (\<lambda>h (name, val). hm_insert H name val h) h sets"

definition hdm_apply_request :: "('h, 'v, 'm) header_ops_scheme \<Rightarrow> 'v headers_middleware \<Rightarrow> 'h \<Rightarrow> 'h" where
  "hdm_apply_request H m h = set_all H (hdm_request_headers m) (remove_all H (hdm_remove_request m) h)"

definition hdm_apply_response :: "('h, 'v, 'm) header_ops_scheme \<Rightarrow> 'v headers_middleware \<Rightarrow> 'h \<Rightarrow> 'h" where
  "hdm_apply_response H m h = set_all H (hdm_response_headers m) (remove_all H (hdm_remove_response m) h)"

section \<open>CORS\<close>

record cors_middleware =
  cors_allowed_origins :: "string list"
  cors_allow_all_origins :: bool
  cors_allowed_methods :: string
  cors_allowed_headers :: string
  cors_allowed_headers_set :: "string list"
  cors_exposed_headers :: "string option"
  cors_allow_credentials :: bool
  cors_max_age :: "string option"
  cors_add_vary_header :: bool

definition cors_from_headers_config :: "headers_config \<Rightarrow> cors_middleware option" where
  "cors_from_headers_config c =
     (if hcf_allow_origin_list c = [] \<and> hcf_allow_origin_list_regex c = [] then None
      else Some \<lparr>cors_allowed_origins = hcf_allow_origin_list c,
        cors_allow_all_origins = list_ex (\<lambda>x. x = ''*'') (hcf_allow_origin_list c),
        cors_allowed_methods = (if hcf_allow_methods c = [] then ''GET, POST, PUT, DELETE, OPTIONS''
           else join_str '', '' (hcf_allow_methods c)),
        cors_allowed_headers = (if hcf_allow_headers c = [] then ''Content-Type, Authorization''
           else join_str '', '' (hcf_allow_headers c)),
        cors_allowed_headers_set = map to_lowercase (hcf_allow_headers c),
        cors_exposed_headers = (if hcf_expose_headers c = [] then None else Some (join_str '', '' (hcf_expose_headers c))),
        cors_allow_credentials = hcf_allow_credentials c,
        cors_max_age = map_option show_int (hcf_max_age c),
        cors_add_vary_header = hcf_add_vary_header c\<rparr>)"

definition cors_is_preflight :: "('h, 'v, 'u, 'm) http_ops_scheme \<Rightarrow> ('h, 'u) request \<Rightarrow> bool" where
  "cors_is_preflight H req \<longleftrightarrow> rq_method req = ''OPTIONS'' \<and> has_header H (rq_headers req) ''origin'' \<and>
     has_header H (rq_headers req) ''access-control-request-method''"

definition cors_is_origin_allowed :: "cors_middleware \<Rightarrow> string \<Rightarrow> bool" where
  "cors_is_origin_allowed m origin \<longleftrightarrow> cors_allow_all_origins m \<or> list_ex (\<lambda>x. x = origin) (cors_allowed_origins m)"

definition is_simple_header :: "string \<Rightarrow> bool" where
  "is_simple_header header \<longleftrightarrow>
     header \<in> set [''accept'', ''accept-language'', ''content-language'', ''content-type'', ''range'']"

definition cors_validate_preflight :: "('h, 'v, 'u, 'm) http_ops_scheme \<Rightarrow> cors_middleware \<Rightarrow> ('h, 'u) request \<Rightarrow> bool" where
  "cors_validate_preflight H m req \<longleftrightarrow>
     (case header_text H (rq_headers req) ''access-control-request-method'' of
        Some method_str \<Rightarrow> contains_str method_str (cors_allowed_methods m) | None \<Rightarrow> True) \<and>
     (case header_text H (rq_headers req) ''access-control-request-headers'' of
        Some headers_str \<Rightarrow> list_all (\<lambda>h. let header = to_lowercase (trim h) in
          header \<in> set (cors_allowed_headers_set m) \<or> is_simple_header header) (split_char CHR '','' headers_str)
      | None \<Rightarrow> True)"

definition cors_origin_value :: "cors_middleware \<Rightarrow> string \<Rightarrow> string" where
  "cors_origin_value m origin = (if cors_allow_all_origins m \<and> \<not> cors_allow_credentials m then ''*'' else origin)"

definition empty_response :: "('h, 'v, 'm) header_ops_scheme \<Rightarrow> u16 \<Rightarrow> 'h response" where
  "empty_response H status = \<lparr>rs_status = status, rs_headers = hm_empty H, rs_body = []\<rparr>"

text \<open>
  The builder of the preflight response fails on a value that is not a header value, and \<open>unwrap\<close>
  then panics.
\<close>

definition add_header :: "('h, 'v, 'm) header_ops_scheme \<Rightarrow> string \<Rightarrow> string \<Rightarrow> panic + 'h \<Rightarrow> panic + 'h" where
  "add_header H name val r =
     (case r of Inl e \<Rightarrow> Inl e
      | Inr h \<Rightarrow> (case hv_from_str H val of Some v \<Rightarrow> Inr (hm_append H name v h) | None \<Rightarrow> Inl UnwrapFailed))"

definition cors_preflight_headers :: "('h, 'v, 'm) header_ops_scheme \<Rightarrow> cors_middleware \<Rightarrow> string \<Rightarrow> panic + 'h" where
  "cors_preflight_headers H m origin =
     (let h1 = add_header H ''access-control-allow-origin'' (cors_origin_value m origin) (Inr (hm_empty H));
          h2 = add_header H ''access-control-allow-methods'' (cors_allowed_methods m) h1;
          h3 = add_header H ''access-control-allow-headers'' (cors_allowed_headers m) h2;
          h4 = (if cors_allow_credentials m then add_header H ''access-control-allow-credentials'' ''true'' h3 else h3);
          h5 = (case cors_max_age m of Some a \<Rightarrow> add_header H ''access-control-max-age'' a h4 | None \<Rightarrow> h4)
      in if cors_add_vary_header m
         then add_header H ''vary'' ''Origin, Access-Control-Request-Method, Access-Control-Request-Headers'' h5 else h5)"

definition cors_handle_preflight :: "('h, 'v, 'u, 'm) http_ops_scheme \<Rightarrow> cors_middleware \<Rightarrow> ('h, 'u) request \<Rightarrow> (panic + 'h response) option" where
  "cors_handle_preflight H m req =
     (case header_text H (rq_headers req) ''origin'' of
        None \<Rightarrow> None
      | Some origin \<Rightarrow>
          if \<not> cors_is_origin_allowed m origin then Some (Inr (empty_response H 403))
          else if \<not> cors_validate_preflight H m req then Some (Inr (empty_response H 403))
          else Some (case cors_preflight_headers H m origin of
                       Inl e \<Rightarrow> Inl e
                     | Inr h \<Rightarrow> Inr \<lparr>rs_status = 204, rs_headers = h, rs_body = []\<rparr>))"

definition cors_apply_headers :: "('h, 'v, 'm) header_ops_scheme \<Rightarrow> cors_middleware \<Rightarrow> string option \<Rightarrow> 'h \<Rightarrow> 'h" where
  "cors_apply_headers H m origin h =
     (case origin of
        None \<Rightarrow> h
      | Some o' \<Rightarrow>
          if \<not> cors_is_origin_allowed m o' then h
          else
            let h1 = insert_text H ''access-control-allow-origin'' (cors_origin_value m o') h;
                h2 = (if cors_allow_credentials m then hm_insert H ''access-control-allow-credentials'' (hv_static H ''true'') h1 else h1);
                h3 = (case cors_exposed_headers m of Some e \<Rightarrow> insert_text H ''access-control-expose-headers'' e h2 | None \<Rightarrow> h2)
            in if cors_add_vary_header m then hm_insert H ''vary'' (hv_static H ''Origin'') h3 else h3)"

definition cors_get_origin :: "('h, 'v, 'u, 'm) http_ops_scheme \<Rightarrow> ('h, 'u) request \<Rightarrow> string option" where
  "cors_get_origin H req = header_text H (rq_headers req) ''origin''"

section \<open>Properties\<close>

lemma hm_get_set_all:
  assumes "header_laws H"
  shows "hm_get H (set_all H sets h) k = (case map_of (rev sets) k of Some v \<Rightarrow> Some v | None \<Rightarrow> hm_get H h k)"
  using lookup_table.lookup_ins_all [of "hm_get H" "hm_insert H" "hm_remove H" h sets k] assms
  by (simp add: header_laws_def set_all_def)


definition cors_config_example :: headers_config where
  "cors_config_example = \<lparr>hcf_custom_request_headers = [], hcf_custom_response_headers = [], hcf_allow_credentials = False,
     hcf_allow_headers = [], hcf_allow_methods = [], hcf_allow_origin_list = [''https://a.com''], hcf_allow_origin_list_regex = [],
     hcf_expose_headers = [], hcf_max_age = None, hcf_add_vary_header = False\<rparr>"


text \<open>
  The default list of allowed headers is announced but not accepted: with no allowed headers
  configured, a preflight that asks for \<open>authorization\<close> is refused. The check of the method looks
  for a substring of the list, so the empty method and fragments of methods pass it.
\<close>

lemma announced_header_refused:
  "let m = the (cors_from_headers_config cors_config_example);
       req = \<lparr>rq_method = ''OPTIONS'', rq_uri = (None, None, ''/''), rq_headers = [(''origin'', ''https://a.com''),
         (''access-control-request-method'', ''GET''), (''access-control-request-headers'', ''authorization'')], rq_context = None\<rparr>
   in cors_allowed_headers m = ''Content-Type, Authorization'' \<and>
      cors_handle_preflight simple_http m req = Some (Inr (empty_response simple_http 403))"
  by code_simp

lemma method_fragment_accepted:
  "let m = the (cors_from_headers_config cors_config_example);
       req = \<lparr>rq_method = ''OPTIONS'', rq_uri = (None, None, ''/''), rq_headers = [(''origin'', ''https://a.com''),
         (''access-control-request-method'', ''ELETE, OPT'')], rq_context = None\<rparr>
   in cors_validate_preflight simple_http m req"
  by code_simp

lemma custom_headers_set:
  assumes "header_laws H"
  shows "hm_get H (hdm_apply_request H m h) k =
    (case map_of (rev (hdm_request_headers m)) k of Some v \<Rightarrow> Some v
     | None \<Rightarrow> if k \<in> set (hdm_remove_request m) then None else hm_get H h k)"
  by (cases "map_of (rev (hdm_request_headers m)) k")
    (simp_all add: hdm_apply_request_def hm_get_set_all [OF assms] hm_get_remove_all [OF assms])

end
