(* ===== verification/Base64.thy ===== *)
theory Base64
  imports Rust_Std "HOL-Library.Word"
begin

unbundle bit_operations_syntax

text \<open>
  The two hand-written halves of Base64: \<open>base64_encode\<close> of \<open>src/src/proxy/websocket.rs\<close> and
  \<open>base64_decode\<close> of \<open>src/src/middleware/builtin/basic_auth.rs\<close>, and the theorem that they fit
  together.
\<close>

definition alphabet :: string where
  "alphabet = ''ABCDEFGHIJKLMNOPQRSTUVWXYZabcdefghijklmnopqrstuvwxyz0123456789+/''"

definition sextet_char :: "nat \<Rightarrow> char" where
  "sextet_char v = alphabet ! v"

text \<open>The bytes of a chunk are \<open>usize\<close> values below 256; a missing byte counts as 0.\<close>

fun base64_encode :: "char list \<Rightarrow> string" where
  "base64_encode [] = []"
| "base64_encode [x0] =
     (let b0 = of_char x0 in [sextet_char (drop_bit 2 b0), sextet_char (push_bit 4 (b0 AND 3)), CHR ''='', CHR ''=''])"
| "base64_encode [x0, x1] =
     (let b0 = of_char x0; b1 = of_char x1 in
      [sextet_char (drop_bit 2 b0), sextet_char (push_bit 4 (b0 AND 3) OR drop_bit 4 b1),
       sextet_char (push_bit 2 (b1 AND 15)), CHR ''=''])"
| "base64_encode (x0 # x1 # x2 # rest) =
     (let b0 = of_char x0; b1 = of_char x1; b2 = of_char x2 in
      [sextet_char (drop_bit 2 b0), sextet_char (push_bit 4 (b0 AND 3) OR drop_bit 4 b1),
       sextet_char (push_bit 2 (b1 AND 15) OR drop_bit 6 b2), sextet_char (b2 AND 63)] @ base64_encode rest)"

definition char_to_val :: "char \<Rightarrow> nat option" where
  "char_to_val c = position (\<lambda>x. x = c) alphabet"

text \<open>The loop over the characters, with the 32-bit buffer and the number of bits in it.\<close>

fun decode_loop :: "32 word \<Rightarrow> nat \<Rightarrow> string \<Rightarrow> char list option" where
  "decode_loop buffer bits [] = Some []"
| "decode_loop buffer bits (byte # rest) =
     (case char_to_val byte of
        None \<Rightarrow> None
      | Some val \<Rightarrow>
          let buffer' = push_bit 6 buffer OR word_of_nat val;
              bits' = bits + 6
          in if 8 \<le> bits'
             then map_option (Cons (char_of (unat (drop_bit (bits' - 8) buffer'))))
                    (decode_loop (buffer' AND (push_bit (bits' - 8) 1 - 1)) (bits' - 8) rest)
             else decode_loop buffer' bits' rest)"

definition base64_decode :: "string \<Rightarrow> string option" where
  "base64_decode inp =
     (let bytes = trim_end_matches CHR ''='' inp in
      if bytes = [] then Some [] else Option.bind (decode_loop 0 0 bytes) from_utf8)"

section \<open>The alphabet\<close>

lemma alphabet_table: "list_all (\<lambda>v. char_to_val (alphabet ! v) = Some v \<and> alphabet ! v \<noteq> CHR ''='') [0..<64]"
  by code_simp

lemma char_to_val_sextet:
  assumes "v < 64"
  shows "char_to_val (sextet_char v) = Some v" and "sextet_char v \<noteq> CHR ''=''"
  using alphabet_table assms by (auto simp: list_all_iff sextet_char_def)

text \<open>A number made of two parts, and the parts of a byte.\<close>

lemma two_parts:
  fixes p q :: nat
  assumes "q < n"
  shows "p < m \<Longrightarrow> p * n + q < m * n" and "(p * n + q) div n = p" and "(p * n + q) mod n = q"
proof -
  show "(p * n + q) div n = p" "(p * n + q) mod n = q" using assms by simp_all
  assume "p < m"
  then have "p * n + n \<le> m * n" by (metis Suc_leI add.commute mult_Suc mult_le_mono1)
  then show "p * n + q < m * n" using assms by simp
qed

lemma byte_bounds:
  "(of_char c :: nat) div 4 < 64" "(of_char c :: nat) div 16 < 16" "(of_char c :: nat) div 64 < 4"
  "(of_char c :: nat) mod 4 < 4" "(of_char c :: nat) mod 16 < 16" "(of_char c :: nat) mod 64 < 64"
  using of_char_lt [of c] by (simp_all only: less_mult_imp_div_less mod_less_divisor zero_less_numeral)

lemma sextet_bounds:
  "(of_char c :: nat) mod 4 * 16 + of_char d div 16 < 64" "(of_char c :: nat) mod 16 * 4 + of_char d div 64 < 64"
  "(of_char c :: nat) mod 4 * 16 < 64" "(of_char c :: nat) mod 16 * 4 < 64"
  using two_parts(1) [OF byte_bounds(2) byte_bounds(4), of c d] two_parts(1) [OF byte_bounds(3) byte_bounds(5), of c d]
    byte_bounds(4,5) [of c]
  by simp_all

section \<open>One step of the decoder on numbers\<close>

lemma or_disjoint: "v < 2 ^ k \<Longrightarrow> push_bit k b OR v = (b * 2 ^ k + v :: nat)"
proof -
  assume v: "v < 2 ^ k"
  then have "take_bit k v = v" by (simp add: take_bit_nat_eq_self)
  then have "\<not> bit (push_bit k b) n \<or> \<not> bit v n" for n
    by (metis bit_push_bit_iff bit_take_bit_iff leD)
  then have "push_bit k b + v = push_bit k b OR v" by (rule disjunctive_add)
  then show ?thesis by (simp add: push_bit_eq_mult)
qed

lemma decode_step_nat:
  assumes "b < 2 ^ 8" and "v < 64"
  shows "push_bit 6 (word_of_nat b :: 32 word) OR word_of_nat v = word_of_nat (b * 64 + v)"
proof -
  have "push_bit 6 (word_of_nat b :: 32 word) = word_of_nat (push_bit 6 b)" by (simp add: push_bit_of_nat)
  then have "push_bit 6 (word_of_nat b :: 32 word) OR word_of_nat v = word_of_nat (push_bit 6 b OR v)"
    by (simp add: of_nat_or_eq)
  also have "push_bit 6 b OR v = b * 64 + v" using or_disjoint [of v 6 b] assms by simp
  finally show ?thesis .
qed

lemma decode_push_nat:
  assumes "n < 2 ^ 14"
  shows "unat (drop_bit k (word_of_nat n :: 32 word)) = n div 2 ^ k"
    and "(word_of_nat n :: 32 word) AND (2 ^ k - 1) = word_of_nat (n mod 2 ^ k)"
proof -
  show "unat (drop_bit k (word_of_nat n :: 32 word)) = n div 2 ^ k"
    unfolding unat_drop_bit_eq using assms by (simp add: unat_of_nat drop_bit_eq_div)
  have "2 ^ k - 1 = (mask k :: 32 word)" by (simp add: mask_eq_exp_minus_1)
  then show "(word_of_nat n :: 32 word) AND (2 ^ k - 1) = word_of_nat (n mod 2 ^ k)"
    by (simp add: take_bit_eq_mask [symmetric] take_bit_of_nat flip: take_bit_eq_mod)
qed

lemma decode_loop_sextet:
  assumes "b < 2 ^ bits" and "bits < 8" and "v < 64"
  shows "decode_loop (word_of_nat b) bits (sextet_char v # rest) =
    (if bits < 2 then decode_loop (word_of_nat (b * 64 + v)) (bits + 6) rest
     else map_option (Cons (char_of ((b * 64 + v) div 2 ^ (bits - 2))))
            (decode_loop (word_of_nat ((b * 64 + v) mod 2 ^ (bits - 2))) (bits - 2) rest))"
proof -
  have "(2::nat) ^ bits \<le> 2 ^ 7" using assms(2) by (intro power_increasing) simp_all
  then have b: "b < 128" using assms(1) by simp
  then have n: "b * 64 + v < 2 ^ 14" using assms(3) by simp
  define m where "m = b * 64 + v"
  have "push_bit 6 (word_of_nat b :: 32 word) OR word_of_nat v = word_of_nat m"
    using decode_step_nat [of b v] b assms(3) unfolding m_def by simp
  then show ?thesis
    using assms(2) by (simp add: char_to_val_sextet(1) [OF assms(3)] Let_def decode_push_nat [OF n [folded m_def]] flip: m_def)
qed

section \<open>Decoding what was encoded\<close>

lemma encode_sextets:
  fixes b0 b1 b2 :: nat
  assumes "b0 < 256" "b1 < 256" "b2 < 256"
  shows "drop_bit 2 b0 = b0 div 4" and "push_bit 4 (b0 AND 3) = (b0 mod 4) * 16"
    and "push_bit 4 (b0 AND 3) OR drop_bit 4 b1 = (b0 mod 4) * 16 + b1 div 16"
    and "push_bit 2 (b1 AND 15) = (b1 mod 16) * 4"
    and "push_bit 2 (b1 AND 15) OR drop_bit 6 b2 = (b1 mod 16) * 4 + b2 div 64"
    and "b2 AND 63 = b2 mod 64"
proof -
  have m: "b AND 3 = b mod 4" "b AND 15 = b mod 16" "b AND 63 = b mod 64" for b :: nat
    using take_bit_eq_mask [of 2 b] take_bit_eq_mask [of 4 b] take_bit_eq_mask [of 6 b]
    by (simp_all add: take_bit_eq_mod mask_eq_exp_minus_1)
  show "drop_bit 2 b0 = b0 div 4" by (simp add: drop_bit_eq_div)
  show "push_bit 4 (b0 AND 3) = (b0 mod 4) * 16" "push_bit 2 (b1 AND 15) = (b1 mod 16) * 4" "b2 AND 63 = b2 mod 64"
    by (simp_all add: m push_bit_eq_mult)
  show "push_bit 4 (b0 AND 3) OR drop_bit 4 b1 = (b0 mod 4) * 16 + b1 div 16"
    using or_disjoint [of "b1 div 16" 4 "b0 mod 4"] assms by (simp add: m drop_bit_eq_div)
  show "push_bit 2 (b1 AND 15) OR drop_bit 6 b2 = (b1 mod 16) * 4 + b2 div 64"
    using or_disjoint [of "b2 div 64" 2 "b1 mod 16"] assms by (simp add: m drop_bit_eq_div)
qed

declare decode_loop.simps(2) [simp del]

lemma decode_loop_sextet_cases:
  assumes "v < 64"
  shows "decode_loop 0 0 (sextet_char v # rest) = decode_loop (word_of_nat v) 6 rest"
    and "b < 64 \<Longrightarrow> decode_loop (word_of_nat b) 6 (sextet_char v # rest) =
      map_option (Cons (char_of (b * 4 + v div 16))) (decode_loop (word_of_nat (v mod 16)) 4 rest)"
    and "b < 16 \<Longrightarrow> decode_loop (word_of_nat b) 4 (sextet_char v # rest) =
      map_option (Cons (char_of (b * 16 + v div 4))) (decode_loop (word_of_nat (v mod 4)) 2 rest)"
    and "b < 4 \<Longrightarrow> decode_loop (word_of_nat b) 2 (sextet_char v # rest) =
      map_option (Cons (char_of (b * 64 + v))) (decode_loop 0 0 rest)"
proof -
  show "decode_loop 0 0 (sextet_char v # rest) = decode_loop (word_of_nat v) 6 rest"
    using decode_loop_sextet [of 0 0 v rest] assms by simp
  have d: "(b * 64 + v) div 16 = b * 4 + v div 16" "(b * 64 + v) mod 16 = v mod 16"
    "(b * 64 + v) div 4 = b * 16 + v div 4" "(b * 64 + v) mod 4 = v mod 4"
    using div_mult_self4 [of 16 "b * 4" v] div_mult_self4 [of 4 "b * 16" v] mod_mult_self4 [of 16 "b * 4" v] mod_mult_self4 [of 4 "b * 16" v]
    by (simp_all add: ac_simps)
  show "decode_loop (word_of_nat b) 6 (sextet_char v # rest) =
      map_option (Cons (char_of (b * 4 + v div 16))) (decode_loop (word_of_nat (v mod 16)) 4 rest)" if "b < 64"
    using decode_loop_sextet [of b 6 v rest] assms that by (simp add: d)
  show "decode_loop (word_of_nat b) 4 (sextet_char v # rest) =
      map_option (Cons (char_of (b * 16 + v div 4))) (decode_loop (word_of_nat (v mod 4)) 2 rest)" if "b < 16"
    using decode_loop_sextet [of b 4 v rest] assms that by (simp add: d)
  show "decode_loop (word_of_nat b) 2 (sextet_char v # rest) =
      map_option (Cons (char_of (b * 64 + v))) (decode_loop 0 0 rest)" if "b < 4"
    using decode_loop_sextet [of b 2 v rest] assms that by simp
qed

text \<open>What the encoder writes before the padding.\<close>

fun sextets :: "char list \<Rightarrow> nat list" where
  "sextets [] = []"
| "sextets [x0] = [of_char x0 div 4, (of_char x0 mod 4) * 16]"
| "sextets [x0, x1] = [of_char x0 div 4, (of_char x0 mod 4) * 16 + of_char x1 div 16, (of_char x1 mod 16) * 4]"
| "sextets (x0 # x1 # x2 # rest) =
     [of_char x0 div 4, (of_char x0 mod 4) * 16 + of_char x1 div 16, (of_char x1 mod 16) * 4 + of_char x2 div 64,
      of_char x2 mod 64] @ sextets rest"

lemma sextets_lt: "v \<in> set (sextets bs) \<Longrightarrow> v < 64"
  by (induction bs rule: sextets.induct) (auto simp: sextet_bounds byte_bounds)

lemma encode_sextets_padding: "\<exists>n. base64_encode bs = map sextet_char (sextets bs) @ replicate n (CHR ''='')"
proof (induction bs rule: sextets.induct)
  case 1
  then show ?case by (auto intro: exI [of _ 0])
next
  case (2 x0)
  show ?case using encode_sextets [OF of_char_lt [of x0] of_char_lt [of x0] of_char_lt [of x0]]
    by (intro exI [of _ 2]) (simp add: Let_def numeral_2_eq_2)
next
  case (3 x0 x1)
  show ?case using encode_sextets [OF of_char_lt [of x0] of_char_lt [of x1] of_char_lt [of x1]]
    by (intro exI [of _ 1]) (simp add: Let_def)
next
  case (4 x0 x1 x2 rest)
  then obtain n where n: "base64_encode rest = map sextet_char (sextets rest) @ replicate n (CHR ''='')" by blast
  show ?case using encode_sextets [OF of_char_lt [of x0] of_char_lt [of x1] of_char_lt [of x2]]
    by (intro exI [of _ n]) (simp add: Let_def n)
qed

lemma decode_sextets: "decode_loop 0 0 (map sextet_char (sextets bs)) = Some bs"
proof (induction bs rule: sextets.induct)
  case (2 x0)
  have "(of_char x0 :: nat) div 4 * 4 + of_char x0 mod 4 * 16 div 16 = of_char x0" by simp
  then show ?case by (simp add: decode_loop_sextet_cases byte_bounds sextet_bounds)
next
  case (3 x0 x1)
  have "(of_char x0 :: nat) div 4 * 4 + of_char x0 mod 4 = of_char x0"
    "of_char x1 div 16 * 16 + of_char x1 mod 16 * 4 div 4 = (of_char x1 :: nat)"
    by simp_all
  then show ?case
    by (simp add: decode_loop_sextet_cases byte_bounds sextet_bounds two_parts(2,3) [OF byte_bounds(2)])
next
  case (4 x0 x1 x2 rest)
  have "(of_char x0 :: nat) div 4 * 4 + of_char x0 mod 4 = of_char x0"
    "of_char x1 div 16 * 16 + of_char x1 mod 16 = (of_char x1 :: nat)"
    "of_char x2 div 64 * 64 + of_char x2 mod 64 = (of_char x2 :: nat)"
    by simp_all
  then show ?case
    by (simp add: decode_loop_sextet_cases byte_bounds sextet_bounds two_parts(2,3) [OF byte_bounds(2)]
        two_parts(2,3) [OF byte_bounds(3)] 4)
qed simp

lemma trim_padding:
  assumes "CHR ''='' \<notin> set s"
  shows "trim_end_matches CHR ''='' (s @ replicate n CHR ''='') = s"
proof -
  have "dropWhile (\<lambda>c. c = CHR ''='') (replicate n CHR ''='' @ rev s) = rev s"
    using assms by (induction n) (auto intro!: dropWhile_fixed simp: hd_rev dest: last_in_set)
  then show ?thesis by (simp add: trim_end_matches_def)
qed

lemma base64_decode_encode_utf8: "base64_decode (base64_encode bs) = from_utf8 bs"
proof -
  obtain n where n: "base64_encode bs = map sextet_char (sextets bs) @ replicate n (CHR ''='')"
    using encode_sextets_padding by blast
  have "CHR ''='' \<notin> set (map sextet_char (sextets bs))"
    using char_to_val_sextet(2) [OF sextets_lt] by (auto dest: sym)
  then have "trim_end_matches CHR ''='' (base64_encode bs) = map sextet_char (sextets bs)"
    by (simp add: n trim_padding)
  moreover have "sextets bs = [] \<longleftrightarrow> bs = []" by (cases bs rule: sextets.cases) simp_all
  ultimately show ?thesis
    by (simp add: base64_decode_def Let_def decode_sextets from_utf8_def)
qed

text \<open>
  The decoder of the basic authentication inverts the encoder of the WebSocket handshake: every
  valid text comes back, and bytes that are not UTF-8 are refused.
\<close>

theorem base64_decode_encode: "base64_decode (base64_encode bs) = (if utf8_valid bs then Some bs else None)"
  by (simp add: base64_decode_encode_utf8 from_utf8_def)

end
