(* ===== verification/Basic_Auth.thy ===== *)
theory Basic_Auth
  imports Base64 Headers_Cors
begin

text \<open>
  \<open>BasicAuthMiddleware\<close> of \<open>src/src/middleware/builtin/basic_auth.rs\<close>: the table of users, the check
  of a request and the response that asks for credentials.
\<close>

record 'v basic_auth_middleware =
  bam_users :: "string dict"
  bam_realm :: string
  bam_www_authenticate :: 'v

text \<open>\<open>entry.splitn(2, ':')\<close> with both parts present; a later entry for a user replaces an earlier one.\<close>

definition bam_users_of :: "string list \<Rightarrow> string dict" where
  "bam_users_of entries =
     foldl (\<lambda>d entry. case split_once '':'' entry of Some (user, pass) \<Rightarrow> dict_insert user pass d | None \<Rightarrow> d) [] entries"

definition bam_new :: "('h, 'v, 'm) header_ops_scheme \<Rightarrow> basic_auth_config \<Rightarrow> panic + 'v basic_auth_middleware" where
  "bam_new H config =
     (let realm = (case bac_realm config of Some r \<Rightarrow> r | None \<Rightarrow> ''Restricted'') in
      case hv_from_str H (''Basic realm='' @ [CHR 0x22] @ realm @ [CHR 0x22]) of
        None \<Rightarrow> Inl UnwrapFailed
      | Some v \<Rightarrow> Inr \<lparr>bam_users = bam_users_of (bac_users config), bam_realm = realm, bam_www_authenticate = v\<rparr>)"

definition xor_byte :: "char \<Rightarrow> char \<Rightarrow> 8 word" where
  "xor_byte x y = word_of_nat (of_char x) XOR word_of_nat (of_char y)"

definition constant_time_compare :: "string \<Rightarrow> string \<Rightarrow> bool" where
  "constant_time_compare a b =
     (if length a \<noteq> length b then False
      else foldl (\<lambda>result (x, y). result OR xor_byte x y) 0 (zip a b) = 0)"

definition bam_verify :: "string dict \<Rightarrow> string \<Rightarrow> string \<Rightarrow> bool" where
  "bam_verify users username password =
     (case dict_get users username of
        None \<Rightarrow> False
      | Some stored \<Rightarrow>
          if starts_with ''$apr1$'' stored \<or> starts_with ''$2'' stored then stored = password
          else constant_time_compare stored password)"

definition bam_is_authenticated :: "('h, 'v, 'u, 'm) http_ops_scheme \<Rightarrow> 'v basic_auth_middleware \<Rightarrow> ('h, 'u) request \<Rightarrow> bool" where
  "bam_is_authenticated H m req =
     (case header_text H (rq_headers req) ''authorization'' of
        None \<Rightarrow> False
      | Some auth_str \<Rightarrow>
          if \<not> starts_with ''Basic '' auth_str then False
          else case base64_decode (drop 6 auth_str) of
            None \<Rightarrow> False
          | Some decoded \<Rightarrow>
              (case split_once '':'' decoded of
                 None \<Rightarrow> False
               | Some (username, password) \<Rightarrow> bam_verify (bam_users m) username password))"

definition bam_unauthorized_response :: "('h, 'v, 'm) header_ops_scheme \<Rightarrow> 'v basic_auth_middleware \<Rightarrow> 'h response" where
  "bam_unauthorized_response H m =
     \<lparr>rs_status = 401, rs_headers = hm_append H ''www-authenticate'' (bam_www_authenticate m) (hm_empty H), rs_body = []\<rparr>"

section \<open>Comparison and lookup\<close>

lemma xor_byte_zero: "xor_byte x y = 0 \<longleftrightarrow> x = y"
proof -
  have "unat (word_of_nat (of_char c) :: 8 word) = (of_char c :: nat)" for c
    using of_char_lt [of c] by (simp add: unat_of_nat)
  then have "(word_of_nat (of_char x) :: 8 word) = word_of_nat (of_char y) \<longleftrightarrow> x = y"
    by (metis char_of_char)
  moreover have "a XOR b = 0 \<longleftrightarrow> a = b" for a b :: "8 word"
  proof
    assume "a XOR b = 0"
    then have "(a XOR b) XOR b = b" by simp
    then show "a = b" by (simp add: xor.assoc)
  qed simp
  ultimately show ?thesis by (simp add: xor_byte_def)
qed

lemma or_fold_zero:
  "foldl (\<lambda>result (x, y). result OR xor_byte x y) r ps = 0 \<longleftrightarrow> r = 0 \<and> list_all (\<lambda>(x, y). x = y) ps"
proof (induction ps arbitrary: r)
  case (Cons p ps)
  show ?case using Cons [of "r OR xor_byte (fst p) (snd p)"]
    by (simp add: split_beta or_eq_0_iff xor_byte_zero)
qed simp

lemma constant_time_compare_eq: "constant_time_compare a b \<longleftrightarrow> a = b"
proof (cases "length a = length b")
  case True
  then show ?thesis
    by (induction a b rule: list_induct2) (simp_all add: constant_time_compare_def or_fold_zero list_all_iff xor_byte_zero)
qed (auto simp: constant_time_compare_def)

lemma bam_verify_eq: "bam_verify users u p \<longleftrightarrow> dict_get users u = Some p"
  by (auto simp: bam_verify_def constant_time_compare_eq split: option.split)

lemma split_once_colon: "CHR '':'' \<notin> set u \<Longrightarrow> split_once '':'' (u @ CHR '':'' # p) = Some (u, p)"
  by (rule split_once_char)

text \<open>Every authenticated request carries an entry of the configuration.\<close>

lemma users_of_entry:
  assumes "dict_get (foldl (\<lambda>d entry. case split_once '':'' entry of Some (user, pass) \<Rightarrow> dict_insert user pass d | None \<Rightarrow> d) d entries) u = Some p"
  shows "dict_get d u = Some p \<or> u @ CHR '':'' # p \<in> set entries"
  using assms
proof (induction entries arbitrary: d)
  case (Cons e entries)
  let ?d = "case split_once '':'' e of Some (user, pass) \<Rightarrow> dict_insert user pass d | None \<Rightarrow> d"
  from Cons.prems have "dict_get ?d u = Some p \<or> u @ CHR '':'' # p \<in> set entries" by (intro Cons.IH) simp
  moreover have "dict_get d u = Some p \<or> e = u @ CHR '':'' # p" if "dict_get ?d u = Some p"
    using that by (auto simp: dict_simps split: option.splits if_splits dest: split_once_Some)
  ultimately show ?case by auto
qed simp

lemma users_of_last:
  assumes "CHR '':'' \<notin> set u" and "\<forall>e \<in> set later. \<not> starts_with (u @ '':'') e"
  shows "dict_get (bam_users_of (before @ (u @ CHR '':'' # p) # later)) u = Some p"
proof -
  let ?step = "\<lambda>d entry. case split_once '':'' entry of Some (user, pass) \<Rightarrow> dict_insert user pass d | None \<Rightarrow> d"
  have "dict_get (foldl ?step d later) u = dict_get d u" for d
    using assms(2)
  proof (induction later arbitrary: d)
    case (Cons e later)
    have "dict_get (?step d e) u = dict_get d u"
      using Cons.prems by (auto simp: dict_simps starts_with_iff split: option.split dest!: split_once_Some)
    then show ?case using Cons.IH [of "?step d e"] Cons.prems by simp
  qed simp
  then show ?thesis using split_once_colon [OF assms(1)] by (simp add: bam_users_of_def dict_simps)
qed


definition basic_example :: basic_auth_config where
  "basic_example = \<lparr>bac_users = [''admin:old'', ''user:pw'', ''admin:secret''], bac_users_file = None,
     bac_realm = None, bac_header_field = None, bac_remove_header = False\<rparr>"

lemma header_text_simple: "header_text simple_http h k = dict_get h k"
  by (simp add: header_text_def simple_http_def)


end
