(* ===== verification/Rate_Limit.thy ===== *)
theory Rate_Limit
  imports Local_Store Config_Types Ip_Addr
begin

text \<open>
  The rate limiter of \<open>src/src/middleware/builtin/rate_limit.rs\<close>: the lock-free token bucket, first as
  the sequence of its atomic steps (\<open>acquire_step\<close>, interleaved by \<open>bucket_step\<close>) and then as the
  function a call computes when it runs alone, and \<open>RateLimitMiddleware\<close> with one bucket per key.
  A bucket counts thousandths of a token. Arithmetic on \<open>u64\<close> wraps, as in a release build.
\<close>

record token_bucket =
  tb_tokens :: u64
  tb_last_update :: u64
  tb_epoch :: instant
  tb_requests_since_sync :: u64

definition tb_new :: "u64 \<Rightarrow> instant \<Rightarrow> token_bucket" where
  "tb_new initial_tokens now =
     \<lparr>tb_tokens = initial_tokens * 1000, tb_last_update = 0, tb_epoch = now, tb_requests_since_sync = 0\<rparr>"

text \<open>\<open>new_tokens\<close> of one iteration, from the values it loaded.\<close>

definition tb_refilled :: "u64 \<Rightarrow> u64 \<Rightarrow> u64 \<Rightarrow> u64 \<Rightarrow> u64 \<Rightarrow> u64" where
  "tb_refilled now_nanos tokens_per_sec burst last_t current =
     (let max_tokens = burst * 1000;
          elapsed_millis = u64_saturating_sub now_nanos last_t div 1000000;
          tokens_to_add = (elapsed_millis * tokens_per_sec) div 1000
      in min (current + tokens_to_add) max_tokens)"

section \<open>The atomic steps\<close>

text \<open>
  Where a thread stands in \<open>try_acquire\<close>: at the load of \<open>last_update\<close> with so many iterations left,
  at the load of \<open>tokens\<close>, at the exchange of \<open>tokens\<close> from \<open>current\<close> to \<open>new_tokens - 1000\<close>, at the
  exchange of \<open>last_update\<close>, at the count of the request, or done.
\<close>

datatype acquire_pc =
    LoadLast nat
  | LoadTokens nat u64
  | ExchangeTokens nat u64 u64 u64
  | ExchangeLast u64
  | CountRequest
  | Finished bool

definition acquire_start :: acquire_pc where
  "acquire_start = LoadLast 8"

text \<open>The exchange of \<open>tokens\<close> is the weak one: it may fail although the value is the expected one.\<close>

inductive acquire_step :: "u64 \<Rightarrow> u64 \<Rightarrow> u64 \<Rightarrow> token_bucket \<times> acquire_pc \<Rightarrow> token_bucket \<times> acquire_pc \<Rightarrow> bool"
  for now_nanos rate burst where
  load_last: "acquire_step now_nanos rate burst (b, LoadLast (Suc n)) (b, LoadTokens n (tb_last_update b))"
| exhausted: "acquire_step now_nanos rate burst (b, LoadLast 0) (b, Finished False)"
| load_tokens: "new_tokens = tb_refilled now_nanos rate burst last_t (tb_tokens b) \<Longrightarrow>
    acquire_step now_nanos rate burst (b, LoadTokens n last_t)
      (b, if new_tokens < 1000 then Finished False else ExchangeTokens n last_t (tb_tokens b) new_tokens)"
| exchange_tokens: "tb_tokens b = current \<Longrightarrow>
    acquire_step now_nanos rate burst (b, ExchangeTokens n last_t current new_tokens)
      (b\<lparr>tb_tokens := new_tokens - 1000\<rparr>, ExchangeLast last_t)"
| exchange_failed: "acquire_step now_nanos rate burst (b, ExchangeTokens n last_t current new_tokens) (b, LoadLast n)"
| exchange_last: "acquire_step now_nanos rate burst (b, ExchangeLast last_t)
    (if tb_last_update b = last_t then b\<lparr>tb_last_update := now_nanos\<rparr> else b, CountRequest)"
| count: "acquire_step now_nanos rate burst (b, CountRequest)
    (b\<lparr>tb_requests_since_sync := tb_requests_since_sync b + 1\<rparr>, Finished True)"

inductive_cases acquire_stepE: "acquire_step now_nanos rate burst (b, pc) c"

text \<open>Any number of threads on one bucket, each with its own reading of the clock.\<close>

inductive bucket_step :: "u64 \<Rightarrow> u64 \<Rightarrow> token_bucket \<times> (u64 \<times> acquire_pc) list \<Rightarrow> token_bucket \<times> (u64 \<times> acquire_pc) list \<Rightarrow> bool"
  for rate burst where
  thread: "i < length ts \<Longrightarrow> ts ! i = (now_nanos, pc) \<Longrightarrow> acquire_step now_nanos rate burst (b, pc) (b', pc') \<Longrightarrow>
    bucket_step rate burst (b, ts) (b', ts[i := (now_nanos, pc')])"
| call: "bucket_step rate burst (b, ts) (b, ts @ [(now_nanos, acquire_start)])"

section \<open>One call alone\<close>

definition tb_try_acquire :: "u64 \<Rightarrow> u64 \<Rightarrow> u64 \<Rightarrow> token_bucket \<Rightarrow> bool \<times> token_bucket" where
  "tb_try_acquire now_nanos rate burst b =
     (let new_tokens = tb_refilled now_nanos rate burst (tb_last_update b) (tb_tokens b) in
      if new_tokens < 1000 then (False, b)
      else (True, b\<lparr>tb_tokens := new_tokens - 1000, tb_last_update := now_nanos,
              tb_requests_since_sync := tb_requests_since_sync b + 1\<rparr>))"

definition tb_remaining :: "token_bucket \<Rightarrow> u64" where
  "tb_remaining b = tb_tokens b div 1000"

definition tb_reset_sync_counter :: "token_bucket \<Rightarrow> u64 \<times> token_bucket" where
  "tb_reset_sync_counter b = (tb_requests_since_sync b, b\<lparr>tb_requests_since_sync := 0\<rparr>)"

section \<open>The middleware\<close>

text \<open>
  \<open>rlm_store\<close> says whether a distributed store is attached; the tasks that synchronise with it are
  the calls \<open>(key, limit, window)\<close> that \<open>maybe_schedule_sync\<close> spawns.
\<close>

record rate_limit_middleware =
  rlm_config :: rate_limit_config
  rlm_buckets :: "token_bucket dict"
  rlm_store :: bool
  rlm_sync_interval :: duration
  rlm_last_sync :: "instant dict"
  rlm_cleanup_interval :: duration

definition rlm_new :: "rate_limit_config \<Rightarrow> rate_limit_middleware" where
  "rlm_new config = \<lparr>rlm_config = config, rlm_buckets = [], rlm_store = False, rlm_sync_interval = 100 * 1000000,
     rlm_last_sync = [], rlm_cleanup_interval = secs 60\<rparr>"

definition rlm_with_store :: "rate_limit_config \<Rightarrow> rate_limit_middleware" where
  "rlm_with_store config = (rlm_new config)\<lparr>rlm_store := True\<rparr>"

definition window_secs :: "rate_limit_config \<Rightarrow> u64" where
  "window_secs config = max (word_of_nat (rl_period config div 1000000000)) 1"

definition rlm_maybe_schedule_sync :: "string \<Rightarrow> instant \<Rightarrow> rate_limit_middleware \<Rightarrow> (string \<times> u64 \<times> u64) list \<times> rate_limit_middleware" where
  "rlm_maybe_schedule_sync key now m =
     (let should_sync = (case dict_get (rlm_last_sync m) key of
            Some last_t \<Rightarrow> now - last_t \<ge> rlm_sync_interval m | None \<Rightarrow> True)
      in if should_sync
         then (if rlm_store m then [(key, rl_average (rlm_config m), window_secs (rlm_config m))] else [],
               m\<lparr>rlm_last_sync := dict_insert key now (rlm_last_sync m)\<rparr>)
         else ([], m))"

text \<open>
  The readings of the clock in one check: for a new bucket, for the elapsed time and for the
  synchronisation.
\<close>

record clock3 =
  ck_epoch :: instant
  ck_now :: instant
  ck_sync :: instant

definition rlm_is_allowed_by_key :: "string \<Rightarrow> clock3 \<Rightarrow> rate_limit_middleware \<Rightarrow> (bool \<times> (string \<times> u64 \<times> u64) list) \<times> rate_limit_middleware" where
  "rlm_is_allowed_by_key key ck m =
     (let c = rlm_config m;
          bucket = (case dict_get (rlm_buckets m) key of
            Some b \<Rightarrow> b | None \<Rightarrow> tb_new (max (rl_burst c) (rl_average c)) (ck_epoch ck));
          (allowed, bucket') = tb_try_acquire (word_of_nat (ck_now ck - tb_epoch bucket)) (rl_average c) (max (rl_burst c) 1) bucket;
          m' = m\<lparr>rlm_buckets := dict_insert key bucket' (rlm_buckets m)\<rparr>
      in if rlm_store m'
         then let (tasks, m'') = rlm_maybe_schedule_sync key (ck_sync ck) m' in ((allowed, tasks), m'')
         else ((allowed, []), m'))"

definition rlm_is_allowed :: "ip_addr \<Rightarrow> clock3 \<Rightarrow> rate_limit_middleware \<Rightarrow> (bool \<times> (string \<times> u64 \<times> u64) list) \<times> rate_limit_middleware" where
  "rlm_is_allowed ip = rlm_is_allowed_by_key (show_ip ip)"

text \<open>The store is a parameter: its check of a key, its answer and its next state.\<close>

definition rlm_is_allowed_distributed_by_key ::
  "(string \<Rightarrow> u64 \<Rightarrow> u64 \<Rightarrow> 's \<Rightarrow> (store_error + bool \<times> u64 \<times> u64) \<times> 's) \<Rightarrow> string \<Rightarrow> clock3
    \<Rightarrow> rate_limit_middleware \<times> 's \<Rightarrow> bool \<times> rate_limit_middleware \<times> 's" where
  "rlm_is_allowed_distributed_by_key check key ck st =
     (let (m, s) = st; ((local_allowed, tasks), m') = rlm_is_allowed_by_key key ck m in
      if \<not> local_allowed then (False, m', s)
      else if rlm_store m'
      then (case check key (rl_average (rlm_config m')) (window_secs (rlm_config m')) s of
              (Inr (allowed, remaining, reset), s') \<Rightarrow> (allowed, m', s')
            | (Inl e, s') \<Rightarrow> (local_allowed, m', s'))
      else (local_allowed, m', s))"

definition rlm_remaining_by_key :: "string \<Rightarrow> rate_limit_middleware \<Rightarrow> u64" where
  "rlm_remaining_by_key key m =
     (case dict_get (rlm_buckets m) key of Some b \<Rightarrow> tb_remaining b | None \<Rightarrow> rl_burst (rlm_config m))"

definition rlm_remaining_distributed :: "(string \<Rightarrow> u64 \<Rightarrow> 's \<Rightarrow> store_error + u64) \<Rightarrow> ip_addr \<Rightarrow> rate_limit_middleware \<Rightarrow> 's \<Rightarrow> u64" where
  "rlm_remaining_distributed remaining ip m s =
     (if rlm_store m
      then (case remaining (show_ip ip) (rl_average (rlm_config m)) s of
              Inr r \<Rightarrow> r | Inl e \<Rightarrow> rlm_remaining_by_key (show_ip ip) m)
      else rlm_remaining_by_key (show_ip ip) m)"

definition rlm_cleanup :: "duration \<Rightarrow> instant \<Rightarrow> rate_limit_middleware \<Rightarrow> rate_limit_middleware" where
  "rlm_cleanup max_age now m =
     m\<lparr>rlm_buckets := dict_retain (\<lambda>_ b. now - (tb_epoch b + unat (tb_last_update b)) < max_age) (rlm_buckets m),
       rlm_last_sync := dict_retain (\<lambda>_ last_t. now - last_t < max_age) (rlm_last_sync m)\<rparr>"

definition rlm_bucket_count :: "rate_limit_middleware \<Rightarrow> nat" where
  "rlm_bucket_count m = length (rlm_buckets m)"

text \<open>The limiter that asks the store every time.\<close>

record rate_limit_result =
  rlr_allowed :: bool
  rlr_remaining :: u64
  rlr_reset_time :: u64
  rlr_limit :: u64

record distributed_rate_limiter =
  drl_limit :: u64
  drl_window_secs :: u64

definition drl_is_allowed ::
  "(string \<Rightarrow> u64 \<Rightarrow> u64 \<Rightarrow> 's \<Rightarrow> (store_error + bool \<times> u64 \<times> u64) \<times> 's) \<Rightarrow> distributed_rate_limiter \<Rightarrow> string \<Rightarrow> 's
    \<Rightarrow> (store_error + rate_limit_result) \<times> 's" where
  "drl_is_allowed check l key s =
     (case check key (drl_limit l) (drl_window_secs l) s of
        (Inl e, s') \<Rightarrow> (Inl e, s')
      | (Inr (allowed, remaining, reset_time), s') \<Rightarrow>
          (Inr \<lparr>rlr_allowed = allowed, rlr_remaining = remaining, rlr_reset_time = reset_time, rlr_limit = drl_limit l\<rparr>, s'))"

section \<open>A call alone computes the function\<close>

lemma acquire_alone:
  assumes "tb_try_acquire now_nanos rate burst b = (r, b')"
  shows "(acquire_step now_nanos rate burst)\<^sup>*\<^sup>* (b, acquire_start) (b', Finished r)"
proof -
  let ?s = "acquire_step now_nanos rate burst"
  define n where "n = tb_refilled now_nanos rate burst (tb_last_update b) (tb_tokens b)"
  have "?s\<^sup>*\<^sup>* (b, acquire_start) (b, LoadTokens 7 (tb_last_update b))"
    using load_last [of now_nanos rate burst b 7] by (simp add: acquire_start_def)
  also have "?s (b, LoadTokens 7 (tb_last_update b))
      (b, if n < 1000 then Finished False else ExchangeTokens 7 (tb_last_update b) (tb_tokens b) n)"
    by (rule load_tokens) (simp add: n_def)
  finally have start: "?s\<^sup>*\<^sup>* (b, acquire_start)
      (b, if n < 1000 then Finished False else ExchangeTokens 7 (tb_last_update b) (tb_tokens b) n)" .
  show ?thesis
  proof (cases "n < 1000")
    case True
    then show ?thesis using start assms by (simp add: tb_try_acquire_def flip: n_def)
  next
    case False
    let ?b1 = "b\<lparr>tb_tokens := n - 1000\<rparr>"
    from start False have "?s\<^sup>*\<^sup>* (b, acquire_start) (b, ExchangeTokens 7 (tb_last_update b) (tb_tokens b) n)" by simp
    also have "?s (b, ExchangeTokens 7 (tb_last_update b) (tb_tokens b) n) (?b1, ExchangeLast (tb_last_update b))"
      by (rule exchange_tokens) simp
    also have "?s (?b1, ExchangeLast (tb_last_update b)) (?b1\<lparr>tb_last_update := now_nanos\<rparr>, CountRequest)"
      using exchange_last [of now_nanos rate burst ?b1 "tb_last_update b"] by simp
    also have "?s (?b1\<lparr>tb_last_update := now_nanos\<rparr>, CountRequest)
        (?b1\<lparr>tb_last_update := now_nanos, tb_requests_since_sync := tb_requests_since_sync b + 1\<rparr>, Finished True)"
      using count [of now_nanos rate burst "?b1\<lparr>tb_last_update := now_nanos\<rparr>"] by simp
    finally show ?thesis using False assms by (simp add: tb_try_acquire_def flip: n_def)
  qed
qed

section \<open>Threads together\<close>

text \<open>
  The steps of one thread while the others change the bucket between them in any way: \<open>n\<close> steps
  lead from one point of the program to another.
\<close>

inductive interfered_run :: "u64 \<Rightarrow> u64 \<Rightarrow> u64 \<Rightarrow> acquire_pc \<Rightarrow> nat \<Rightarrow> acquire_pc \<Rightarrow> bool"
  for now_nanos rate burst where
  stop: "interfered_run now_nanos rate burst pc 0 pc"
| go: "acquire_step now_nanos rate burst (b, pc) (b', pc') \<Longrightarrow> interfered_run now_nanos rate burst pc' n pc'' \<Longrightarrow>
    interfered_run now_nanos rate burst pc (Suc n) pc''"

fun steps_left :: "acquire_pc \<Rightarrow> nat" where
  "steps_left (LoadLast n) = 3 * n + 3"
| "steps_left (LoadTokens n _) = 3 * n + 5"
| "steps_left (ExchangeTokens n _ _ _) = 3 * n + 4"
| "steps_left (ExchangeLast _) = 2"
| "steps_left CountRequest = 1"
| "steps_left (Finished _) = 0"

lemma acquire_step_decreases:
  "acquire_step now_nanos rate burst (b, pc) (b', pc') \<Longrightarrow> steps_left pc' < steps_left pc"
  by (auto elim!: acquire_stepE)

lemma acquire_step_progress: "(\<forall>r. pc \<noteq> Finished r) \<Longrightarrow> \<exists>c. acquire_step now_nanos rate burst (b, pc) c"
proof (cases pc)
  case (LoadLast n)
  then show ?thesis by (cases n) (auto intro: load_last exhausted)
qed (auto intro: load_tokens exchange_failed exchange_last count)

text \<open>
  \<open>try_acquire\<close> is wait-free: whatever the other threads do to the bucket between its steps, a
  call makes at most 27 of them, and it is never stuck before it has returned an answer.
\<close>

theorem try_acquire_wait_free:
  assumes "interfered_run now_nanos rate burst acquire_start n pc"
  shows "n \<le> 27 \<and> ((\<exists>r. pc = Finished r) \<or> (\<forall>b. \<exists>c. acquire_step now_nanos rate burst (b, pc) c))"
proof -
  have "n + steps_left pc' \<le> steps_left pc0" if "interfered_run now_nanos rate burst pc0 n pc'" for pc0 n pc'
    using that by (induction rule: interfered_run.induct) (auto dest: acquire_step_decreases)
  from this [OF assms] have "n \<le> 27" by (simp add: acquire_start_def)
  then show ?thesis using acquire_step_progress by blast
qed

theorem try_acquire_wait_free_witness:
  "\<exists>pc. interfered_run 0 1 1 acquire_start 2 pc \<and> (2::nat) \<le> 27 \<and> ((\<exists>r. pc = Finished r) \<or> (\<forall>b. \<exists>c. acquire_step 0 1 1 (b, pc) c))"
proof -
  define b where "b = tb_new 0 0"
  have "tb_refilled 0 1 1 0 (tb_tokens b) < 1000" by (simp add: b_def tb_new_def tb_refilled_def u64_saturating_sub_def)
  then have "acquire_step 0 1 1 (b, LoadTokens 7 0) (b, Finished False)"
    using load_tokens [OF refl, of 0 1 1 b 7 0] by simp
  moreover have "acquire_step 0 1 1 (b, acquire_start) (b, LoadTokens 7 0)"
    using load_last [of 0 1 1 b 7] by (simp add: acquire_start_def b_def tb_new_def)
  ultimately have "interfered_run 0 1 1 acquire_start (Suc (Suc 0)) (Finished False)"
    by (blast intro: interfered_run.intros)
  from try_acquire_wait_free [OF this] this show ?thesis by (auto simp: numeral_2_eq_2)
qed

text \<open>What holds at every point of every thread: an exchange never takes more than it may.\<close>

fun pc_ok :: "u64 \<Rightarrow> acquire_pc \<Rightarrow> bool" where
  "pc_ok burst (ExchangeTokens n last_t current new_tokens) \<longleftrightarrow> 1000 \<le> new_tokens \<and> new_tokens \<le> burst * 1000"
| "pc_ok burst _ \<longleftrightarrow> True"

lemma acquire_step_ok:
  assumes "acquire_step now_nanos rate burst (b, pc) (b', pc')" and "pc_ok burst pc" and "tb_tokens b \<le> m" and "burst * 1000 \<le> m"
  shows "pc_ok burst pc'" and "tb_tokens b' \<le> m"
proof -
  have le: "tb_refilled now_nanos rate burst l c \<le> burst * 1000" for l c
    by (simp add: tb_refilled_def Let_def)
  have sub: "new_tokens - 1000 \<le> m" if "1000 \<le> new_tokens" "new_tokens \<le> burst * 1000" for new_tokens :: u64
    using that assms(4) by (meson order.trans word_sub_le)
  show "pc_ok burst pc'" "tb_tokens b' \<le> m"
    using assms(1-3) le sub by (auto elim!: acquire_stepE)
qed

text \<open>
  However the calls of any number of threads interleave, weak exchanges failing at will, the
  bucket never underflows: it never holds more than the larger of its first filling and its
  capacity.
\<close>

theorem token_bucket_never_underflows:
  assumes "(bucket_step rate burst)\<^sup>*\<^sup>* (tb_new initial now, []) (b, ts)"
  shows "tb_tokens b \<le> max (initial * 1000) (burst * 1000)"
proof -
  define m where "m = max (initial * 1000) (burst * 1000)"
  have "tb_tokens (fst c) \<le> m \<and> (\<forall>(t, pc) \<in> set (snd c). pc_ok burst pc)"
    if "(bucket_step rate burst)\<^sup>*\<^sup>* (tb_new initial now, []) c" for c
    using that
  proof (induction rule: rtranclp_induct)
    case base
    then show ?case by (simp add: tb_new_def m_def)
  next
    case (step c c')
    from step(2) show ?case
    proof cases
      case (thread i ts now_nanos pc b b' pc')
      then have "pc_ok burst pc" using step.IH nth_mem by fastforce
      moreover have "burst * 1000 \<le> m" by (simp add: m_def)
      ultimately have "pc_ok burst pc'" "tb_tokens b' \<le> m"
        using acquire_step_ok [where m = m, OF thread(5)] step.IH thread(1) by simp_all
      then show ?thesis using step.IH thread(1,2) by (auto dest!: set_update_subset_insert [THEN subsetD])
    qed (use step.IH in \<open>auto simp: acquire_start_def\<close>)
  qed
  from this [OF assms] show ?thesis by (simp add: m_def)
qed

theorem token_bucket_never_underflows_witness:
  "\<exists>b ts. (bucket_step 5 2)\<^sup>*\<^sup>* (tb_new 2 0, []) (b, ts) \<and> ts \<noteq> [] \<and> tb_tokens b \<le> max (2 * 1000) (2 * 1000)"
proof -
  have "(bucket_step 5 2)\<^sup>*\<^sup>* (tb_new 2 0, []) (tb_new 2 0, [(7, acquire_start)])"
    using bucket_step.call [of 5 2 "tb_new 2 0" "[]" 7] by simp
  from token_bucket_never_underflows [OF this] this show ?thesis by blast
qed

text \<open>
  The two exchanges are not one: between a thread's exchange of the tokens and its exchange of the
  time another thread can read the old time and add the same refill again. With 1000 thousandths
  earned in the elapsed millisecond two calls are admitted, where one after the other only the
  first would be.
\<close>

definition race_bucket :: token_bucket where
  "race_bucket = \<lparr>tb_tokens = 0, tb_last_update = 0, tb_epoch = 0, tb_requests_since_sync = 0\<rparr>"

lemma race_refill: "tb_refilled 1000000 1000000 2 0 0 = 1000"
  by code_simp

lemma thread_step:
  "acquire_step t rate burst (b, pc) (b', pc') \<Longrightarrow> i < length ts \<Longrightarrow> ts ! i = (t, pc) \<Longrightarrow> ts' = ts[i := (t, pc')] \<Longrightarrow>
    (bucket_step rate burst)\<^sup>*\<^sup>* (b', ts') c \<Longrightarrow> (bucket_step rate burst)\<^sup>*\<^sup>* (b, ts) c"
  by (auto intro: converse_rtranclp_into_rtranclp bucket_step.thread)

lemma double_refill:
  "\<exists>b. (bucket_step 1000000 2)\<^sup>*\<^sup>* (race_bucket, [(1000000, acquire_start), (1000000, acquire_start)])
      (b, [(1000000, Finished True), (1000000, Finished True)]) \<and>
    fst (tb_try_acquire 1000000 1000000 2 race_bucket) \<and>
    \<not> fst (tb_try_acquire 1000000 1000000 2 (snd (tb_try_acquire 1000000 1000000 2 race_bucket)))"
proof -
  let ?T = "1000000 :: u64" and ?R = "1000000 :: u64"
  let ?b1 = "race_bucket\<lparr>tb_last_update := ?T\<rparr>"
  have won: "acquire_step ?T ?R 2 (race_bucket, LoadLast 8) (race_bucket, LoadTokens 7 0)"
    "acquire_step ?T ?R 2 (race_bucket, LoadTokens 7 0) (race_bucket, ExchangeTokens 7 0 0 1000)"
    "acquire_step ?T ?R 2 (race_bucket, ExchangeTokens 7 0 0 1000) (race_bucket, ExchangeLast 0)"
    using load_last [of ?T ?R 2 race_bucket 7] load_tokens [OF refl, of ?T ?R 2 race_bucket 7 0]
      exchange_tokens [of race_bucket 0 ?T ?R 2 7 0 1000]
    by (simp_all add: race_bucket_def race_refill)
  have last: "acquire_step ?T ?R 2 (race_bucket, ExchangeLast 0) (?b1, CountRequest)"
    "acquire_step ?T ?R 2 (?b1, ExchangeLast 0) (?b1, CountRequest)"
    using exchange_last [of ?T ?R 2 race_bucket 0] exchange_last [of ?T ?R 2 ?b1 0] by (simp_all add: race_bucket_def)
  have counts: "acquire_step ?T ?R 2 (b, CountRequest) (b\<lparr>tb_requests_since_sync := tb_requests_since_sync b + 1\<rparr>, Finished True)" for b
    by (rule count)
  have "\<exists>b. (bucket_step ?R 2)\<^sup>*\<^sup>* (race_bucket, [(?T, LoadLast 8), (?T, LoadLast 8)]) (b, [(?T, Finished True), (?T, Finished True)])"
    apply (rule exI)
    apply (rule thread_step [OF won(1), of 0], simp, simp, simp)
    apply (rule thread_step [OF won(2), of 0], simp, simp, simp)
    apply (rule thread_step [OF won(3), of 0], simp, simp, simp)
    apply (rule thread_step [OF won(1), of 1], simp, simp, simp)
    apply (rule thread_step [OF won(2), of 1], simp, simp, simp)
    apply (rule thread_step [OF won(3), of 1], simp, simp, simp)
    apply (rule thread_step [OF last(1), of 0], simp, simp, simp)
    apply (rule thread_step [OF counts, of 0], simp, simp, simp)
    apply (rule thread_step [OF exchange_last, of 1], simp, simp, simp)
    apply (rule thread_step [OF counts, of 1], simp, simp, simp)
    apply (rule rtranclp.rtrancl_refl)
    done
  moreover have "fst (tb_try_acquire ?T ?R 2 race_bucket)"
    "\<not> fst (tb_try_acquire ?T ?R 2 (snd (tb_try_acquire ?T ?R 2 race_bucket)))"
    by code_simp+
  ultimately show ?thesis by (simp add: acquire_start_def)
qed

section \<open>The number of admitted requests\<close>

fun rlm_admitted :: "string \<Rightarrow> (string \<times> clock3) list \<Rightarrow> rate_limit_middleware \<Rightarrow> nat" where
  "rlm_admitted key [] m = 0"
| "rlm_admitted key ((k, ck) # reqs) m =
     (case rlm_is_allowed_by_key k ck m of
        ((ok, tasks), m') \<Rightarrow> (if ok \<and> k = key then 1 else 0) + rlm_admitted key reqs m')"

text \<open>Sums and products of words are at most those of the numbers, so the bounds need no range conditions.\<close>

lemma unat_plus_le: "unat (a + b :: 'a::len word) \<le> unat a + unat b"
  by (simp add: unat_word_ariths)

lemma unat_times_le: "unat (a * b :: 'a::len word) \<le> unat a * unat b"
  by (simp add: unat_word_ariths)

definition earned :: "u64 \<Rightarrow> nat \<Rightarrow> nat" where
  "earned rate nanos = (nanos div 1000000 * unat rate) div 1000"

lemma earned_mono: "n \<le> m \<Longrightarrow> earned rate n \<le> earned rate m"
  by (simp add: earned_def div_le_mono)

lemma earned_split: "n \<le> m \<Longrightarrow> earned rate n + earned rate (m - n) \<le> earned rate m"
proof -
  assume "n \<le> m"
  have add: "a div k + b div k \<le> (a + b) div k" for a b k :: nat
    using div_add1_eq [of a b k] by simp
  have "n div 1000000 + (m - n) div 1000000 \<le> m div 1000000" using add [of n 1000000 "m - n"] \<open>n \<le> m\<close> by simp
  then have "n div 1000000 * unat rate + (m - n) div 1000000 * unat rate \<le> m div 1000000 * unat rate"
    by (metis add_mult_distrib mult_le_mono1)
  then show ?thesis using add [of "n div 1000000 * unat rate" 1000 "(m - n) div 1000000 * unat rate"]
    unfolding earned_def by (meson div_le_mono order.trans)
qed

lemma unat_saturating_sub: "unat (u64_saturating_sub a b) = unat a - unat b"
  by (simp add: u64_saturating_sub_def word_less_nat_alt unat_sub_if_size word_le_nat_alt)

lemma refilled_le:
  "unat (tb_refilled t rate burst l c) \<le> min (unat c) (unat (burst * 1000)) + earned rate (unat t - unat l)"
proof -
  let ?ms = "u64_saturating_sub t l div 1000000"
  have "unat (?ms * rate) \<le> (unat t - unat l) div 1000000 * unat rate"
    using unat_times_le [of ?ms rate] by (simp add: unat_div_distrib unat_saturating_sub)
  then have "unat ((?ms * rate) div 1000) \<le> earned rate (unat t - unat l)"
    by (simp add: earned_def unat_div_distrib div_le_mono)
  then have "unat (c + (?ms * rate) div 1000) \<le> unat c + earned rate (unat t - unat l)"
    using unat_plus_le [of c "(?ms * rate) div 1000"] by linarith
  moreover have "tb_refilled t rate burst l c \<le> c + (?ms * rate) div 1000" "tb_refilled t rate burst l c \<le> burst * 1000"
    by (simp_all add: tb_refilled_def Let_def)
  ultimately show ?thesis unfolding word_le_nat_alt by linarith
qed

text \<open>What a bucket may still admit until \<open>T\<close> nanoseconds after its start, in thousandths.\<close>

definition allowance :: "u64 \<Rightarrow> u64 \<Rightarrow> nat \<Rightarrow> token_bucket \<Rightarrow> nat" where
  "allowance rate burst T b = min (unat (tb_tokens b)) (unat (burst * 1000)) + (earned rate T - earned rate (unat (tb_last_update b)))"

lemma try_acquire_allowance:
  assumes "tb_try_acquire t rate burst b = (ok, b')" and "unat (tb_last_update b) \<le> unat t" and "unat t \<le> T"
  shows "(if ok then 1000 else 0) + allowance rate burst T b' \<le> allowance rate burst T b"
    and "unat (tb_last_update b') \<le> unat t" and "tb_epoch b' = tb_epoch b"
proof -
  let ?n = "tb_refilled t rate burst (tb_last_update b) (tb_tokens b)"
  have "(if ok then 1000 else 0) + allowance rate burst T b' \<le> allowance rate burst T b \<and> unat (tb_last_update b') \<le> unat t \<and> tb_epoch b' = tb_epoch b"
  proof (cases "?n < 1000")
    case True
    then show ?thesis using assms(1,2) by (auto simp: tb_try_acquire_def)
  next
    case False
    then have ok: "ok" and b': "b' = b\<lparr>tb_tokens := ?n - 1000, tb_last_update := t, tb_requests_since_sync := tb_requests_since_sync b + 1\<rparr>"
      using assms(1) by (auto simp: tb_try_acquire_def Let_def)
    have "unat (?n - 1000) + 1000 = unat ?n"
      using False by (simp add: unat_sub word_less_nat_alt word_le_nat_alt)
    then have "1000 + min (unat (?n - 1000)) (unat (burst * 1000)) \<le> min (unat (tb_tokens b)) (unat (burst * 1000)) + earned rate (unat t - unat (tb_last_update b))"
      using refilled_le [of t rate burst "tb_last_update b" "tb_tokens b"] by linarith
    moreover have "earned rate (unat (tb_last_update b)) + earned rate (unat t - unat (tb_last_update b)) \<le> earned rate (unat t)"
      by (rule earned_split [OF assms(2)])
    moreover have "earned rate (unat t) \<le> earned rate T" by (rule earned_mono [OF assms(3)])
    ultimately show ?thesis using ok by (simp add: b' allowance_def)
  qed
  then show "(if ok then 1000 else 0) + allowance rate burst T b' \<le> allowance rate burst T b"
    "unat (tb_last_update b') \<le> unat t" "tb_epoch b' = tb_epoch b" by simp_all
qed

definition rlm_bucket :: "string \<Rightarrow> clock3 \<Rightarrow> rate_limit_middleware \<Rightarrow> token_bucket" where
  "rlm_bucket key ck m = (case dict_get (rlm_buckets m) key of
     Some b \<Rightarrow> b | None \<Rightarrow> tb_new (max (rl_burst (rlm_config m)) (rl_average (rlm_config m))) (ck_epoch ck))"

lemma is_allowed_by_key_result:
  assumes "rlm_is_allowed_by_key k ck m = ((ok, tasks), m')"
    and "tb_try_acquire (word_of_nat (ck_now ck - tb_epoch (rlm_bucket k ck m))) (rl_average (rlm_config m))
      (max (rl_burst (rlm_config m)) 1) (rlm_bucket k ck m) = (ok', b')"
  shows "ok = ok'" and "rlm_config m' = rlm_config m" and "rlm_buckets m' = dict_insert k b' (rlm_buckets m)"
  using assms
  by (auto simp: rlm_is_allowed_by_key_def rlm_bucket_def Let_def rlm_maybe_schedule_sync_def split: if_splits option.splits prod.splits)

definition key_allowance :: "u64 \<Rightarrow> u64 \<Rightarrow> nat \<Rightarrow> token_bucket option \<Rightarrow> nat" where
  "key_allowance rate burst T bo = (case bo of
     Some b \<Rightarrow> allowance rate burst T b | None \<Rightarrow> unat (burst * 1000) + earned rate T)"

lemma admitted_allowance:
  assumes "\<forall>(k, ck) \<in> set reqs. ck_epoch ck \<le> ck_now ck \<and> start \<le> ck_epoch ck \<and> ck_now ck \<le> start + T"
    and "sorted (map (\<lambda>(k, ck). ck_now ck) reqs)" and "T < 2 ^ 64"
    and "rl_average (rlm_config m) = rate" and "max (rl_burst (rlm_config m)) 1 = burst"
    and "\<forall>b. dict_get (rlm_buckets m) key = Some b \<longrightarrow>
      start \<le> tb_epoch b \<and> (\<forall>(k, ck) \<in> set reqs. tb_epoch b + unat (tb_last_update b) \<le> ck_now ck)"
  shows "1000 * rlm_admitted key reqs m \<le> key_allowance rate burst T (dict_get (rlm_buckets m) key)"
  using assms
proof (induction reqs arbitrary: m)
  case (Cons req reqs)
  obtain k ck where req: "req = (k, ck)" by (cases req)
  obtain ok tasks m' where r: "rlm_is_allowed_by_key k ck m = ((ok, tasks), m')" by (metis surj_pair)
  let ?b = "rlm_bucket k ck m"
  let ?t = "word_of_nat (ck_now ck - tb_epoch ?b) :: u64"
  obtain ok' b' where t: "tb_try_acquire ?t rate burst ?b = (ok', b')" by fastforce
  note res = is_allowed_by_key_result [OF r t [folded Cons.prems(4,5)]]
  have adm: "rlm_admitted key (req # reqs) m = (if ok \<and> k = key then 1 else 0) + rlm_admitted key reqs m'"
    by (simp add: req r)
  have later: "ck_now ck \<le> ck_now ck'" if "(k', ck') \<in> set reqs" for k' ck'
    using Cons.prems(2) that req by auto
  note IH = Cons.IH [of m', OF _ _ Cons.prems(3), unfolded res(2) res(3)]
  show ?case
  proof (cases "k = key")
    case True
    have b: "start \<le> tb_epoch ?b" "tb_epoch ?b + unat (tb_last_update ?b) \<le> ck_now ck"
      using Cons.prems(1,6) req True by (auto simp: rlm_bucket_def tb_new_def split: option.splits)
    then have tn: "unat ?t = ck_now ck - tb_epoch ?b"
      using Cons.prems(1,3) req by (intro unat_of_nat_small) auto
    have "unat (tb_last_update ?b) \<le> unat ?t" "unat ?t \<le> T" using Cons.prems(1) b req tn by auto
    note al = try_acquire_allowance [OF t this]
    have "1000 * rlm_admitted key reqs m' \<le> key_allowance rate burst T (dict_get (dict_insert k b' (rlm_buckets m)) key)"
      by (rule IH) (use Cons.prems b al tn True later in \<open>fastforce simp: dict_simps\<close>)+
    also have "\<dots> = allowance rate burst T b'" using True by (simp add: dict_simps key_allowance_def)
    finally have "1000 * rlm_admitted key (req # reqs) m \<le> allowance rate burst T ?b"
      using al(1) True by (cases ok') (simp_all add: adm res(1))
    also have "\<dots> \<le> key_allowance rate burst T (dict_get (rlm_buckets m) key)"
      using True by (auto simp: rlm_bucket_def key_allowance_def allowance_def intro: add_mono split: option.split)
    finally show ?thesis .
  next
    case False
    have "1000 * rlm_admitted key reqs m' \<le> key_allowance rate burst T (dict_get (dict_insert k b' (rlm_buckets m)) key)"
      by (rule IH) (use Cons.prems False in \<open>fastforce simp: dict_simps\<close>)+
    then show ?thesis using False by (simp add: adm dict_simps)
  qed
qed simp

text \<open>
  C22. The limit that the limiter enforces. Requests with any keys, at times that do not go back and
  span \<open>T\<close> nanoseconds: for every key at most the burst (at least one) and one further request per
  million of milliseconds times \<open>average\<close> are admitted. No value of the configuration is excluded,
  also none for which the arithmetic wraps.
\<close>

theorem rate_limit_admission_bound:
  assumes "\<forall>(k, ck) \<in> set reqs. ck_epoch ck \<le> ck_now ck \<and> start \<le> ck_epoch ck \<and> ck_now ck \<le> start + T"
    and "sorted (map (\<lambda>(k, ck). ck_now ck) reqs)" and "T < 2 ^ 64"
  shows "rlm_admitted key reqs (rlm_new config) \<le>
    max (unat (rl_burst config)) 1 + (T div 1000000 * unat (rl_average config)) div 1000000"
proof -
  let ?burst = "max (rl_burst config) 1"
  have "1000 * rlm_admitted key reqs (rlm_new config) \<le> unat (?burst * 1000) + earned (rl_average config) T"
    using admitted_allowance [OF assms, of "rlm_new config" "rl_average config" ?burst key]
    by (simp add: rlm_new_def key_allowance_def)
  also have "unat (?burst * 1000) \<le> unat ?burst * 1000" using unat_times_le [of ?burst 1000] by simp
  finally have "rlm_admitted key reqs (rlm_new config) \<le> (unat ?burst * 1000 + earned (rl_average config) T) div 1000"
    by (simp add: less_eq_div_iff_mult_less_eq mult.commute)
  also have "\<dots> = unat ?burst + (T div 1000000 * unat (rl_average config)) div 1000000"
    by (simp add: earned_def div_mult2_eq [symmetric])
  also have "unat ?burst = max (unat (rl_burst config)) 1" by (simp add: max_def word_le_nat_alt)
  finally show ?thesis .
qed

theorem rate_limit_admission_bound_witness:
  "rlm_admitted ''k'' [(''k'', \<lparr>ck_epoch = 5, ck_now = 6, ck_sync = 6\<rparr>), (''k'', \<lparr>ck_epoch = 6, ck_now = 7, ck_sync = 7\<rparr>)]
     (rlm_new \<lparr>rl_average = 0, rl_burst = 1, rl_period = 1, rl_source_criterion = None\<rparr>) \<le> 1"
  using rate_limit_admission_bound [of "[(''k'', \<lparr>ck_epoch = 5, ck_now = 6, ck_sync = 6\<rparr>), (''k'', \<lparr>ck_epoch = 6, ck_now = 7, ck_sync = 7\<rparr>)]"
      5 2 "''k''" "\<lparr>rl_average = 0, rl_burst = 1, rl_period = 1, rl_source_criterion = None\<rparr>"]
  by simp

text \<open>
  The factor is wrong by a thousand: \<open>average\<close> is meant per second, but one second earns \<open>average\<close>
  thousandths of a token. An empty bucket refuses for a whole second when \<open>average\<close> is below 1000.
\<close>

lemma one_second_refused:
  assumes "tb_tokens b = 0" and "unat t - unat (tb_last_update b) \<le> 1000000000" and "unat rate < 1000"
  shows "\<not> fst (tb_try_acquire t rate burst b)"
proof -
  have "earned rate (unat t - unat (tb_last_update b)) \<le> earned rate 1000000000"
    by (rule earned_mono [OF assms(2)])
  then have "unat (tb_refilled t rate burst (tb_last_update b) (tb_tokens b)) < 1000"
    using refilled_le [of t rate burst "tb_last_update b" "tb_tokens b"] assms(1,3) by (simp add: earned_def)
  then show ?thesis by (simp add: tb_try_acquire_def word_less_nat_alt)
qed

text \<open>The distributed check never admits what the bucket refuses, and falls back to it when the store fails.\<close>

lemma distributed_decision:
  assumes "rlm_is_allowed_by_key key ck m = ((ok, tasks), m')"
    and "check key (rl_average (rlm_config m')) (window_secs (rlm_config m')) s = (answer, s')"
  shows "fst (rlm_is_allowed_distributed_by_key check key ck (m, s)) \<longleftrightarrow>
    ok \<and> (rlm_store m' \<longrightarrow> (case answer of Inr (allowed, _) \<Rightarrow> allowed | Inl e \<Rightarrow> True))"
  using assms by (auto simp: rlm_is_allowed_distributed_by_key_def Let_def split: sum.splits)

lemma keys_independent:
  assumes "k' \<noteq> k"
  shows "dict_get (rlm_buckets (snd (rlm_is_allowed_by_key k ck m))) k' = dict_get (rlm_buckets m) k'"
  using assms
  by (auto simp: rlm_is_allowed_by_key_def Let_def dict_simps rlm_maybe_schedule_sync_def split: prod.splits)

end
