(* ===== verification/Ip_Filter.thy ===== *)
theory Ip_Filter
  imports Ip_Addr Config_Types
begin

text \<open>
  The address filters of \<open>src/src/middleware/builtin/ip_filter.rs\<close>. Networks come from the crate
  \<open>ipnetwork\<close>: \<open>net_parse\<close> is the parser of CIDR notation, \<open>net_host\<close> the network of a single address
  and \<open>net_contains\<close> membership.
\<close>

record 'n ip_net_ops =
  net_parse :: "string \<Rightarrow> 'n option"
  net_host :: "ip_addr \<Rightarrow> 'n option"
  net_contains :: "'n \<Rightarrow> ip_addr \<Rightarrow> bool"

definition parse_network :: "'n ip_net_ops \<Rightarrow> string \<Rightarrow> 'n option" where
  "parse_network N s =
     (case net_parse N s of
        Some network \<Rightarrow> Some network
      | None \<Rightarrow> (case parse_ip s of Some ip \<Rightarrow> net_host N ip | None \<Rightarrow> None))"

record 'n ip_allow_list =
  al_source_range :: "'n list"
  al_ip_strategy :: "ip_strategy option"
  al_excluded_networks :: "'n list"
  al_reject_status_code :: u16

definition excluded_networks :: "'n ip_net_ops \<Rightarrow> ip_strategy option \<Rightarrow> 'n list" where
  "excluded_networks N st = (case st of Some s \<Rightarrow> List.map_filter (parse_network N) (ips_excluded_ips s) | None \<Rightarrow> [])"

definition al_new :: "'n ip_net_ops \<Rightarrow> ip_allow_list_config \<Rightarrow> 'n ip_allow_list" where
  "al_new N config = \<lparr>al_source_range = List.map_filter (parse_network N) (ial_source_range config),
     al_ip_strategy = ial_ip_strategy config,
     al_excluded_networks = excluded_networks N (ial_ip_strategy config),
     al_reject_status_code = (case ial_reject_status_code config of Some c \<Rightarrow> c | None \<Rightarrow> 403)\<rparr>"

definition al_is_allowed :: "'n ip_net_ops \<Rightarrow> 'n ip_allow_list \<Rightarrow> ip_addr \<Rightarrow> bool" where
  "al_is_allowed N m ip \<longleftrightarrow>
     (if al_source_range m = [] then True else list_ex (\<lambda>network. net_contains N network ip) (al_source_range m))"

definition al_has_rules :: "'n ip_allow_list \<Rightarrow> bool" where
  "al_has_rules m \<longleftrightarrow> al_source_range m \<noteq> []"

text \<open>\<open>get_client_ip\<close>, the same code in both filters.\<close>

definition strategy_client_ip :: "'n ip_net_ops \<Rightarrow> ip_strategy option \<Rightarrow> 'n list \<Rightarrow> string option \<Rightarrow> ip_addr \<Rightarrow> ip_addr" where
  "strategy_client_ip N st excluded forwarded_for remote_addr =
     (case (st, forwarded_for) of
        (Some strategy, Some xff) \<Rightarrow>
          (let ips = map trim (split_char CHR '','' xff); depth = unat (ips_depth strategy) in
           if depth < length ips then
             (case parse_ip (ips ! (length ips - 1 - depth)) of
                Some ip \<Rightarrow> if list_ex (\<lambda>net. net_contains N net ip) excluded then remote_addr else ip
              | None \<Rightarrow> remote_addr)
           else remote_addr)
      | _ \<Rightarrow> remote_addr)"

definition al_get_client_ip :: "'n ip_net_ops \<Rightarrow> 'n ip_allow_list \<Rightarrow> string option \<Rightarrow> ip_addr \<Rightarrow> ip_addr" where
  "al_get_client_ip N m = strategy_client_ip N (al_ip_strategy m) (al_excluded_networks m)"

record 'n ip_deny_list =
  dl_source_range :: "'n list"
  dl_ip_strategy :: "ip_strategy option"
  dl_excluded_networks :: "'n list"

definition dl_new :: "'n ip_net_ops \<Rightarrow> ip_deny_list_config \<Rightarrow> 'n ip_deny_list" where
  "dl_new N config = \<lparr>dl_source_range = List.map_filter (parse_network N) (idl_source_range config),
     dl_ip_strategy = idl_ip_strategy config, dl_excluded_networks = excluded_networks N (idl_ip_strategy config)\<rparr>"

definition dl_is_denied :: "'n ip_net_ops \<Rightarrow> 'n ip_deny_list \<Rightarrow> ip_addr \<Rightarrow> bool" where
  "dl_is_denied N m ip \<longleftrightarrow> list_ex (\<lambda>network. net_contains N network ip) (dl_source_range m)"

definition dl_get_client_ip :: "'n ip_net_ops \<Rightarrow> 'n ip_deny_list \<Rightarrow> string option \<Rightarrow> ip_addr \<Rightarrow> ip_addr" where
  "dl_get_client_ip N m = strategy_client_ip N (dl_ip_strategy m) (dl_excluded_networks m)"

definition dl_has_rules :: "'n ip_deny_list \<Rightarrow> bool" where
  "dl_has_rules m \<longleftrightarrow> dl_source_range m \<noteq> []"

section \<open>Decisions\<close>

lemma map_filter_Nil_iff: "List.map_filter f xs = [] \<longleftrightarrow> (\<forall>x \<in> set xs. f x = None)"
  by (induction xs) (auto simp: List.map_filter_def)

text \<open>An allow list all of whose entries are unreadable allows every address.\<close>

lemma unreadable_allow_list_allows_all:
  assumes "\<forall>s \<in> set (ial_source_range config). parse_network N s = None"
  shows "al_is_allowed N (al_new N config) ip"
proof -
  have "al_source_range (al_new N config) = []" using assms by (simp add: al_new_def map_filter_Nil_iff)
  then show ?thesis by (simp add: al_is_allowed_def)
qed

lemma allow_list_decision:
  "al_is_allowed N (al_new N config) ip \<longleftrightarrow>
     (\<forall>s \<in> set (ial_source_range config). parse_network N s = None) \<or>
     (\<exists>s \<in> set (ial_source_range config). \<exists>n. parse_network N s = Some n \<and> net_contains N n ip)"
proof (cases "al_source_range (al_new N config) = []")
  case True
  then show ?thesis by (auto simp: al_is_allowed_def al_new_def map_filter_Nil_iff)
next
  case False
  have "\<not> (\<forall>s \<in> set (ial_source_range config). parse_network N s = None)"
    using False by (simp add: al_new_def map_filter_Nil_iff)
  moreover have "set (List.map_filter f xs) = {y. \<exists>x \<in> set xs. f x = Some y}" for f :: "string \<Rightarrow> 'a option" and xs
    by (induction xs) (auto simp: List.map_filter_def split: option.splits)
  ultimately show ?thesis using False by (auto simp: al_is_allowed_def al_new_def list_ex_iff)
qed

section \<open>The client behind proxies\<close>

text \<open>
  The value of \<open>X-Forwarded-For\<close> after a client's request passed proxies: the first address, and
  each next one appended the way \<open>build_proxied_request\<close> does.
\<close>

definition xff_header :: "ip_addr \<Rightarrow> ip_addr list \<Rightarrow> string" where
  "xff_header first rest = foldl (\<lambda>s ip. s @ '', '' @ show_ip ip) (show_ip first) rest"

lemma split_char_between: "split_char c (a @ c # b) = split_char c a @ split_char c b"
proof (induction a)
  case (Cons x a)
  then show ?case by (cases "split_char c a") auto
qed simp

lemma show_ipv4_chars: "c \<in> set (show_ipv4 a) \<Longrightarrow> is_ascii_digit c \<or> c = CHR ''.''"
proof -
  have d: "\<forall>x \<in> set (show_nat n). is_ascii_digit x" for n using show_nat_digits [of n] by (simp add: list_all_iff)
  have "c \<in> set (join_char CHR ''.'' ps) \<Longrightarrow> c = CHR ''.'' \<or> (\<exists>p \<in> set ps. c \<in> set p)" for ps
    by (induction "CHR ''.''" ps rule: join_char.induct) auto
  then show "c \<in> set (show_ipv4 a) \<Longrightarrow> is_ascii_digit c \<or> c = CHR ''.''" using d by (fastforce simp: show_ipv4_def)
qed

lemma show_ipv4_nonempty: "show_ipv4 a \<noteq> []"
  using show_nat_digits [of "unat a div 2 ^ 24"] by (simp add: show_ipv4_def ipv4_octets_def)

lemma trim_show_ipv4: "trim (show_ipv4 a) = show_ipv4 a"
proof (rule trim_fixed)
  have "\<not> is_whitespace c" if "c \<in> set (show_ipv4 a)" for c
    using show_ipv4_chars [OF that] by (auto simp: is_whitespace_def is_ascii_digit_def)
  then show "show_ipv4 a = [] \<or> \<not> is_whitespace (hd (show_ipv4 a)) \<and> \<not> is_whitespace (last (show_ipv4 a))"
    using show_ipv4_nonempty [of a] by simp
qed

lemma trim_space: "trim (CHR '' '' # s) = trim s"
  by (simp add: trim_def trim_start_def is_whitespace_def)

lemma xff_parts:
  assumes "\<forall>ip \<in> set (first # rest). \<exists>a. ip = V4 a"
  shows "map trim (split_char CHR '','' (xff_header first rest)) = map show_ip (first # rest)"
  using assms
proof (induction rest rule: rev_induct)
  have fresh: "CHR '','' \<notin> set (show_ipv4 a)" for a
    using show_ipv4_chars [of "CHR '',''" a] by (auto simp: is_ascii_digit_def)
  {
    case Nil
    then obtain a where "first = V4 a" by auto
    then show ?case using fresh [of a] by (simp add: xff_header_def split_char_fresh trim_show_ipv4)
  next
    case (snoc ip rest)
    then obtain a where a: "ip = V4 a" by auto
    have "xff_header first (rest @ [ip]) = xff_header first rest @ CHR '','' # CHR '' '' # show_ip ip"
      by (simp add: xff_header_def)
    then show ?case using snoc fresh [of a] by (simp add: split_char_between a split_char_fresh trim_space trim_show_ipv4)
  }
qed

text \<open>
  The client behind proxies: if a request passed proxies that each appended an IPv4 address to
  \<open>X-Forwarded-For\<close>, a filter with strategy depth \<open>d\<close> takes the address that is \<open>d\<close> places before the
  last, unless it is excluded; with no more than \<open>d\<close> addresses it takes the peer's address.
\<close>

theorem client_ip_at_depth:
  assumes "\<forall>ip \<in> set ips. \<exists>a. ip = V4 a" and "ips = first # rest" and "al_ip_strategy m = Some st"
    and "unat (ips_depth st) = d"
  shows "al_get_client_ip N m (Some (xff_header first rest)) remote =
    (if d < length ips \<and> \<not> (\<exists>net \<in> set (al_excluded_networks m). net_contains N net (ips ! (length ips - 1 - d)))
     then ips ! (length ips - 1 - d) else remote)"
proof -
  have parts: "map trim (split_char CHR '','' (xff_header first rest)) = map show_ip ips"
    using xff_parts assms(1) unfolding assms(2) by blast
  have "parse_ip (show_ip (ips ! (length ips - 1 - d))) = Some (ips ! (length ips - 1 - d))" if "d < length ips"
  proof -
    have "ips ! (length ips - 1 - d) \<in> set ips" using that by simp
    then obtain a where "ips ! (length ips - 1 - d) = V4 a" using assms(1) by blast
    then show ?thesis using parse_show_ipv4 by simp
  qed
  then show ?thesis
    unfolding al_get_client_ip_def strategy_client_ip_def assms(3) prod.case option.case Let_def parts
    using assms(4) by (auto simp: list_ex_iff nth_map)
qed

definition no_net :: "unit ip_net_ops" where
  "no_net = \<lparr>net_parse = (\<lambda>_. None), net_host = (\<lambda>_. None), net_contains = (\<lambda>_ _. False)\<rparr>"

definition depth_example :: ip_strategy where
  "depth_example = \<lparr>ips_depth = 1, ips_excluded_ips = [], ips_ipv6_subnet = None\<rparr>"

definition allow_example :: "unit ip_allow_list" where
  "allow_example = al_new no_net \<lparr>ial_source_range = [], ial_ip_strategy = Some depth_example, ial_reject_status_code = None\<rparr>"

theorem client_ip_at_depth_witness:
  "al_get_client_ip no_net allow_example (Some (xff_header (V4 1) [V4 2, V4 3])) (V4 9) = V4 2"
proof -
  have "al_ip_strategy allow_example = Some depth_example" "unat (ips_depth depth_example) = 1" "al_excluded_networks allow_example = []"
    by (simp_all add: allow_example_def depth_example_def al_new_def excluded_networks_def List.map_filter_def)
  with client_ip_at_depth [OF _ refl this(1,2), of "V4 1" "[V4 2, V4 3]" no_net "V4 9"] show ?thesis by simp
qed

end
