(* ===== verification/Mw_Registry.thy ===== *)
theory Mw_Registry
  imports Handler Path_Mw Headers_Cors Basic_Auth Rate_Limit Ip_Filter
begin

text \<open>
  \<open>MiddlewareRegistry\<close> of \<open>src/src/middleware/registry.rs\<close>: which middleware a configuration makes,
  how the names of a route become a chain, and the wrappers that run the middlewares of the other
  theories around the rest of the chain. The crates behind regular expressions and networks are the
  parameters of \<open>mw_ops\<close>. A rate limiter is the only middleware with state of its own; the state
  of the proxy is extended with the limiters by the name of their middleware.
\<close>

record ('n, 'e, 'r) mw_ops =
  mo_header_name :: "string \<Rightarrow> string option"
  mo_net :: "'n ip_net_ops"
  mo_regex :: "string \<Rightarrow> 'e + 'r"
  mo_find :: "'r \<Rightarrow> string \<Rightarrow> (nat \<times> nat) option"
  mo_replace :: "'r \<Rightarrow> string \<Rightarrow> string \<Rightarrow> string"

record mw_state = proxy_state +
  mws_limiters :: "rate_limit_middleware dict"

datatype ('v, 'n, 'r) mw_instance =
    HeadersWrapper "'v headers_middleware"
  | HeadersAndCorsWrapper "'v headers_middleware" cors_middleware
  | RateLimitWrapper rate_limit_middleware
  | IpAllowWrapper "'n ip_allow_list"
  | IpDenyWrapper "'n ip_deny_list"
  | BasicAuthWrapper "'v basic_auth_middleware"
  | RedirectSchemeWrapper redirect_scheme_middleware
  | StripPrefixWrapper strip_prefix_middleware
  | AddPrefixWrapper add_prefix_config
  | ReplacePathWrapper replace_path_config
  | StripPrefixRegexWrapper "'r list"
  | ReplacePathRegexWrapper "'r replace_path_regex_middleware"
  | CompressWrapper u64

text \<open>The first kind of middleware that is configured decides; \<open>None\<close> is an unsupported kind.\<close>

definition create_compress :: "middleware_config \<Rightarrow> ('v, 'n, 'r) mw_instance option" where
  "create_compress config = map_option (\<lambda>c. CompressWrapper (cc_min_response_body_bytes c)) (mc_compress config)"

definition create_regex :: "('n, 'e, 'r) mw_ops \<Rightarrow> middleware_config \<Rightarrow> ('v, 'n, 'r) mw_instance option" where
  "create_regex M config =
     (case Option.bind (mc_strip_prefix_regex config) (sprm_new (mo_regex M)) of
        Some strip \<Rightarrow> Some (StripPrefixRegexWrapper strip)
      | None \<Rightarrow>
          (case Option.bind (mc_replace_path_regex config) (rprm_new (mo_regex M)) of
             Some replace \<Rightarrow> Some (ReplacePathRegexWrapper replace)
           | None \<Rightarrow> create_compress config))"

definition create_path :: "('n, 'e, 'r) mw_ops \<Rightarrow> middleware_config \<Rightarrow> ('v, 'n, 'r) mw_instance option" where
  "create_path M config =
     (case mc_redirect_scheme config of Some c \<Rightarrow> Some (RedirectSchemeWrapper (rsm_new c)) | None \<Rightarrow>
      case mc_strip_prefix config of Some c \<Rightarrow> Some (StripPrefixWrapper (spm_new c)) | None \<Rightarrow>
      case mc_add_prefix config of Some c \<Rightarrow> Some (AddPrefixWrapper c) | None \<Rightarrow>
      case mc_replace_path config of Some c \<Rightarrow> Some (ReplacePathWrapper c) | None \<Rightarrow>
      create_regex M config)"

definition create_middleware ::
  "('h, 'v, 'm) header_ops_scheme \<Rightarrow> ('n, 'e, 'r) mw_ops \<Rightarrow> middleware_config \<Rightarrow> panic + ('v, 'n, 'r) mw_instance option" where
  "create_middleware H M config =
     (case mc_headers config of
        Some c \<Rightarrow>
          (let headers = hdm_new H (mo_header_name M) c in
           case cors_from_headers_config c of
             Some cors \<Rightarrow> Inr (Some (HeadersAndCorsWrapper headers cors))
           | None \<Rightarrow> Inr (Some (HeadersWrapper headers)))
      | None \<Rightarrow>
      case mc_rate_limit config of Some c \<Rightarrow> Inr (Some (RateLimitWrapper (rlm_new c))) | None \<Rightarrow>
      case get_ip_allow_list config of Some c \<Rightarrow> Inr (Some (IpAllowWrapper (al_new (mo_net M) c))) | None \<Rightarrow>
      case mc_ip_deny_list config of Some c \<Rightarrow> Inr (Some (IpDenyWrapper (dl_new (mo_net M) c))) | None \<Rightarrow>
      case mc_basic_auth config of
        Some c \<Rightarrow> (case bam_new H c of Inl p \<Rightarrow> Inl p | Inr auth \<Rightarrow> Inr (Some (BasicAuthWrapper auth)))
      | None \<Rightarrow> Inr (create_path M config))"

fun registry_from_config ::
  "('h, 'v, 'm) header_ops_scheme \<Rightarrow> ('n, 'e, 'r) mw_ops \<Rightarrow> middleware_config dict \<Rightarrow> panic + ('v, 'n, 'r) mw_instance dict" where
  "registry_from_config H M [] = Inr []"
| "registry_from_config H M ((name, config) # rest) =
     (case create_middleware H M config of
        Inl p \<Rightarrow> Inl p
      | Inr mw \<Rightarrow>
          (case registry_from_config H M rest of
             Inl p \<Rightarrow> Inl p
           | Inr reg \<Rightarrow> Inr (case mw of Some i \<Rightarrow> (name, i) # reg | None \<Rightarrow> reg)))"

section \<open>The wrappers\<close>

definition mw_error_response :: "('h, 'v, 'm) header_ops_scheme \<Rightarrow> u16 \<Rightarrow> string \<Rightarrow> 'h response" where
  "mw_error_response H status msg =
     \<lparr>rs_status = status, rs_headers = hm_append H ''content-type'' (hv_static H ''text/plain'') (hm_empty H), rs_body = msg\<rparr>"

definition mw_client_ip :: "('h, 'u) request \<Rightarrow> ip_addr option" where
  "mw_client_ip req = map_option ctx_remote_ip (rq_context req)"

text \<open>\<open>StatusCode::from_u16\<close> accepts 100 to 999.\<close>

definition status_or_forbidden :: "u16 \<Rightarrow> u16" where
  "status_or_forbidden c = (if 100 \<le> c \<and> c \<le> 999 then c else 403)"

type_synonym ('h, 'u, 'z) proxy_middleware = "(('h, 'u) request, panic + 'h response, 'z mw_state_scheme) middleware"

definition on_response :: "('h \<Rightarrow> 'h) \<Rightarrow> (panic + 'h response) \<times> 's \<Rightarrow> (panic + 'h response) \<times> 's" where
  "on_response f r = (case r of (Inl p, s) \<Rightarrow> (Inl p, s) | (Inr resp, s) \<Rightarrow> (Inr (resp\<lparr>rs_headers := f (rs_headers resp)\<rparr>), s))"

definition handle_headers :: "('h, 'v, 'u, 'm) http_ops_scheme \<Rightarrow> 'v headers_middleware \<Rightarrow> ('h, 'u, 'z) proxy_middleware" where
  "handle_headers H m req nxt s =
     on_response (hdm_apply_response H m) (nxt (req\<lparr>rq_headers := hdm_apply_request H m (rq_headers req)\<rparr>) s)"

definition handle_headers_and_cors :: "('h, 'v, 'u, 'm) http_ops_scheme \<Rightarrow> 'v headers_middleware \<Rightarrow> cors_middleware \<Rightarrow> ('h, 'u, 'z) proxy_middleware" where
  "handle_headers_and_cors H m cors req nxt s =
     (if cors_is_preflight H req then
        (case cors_handle_preflight H cors req of
           Some (Inr resp) \<Rightarrow> (Inr (resp\<lparr>rs_body := []\<rparr>), s)
         | Some (Inl p) \<Rightarrow> (Inl p, s)
         | None \<Rightarrow> (Inr (mw_error_response H 403 ''CORS origin not allowed''), s))
      else on_response (\<lambda>h. cors_apply_headers H cors (cors_get_origin H req) (hdm_apply_response H m h))
             (nxt (req\<lparr>rq_headers := hdm_apply_request H m (rq_headers req)\<rparr>) s))"

definition handle_rate_limit :: "('h, 'v, 'u, 'm) http_ops_scheme \<Rightarrow> clock3 \<Rightarrow> string \<Rightarrow> rate_limit_middleware \<Rightarrow> ('h, 'u, 'z) proxy_middleware" where
  "handle_rate_limit H ck name initial req nxt s =
     (case mw_client_ip req of
        None \<Rightarrow> nxt req s
      | Some ip \<Rightarrow>
          (let limiter = (case dict_get (mws_limiters s) name of Some l \<Rightarrow> l | None \<Rightarrow> initial);
               ((allowed, _), limiter') = rlm_is_allowed ip ck limiter;
               s' = s\<lparr>mws_limiters := dict_insert name limiter' (mws_limiters s)\<rparr>
           in if \<not> allowed then (Inr (mw_error_response H 429 ''Rate limit exceeded''), s') else nxt req s'))"

definition handle_ip_allow :: "('h, 'v, 'u, 'm) http_ops_scheme \<Rightarrow> 'n ip_net_ops \<Rightarrow> 'n ip_allow_list \<Rightarrow> ('h, 'u, 'z) proxy_middleware" where
  "handle_ip_allow H N m req nxt s =
     (if al_has_rules m \<and> (case mw_client_ip req of Some ip \<Rightarrow> \<not> al_is_allowed N m ip | None \<Rightarrow> False)
      then (Inr (mw_error_response H (status_or_forbidden (al_reject_status_code m)) ''Forbidden''), s)
      else nxt req s)"

definition handle_ip_deny :: "('h, 'v, 'u, 'm) http_ops_scheme \<Rightarrow> 'n ip_net_ops \<Rightarrow> 'n ip_deny_list \<Rightarrow> ('h, 'u, 'z) proxy_middleware" where
  "handle_ip_deny H N m req nxt s =
     (if dl_has_rules m \<and> (case mw_client_ip req of Some ip \<Rightarrow> dl_is_denied N m ip | None \<Rightarrow> False)
      then (Inr (mw_error_response H 403 ''Forbidden''), s) else nxt req s)"

definition handle_basic_auth :: "('h, 'v, 'u, 'm) http_ops_scheme \<Rightarrow> 'v basic_auth_middleware \<Rightarrow> ('h, 'u, 'z) proxy_middleware" where
  "handle_basic_auth H m req nxt s =
     (if \<not> bam_is_authenticated H m req
      then (Inr ((bam_unauthorized_response H m)\<lparr>rs_body := ''Unauthorized''\<rparr>), s) else nxt req s)"

definition handle_redirect_scheme :: "('h, 'v, 'u, 'm) http_ops_scheme \<Rightarrow> redirect_scheme_middleware \<Rightarrow> ('h, 'u, 'z) proxy_middleware" where
  "handle_redirect_scheme H m req nxt s =
     (let is_tls = (case rq_context req of Some ctx \<Rightarrow> ctx_is_tls ctx | None \<Rightarrow> False)
      in if rsm_should_redirect m is_tls then (Inr (rsm_build_redirect H m req), s) else nxt req s)"

text \<open>The wrappers of the path middlewares, with the header that keeps what was replaced.\<close>

definition handle_rewrite ::
  "('h, 'v, 'u, 'm) http_ops_scheme \<Rightarrow> string \<Rightarrow> ('u \<Rightarrow> ('u \<times> string) option) \<Rightarrow> ('h, 'u, 'z) proxy_middleware" where
  "handle_rewrite H header transform req nxt s =
     nxt (case transform (rq_uri req) of
            Some (new_uri, old) \<Rightarrow> req\<lparr>rq_uri := new_uri, rq_headers := insert_text H header old (rq_headers req)\<rparr>
          | None \<Rightarrow> req) s"

definition handle_add_prefix :: "('h, 'v, 'u, 'm) http_ops_scheme \<Rightarrow> add_prefix_config \<Rightarrow> ('h, 'u, 'z) proxy_middleware" where
  "handle_add_prefix H m req nxt s =
     nxt (case apm_transform_uri H m (rq_uri req) of Some new_uri \<Rightarrow> req\<lparr>rq_uri := new_uri\<rparr> | None \<Rightarrow> req) s"

fun mw_handle ::
  "('h, 'v, 'u, 'm) http_ops_scheme \<Rightarrow> ('n, 'e, 'r) mw_ops \<Rightarrow> clock3 \<Rightarrow> string \<Rightarrow> ('v, 'n, 'r) mw_instance \<Rightarrow> ('h, 'u, 'z) proxy_middleware" where
  "mw_handle H M ck name (HeadersWrapper m) = handle_headers H m"
| "mw_handle H M ck name (HeadersAndCorsWrapper m cors) = handle_headers_and_cors H m cors"
| "mw_handle H M ck name (RateLimitWrapper initial) = handle_rate_limit H ck name initial"
| "mw_handle H M ck name (IpAllowWrapper m) = handle_ip_allow H (mo_net M) m"
| "mw_handle H M ck name (IpDenyWrapper m) = handle_ip_deny H (mo_net M) m"
| "mw_handle H M ck name (BasicAuthWrapper m) = handle_basic_auth H m"
| "mw_handle H M ck name (RedirectSchemeWrapper m) = handle_redirect_scheme H m"
| "mw_handle H M ck name (StripPrefixWrapper m) = handle_rewrite H ''x-forwarded-prefix'' (spm_transform_uri H m)"
| "mw_handle H M ck name (AddPrefixWrapper m) = handle_add_prefix H m"
| "mw_handle H M ck name (ReplacePathWrapper m) = handle_rewrite H ''x-replaced-path'' (rpm_transform_uri H m)"
| "mw_handle H M ck name (StripPrefixRegexWrapper m) = handle_rewrite H ''x-forwarded-prefix'' (sprm_transform_uri H (mo_find M) m)"
| "mw_handle H M ck name (ReplacePathRegexWrapper m) = handle_rewrite H ''x-replaced-path'' (rprm_transform_uri H (mo_replace M) m)"
| "mw_handle H M ck name (CompressWrapper min_size) = (\<lambda>req nxt. nxt req)"

text \<open>A name that is not in the registry is skipped.\<close>

definition registry_resolve ::
  "('h, 'v, 'u, 'm) http_ops_scheme \<Rightarrow> ('n, 'e, 'r) mw_ops \<Rightarrow> clock3 \<Rightarrow> ('v, 'n, 'r) mw_instance dict \<Rightarrow> string list
    \<Rightarrow> ('h, 'u, 'z) proxy_middleware list" where
  "registry_resolve H M ck reg names =
     List.map_filter (\<lambda>name. map_option (mw_handle H M ck name) (dict_get reg name)) names"

section \<open>Middlewares and the state of the proxy\<close>

lemma mw_handle_keeps:
  fixes P :: "'z mw_state_scheme \<Rightarrow> bool" and H :: "('h, 'v, 'u, 'm) http_ops_scheme"
  assumes P: "\<And>s d. P (s\<lparr>mws_limiters := d\<rparr>) \<longleftrightarrow> P s"
  shows "mw_keeps P (mw_handle H M ck name i)"
  unfolding mw_keeps_def
proof (intro allI impI)
  fix ep :: "(('h, 'u) request, panic + 'h response, 'z mw_state_scheme) endpoint" and q s
  assume ep: "\<forall>q s. P s \<longrightarrow> P (snd (ep q s))" and s: "P s"
  have on: "P (snd (on_response f (ep q' s')))" if "P s'" for f q' s'
    using ep that by (auto simp: on_response_def split: prod.split sum.split) (metis snd_conv)+
  show "P (snd (mw_handle H M ck name i q ep s))"
  proof (cases i)
    case (RateLimitWrapper l)
    then show ?thesis using ep s by (simp add: handle_rate_limit_def P Let_def split: option.split prod.split)
  next
    case (HeadersAndCorsWrapper m cors)
    then show ?thesis using on [OF s] s by (simp add: handle_headers_and_cors_def split: option.split sum.split)
  qed (use ep s on in \<open>simp_all add: handle_headers_def handle_ip_allow_def handle_ip_deny_def handle_basic_auth_def
      handle_redirect_scheme_def handle_rewrite_def handle_add_prefix_def Let_def\<close>)
qed

lemma registry_keeps:
  assumes "\<And>s d. P (s\<lparr>mws_limiters := d\<rparr>) \<longleftrightarrow> P s" and "m \<in> set (registry_resolve H M ck reg names)"
  shows "mw_keeps P m"
  using assms(2) mw_handle_keeps [of P, OF assms(1)]
  by (auto simp: registry_resolve_def map_filter_def)

section \<open>Middlewares that stop a request\<close>

text \<open>What the access decisions depend on: the address of the client and its credentials.\<close>

definition same_client :: "('h, 'v, 'u, 'm) http_ops_scheme \<Rightarrow> ('h, 'u) request \<Rightarrow> ('h, 'u) request \<Rightarrow> bool" where
  "same_client H req req' \<longleftrightarrow> rq_context req' = rq_context req \<and>
     header_text H (rq_headers req') ''authorization'' = header_text H (rq_headers req) ''authorization''"

fun mw_blocks :: "('h, 'v, 'u, 'm) http_ops_scheme \<Rightarrow> ('n, 'e, 'r) mw_ops \<Rightarrow> ('v, 'n, 'r) mw_instance \<Rightarrow> ('h, 'u) request \<Rightarrow> bool" where
  "mw_blocks H M (IpAllowWrapper m) req \<longleftrightarrow>
     al_has_rules m \<and> (\<exists>ip. mw_client_ip req = Some ip \<and> \<not> al_is_allowed (mo_net M) m ip)"
| "mw_blocks H M (IpDenyWrapper m) req \<longleftrightarrow> (\<exists>ip. mw_client_ip req = Some ip \<and> dl_is_denied (mo_net M) m ip)"
| "mw_blocks H M (BasicAuthWrapper m) req \<longleftrightarrow> \<not> bam_is_authenticated H m req"
| "mw_blocks H M _ req \<longleftrightarrow> False"

text \<open>Custom request headers may replace the credentials.\<close>

fun sets_credentials :: "('v, 'n, 'r) mw_instance \<Rightarrow> bool" where
  "sets_credentials (HeadersWrapper m) \<longleftrightarrow> ''authorization'' \<in> set (map fst (hdm_request_headers m)) \<union> set (hdm_remove_request m)"
| "sets_credentials (HeadersAndCorsWrapper m cors) \<longleftrightarrow> ''authorization'' \<in> set (map fst (hdm_request_headers m)) \<union> set (hdm_remove_request m)"
| "sets_credentials _ \<longleftrightarrow> False"

lemma mw_blocks_same: "same_client H req req' \<Longrightarrow> mw_blocks H M i req' = mw_blocks H M i req"
  by (cases i) (auto simp: same_client_def mw_client_ip_def bam_is_authenticated_def)

lemma same_client_refl: "same_client H req req"
  by (simp add: same_client_def)

lemma same_client_trans: "same_client H a b \<Longrightarrow> same_client H b c \<Longrightarrow> same_client H a c"
  by (simp add: same_client_def)

lemma mw_blocks_stops:
  assumes "mw_blocks H M i req"
  shows "mw_handle H M ck name i req nxt s = mw_handle H M ck name i req nxt' s"
  using assms
  by (cases i) (auto simp: handle_ip_allow_def handle_ip_deny_def handle_basic_auth_def dl_has_rules_def dl_is_denied_def)

lemma same_client_headers:
  assumes "header_laws H" and "''authorization'' \<notin> set (map fst (hdm_request_headers m)) \<union> set (hdm_remove_request m)"
  shows "same_client H req (req\<lparr>rq_headers := hdm_apply_request H m (rq_headers req)\<rparr>)"
proof -
  have "map_of (rev (hdm_request_headers m)) ''authorization'' = None"
    using assms(2) by (simp add: map_of_eq_None_iff)
  then show ?thesis using assms(2) by (simp add: same_client_def header_text_def custom_headers_set [OF assms(1)])
qed

lemma same_client_rewrite:
  assumes "header_laws H" and "header \<noteq> ''authorization''"
  shows "same_client H req (case t of Some (new_uri, old) \<Rightarrow> req\<lparr>rq_uri := new_uri, rq_headers := insert_text H header old (rq_headers req)\<rparr>
          | None \<Rightarrow> req)"
  using assms(2) by (auto simp: same_client_def header_text_insert_text [OF assms(1)] split: option.split)

lemma mw_handle_local:
  assumes H: "header_laws H" and i: "\<not> sets_credentials i"
    and eq: "\<And>q s. same_client H req q \<Longrightarrow> nxt q s = nxt' q s"
  shows "mw_handle H M ck name i req nxt s = mw_handle H M ck name i req nxt' s"
proof (cases i)
  case (HeadersWrapper m)
  then show ?thesis using eq [OF same_client_headers [OF H, of m req]] i by (simp add: handle_headers_def)
next
  case (HeadersAndCorsWrapper m cors)
  then show ?thesis using eq [OF same_client_headers [OF H, of m req]] i by (simp add: handle_headers_and_cors_def)
next
  case (AddPrefixWrapper m)
  then show ?thesis using eq by (auto simp: handle_add_prefix_def same_client_def split: option.split)
qed (use eq [OF same_client_refl] eq [OF same_client_rewrite [OF H]] in
    \<open>simp_all add: handle_rate_limit_def handle_ip_allow_def handle_ip_deny_def handle_basic_auth_def
      handle_redirect_scheme_def handle_rewrite_def Let_def split: option.split prod.split\<close>)

lemma resolve_append: "registry_resolve H M ck reg (xs @ ys) = registry_resolve H M ck reg xs @ registry_resolve H M ck reg ys"
  by (simp add: registry_resolve_def map_filter_def)

lemma resolve_Cons:
  "registry_resolve H M ck reg (n # ns) =
    (case dict_get reg n of Some i \<Rightarrow> mw_handle H M ck n i # registry_resolve H M ck reg ns | None \<Rightarrow> registry_resolve H M ck reg ns)"
  by (simp add: registry_resolve_def map_filter_simps split: option.split)

text \<open>
  A middleware that refuses the client ends the handling: whatever the rest of the chain and the
  backend would do, response and state are the same.
\<close>

lemma blocked_request_stops:
  assumes H: "header_laws H" and i: "dict_get reg name = Some i" and blocks: "mw_blocks H M i req"
    and pre: "\<forall>n \<in> set before. \<forall>j. dict_get reg n = Some j \<longrightarrow> \<not> sets_credentials j"
  shows "next_run (registry_resolve H M ck reg (before @ name # after)) ep req s =
    next_run (registry_resolve H M ck reg (before @ name # after')) ep' req s"
proof -
  have "next_run (registry_resolve H M ck reg (before @ name # after)) ep q s =
      next_run (registry_resolve H M ck reg (before @ name # after')) ep' q s" if "same_client H req q" for q s
    using that pre
  proof (induction before arbitrary: q s)
    case Nil
    have "mw_blocks H M i q" using blocks mw_blocks_same [OF Nil(1), of M i] by simp
    from mw_blocks_stops [OF this] show ?case by (simp add: resolve_Cons i)
  next
    case (Cons n ns)
    show ?case
    proof (cases "dict_get reg n")
      case (Some j)
      have "\<not> sets_credentials j" using Cons.prems(2) Some by simp
      then show ?thesis using Cons.IH Cons.prems Some same_client_trans [OF Cons.prems(1)]
        by (simp add: resolve_Cons) (rule mw_handle_local [OF H], simp_all)
    qed (use Cons in \<open>simp add: resolve_Cons\<close>)
  qed
  then show ?thesis using same_client_refl by blast
qed

text \<open>A concrete instance: one network that contains every address, and no regular expressions.\<close>

definition mw_ops_example :: "(unit, unit, unit) mw_ops" where
  "mw_ops_example = \<lparr>mo_header_name = Some,
     mo_net = \<lparr>net_parse = (\<lambda>_. Some ()), net_host = (\<lambda>_. Some ()), net_contains = (\<lambda>_ _. True)\<rparr>,
     mo_regex = (\<lambda>_. Inl ()), mo_find = (\<lambda>_ _. None), mo_replace = (\<lambda>_ p _. p)\<rparr>"

definition registry_example :: "(string, unit, unit) mw_instance dict" where
  "registry_example = [(''add'', AddPrefixWrapper \<lparr>apc_prefix = ''/api''\<rparr>),
     (''deny'', IpDenyWrapper \<lparr>dl_source_range = [()], dl_ip_strategy = None, dl_excluded_networks = []\<rparr>)]"

definition client_request_example :: "(string dict, simple_uri) request" where
  "client_request_example = request_example\<lparr>rq_context := Some \<lparr>ctx_remote_ip = V4 7, ctx_is_tls = False\<rparr>\<rparr>"

section \<open>What the registry leaves out\<close>

text \<open>The kinds of middleware that the registry knows.\<close>

definition supported :: "middleware_config \<Rightarrow> bool" where
  "supported c \<longleftrightarrow> mc_headers c \<noteq> None \<or> mc_rate_limit c \<noteq> None \<or> get_ip_allow_list c \<noteq> None \<or> mc_ip_deny_list c \<noteq> None \<or>
     mc_basic_auth c \<noteq> None \<or> mc_redirect_scheme c \<noteq> None \<or> mc_strip_prefix c \<noteq> None \<or> mc_add_prefix c \<noteq> None \<or>
     mc_replace_path c \<noteq> None \<or> mc_strip_prefix_regex c \<noteq> None \<or> mc_replace_path_regex c \<noteq> None \<or> mc_compress c \<noteq> None"

lemma registry_get:
  assumes "registry_from_config H M configs = Inr reg" and "distinct (map fst configs)"
  shows "dict_get reg name = Option.bind (dict_get configs name) (\<lambda>c. case create_middleware H M c of Inr mw \<Rightarrow> mw | Inl _ \<Rightarrow> None)"
  using assms
proof (induction configs arbitrary: reg)
  case (Cons e configs)
  obtain n c where e: "e = (n, c)" by (cases e)
  from Cons.prems(1) obtain mw reg' where mw: "create_middleware H M c = Inr mw" and reg': "registry_from_config H M configs = Inr reg'"
    and reg: "reg = (case mw of Some i \<Rightarrow> (n, i) # reg' | None \<Rightarrow> reg')"
    by (auto simp: e split: sum.splits)
  have ih: "dict_get reg' name = Option.bind (dict_get configs name) (\<lambda>c. case create_middleware H M c of Inr mw \<Rightarrow> mw | Inl _ \<Rightarrow> None)"
    using Cons.IH [OF reg'] Cons.prems(2) by simp
  have "dict_get configs n = None" using Cons.prems(2) by (simp add: e dict_get_def map_of_eq_None_iff)
  then show ?case using ih mw by (auto simp: e reg dict_get_Cons split: option.split)
qed simp

text \<open>
  C23. The registry fails open: a middleware of a kind that it does not know (such as digest
  authentication, forward authentication or JWT) is left out of the chain, so a route that relies
  on it alone passes every request to the backend.
\<close>

theorem unsupported_middleware_skipped:
  assumes "registry_from_config H M configs = Inr reg" and "distinct (map fst configs)"
    and "\<forall>n \<in> set names. \<forall>c. dict_get configs n = Some c \<longrightarrow> \<not> supported c"
  shows "next_run (registry_resolve H M ck reg names) ep req s = ep req s"
proof -
  have none: "create_middleware H M c = Inr None" if "\<not> supported c" for c
    using that by (simp add: supported_def create_middleware_def create_path_def create_regex_def create_compress_def)
  have "dict_get reg n = None" if "n \<in> set names" for n
    using assms(3) that none registry_get [OF assms(1,2), of n] by (cases "dict_get configs n") auto
  then show ?thesis by (induction names) (simp_all add: registry_resolve_def map_filter_simps)
qed

theorem unsupported_middleware_skipped_witness:
  "\<forall>ck ep (s :: mw_state). next_run (registry_resolve simple_http mw_ops_example ck
     (projr (registry_from_config simple_http mw_ops_example [(''auth'', no_middleware\<lparr>mc_jwt := True\<rparr>)])) [''auth'']) ep client_request_example s =
   ep client_request_example s"
proof (intro allI)
  fix ck ep and s :: mw_state
  let ?c = "[(''auth'', no_middleware\<lparr>mc_jwt := True\<rparr>)]"
  have reg: "registry_from_config simple_http mw_ops_example ?c = Inr []"
    by (simp add: create_middleware_def create_path_def create_regex_def create_compress_def no_middleware_def get_ip_allow_list_def)
  have "distinct (map fst ?c)" "\<forall>n \<in> set [''auth'']. \<forall>c. dict_get ?c n = Some c \<longrightarrow> \<not> supported c"
    by (simp_all add: dict_get_def supported_def no_middleware_def get_ip_allow_list_def)
  from unsupported_middleware_skipped [OF reg this, of ck ep client_request_example s]
  show "next_run (registry_resolve simple_http mw_ops_example ck (projr (registry_from_config simple_http mw_ops_example ?c)) [''auth''])
     ep client_request_example s = ep client_request_example s" unfolding reg sum.sel .
qed

end
