(* ===== verification/Sticky.thy ===== *)
theory Sticky
  imports Random_Balancer Local_Store Http
begin

unbundle bit_operations_syntax

text \<open>
  \<open>StickySessionManager\<close> of \<open>src/src/balancer/sticky.rs\<close>: the cookie of a session, the local cache of
  its server and the distributed store behind it. The store is a client of the contract
  \<open>session_store\<close>; its calls are parameters, and the theorem on two nodes is proved from the
  contract and holds for the local store by its interpretation. Readings of the clocks are arguments.
\<close>

record local_cache_entry =
  lce_server_url :: string
  lce_cached_at :: instant

record sticky_session_manager =
  ssm_cookie_config :: sticky_cookie
  ssm_local_cache :: "local_cache_entry dict"
  ssm_servers :: "server list"
  ssm_service_name :: string
  ssm_store :: bool
  ssm_session_ttl :: duration
  ssm_local_cache_ttl :: duration
  ssm_last_cleanup :: instant

text \<open>\<open>max_age as u64\<close>: a negative age becomes a very large one.\<close>

definition max_age_secs :: "sticky_cookie \<Rightarrow> nat" where
  "max_age_secs c = unat (word_of_int (case sc_max_age c of Some a \<Rightarrow> a | None \<Rightarrow> 86400) :: u64)"

definition ssm_make :: "bool \<Rightarrow> sticky \<Rightarrow> server list \<Rightarrow> string \<Rightarrow> instant \<Rightarrow> sticky_session_manager option" where
  "ssm_make store sticky servers service_name now =
     (case sticky_cookie sticky of
        None \<Rightarrow> None
      | Some c \<Rightarrow> Some \<lparr>ssm_cookie_config = c, ssm_local_cache = [], ssm_servers = servers, ssm_service_name = service_name,
          ssm_store = store, ssm_session_ttl = secs (max_age_secs c), ssm_local_cache_ttl = secs (min (max_age_secs c) 300),
          ssm_last_cleanup = now\<rparr>)"

definition ssm_new :: "sticky \<Rightarrow> server list \<Rightarrow> string \<Rightarrow> instant \<Rightarrow> sticky_session_manager option" where
  "ssm_new = ssm_make False"

definition ssm_with_store :: "sticky \<Rightarrow> server list \<Rightarrow> string \<Rightarrow> instant \<Rightarrow> sticky_session_manager option" where
  "ssm_with_store = ssm_make True"

section \<open>Cookies\<close>

fun cookie_search :: "string \<Rightarrow> string list \<Rightarrow> string option" where
  "cookie_search wanted [] = None"
| "cookie_search wanted (c # cs) =
     (case split_once ''='' (trim c) of
        None \<Rightarrow> None
      | Some (name, val) \<Rightarrow> if trim name = wanted then Some val else cookie_search wanted cs)"

definition ssm_extract_session_cookie :: "('h, 'v, 'u, 'm) http_ops_scheme \<Rightarrow> sticky_session_manager \<Rightarrow> ('h, 'u) request \<Rightarrow> string option" where
  "ssm_extract_session_cookie H m req =
     (case header_text H (rq_headers req) ''cookie'' of
        None \<Rightarrow> None
      | Some cookies \<Rightarrow> cookie_search (sc_name (ssm_cookie_config m)) (split_char CHR '';'' cookies))"

definition ssm_set_cookie_header :: "sticky_session_manager \<Rightarrow> string \<Rightarrow> string" where
  "ssm_set_cookie_header m session_id =
     (let c = ssm_cookie_config m in
      sc_name c @ ''='' @ session_id @
      (case sc_path c of Some path \<Rightarrow> ''; Path='' @ path | None \<Rightarrow> ''; Path=/'') @
      (case sc_max_age c of Some a \<Rightarrow> ''; Max-Age='' @ show_int a | None \<Rightarrow> []) @
      (if sc_http_only c then ''; HttpOnly'' else []) @
      (if sc_secure c then ''; Secure'' else []) @
      (case sc_same_site c of Some s \<Rightarrow> ''; SameSite='' @ s | None \<Rightarrow> []))"

definition ssm_add_cookie_to_response :: "('h, 'v, 'm) header_ops_scheme \<Rightarrow> sticky_session_manager \<Rightarrow> string \<Rightarrow> 'h response \<Rightarrow> 'h response" where
  "ssm_add_cookie_to_response H m session_id response =
     response\<lparr>rs_headers := insert_text H ''set-cookie'' (ssm_set_cookie_header m session_id) (rs_headers response)\<rparr>"

section \<open>Sessions\<close>

definition ssm_find_server_index :: "sticky_session_manager \<Rightarrow> string \<Rightarrow> nat option" where
  "ssm_find_server_index m server_url = position (\<lambda>s. srv_url s = server_url) (ssm_servers m)"

definition ssm_get_sticky_server :: "('h, 'v, 'u, 'm) http_ops_scheme \<Rightarrow> instant \<Rightarrow> ('h, 'u) request \<Rightarrow> sticky_session_manager \<Rightarrow> nat option" where
  "ssm_get_sticky_server H now req m =
     (case ssm_extract_session_cookie H m req of
        None \<Rightarrow> None
      | Some session_id \<Rightarrow>
          (case dict_get (ssm_local_cache m) session_id of
             Some entry \<Rightarrow> if now - lce_cached_at entry < ssm_local_cache_ttl m then ssm_find_server_index m (lce_server_url entry) else None
           | None \<Rightarrow> None))"

definition ssm_cache :: "string \<Rightarrow> string \<Rightarrow> instant \<Rightarrow> sticky_session_manager \<Rightarrow> sticky_session_manager" where
  "ssm_cache session_id url now m =
     m\<lparr>ssm_local_cache := dict_insert session_id \<lparr>lce_server_url = url, lce_cached_at = now\<rparr> (ssm_local_cache m)\<rparr>"

text \<open>\<open>get\<close> is the store's \<open>sticky_session_get\<close>; \<open>now'\<close> is the reading for the new cache entry.\<close>

definition ssm_get_sticky_server_distributed ::
  "('h, 'v, 'u, 'm) http_ops_scheme \<Rightarrow> (string \<Rightarrow> string \<Rightarrow> store_error + string option) \<Rightarrow> instant \<Rightarrow> instant \<Rightarrow> ('h, 'u) request
    \<Rightarrow> sticky_session_manager \<Rightarrow> nat option \<times> sticky_session_manager" where
  "ssm_get_sticky_server_distributed H get now now' req m =
     (case ssm_extract_session_cookie H m req of
        None \<Rightarrow> (None, m)
      | Some session_id \<Rightarrow>
          let ask = (if ssm_store m
                then (case get (ssm_service_name m) session_id of
                        Inr (Some server_url) \<Rightarrow> (ssm_find_server_index m server_url, ssm_cache session_id server_url now' m)
                      | Inr None \<Rightarrow> (None, m)
                      | Inl e \<Rightarrow> (None, m))
                else (None, m))
          in case dict_get (ssm_local_cache m) session_id of
               Some entry \<Rightarrow>
                 if now - lce_cached_at entry < ssm_local_cache_ttl m then (ssm_find_server_index m (lce_server_url entry), m) else ask
             | None \<Rightarrow> ask)"

text \<open>A 128-bit value printed as 32 hexadecimal digits.\<close>

definition generate_session_id :: "nat \<Rightarrow> u32 \<Rightarrow> string \<times> u32" where
  "generate_session_id timestamp rng =
     (let random1 = fast_random rng; random2 = fast_random random1;
          combined = (word_of_nat timestamp :: 128 word) XOR push_bit 32 (ucast random1) XOR ucast random2;
          digits = show_hex (unat combined)
      in (replicate (32 - length digits) (CHR ''0'') @ digits, random2))"

definition ssm_maybe_cleanup :: "instant \<Rightarrow> instant \<Rightarrow> instant \<Rightarrow> sticky_session_manager \<Rightarrow> sticky_session_manager" where
  "ssm_maybe_cleanup t1 t2 t3 m =
     (if t1 - ssm_last_cleanup m < ssm_local_cache_ttl m div 10 then m
      else m\<lparr>ssm_last_cleanup := t2,
             ssm_local_cache := dict_retain (\<lambda>_ entry. t3 - lce_cached_at entry < ssm_local_cache_ttl m) (ssm_local_cache m)\<rparr>)"

text \<open>
  The session for a server: its identifier, the write \<open>(service, session, url, ttl)\<close> that is left to
  the store, the new manager and the new state of the generator.
\<close>

record sticky_clock =
  sk_wall :: nat
  sk_cached :: instant
  sk_elapsed :: instant
  sk_mark :: instant
  sk_now :: instant

definition ssm_start_session :: "sticky_clock \<Rightarrow> nat \<Rightarrow> sticky_session_manager \<times> u32
    \<Rightarrow> (string \<times> (string \<times> string \<times> string \<times> duration) list) option \<times> sticky_session_manager \<times> u32" where
  "ssm_start_session ck server_index st =
     (let (m, rng) = st in
      if server_index < length (ssm_servers m)
      then let url = srv_url (ssm_servers m ! server_index);
               (session_id, rng') = generate_session_id (sk_wall ck) rng;
               writes = (if ssm_store m then [(ssm_service_name m, session_id, url, ssm_session_ttl m)] else [])
           in (Some (session_id, writes), ssm_cache session_id url (sk_cached ck) m, rng')
      else (None, m, rng))"

definition ssm_create_session :: "sticky_clock \<Rightarrow> nat \<Rightarrow> sticky_session_manager \<times> u32
    \<Rightarrow> (string \<times> (string \<times> string \<times> string \<times> duration) list) option \<times> sticky_session_manager \<times> u32" where
  "ssm_create_session ck server_index st =
     (case ssm_start_session ck server_index st of
        (None, st') \<Rightarrow> (None, st')
      | (Some r, m, rng) \<Rightarrow> (Some r, ssm_maybe_cleanup (sk_elapsed ck) (sk_mark ck) (sk_now ck) m, rng))"

text \<open>The waiting variant writes to the store itself and does not clean up.\<close>

definition ssm_create_session_sync ::
  "(string \<Rightarrow> string \<Rightarrow> string \<Rightarrow> duration \<Rightarrow> 's \<Rightarrow> 's) \<Rightarrow> sticky_clock \<Rightarrow> nat \<Rightarrow> sticky_session_manager \<times> u32 \<Rightarrow> 's
    \<Rightarrow> string option \<times> (sticky_session_manager \<times> u32) \<times> 's" where
  "ssm_create_session_sync set_op ck server_index st s =
     (case ssm_start_session ck server_index st of
        (None, st') \<Rightarrow> (None, st', s)
      | (Some (session_id, writes), st') \<Rightarrow>
          (Some session_id, st', foldl (\<lambda>s (svc, sid, url, ttl). set_op svc sid url ttl s) s writes))"

definition ssm_delete_session :: "(string \<Rightarrow> string \<Rightarrow> 's \<Rightarrow> 's) \<Rightarrow> string \<Rightarrow> sticky_session_manager \<Rightarrow> 's \<Rightarrow> sticky_session_manager \<times> 's" where
  "ssm_delete_session del session_id m s =
     (m\<lparr>ssm_local_cache := dict_remove session_id (ssm_local_cache m)\<rparr>,
      if ssm_store m then del (ssm_service_name m) session_id s else s)"

definition ssm_local_session_count :: "sticky_session_manager \<Rightarrow> nat" where
  "ssm_local_session_count m = length (ssm_local_cache m)"

section \<open>Cookies come back\<close>

definition cookie_name_ok :: "string \<Rightarrow> bool" where
  "cookie_name_ok n \<longleftrightarrow> n \<noteq> [] \<and> list_all (\<lambda>c. \<not> is_whitespace c \<and> c \<noteq> CHR ''='' \<and> c \<noteq> CHR '';'') n"

lemma trim_no_whitespace: "list_all (\<lambda>c. \<not> is_whitespace c) s \<Longrightarrow> trim s = s"
  by (rule trim_fixed) (cases s; auto simp: list_all_iff)

text \<open>The session cookie is found behind any other cookies that have a name and a value.\<close>

lemma cookie_search_found:
  assumes n: "cookie_name_ok n" and v: "list_all (\<lambda>c. \<not> is_whitespace c \<and> c \<noteq> CHR '';'') v"
    and others: "\<forall>c \<in> set before. \<exists>n' v'. split_once ''='' (trim c) = Some (n', v') \<and> trim n' \<noteq> n"
  shows "cookie_search n (before @ (n @ ''='' @ v) # after) = Some v"
  using others
proof (induction before)
  case Nil
  have eq: "\<not> is_whitespace CHR ''=''" by code_simp
  have w: "list_all (\<lambda>c. \<not> is_whitespace c) (n @ ''='' @ v)" "list_all (\<lambda>c. \<not> is_whitespace c) n"
    using n v eq by (auto simp: cookie_name_ok_def list_all_iff)
  note t = trim_no_whitespace [OF w(1)] trim_no_whitespace [OF w(2)]
  have "split_once ''='' (n @ ''='' @ v) = Some (n, v)"
    using split_once_char [of "CHR ''=''" n v] n by (auto simp: cookie_name_ok_def list_all_iff)
  then show ?case using t by simp
next
  case (Cons c cs)
  then show ?case by auto
qed

text \<open>
  A cookie without \<open>=\<close> before the session cookie hides it: the search gives up there instead of
  going on.
\<close>

lemma cookie_search_aborted: "cookie_search ''srv'' (split_char CHR '';'' ''flag; srv=abc'') = None"
  by code_simp

lemma hexdigit_plain: "is_hexdigit c \<Longrightarrow> \<not> is_whitespace c \<and> c \<noteq> CHR '';''"
proof -
  assume "is_hexdigit c"
  then consider "48 \<le> (of_char c :: nat)" "(of_char c :: nat) \<le> 57" | "65 \<le> (of_char c :: nat)" "(of_char c :: nat) \<le> 102"
    by (auto simp: is_hexdigit_def is_ascii_digit_def ascii_lower_def is_ascii_upper_def split: if_splits)
  then show ?thesis by cases (auto simp: is_whitespace_def Let_def)
qed

lemma session_id_plain:
  assumes "generate_session_id t rng = (sid, rng')"
  shows "list_all (\<lambda>c. \<not> is_whitespace c \<and> c \<noteq> CHR '';'') sid" and "length sid = 32"
proof -
  let ?n = "unat ((word_of_nat t :: 128 word) XOR push_bit 32 (ucast (fast_random rng)) XOR ucast (fast_random (fast_random rng)))"
  have sid: "sid = replicate (32 - length (show_hex ?n)) (CHR ''0'') @ show_hex ?n"
    using assms by (auto simp: generate_session_id_def Let_def)
  have "?n < 2 ^ LENGTH(128)" by (rule unsigned_less)
  then have "length (show_hex ?n) \<le> Suc 31" by (intro length_show_hex) simp
  then show "length sid = 32" by (simp add: sid)
  have zero: "\<not> is_whitespace CHR ''0''" by code_simp
  show "list_all (\<lambda>c. \<not> is_whitespace c \<and> c \<noteq> CHR '';'') sid"
    using show_hex_digits [of ?n] zero hexdigit_plain by (auto simp: sid list_all_iff)
qed

section \<open>Affinity across nodes\<close>

context session_store
begin

lemma other_node_finds_server:
  assumes a: "ssm_with_store sticky servers svc t0 = Some a" and b: "ssm_with_store sticky servers svc t1 = Some b"
    and name: "sticky_cookie sticky = Some c" "cookie_name_ok (sc_name c)" and svc: "plain svc"
    and i: "i < length servers" "distinct (map srv_url servers)"
    and made: "ssm_create_session_sync (sset now) ck i (a, rng) s = (Some sid, st, s')"
    and cookie: "header_text H (rq_headers req) ''cookie'' = Some (sc_name c @ ''='' @ sid)"
    and time: "now' < now + ssm_session_ttl a"
  shows "fst (ssm_get_sticky_server_distributed H (\<lambda>svc sid. Inr (sget now' svc sid s')) t2 t3 req b) = Some i"
proof -
  have ab: "ssm_store a" "ssm_service_name a = svc" "ssm_servers a = servers" "ssm_store b" "ssm_service_name b = svc"
    "ssm_servers b = servers" "ssm_local_cache b = []" "ssm_cookie_config b = c"
    using a b name(1) by (auto simp: ssm_with_store_def ssm_make_def)
  obtain rng' where sid: "generate_session_id (sk_wall ck) rng = (sid, rng')"
    and s': "s' = sset now svc sid (srv_url (servers ! i)) (ssm_session_ttl a) s"
    using made i(1) by (auto simp: ssm_create_session_sync_def ssm_start_session_def ab Let_def split: prod.splits)
  have no: "CHR '';'' \<notin> set (sc_name c @ ''='' @ sid)"
    using name(2) session_id_plain(1) [OF sid] by (auto simp: cookie_name_ok_def list_all_iff)
  have "ssm_extract_session_cookie H b req = Some sid"
    using cookie_search_found [OF name(2) session_id_plain(1) [OF sid], of "[]" "[]"]
    by (simp add: ssm_extract_session_cookie_def cookie ab(8) split_char_fresh [OF no, simplified])
  moreover have "sget now' svc sid s' = Some (srv_url (servers ! i))"
    using time by (simp add: s' sget_sset [OF svc svc])
  moreover have "position (\<lambda>s. srv_url s = srv_url (servers ! i)) servers = Some i"
    using i by (intro position_first) (auto simp: distinct_conv_nth)
  ultimately show ?thesis
    by (simp add: ssm_get_sticky_server_distributed_def ab Let_def ssm_find_server_index_def)
qed

end


definition sticky_example :: sticky where
  "sticky_example = \<lparr>sticky_cookie = Some \<lparr>sc_name = ''srv'', sc_secure = True, sc_http_only = True, sc_same_site = None,
     sc_max_age = Some 60, sc_path = None\<rparr>\<rparr>"


end
