(* ===== verification/L4_Router.thy ===== *)
theory L4_Router
  imports Router Ip_Filter
begin

text \<open>
  The routers of the transport layer: \<open>TcpRouter\<close> of \<open>src/src/tcp/router.rs\<close> and \<open>UdpRouter\<close> of
  \<open>src/src/udp/router.rs\<close>. Both files build the same two tables, the specific routes of every
  entrypoint sorted by priority and the best catch-all route of every entrypoint; the tables are
  modelled once, over any kind of route, and the locale \<open>l4_rules\<close> is what the search needs to know
  of a rule language. The lemmas show which route a connection or a datagram gets, and that the
  rule parser reads back the rules a configuration writes.
\<close>

type_synonym socket_addr = "ip_addr \<times> u16"

section \<open>Slices of strings\<close>

text \<open>
  \<open>&s[a..b]\<close> panics unless \<open>a \<le> b \<le> s.len()\<close> and both ends are boundaries of characters, that is,
  not at a continuation byte.
\<close>

definition is_char_boundary :: "string \<Rightarrow> nat \<Rightarrow> bool" where
  "is_char_boundary s i \<longleftrightarrow> i = 0 \<or> i = length s \<or> (i < length s \<and> \<not> in_range 128 191 (s ! i))"

definition str_slice :: "nat \<Rightarrow> nat \<Rightarrow> string \<Rightarrow> panic + string" where
  "str_slice a b s =
     (if a \<le> b \<and> is_char_boundary s a \<and> is_char_boundary s b then Inr (take (b - a) (drop a s))
      else Inl IndexOutOfBounds)"

section \<open>Rules\<close>

datatype 'n tcp_rule = TcpCatchAll | HostSNI "string list" | TcpClientIP "'n list"

datatype 'n udp_rule = UdpCatchAll | UdpClientIP "'n list"

definition unquote :: "string \<Rightarrow> string" where
  "unquote s = trim_matches CHR 0x22 (trim_matches CHR 0x27 (trim_matches CHR 0x60 s))"

definition extract_hostsni :: "string \<Rightarrow> panic + string list option" where
  "extract_hostsni rule =
     (if \<not> starts_with ''hostsni('' (to_lowercase rule) then Inr None
      else case str_slice 8 (length rule - 1) rule of
        Inl p \<Rightarrow> Inl p
      | Inr inner \<Rightarrow>
          let hosts = filter (\<lambda>s. s \<noteq> [] \<and> s \<noteq> ''*'')
                (map unquote (filter (\<lambda>s. s \<noteq> []) (map trim (split_char CHR '','' inner))))
          in Inr (if hosts = [] then None else Some hosts))"

definition extract_clientip :: "string \<Rightarrow> panic + string list option" where
  "extract_clientip rule =
     (if \<not> starts_with ''clientip('' (to_lowercase rule) then Inr None
      else case str_slice 9 (length rule - 1) rule of
        Inl p \<Rightarrow> Inl p
      | Inr inner \<Rightarrow>
          let ips = map unquote (filter (\<lambda>s. s \<noteq> []) (map trim (split_char CHR '','' inner)))
          in Inr (if ips = [] then None else Some ips))"

text \<open>The part of both parsers that reads a list of networks; \<open>None\<close> when it leaves no network.\<close>

definition clientip_networks :: "'n ip_net_ops \<Rightarrow> string \<Rightarrow> panic + 'n list option" where
  "clientip_networks N rule =
     (case extract_clientip rule of
        Inl p \<Rightarrow> Inl p
      | Inr None \<Rightarrow> Inr None
      | Inr (Some ips) \<Rightarrow>
          let networks = List.map_filter (net_parse N) ips in Inr (if networks = [] then None else Some networks))"

definition tcp_rule_parse :: "'n ip_net_ops \<Rightarrow> string \<Rightarrow> panic + 'n tcp_rule" where
  "tcp_rule_parse N text =
     (let rule = trim text in
      if rule = ''*'' \<or> to_lowercase rule = ''hostsni(`*`)'' then Inr TcpCatchAll
      else case extract_hostsni rule of
        Inl p \<Rightarrow> Inl p
      | Inr (Some hosts) \<Rightarrow> Inr (HostSNI hosts)
      | Inr None \<Rightarrow>
          (case clientip_networks N rule of
             Inl p \<Rightarrow> Inl p
           | Inr (Some networks) \<Rightarrow> Inr (TcpClientIP networks)
           | Inr None \<Rightarrow> Inr TcpCatchAll))"

definition udp_rule_parse :: "'n ip_net_ops \<Rightarrow> string \<Rightarrow> panic + 'n udp_rule" where
  "udp_rule_parse N text =
     (let rule = trim text in
      if rule = ''*'' then Inr UdpCatchAll
      else case clientip_networks N rule of
        Inl p \<Rightarrow> Inl p
      | Inr (Some networks) \<Rightarrow> Inr (UdpClientIP networks)
      | Inr None \<Rightarrow> Inr UdpCatchAll)"

definition sni_host_matches :: "string \<Rightarrow> string \<Rightarrow> bool" where
  "sni_host_matches sni h \<longleftrightarrow>
     (if starts_with ''*.'' h then ends_with (drop 1 h) sni \<or> sni = drop 2 h else eq_ignore_ascii_case h sni)"

fun tcp_rule_matches :: "'n ip_net_ops \<Rightarrow> string option \<times> socket_addr option \<Rightarrow> 'n tcp_rule \<Rightarrow> bool" where
  "tcp_rule_matches N q TcpCatchAll = True"
| "tcp_rule_matches N q (HostSNI hosts) =
     (case fst q of Some sni \<Rightarrow> list_ex (sni_host_matches sni) hosts | None \<Rightarrow> False)"
| "tcp_rule_matches N q (TcpClientIP networks) =
     (case snd q of Some addr \<Rightarrow> list_ex (\<lambda>net. net_contains N net (fst addr)) networks | None \<Rightarrow> False)"

fun udp_rule_matches :: "'n ip_net_ops \<Rightarrow> socket_addr option \<Rightarrow> 'n udp_rule \<Rightarrow> bool" where
  "udp_rule_matches N q UdpCatchAll = True"
| "udp_rule_matches N q (UdpClientIP networks) =
     (case q of Some addr \<Rightarrow> list_ex (\<lambda>net. net_contains N net (fst addr)) networks | None \<Rightarrow> False)"

section \<open>Tables\<close>

record 'r l4_route =
  l4_name :: string
  l4_service_name :: string
  l4_middlewares :: "string list"
  l4_rule :: 'r
  l4_priority :: int

record 'r tcp_route = "'r l4_route" +
  tr_tls :: "tcp_router_tls_config option"

record 'a l4_router =
  l4_routers :: "'a list dict"
  l4_catch_all :: "'a dict"

text \<open>One pass of the inner loop: a route is entered for one entrypoint.\<close>

definition l4_add :: "('r \<Rightarrow> bool) \<Rightarrow> ('r, 'z) l4_route_scheme \<Rightarrow> ('r, 'z) l4_route_scheme l4_router \<Rightarrow> string
    \<Rightarrow> ('r, 'z) l4_route_scheme l4_router" where
  "l4_add is_catch_all route ro ep =
     (if is_catch_all (l4_rule route) then
        (case dict_get (l4_catch_all ro) ep of
           Some existing \<Rightarrow>
             if l4_priority route > l4_priority existing
             then ro\<lparr>l4_catch_all := dict_insert ep route (l4_catch_all ro)\<rparr> else ro
         | None \<Rightarrow> ro\<lparr>l4_catch_all := dict_insert ep route (l4_catch_all ro)\<rparr>)
      else ro\<lparr>l4_routers := dict_push ep route (l4_routers ro)\<rparr>)"

definition l4_build :: "('r \<Rightarrow> bool) \<Rightarrow> (('r, 'z) l4_route_scheme \<times> string list) list \<Rightarrow> ('r, 'z) l4_route_scheme l4_router" where
  "l4_build is_catch_all rs =
     (let ro = foldl (\<lambda>ro (route, eps). foldl (l4_add is_catch_all route) ro eps)
                 \<lparr>l4_routers = [], l4_catch_all = []\<rparr> rs
      in ro\<lparr>l4_routers := map (\<lambda>(ep, routes). (ep, sort_key (\<lambda>r. - l4_priority r) routes)) (l4_routers ro)\<rparr>)"

definition l4_match :: "('q \<Rightarrow> 'r \<Rightarrow> bool) \<Rightarrow> ('r, 'z) l4_route_scheme l4_router \<Rightarrow> string \<Rightarrow> 'q
    \<Rightarrow> ('r, 'z) l4_route_scheme option" where
  "l4_match matches ro ep q =
     (case (case dict_get (l4_routers ro) ep of
              Some routes \<Rightarrow> List.find (\<lambda>r. matches q (l4_rule r)) routes
            | None \<Rightarrow> None) of
        Some route \<Rightarrow> Some route
      | None \<Rightarrow> dict_get (l4_catch_all ro) ep)"

text \<open>A router without entrypoints applies to all of them.\<close>

definition l4_entrypoints :: "string list \<Rightarrow> string list \<Rightarrow> string list" where
  "l4_entrypoints all eps = (if eps = [] then all else eps)"

text \<open>All results or the first panic, as the loop over the configuration.\<close>

fun all_results :: "('p + 'a) list \<Rightarrow> 'p + 'a list" where
  "all_results [] = Inr []"
| "all_results (Inl p # xs) = Inl p"
| "all_results (Inr x # xs) = map_sum id ((#) x) (all_results xs)"

section \<open>The TCP router\<close>

definition tcp_make_route :: "'n ip_net_ops \<Rightarrow> string \<times> tcp_router_config \<Rightarrow> panic + 'n tcp_rule tcp_route" where
  "tcp_make_route N e =
     (let (name, rc) = e in
      map_sum id (\<lambda>rule. \<lparr>l4_name = name, l4_service_name = trc_service rc, l4_middlewares = trc_middlewares rc,
          l4_rule = rule, l4_priority = trc_priority rc, tr_tls = trc_tls rc\<rparr>) (tcp_rule_parse N (trc_rule rc)))"

definition tcp_from_config :: "'n ip_net_ops \<Rightarrow> string list \<Rightarrow> tcp_router_config dict \<Rightarrow> panic + 'n tcp_rule tcp_route l4_router" where
  "tcp_from_config N eps cfg =
     map_sum id (l4_build (\<lambda>r. r = TcpCatchAll))
       (all_results (map (\<lambda>e. map_sum id (\<lambda>r. (r, l4_entrypoints eps (trc_entry_points (snd e)))) (tcp_make_route N e)) cfg))"

definition match_connection :: "'n ip_net_ops \<Rightarrow> 'n tcp_rule tcp_route l4_router \<Rightarrow> string \<Rightarrow> string option \<Rightarrow> socket_addr option
    \<Rightarrow> 'n tcp_rule tcp_route option" where
  "match_connection N ro ep sni client_addr = l4_match (tcp_rule_matches N) ro ep (sni, client_addr)"

definition is_tls_passthrough :: "'n tcp_rule tcp_route \<Rightarrow> bool" where
  "is_tls_passthrough r = (case tr_tls r of Some t \<Rightarrow> trt_passthrough t | None \<Rightarrow> False)"

section \<open>The UDP router\<close>

definition udp_make_route :: "'n ip_net_ops \<Rightarrow> string \<times> udp_router_config \<Rightarrow> panic + 'n udp_rule l4_route" where
  "udp_make_route N e =
     (let (name, rc) = e in
      map_sum id (\<lambda>rule. \<lparr>l4_name = name, l4_service_name = urc_service rc, l4_middlewares = urc_middlewares rc,
          l4_rule = rule, l4_priority = urc_priority rc\<rparr>) (udp_rule_parse N (urc_rule rc)))"

definition udp_from_config :: "'n ip_net_ops \<Rightarrow> string list \<Rightarrow> udp_router_config dict \<Rightarrow> panic + 'n udp_rule l4_route l4_router" where
  "udp_from_config N eps cfg =
     map_sum id (l4_build (\<lambda>r. r = UdpCatchAll))
       (all_results (map (\<lambda>e. map_sum id (\<lambda>r. (r, l4_entrypoints eps (urc_entry_points (snd e)))) (udp_make_route N e)) cfg))"

definition match_datagram :: "'n ip_net_ops \<Rightarrow> 'n udp_rule l4_route l4_router \<Rightarrow> string \<Rightarrow> socket_addr option
    \<Rightarrow> 'n udp_rule l4_route option" where
  "match_datagram N ro ep client_addr = l4_match (udp_rule_matches N) ro ep client_addr"

definition udp_has_routes_for :: "'n udp_rule l4_route l4_router \<Rightarrow> string \<Rightarrow> bool" where
  "udp_has_routes_for ro ep \<longleftrightarrow> contains_key (l4_routers ro) ep \<or> contains_key (l4_catch_all ro) ep"

section \<open>What the tables hold\<close>

definition route_pairs :: "('a \<times> string list) list \<Rightarrow> (string \<times> 'a) list" where
  "route_pairs rs = concat (map (\<lambda>(r, eps). map (\<lambda>ep. (ep, r)) eps) rs)"

text \<open>The catch-all of an entrypoint: the first of the highest priority.\<close>

definition best_of :: "('r, 'z) l4_route_scheme option \<Rightarrow> ('r, 'z) l4_route_scheme \<Rightarrow> ('r, 'z) l4_route_scheme option" where
  "best_of b r = (case b of Some e \<Rightarrow> if l4_priority r > l4_priority e then Some r else b | None \<Rightarrow> Some r)"

lemma l4_add_pairs:
  "foldl (\<lambda>ro (route, eps). foldl (l4_add ca route) ro eps) ro rs = foldl (\<lambda>ro (ep, route). l4_add ca route ro ep) ro (route_pairs rs)"
proof (induction rs arbitrary: ro)
  case (Cons r rs)
  obtain route eps where r: "r = (route, eps)" by (cases r)
  have "foldl (l4_add ca route) ro eps = foldl (\<lambda>ro (ep, route). l4_add ca route ro ep) ro (map (\<lambda>ep. (ep, route)) eps)"
    by (induction eps arbitrary: ro) simp_all
  with Cons show ?case by (simp add: r route_pairs_def)
qed (simp add: route_pairs_def)

lemma l4_add_tables:
  fixes ca :: "'r \<Rightarrow> bool" and ps :: "(string \<times> ('r, 'z) l4_route_scheme) list"
  defines "ro \<equiv> \<lambda>ps. foldl (\<lambda>ro (ep, route). l4_add ca route ro ep) \<lparr>l4_routers = [], l4_catch_all = []\<rparr> ps"
  shows "dict_get (l4_routers (ro ps)) ep =
      (let v = filter (\<lambda>r. \<not> ca (l4_rule r)) (values_of ps ep) in if v = [] then None else Some v) \<and>
    dict_get (l4_catch_all (ro ps)) ep = foldl best_of None (filter (\<lambda>r. ca (l4_rule r)) (values_of ps ep))"
proof (induction ps rule: rev_induct)
  case Nil
  then show ?case by (simp add: ro_def values_of_def)
next
  case (snoc p ps)
  obtain ep' r where p: "p = (ep', r)" by (cases p)
  have "ro (ps @ [p]) = l4_add ca r (ro ps) ep'" by (simp add: ro_def p)
  moreover have "values_of (ps @ [p]) ep = values_of ps ep @ (if ep' = ep then [r] else [])"
    by (simp add: values_of_def p)
  ultimately show ?case using snoc
    by (auto simp: l4_add_def dict_get_push dict_simps Let_def best_of_def split: option.splits)
qed

lemma l4_build_tables:
  "dict_get (l4_routers (l4_build ca rs)) ep =
     (let v = filter (\<lambda>r. \<not> ca (l4_rule r)) (values_of (route_pairs rs) ep)
      in if v = [] then None else Some (sort_key (\<lambda>r. - l4_priority r) v))"
  "dict_get (l4_catch_all (l4_build ca rs)) ep = foldl best_of None (filter (\<lambda>r. ca (l4_rule r)) (values_of (route_pairs rs) ep))"
  using l4_add_tables [of ca "route_pairs rs" ep]
  by (simp_all add: l4_build_def l4_add_pairs Let_def dict_get_map_values)

lemma values_of_pairs: "r \<in> set (values_of (route_pairs rs) ep) \<longleftrightarrow> (\<exists>eps. (r, eps) \<in> set rs \<and> ep \<in> set eps)"
  by (force simp: values_of_def route_pairs_def)

lemma best_of_fold:
  "foldl best_of (Some b) rs = Some r \<Longrightarrow> r \<in> set (b # rs) \<and> (\<forall>r' \<in> set (b # rs). l4_priority r' \<le> l4_priority r)"
proof (induction rs arbitrary: b)
  case (Cons x rs)
  show ?case using Cons.IH [of x] Cons.IH [of b] Cons.prems
    by (cases "l4_priority x > l4_priority b") (auto simp: best_of_def)
qed simp

lemma best_of_fold_Some: "\<exists>r. foldl best_of (Some b) rs = Some r"
  by (induction rs arbitrary: b) (auto simp: best_of_def)

lemma best_of_None:
  "(case foldl best_of None rs of
      None \<Rightarrow> rs = [] | Some r \<Rightarrow> r \<in> set rs \<and> (\<forall>r' \<in> set rs. l4_priority r' \<le> l4_priority r))"
proof (cases rs)
  case (Cons x xs)
  obtain r where "foldl best_of (Some x) xs = Some r" using best_of_fold_Some by blast
  with best_of_fold [OF this] Cons show ?thesis by (simp add: best_of_def)
qed simp

section \<open>The search\<close>

text \<open>What the search relies on: a catch-all rule accepts everything.\<close>

locale l4_rules =
  fixes matches :: "'q \<Rightarrow> 'r \<Rightarrow> bool" and is_catch_all :: "'r \<Rightarrow> bool"
  assumes catch_all_matches: "is_catch_all r \<Longrightarrow> matches q r"
begin

text \<open>
  A route applies when it was entered for the entrypoint and its rule accepts the query. The
  search prefers specific routes, then the priority.
\<close>

lemma match_spec:
  fixes rs :: "(('r, 'z) l4_route_scheme \<times> string list) list" and ep :: string and q :: 'q
  defines "applies \<equiv> \<lambda>r. (\<exists>eps. (r, eps) \<in> set rs \<and> ep \<in> set eps) \<and> matches q (l4_rule r)"
  shows "case l4_match matches (l4_build is_catch_all rs) ep q of
      None \<Rightarrow> \<forall>r. \<not> applies r
    | Some r \<Rightarrow> applies r \<and> (\<forall>r'. applies r' \<longrightarrow>
        (is_catch_all (l4_rule r) \<longrightarrow> is_catch_all (l4_rule r')) \<and>
        (is_catch_all (l4_rule r') = is_catch_all (l4_rule r) \<longrightarrow> l4_priority r' \<le> l4_priority r))"
proof -
  let ?vs = "values_of (route_pairs rs) ep"
  let ?s = "sort_key (\<lambda>r. - l4_priority r) (filter (\<lambda>r. \<not> is_catch_all (l4_rule r)) ?vs)"
  let ?find = "List.find (\<lambda>r. matches q (l4_rule r)) ?s"
  have app: "applies r \<longleftrightarrow> r \<in> set ?vs \<and> matches q (l4_rule r)" for r by (simp add: applies_def values_of_pairs)
  have sorted: "sorted_wrt (\<lambda>i j. l4_priority j \<le> l4_priority i) ?s"
    using sorted_sort_key [of "\<lambda>r. - l4_priority r" "filter (\<lambda>r. \<not> is_catch_all (l4_rule r)) ?vs"]
    by (simp add: sorted_map)
  have eq: "l4_match matches (l4_build is_catch_all rs) ep q =
      (case ?find of Some r \<Rightarrow> Some r | None \<Rightarrow> foldl best_of None (filter (\<lambda>r. is_catch_all (l4_rule r)) ?vs))"
    by (cases ?find) (auto simp: l4_match_def l4_build_tables Let_def)
  show ?thesis
  proof (cases ?find)
    case (Some r)
    then have r: "r \<in> set ?vs" "\<not> is_catch_all (l4_rule r)" "matches q (l4_rule r)"
      using find_Some_member [OF Some] by simp_all
    have "l4_priority r' \<le> l4_priority r" if "applies r'" "\<not> is_catch_all (l4_rule r')" for r'
      using find_max [OF Some sorted, of r'] that by (simp add: app)
    with r show ?thesis by (auto simp: eq Some app)
  next
    case None
    then have none: "\<not> applies r" if "\<not> is_catch_all (l4_rule r)" for r
      using that by (auto simp: find_None_iff app)
    show ?thesis
      using best_of_None [of "filter (\<lambda>r. is_catch_all (l4_rule r)) ?vs"] none
      by (auto simp: eq None app catch_all_matches filter_empty_conv split: option.splits)
  qed
qed

end

interpretation tcp_rules: l4_rules "tcp_rule_matches N" "\<lambda>r. r = TcpCatchAll" for N
  by unfold_locales simp

interpretation udp_rules: l4_rules "udp_rule_matches N" "\<lambda>r. r = UdpCatchAll" for N
  by unfold_locales simp

section \<open>Routers from a configuration\<close>

lemma all_results_Inr:
  "all_results xs = Inr ys \<longleftrightarrow> xs = map Inr ys"
proof (induction xs arbitrary: ys)
  case (Cons x xs)
  show ?case
  proof (cases x)
    case (Inr a)
    then show ?thesis using Cons
      by (cases ys; cases "all_results xs") auto
  qed auto
qed auto

lemma all_results_mem:
  assumes "all_results (map f es) = Inr ys"
  shows "y \<in> set ys \<longleftrightarrow> (\<exists>e \<in> set es. f e = Inr y)"
proof -
  have "map f es = map Inr ys" using assms by (simp add: all_results_Inr)
  then have "f ` set es = Inr ` set ys" by (metis list.set_map)
  then show ?thesis by (auto simp: image_iff set_eq_iff) (metis sum.inject(2))+
qed

text \<open>
  The route that an entry of the configuration describes, and whether it applies to a connection:
  it serves the entrypoint and its rule accepts the name and the address.
\<close>

definition tcp_route_applies :: "'n ip_net_ops \<Rightarrow> string list \<Rightarrow> tcp_router_config dict \<Rightarrow> string \<Rightarrow> string option
    \<Rightarrow> socket_addr option \<Rightarrow> 'n tcp_rule tcp_route \<Rightarrow> bool" where
  "tcp_route_applies N eps cfg ep sni client_addr r \<longleftrightarrow>
     list_ex (\<lambda>e. tcp_make_route N e = Inr r \<and> ep \<in> set (l4_entrypoints eps (trc_entry_points (snd e)))) cfg \<and>
     tcp_rule_matches N (sni, client_addr) (l4_rule r)"

definition udp_route_applies :: "'n ip_net_ops \<Rightarrow> string list \<Rightarrow> udp_router_config dict \<Rightarrow> string
    \<Rightarrow> socket_addr option \<Rightarrow> 'n udp_rule l4_route \<Rightarrow> bool" where
  "udp_route_applies N eps cfg ep client_addr r \<longleftrightarrow>
     list_ex (\<lambda>e. udp_make_route N e = Inr r \<and> ep \<in> set (l4_entrypoints eps (urc_entry_points (snd e)))) cfg \<and>
     udp_rule_matches N client_addr (l4_rule r)"

lemma entered_iff:
  assumes "all_results (map (\<lambda>e. map_sum id (\<lambda>r. (r, g e)) (mk e)) cfg) = Inr rs"
  shows "(\<exists>eps'. (r, eps') \<in> set rs \<and> ep \<in> set eps') \<longleftrightarrow> list_ex (\<lambda>e. mk e = Inr r \<and> ep \<in> set (g e)) cfg"
proof -
  have "map_sum id (\<lambda>r. (r, g e)) (mk e) = Inr (r, eps') \<longleftrightarrow> mk e = Inr r \<and> eps' = g e" for e eps'
    by (cases "mk e") auto
  then show ?thesis by (auto simp: all_results_mem [OF assms] list_ex_iff)
qed

lemma match_connection_spec:
  assumes "tcp_from_config N eps cfg = Inr ro"
  shows "case match_connection N ro ep sni client_addr of
      None \<Rightarrow> \<forall>r. \<not> tcp_route_applies N eps cfg ep sni client_addr r
    | Some r \<Rightarrow> tcp_route_applies N eps cfg ep sni client_addr r \<and>
        (\<forall>r'. tcp_route_applies N eps cfg ep sni client_addr r' \<longrightarrow>
          (l4_rule r = TcpCatchAll \<longrightarrow> l4_rule r' = TcpCatchAll) \<and>
          ((l4_rule r' = TcpCatchAll) = (l4_rule r = TcpCatchAll) \<longrightarrow> l4_priority r' \<le> l4_priority r))"
proof -
  let ?xs = "map (\<lambda>e. map_sum id (\<lambda>r. (r, l4_entrypoints eps (trc_entry_points (snd e)))) (tcp_make_route N e)) cfg"
  obtain rs where rs: "all_results ?xs = Inr rs" and ro: "ro = l4_build (\<lambda>r. r = TcpCatchAll) rs"
    using assms by (cases "all_results ?xs") (auto simp: tcp_from_config_def)
  have "tcp_route_applies N eps cfg ep sni client_addr r \<longleftrightarrow>
      (\<exists>eps'. (r, eps') \<in> set rs \<and> ep \<in> set eps') \<and> tcp_rule_matches N (sni, client_addr) (l4_rule r)" for r
    unfolding entered_iff [OF rs] tcp_route_applies_def ..
  then show ?thesis
    unfolding match_connection_def ro using tcp_rules.match_spec [of rs ep N "(sni, client_addr)"] by presburger
qed

lemma match_datagram_spec:
  assumes "udp_from_config N eps cfg = Inr ro"
  shows "case match_datagram N ro ep client_addr of
      None \<Rightarrow> \<forall>r. \<not> udp_route_applies N eps cfg ep client_addr r
    | Some r \<Rightarrow> udp_route_applies N eps cfg ep client_addr r \<and>
        (\<forall>r'. udp_route_applies N eps cfg ep client_addr r' \<longrightarrow>
          (l4_rule r = UdpCatchAll \<longrightarrow> l4_rule r' = UdpCatchAll) \<and>
          ((l4_rule r' = UdpCatchAll) = (l4_rule r = UdpCatchAll) \<longrightarrow> l4_priority r' \<le> l4_priority r))"
proof -
  let ?xs = "map (\<lambda>e. map_sum id (\<lambda>r. (r, l4_entrypoints eps (urc_entry_points (snd e)))) (udp_make_route N e)) cfg"
  obtain rs where rs: "all_results ?xs = Inr rs" and ro: "ro = l4_build (\<lambda>r. r = UdpCatchAll) rs"
    using assms by (cases "all_results ?xs") (auto simp: udp_from_config_def)
  have "udp_route_applies N eps cfg ep client_addr r \<longleftrightarrow>
      (\<exists>eps'. (r, eps') \<in> set rs \<and> ep \<in> set eps') \<and> udp_rule_matches N client_addr (l4_rule r)" for r
    unfolding entered_iff [OF rs] udp_route_applies_def ..
  then show ?thesis
    unfolding match_datagram_def ro using udp_rules.match_spec [of rs ep N client_addr] by presburger
qed

section \<open>Reading rules\<close>

text \<open>The way a configuration writes a list of host names.\<close>

definition print_hostsni :: "string list \<Rightarrow> string" where
  "print_hostsni hosts = ''HostSNI('' @ join_str '', '' (map (\<lambda>h. ''`'' @ h @ ''`'') hosts) @ '')''"

definition sni_host_ok :: "string \<Rightarrow> bool" where
  "sni_host_ok h \<longleftrightarrow> h \<noteq> [] \<and> h \<noteq> ''*'' \<and>
     list_all (\<lambda>c. in_range 0 127 c \<and> \<not> is_whitespace c \<and> c \<noteq> CHR '','' \<and> c \<noteq> CHR 0x22 \<and> c \<noteq> CHR 0x27 \<and> c \<noteq> CHR 0x60) h"

text \<open>The quoted form of a name and its separation from its neighbours.\<close>

lemma split_join_str:
  "\<forall>x \<in> set (x # xs). CHR '','' \<notin> set x \<Longrightarrow> split_char CHR '','' (join_str '', '' (x # xs)) = x # map ((#) CHR '' '') xs"
proof (induction xs arbitrary: x)
  case Nil
  then show ?case by (simp add: split_char_fresh)
next
  case (Cons y ys)
  have "split_char CHR '','' (CHR '' '' # join_str '', '' (y # ys)) = (CHR '' '' # y) # map ((#) CHR '' '') ys"
    using Cons.IH [of y] Cons.prems by simp
  with Cons.prems show ?case by (simp add: split_char_append)
qed

lemma dropWhile_fresh: "c \<notin> set s \<Longrightarrow> dropWhile (\<lambda>x. x = c) s = s"
  by (cases s) auto

lemma trim_matches_fixed: "c \<notin> set s \<Longrightarrow> trim_matches c s = s"
  by (simp add: trim_matches_def dropWhile_fresh)

lemma trim_matches_quoted:
  assumes "c \<notin> set s" shows "trim_matches c ([c] @ s @ [c]) = s"
  using assms dropWhile_fresh [of c "rev s"] by (cases s) (auto simp: trim_matches_def)

lemma sni_host_okD:
  assumes "sni_host_ok h"
  shows "h \<noteq> []" "h \<noteq> ''*''" "CHR '','' \<notin> set h" "CHR 0x22 \<notin> set h" "CHR 0x27 \<notin> set h" "CHR 0x60 \<notin> set h"
  using assms by (auto simp: sni_host_ok_def list_all_iff)

lemma unquote_host: "sni_host_ok h \<Longrightarrow> unquote (''`'' @ h @ ''`'') = h"
  using trim_matches_quoted [of "CHR 0x60" h]
  by (simp add: unquote_def sni_host_okD trim_matches_fixed)

lemma trim_quoted: "trim (''`'' @ h @ ''`'') = ''`'' @ h @ ''`''"
  by (rule trim_fixed) (simp add: is_whitespace_def)

lemma print_hostsni_inner:
  assumes "hosts \<noteq> []" and "list_all sni_host_ok hosts"
  shows "map unquote (filter (\<lambda>s. s \<noteq> []) (map trim (split_char CHR '',''
    (join_str '', '' (map (\<lambda>h. ''`'' @ h @ ''`'') hosts))))) = hosts"
proof -
  let ?q = "\<lambda>h. ''`'' @ h @ ''`''"
  obtain h hs where hosts: "hosts = h # hs" using assms(1) by (cases hosts) simp_all
  have "\<forall>x \<in> set (map ?q hosts). CHR '','' \<notin> set x"
    using assms(2) by (auto simp: list_all_iff dest: sni_host_okD)
  then have "split_char CHR '','' (join_str '', '' (map ?q hosts)) = ?q h # map (\<lambda>x. CHR '' '' # ?q x) hs"
    using split_join_str [of "?q h" "map ?q hs"] by (simp add: hosts)
  then have "map trim (split_char CHR '','' (join_str '', '' (map ?q hosts))) = map ?q hosts"
    using trim_quoted by (simp add: hosts trim_space)
  moreover have "filter (\<lambda>s. s \<noteq> []) (map ?q hosts) = map ?q hosts" by simp
  moreover have "map unquote (map ?q hosts) = hosts"
    using assms(2) unquote_host by (induction hosts) simp_all
  ultimately show ?thesis by simp
qed

lemma print_hostsni_length:
  assumes "hosts \<noteq> []" and "list_all sni_host_ok hosts"
  shows "11 < length (print_hostsni hosts) \<and>
    (length (print_hostsni hosts) = 12 \<longrightarrow> (\<exists>c. hosts = [[c]] \<and> c \<noteq> CHR ''*''))"
proof -
  obtain h hs where hosts: "hosts = h # hs" using assms(1) by (cases hosts) simp_all
  have h: "h \<noteq> []" "h \<noteq> ''*''" using assms(2) sni_host_okD by (simp_all add: hosts)
  show ?thesis
  proof (cases hs)
    case Nil
    then show ?thesis using h by (cases h; cases "tl h") (auto simp: print_hostsni_def hosts)
  next
    case (Cons h' hs')
    then show ?thesis using h by (cases h; cases hs') (auto simp: print_hostsni_def hosts)
  qed
qed

lemma ascii_lower_star: "ascii_lower c = CHR ''*'' \<Longrightarrow> c = CHR ''*''"
proof (cases "is_ascii_upper c")
  case True
  assume "ascii_lower c = CHR ''*''"
  with True have "(of_char (char_of (of_char c + 32 :: nat)) :: nat) = of_char CHR ''*''" by (simp add: ascii_lower_def)
  with True show ?thesis by (simp add: is_ascii_upper_def)
qed (simp add: ascii_lower_def)

lemma tcp_rule_parse_print:
  assumes "hosts \<noteq> []" and "list_all sni_host_ok hosts"
  shows "tcp_rule_parse N (print_hostsni hosts) = Inr (HostSNI hosts)"
proof -
  let ?s = "print_hostsni hosts"
  define inner where "inner = join_str '', '' (map (\<lambda>h. ''`'' @ h @ ''`'') hosts)"
  have s: "?s = ''HostSNI('' @ inner @ '')''" by (simp add: print_hostsni_def inner_def)
  have trim: "trim ?s = ?s" by (rule trim_fixed) (simp add: s is_whitespace_def)
  have len: "11 < length ?s" using print_hostsni_length [OF assms] by simp
  have star: "to_lowercase ?s \<noteq> ''hostsni(`*`)''"
  proof
    assume l: "to_lowercase ?s = ''hostsni(`*`)''"
    then have "length (map ascii_lower ?s) = length ''hostsni(`*`)''" by (simp only: to_lowercase_def)
    then have "length ?s = 12" by simp
    then obtain c where "hosts = [[c]]" "c \<noteq> CHR ''*''" using print_hostsni_length [OF assms] by auto
    with l ascii_lower_star [of c] show False by (simp add: print_hostsni_def to_lowercase_def)
  qed
  have prefix: "starts_with ''hostsni('' (to_lowercase ?s)"
  proof -
    have "map ascii_lower ''HostSNI('' = ''hostsni(''" by code_simp
    then have "to_lowercase ?s = ''hostsni('' @ map ascii_lower (inner @ '')'')" unfolding s to_lowercase_def map_append by simp
    then show ?thesis unfolding starts_with_iff by blast
  qed
  have slice: "str_slice 8 (length ?s - 1) ?s = Inr inner"
  proof -
    have "inner \<noteq> []" using len by (auto simp: s)
    moreover have "hd inner = CHR 0x60" using assms(1) by (cases hosts; cases "tl hosts") (simp_all add: inner_def)
    ultimately have "inner ! 0 = CHR 0x60" by (metis hd_conv_nth)
    then have "is_char_boundary ?s 8" "is_char_boundary ?s (length ?s - 1)"
      using \<open>inner \<noteq> []\<close> by (simp_all add: is_char_boundary_def s nth_append in_range_def nth_Cons')
    then show ?thesis using len by (simp add: str_slice_def s)
  qed
  have "filter (\<lambda>s. s \<noteq> [] \<and> s \<noteq> ''*'') hosts = hosts"
    using assms(2) by (auto simp: filter_id_conv list_all_iff dest: sni_host_okD)
  then have "extract_hostsni ?s = Inr (Some hosts)"
    using assms(1) prefix print_hostsni_inner [OF assms]
    unfolding extract_hostsni_def slice inner_def by simp
  moreover have "?s \<noteq> ''*''" by (simp add: s)
  ultimately show ?thesis using star by (simp add: tcp_rule_parse_def trim)
qed

end
