(* ===== verification/L4_Service.thy ===== *)
theory L4_Service
  imports Round_Robin
begin

text \<open>
  The services of the transport layer: \<open>TcpService\<close> and \<open>TcpServiceManager\<close> of
  \<open>src/src/tcp/service.rs\<close>, \<open>UdpService\<close> and \<open>UdpServiceManager\<close> of \<open>src/src/udp/service.rs\<close>. The two
  services have the same fields and the same round robin loop, so the loop and the marking
  operations are modelled once over any type of server. Unlike the HTTP balancer the loop advances
  the shared counter once per attempt. The lemmas interpret the interface of a pool of
  backends, and show that the healthy servers take turns and what happens when several
  connections advance the counter at the same time.
\<close>

record 's l4_service =
  l4s_name :: string
  l4s_servers :: "'s list"
  l4s_rr_counter :: usize
  l4s_healthy :: "bool list"

record tcp_backend_server =
  tbs_address :: string
  tbs_weight :: u32
  tbs_use_tls :: bool

record udp_backend_server =
  ubs_address :: string
  ubs_weight :: u32

section \<open>Operations\<close>

text \<open>
  The loop. The list gives, for each attempt, how far other connections have moved the counter
  since the attempt before; its length is the number of attempts, one per server.
\<close>

fun rr_attempts :: "bool list \<Rightarrow> nat \<Rightarrow> nat list \<Rightarrow> usize \<Rightarrow> nat option \<times> usize" where
  "rr_attempts h len [] c = (None, c)"
| "rr_attempts h len (d # ds) c =
     (let c' = c + of_nat d; idx = unat (c' mod of_nat len)
      in if h ! idx then (Some idx, c' + 1) else rr_attempts h len ds (c' + 1))"

definition l4_next_among :: "nat list \<Rightarrow> 's l4_service \<Rightarrow> 's option \<times> 's l4_service" where
  "l4_next_among ds b =
     (if l4s_servers b = [] then (None, b)
      else if length (filter (\<lambda>h. h) (l4s_healthy b)) = 0 then (Some (l4s_servers b ! 0), b)
      else case rr_attempts (l4s_healthy b) (length (l4s_servers b)) ds (l4s_rr_counter b) of
        (Some idx, c) \<Rightarrow> (Some (l4s_servers b ! idx), b\<lparr>l4s_rr_counter := c\<rparr>)
      | (None, c) \<Rightarrow> (Some (l4s_servers b ! 0), b\<lparr>l4s_rr_counter := c\<rparr>))"

text \<open>A call that no other connection interferes with.\<close>

definition l4_next_server :: "'s l4_service \<Rightarrow> 's option \<times> 's l4_service" where
  "l4_next_server b = l4_next_among (replicate (length (l4s_servers b)) 0) b"

definition l4_mark_unhealthy :: "nat \<Rightarrow> 's l4_service \<Rightarrow> 's l4_service" where
  "l4_mark_unhealthy i b =
     (if i < length (l4s_servers b) then b\<lparr>l4s_healthy := (l4s_healthy b)[i := False]\<rparr> else b)"

definition l4_mark_healthy :: "nat \<Rightarrow> 's l4_service \<Rightarrow> 's l4_service" where
  "l4_mark_healthy i b =
     (if i < length (l4s_servers b) then b\<lparr>l4s_healthy := (l4s_healthy b)[i := True]\<rparr> else b)"

definition l4_healthy_count :: "'s l4_service \<Rightarrow> nat" where
  "l4_healthy_count b = length (filter (\<lambda>h. h) (l4s_healthy b))"

definition l4_service_new :: "string \<Rightarrow> 's list \<Rightarrow> 's l4_service" where
  "l4_service_new name servers =
     \<lparr>l4s_name = name, l4s_servers = servers, l4s_rr_counter = 0, l4s_healthy = replicate (length servers) True\<rparr>"

subsection \<open>TCP\<close>

definition tcp_sm_new :: "tcp_service_config dict \<Rightarrow> tcp_backend_server l4_service dict" where
  "tcp_sm_new cfg =
     List.map_filter (\<lambda>(name, sc). case tsv_load_balancer sc of
         Some lb \<Rightarrow> Some (name, l4_service_new name
           (map (\<lambda>s. \<lparr>tbs_address = tsc_address s, tbs_weight = tsc_weight s, tbs_use_tls = tsc_tls s\<rparr>) (tlb_servers lb)))
       | None \<Rightarrow> None) cfg"

definition tcp_get_service :: "tcp_backend_server l4_service dict \<Rightarrow> string \<Rightarrow> tcp_backend_server l4_service option" where
  "tcp_get_service sm name = dict_get sm name"

definition tcp_next_server :: "tcp_backend_server l4_service \<Rightarrow> tcp_backend_server option \<times> tcp_backend_server l4_service" where
  "tcp_next_server b = l4_next_server b"

subsection \<open>UDP\<close>

definition udp_sm_new :: "udp_service_config dict \<Rightarrow> udp_backend_server l4_service dict" where
  "udp_sm_new cfg =
     List.map_filter (\<lambda>(name, sc). case usv_load_balancer sc of
         Some lb \<Rightarrow> Some (name, l4_service_new name
           (map (\<lambda>s. \<lparr>ubs_address = usc_address s, ubs_weight = usc_weight s\<rparr>) (ulb_servers lb)))
       | None \<Rightarrow> None) cfg"

definition udp_get_service :: "udp_backend_server l4_service dict \<Rightarrow> string \<Rightarrow> udp_backend_server l4_service option" where
  "udp_get_service sm name = dict_get sm name"

definition udp_service_names :: "udp_backend_server l4_service dict \<Rightarrow> string list" where
  "udp_service_names sm = map fst sm"

definition udp_next_server :: "udp_backend_server l4_service \<Rightarrow> udp_backend_server option \<times> udp_backend_server l4_service" where
  "udp_next_server b = l4_next_server b"

definition get_server_by_hash :: "usize \<Rightarrow> udp_backend_server l4_service
    \<Rightarrow> udp_backend_server option \<times> udp_backend_server l4_service" where
  "get_server_by_hash hash b =
     (if l4s_servers b = [] then (None, b)
      else let idx = unat (hash mod of_nat (length (l4s_servers b)))
           in if l4s_healthy b ! idx then (Some (l4s_servers b ! idx), b) else udp_next_server b)"

section \<open>The loop\<close>

definition l4_inv :: "'s l4_service \<Rightarrow> bool" where
  "l4_inv b \<longleftrightarrow> length (l4s_healthy b) = length (l4s_servers b) \<and> length (l4s_servers b) < 2 ^ 63"

definition l4_no_wrap :: "'s l4_service \<Rightarrow> bool" where
  "l4_no_wrap b \<longleftrightarrow> unat (l4s_rr_counter b) + length (l4s_servers b) \<le> 2 ^ 64"

text \<open>A call on its own looks at the same servers as the probing loop of the HTTP balancer.\<close>

lemma rr_attempts_probe:
  "fst (rr_attempts h n (replicate k 0) (c + of_nat j)) = rr_probe h c (of_nat n) [j..<j + k]"
proof (induction k arbitrary: j)
  case (Suc k)
  have "[j..<j + Suc k] = j # [Suc j..<Suc j + k]" using upt_conv_Cons [of j "j + Suc k"] by simp
  then show ?case using Suc [of "Suc j"] by (simp add: Let_def add_ac)
qed simp

lemma rr_attempts_index: "0 < n \<Longrightarrow> n < 2 ^ 63 \<Longrightarrow> rr_attempts h n ds c = (Some idx, c') \<Longrightarrow> idx < n \<and> h ! idx"
proof (induction ds arbitrary: c)
  case (Cons d ds)
  have "unat ((c + of_nat d) mod of_nat n) < n" using Cons.prems by (intro unat_mod_of_nat_lt) simp_all
  then show ?case using Cons by (auto simp: Let_def split: if_splits)
qed simp

lemma rr_attempts_first:
  assumes "h ! unat ((c + of_nat m) mod of_nat n)" and "m < k"
    and "\<forall>j < m. \<not> h ! unat ((c + of_nat j) mod of_nat n)"
  shows "rr_attempts h n (replicate k 0) c = (Some (unat ((c + of_nat m) mod of_nat n)), c + of_nat (Suc m))"
  using assms
proof (induction m arbitrary: c k)
  case 0
  then show ?case by (cases k) (simp_all add: Let_def)
next
  case (Suc m)
  obtain k' where k: "k = Suc k'" using Suc.prems(2) by (cases k) simp_all
  have "\<not> h ! unat (c mod of_nat n)" using Suc.prems(3) by force
  moreover have "\<forall>j < m. \<not> h ! unat ((c + 1 + of_nat j) mod of_nat n)"
    using Suc.prems(3) by (auto dest: spec [of _ "Suc _"] simp: add_ac)
  ultimately show ?case using Suc.IH [of "c + 1" k'] Suc.prems by (simp add: k Let_def add_ac)
qed

lemma l4_next_state:
  "l4s_servers (snd (l4_next_among ds b)) = l4s_servers b \<and> l4s_healthy (snd (l4_next_among ds b)) = l4s_healthy b \<and>
   l4s_name (snd (l4_next_among ds b)) = l4s_name b"
  by (auto simp: l4_next_among_def split: prod.splits option.splits)

text \<open>Whatever other connections do, the result is a server of the service.\<close>

lemma l4_next_member:
  assumes "l4_inv b" and "fst (l4_next_among ds b) = Some s"
  shows "s \<in> set (l4s_servers b)"
proof -
  let ?r = "rr_attempts (l4s_healthy b) (length (l4s_servers b)) ds (l4s_rr_counter b)"
  have ne: "l4s_servers b \<noteq> []" using assms(2) by (auto simp: l4_next_among_def)
  then have "l4s_servers b ! 0 \<in> set (l4s_servers b)" by simp
  moreover have "l4s_servers b ! i \<in> set (l4s_servers b)" if "fst ?r = Some i" for i
    using rr_attempts_index [of "length (l4s_servers b)" "l4s_healthy b" ds "l4s_rr_counter b" i "snd ?r"] that ne assms(1)
    by (metis l4_inv_def length_greater_0_conv nth_mem prod.collapse)
  ultimately show ?thesis using assms(2) ne
    by (cases ?r) (auto simp: l4_next_among_def split: if_splits option.splits)
qed

lemma l4_least:
  assumes "l4_inv b" and "True \<in> set (l4s_healthy b)"
  obtains m where "m < length (l4s_servers b)"
    and "l4s_healthy b ! ((unat (l4s_rr_counter b) + m) mod length (l4s_servers b))"
    and "\<forall>j < m. \<not> l4s_healthy b ! ((unat (l4s_rr_counter b) + j) mod length (l4s_servers b))"
proof -
  let ?n = "length (l4s_servers b)" and ?c = "unat (l4s_rr_counter b)"
  from assms obtain i where i: "i < ?n" "l4s_healthy b ! i" by (auto simp: in_set_conv_nth l4_inv_def)
  from cyclic_hit [OF i(1), of ?c] obtain k where k: "k < ?n" "(?c + k) mod ?n = i" .
  then have "l4s_healthy b ! ((?c + k) mod ?n)" using i(2) by simp
  then obtain m where "m \<le> k" "l4s_healthy b ! ((?c + m) mod ?n)" "\<forall>j < m. \<not> l4s_healthy b ! ((?c + j) mod ?n)"
    by (rule least_true [of "\<lambda>k. l4s_healthy b ! ((?c + k) mod ?n)"])
  with k(1) show thesis by (intro that [of m]) simp_all
qed

text \<open>The first healthy server from the counter is returned, and the counter moves just past it.\<close>

lemma l4_next_cyclic:
  assumes inv: "l4_inv b" and nw: "l4_no_wrap b" and m: "m < length (l4s_servers b)"
    and hm: "l4s_healthy b ! ((unat (l4s_rr_counter b) + m) mod length (l4s_servers b))"
    and first: "\<forall>j < m. \<not> l4s_healthy b ! ((unat (l4s_rr_counter b) + j) mod length (l4s_servers b))"
  shows "l4_next_server b = (Some (l4s_servers b ! ((unat (l4s_rr_counter b) + m) mod length (l4s_servers b))),
    b\<lparr>l4s_rr_counter := l4s_rr_counter b + of_nat (Suc m)\<rparr>)"
proof -
  let ?n = "length (l4s_servers b)"
  have ix: "unat ((l4s_rr_counter b + of_nat i) mod of_nat ?n) = (unat (l4s_rr_counter b) + i) mod ?n" if "i < ?n" for i
    using nw that inv by (intro rr_index_no_wrap) (simp_all add: l4_no_wrap_def l4_inv_def)
  have "(unat (l4s_rr_counter b) + m) mod ?n < ?n" using m by (intro mod_less_divisor) linarith
  then have "True \<in> set (l4s_healthy b)" using hm inv by (metis (full_types) l4_inv_def nth_mem)
  then have "filter (\<lambda>h. h) (l4s_healthy b) \<noteq> []" by (auto simp: filter_empty_conv)
  moreover have "rr_attempts (l4s_healthy b) ?n (replicate ?n 0) (l4s_rr_counter b) =
      (Some ((unat (l4s_rr_counter b) + m) mod ?n), l4s_rr_counter b + of_nat (Suc m))"
    using rr_attempts_first [of "l4s_healthy b" "l4s_rr_counter b" m ?n ?n] hm m first by (simp add: ix)
  moreover have "l4s_servers b \<noteq> []" using m by auto
  ultimately show ?thesis by (simp add: l4_next_server_def l4_next_among_def)
qed

lemma l4_next_healthy:
  assumes "l4_inv b" and "l4_no_wrap b" and "True \<in> set (l4s_healthy b)"
  shows "\<exists>i < length (l4s_servers b). l4s_healthy b ! i \<and> fst (l4_next_server b) = Some (l4s_servers b ! i)"
proof -
  let ?n = "length (l4s_servers b)" and ?c = "unat (l4s_rr_counter b)"
  from l4_least [OF assms(1,3)] obtain m where m: "m < ?n" "l4s_healthy b ! ((?c + m) mod ?n)"
    "\<forall>j < m. \<not> l4s_healthy b ! ((?c + j) mod ?n)" .
  then have "(?c + m) mod ?n < ?n" by (intro mod_less_divisor) linarith
  with l4_next_cyclic [OF assms(1,2) m] m(2) show ?thesis by auto
qed

interpretation l4: health_pool l4s_servers l4s_healthy l4_next_server l4_mark_healthy l4_mark_unhealthy l4_inv l4_no_wrap
proof unfold_locales
  fix b :: "'a l4_service" and s i
  show "l4_inv b \<Longrightarrow> length (l4s_healthy b) = length (l4s_servers b)" by (simp add: l4_inv_def)
  show "l4_inv b \<Longrightarrow> l4_inv (snd (l4_next_server b)) \<and> l4s_servers (snd (l4_next_server b)) = l4s_servers b \<and>
      l4s_healthy (snd (l4_next_server b)) = l4s_healthy b"
    by (simp add: l4_next_server_def l4_next_state l4_inv_def)
  show "l4_inv b \<Longrightarrow> fst (l4_next_server b) = Some s \<Longrightarrow> s \<in> set (l4s_servers b)"
    by (simp add: l4_next_server_def l4_next_member)
  show "l4_inv b \<Longrightarrow> l4_inv (l4_mark_healthy i b) \<and> l4s_servers (l4_mark_healthy i b) = l4s_servers b \<and>
      l4s_healthy (l4_mark_healthy i b) = (l4s_healthy b)[i := True]"
    by (auto simp: l4_mark_healthy_def l4_inv_def list_update_beyond)
  show "l4_inv b \<Longrightarrow> l4_inv (l4_mark_unhealthy i b) \<and> l4s_servers (l4_mark_unhealthy i b) = l4s_servers b \<and>
      l4s_healthy (l4_mark_unhealthy i b) = (l4s_healthy b)[i := False]"
    by (auto simp: l4_mark_unhealthy_def l4_inv_def list_update_beyond)
  show "l4_inv b \<Longrightarrow> l4_no_wrap b \<Longrightarrow> True \<in> set (l4s_healthy b) \<Longrightarrow>
      \<exists>i < length (l4s_servers b). l4s_healthy b ! i \<and> fst (l4_next_server b) = Some (l4s_servers b ! i)"
    by (rule l4_next_healthy)
qed

section \<open>The healthy servers take turns\<close>

definition healthy_walk :: "bool list \<Rightarrow> nat \<Rightarrow> nat \<Rightarrow> nat \<Rightarrow> nat list" where
  "healthy_walk h n c l = filter (\<lambda>i. h ! i) (map (\<lambda>i. (c + i) mod n) [0..<l])"

lemma healthy_walk_step:
  assumes "m < l" and "h ! ((c + m) mod n)" and "\<forall>j < m. \<not> h ! ((c + j) mod n)"
  shows "healthy_walk h n c l = ((c + m) mod n) # healthy_walk h n (c + Suc m) (l - Suc m)"
proof -
  have up: "[Suc m..<l] = map (\<lambda>i. i + Suc m) [0..<l - Suc m]" 
    using map_add_upt [of "Suc m" "l - Suc m"] assms(1) by simp
  have "filter (\<lambda>i. h ! i) (map (\<lambda>i. (c + i) mod n) [0..<m]) = []" using assms(3) by (simp add: filter_empty_conv)
  then show ?thesis using assms(2)
    by (simp add: healthy_walk_def upt_split_at [OF assms(1)] up comp_def add_ac)
qed

lemma l4_calls_walk:
  assumes "l4_inv b" and "True \<in> set (l4s_healthy b)"
    and "unat (l4s_rr_counter b) + l + length (l4s_servers b) \<le> 2 ^ 64"
    and "k \<le> length (healthy_walk (l4s_healthy b) (length (l4s_servers b)) (unat (l4s_rr_counter b)) l)"
  shows "fst (iter_calls l4_next_server k b) = map (\<lambda>i. Some (l4s_servers b ! i))
    (take k (healthy_walk (l4s_healthy b) (length (l4s_servers b)) (unat (l4s_rr_counter b)) l))"
  using assms
proof (induction k arbitrary: b l)
  case (Suc k)
  let ?n = "length (l4s_servers b)" and ?c = "unat (l4s_rr_counter b)" and ?h = "l4s_healthy b"
  from l4_least [OF Suc.prems(1,2)] obtain m where m: "m < ?n" "?h ! ((?c + m) mod ?n)" "\<forall>j < m. \<not> ?h ! ((?c + j) mod ?n)" .
  have ml: "m < l"
  proof (rule ccontr)
    assume "\<not> m < l"
    then have "healthy_walk ?h ?n ?c l = []" using m(3) by (simp add: healthy_walk_def filter_empty_conv)
    then show False using Suc.prems(4) by simp
  qed
  let ?b = "b\<lparr>l4s_rr_counter := l4s_rr_counter b + of_nat (Suc m)\<rparr>"
  have nw: "l4_no_wrap b" using Suc.prems(3) by (simp add: l4_no_wrap_def)
  note step = l4_next_cyclic [OF Suc.prems(1) nw m]
  have "?c + Suc m < 2 ^ LENGTH(64)" using Suc.prems(3) ml m(1) by simp
  then have c: "unat (l4s_rr_counter ?b) = ?c + Suc m" using unat_add_in_range [of "l4s_rr_counter b" "Suc m"] by simp
  note walk = healthy_walk_step [OF ml m(2,3)]
  have "fst (iter_calls l4_next_server k ?b) = map (\<lambda>i. Some (l4s_servers b ! i))
      (take k (healthy_walk ?h ?n (?c + Suc m) (l - Suc m)))"
    using Suc.IH [of ?b "l - Suc m"] Suc.prems ml c walk by (simp add: l4_inv_def)
  then show ?case by (simp only: iter_calls_Suc step fst_conv snd_conv walk take_Suc_Cons list.map)
qed simp

lemma healthy_walk_round:
  assumes "length h = n" and "0 < n"
  shows "mset (healthy_walk h n c n) = mset (filter (\<lambda>i. h ! i) [0..<n])"
proof -
  have "mset (map (\<lambda>i. [0..<n] ! ((c + i) mod length [0..<n])) [0..<length [0..<n]]) = mset [0..<n]"
    using assms(2) by (intro mset_cyclic_round) simp
  moreover have "map (\<lambda>i. [0..<n] ! ((c + i) mod length [0..<n])) [0..<length [0..<n]] = map (\<lambda>i. (c + i) mod n) [0..<n]"
    using assms(2) by simp
  ultimately show ?thesis unfolding healthy_walk_def by (metis mset_filter)
qed

text \<open>
  As many calls in a row as there are healthy servers return every healthy server exactly once,
  and no other server.
\<close>

theorem l4_healthy_take_turns:
  assumes "l4_inv b" and "True \<in> set (l4s_healthy b)"
    and "unat (l4s_rr_counter b) + 2 * length (l4s_servers b) \<le> 2 ^ 64"
  shows "mset (fst (iter_calls l4_next_server (l4_healthy_count b) b)) =
    mset (map (\<lambda>i. Some (l4s_servers b ! i)) (filter (\<lambda>i. l4s_healthy b ! i) [0..<length (l4s_servers b)]))"
proof -
  let ?n = "length (l4s_servers b)" and ?c = "unat (l4s_rr_counter b)" and ?h = "l4s_healthy b"
  have n: "length ?h = ?n" using assms(1) by (simp add: l4_inv_def)
  have "0 < ?n" using assms(2) n by (metis length_greater_0_conv length_pos_if_in_set)
  note round = healthy_walk_round [OF n this, of ?c]
  have "length (filter (\<lambda>h. h) ?h) = length (filter (\<lambda>i. ?h ! i) [0..<?n])"
    using length_filter_conv_card [of "\<lambda>h. h" ?h] by (simp add: n length_filter_conv_card conj_commute cong: conj_cong)
  moreover have "length (healthy_walk ?h ?n ?c ?n) = length (filter (\<lambda>i. ?h ! i) [0..<?n])"
    by (metis round size_mset)
  ultimately have k: "length (healthy_walk ?h ?n ?c ?n) = l4_healthy_count b" by (simp add: l4_healthy_count_def)
  have "fst (iter_calls l4_next_server (l4_healthy_count b) b) = map (\<lambda>i. Some (l4s_servers b ! i)) (healthy_walk ?h ?n ?c ?n)"
    using l4_calls_walk [OF assms(1,2), of ?n "l4_healthy_count b"] assms(3) k by simp
  then show ?thesis using round by (simp add: mset_map)
qed

definition l4_example :: "nat l4_service" where
  "l4_example = \<lparr>l4s_name = ''db'', l4s_servers = [10, 20, 30], l4s_rr_counter = 7, l4s_healthy = [True, False, True]\<rparr>"

theorem l4_healthy_take_turns_witness:
  "mset (fst (iter_calls l4_next_server 2 l4_example)) = {#Some 10, Some 30#}"
proof -
  have "l4_healthy_count l4_example = 2"
    "map (\<lambda>i. Some (l4s_servers l4_example ! i)) (filter (\<lambda>i. l4s_healthy l4_example ! i) [0..<3]) = [Some 10, Some 30]"
    by code_simp+
  moreover have "l4_inv l4_example" "True \<in> set (l4s_healthy l4_example)" "length (l4s_servers l4_example) = 3"
    "unat (l4s_rr_counter l4_example) = 7" by (simp_all add: l4_inv_def l4_example_def)
  ultimately show ?thesis using l4_healthy_take_turns [of l4_example] by (simp del: iter_calls.simps)
qed

text \<open>
  Two connections at once: the first attempt finds the unhealthy server 0, another connection
  takes the number of the healthy server, and the second attempt finds server 0 again. The call
  gives up and returns the unhealthy server although a healthy one exists.
\<close>

theorem l4_contention_returns_unhealthy:
  "let b = \<lparr>l4s_name = ''db'', l4s_servers = [''bad'', ''good''], l4s_rr_counter = 0, l4s_healthy = [False, True]\<rparr>
   in fst (l4_next_among [0, 1] b) = Some ''bad'' \<and> fst (l4_next_server b) = Some ''good''"
  by code_simp

end
