(* ===== verification/Tcp_Proxy.thy ===== *)
theory Tcp_Proxy
  imports L4_Router L4_Service
begin

text \<open>
  \<open>TcpProxy\<close> of \<open>src/src/tcp/proxy.rs\<close>: the reader of the server name in a TLS ClientHello, the two
  peeks at the connection, and \<open>handle_connection\<close> up to the point where the two streams are
  copied. What the socket offers, and how the connection to the backend ends, are arguments. The
  lemmas show that the reader finds the name in every well-formed hello, when it can panic, and
  where a connection goes.
\<close>

section \<open>The server name in a ClientHello\<close>

definition byte_at :: "string \<Rightarrow> nat \<Rightarrow> nat" where
  "byte_at data i = of_char (data ! i)"

text \<open>Two bytes, the high one first.\<close>

definition be16 :: "string \<Rightarrow> nat \<Rightarrow> nat" where
  "be16 data i = byte_at data i * 256 + byte_at data (i + 1)"

definition parse_sni_extension :: "string \<Rightarrow> string option" where
  "parse_sni_extension data =
     (if length data < 5 then None
      else if byte_at data 2 \<noteq> 0 then None
      else let name_len = be16 data 3 in
        if 5 + name_len > length data then None
        else from_utf8 (take name_len (drop 5 data)))"

function sni_ext_loop :: "string \<Rightarrow> nat \<Rightarrow> nat \<Rightarrow> panic + string option" where
  "sni_ext_loop data offset extensions_end =
     (if offset + 4 \<le> extensions_end then
        (let ext_type = be16 data offset; ext_len = be16 data (offset + 2); offset' = offset + 4 in
         if ext_type = 0 then
           (if offset' + ext_len \<le> length data then Inr (parse_sni_extension (take ext_len (drop offset' data)))
            else Inl IndexOutOfBounds)
         else sni_ext_loop data (offset' + ext_len) extensions_end)
      else Inr None)"
  by pat_completeness auto
termination sni_ext_loop
  by (relation "measure (\<lambda>(data, offset, extensions_end). extensions_end - offset)") auto

declare sni_ext_loop.simps [simp del]

definition parse_sni :: "string \<Rightarrow> panic + string option" where
  "parse_sni data =
     (let n = length data in
      if n < 38 then Inr None
      else if byte_at data 0 \<noteq> 1 then Inr None
      else let offset = 1 + 3 + 2 + 32 in
      if offset \<ge> n then Inr None
      else let session_id_len = byte_at data offset; offset = offset + (1 + session_id_len) in
      if offset + 2 > n then Inr None
      else let cipher_suites_len = be16 data offset; offset = offset + (2 + cipher_suites_len) in
      if offset + 1 > n then Inr None
      else let compression_len = byte_at data offset; offset = offset + (1 + compression_len) in
      if offset + 2 > n then Inr None
      else let extensions_len = be16 data offset; offset = offset + 2; extensions_end = offset + extensions_len in
      if extensions_end > n then Inr None
      else sni_ext_loop data offset extensions_end)"

section \<open>Peeking at the connection\<close>

datatype 'a timed = TimedOut | IoError | Ready 'a

text \<open>
  \<open>peek\<close> with a buffer, bounded by the timeout: the socket copies what it has received so far into
  the front of the buffer.
\<close>

definition peek_into :: "string \<Rightarrow> string timed \<Rightarrow> (nat \<times> string) timed" where
  "peek_into buf r =
     (case r of
        TimedOut \<Rightarrow> TimedOut
      | IoError \<Rightarrow> IoError
      | Ready avail \<Rightarrow> let n = min (length avail) (length buf) in Ready (n, take n avail @ drop n buf))"

text \<open>\<open>Vec::resize\<close> with zeros, for a length that is not smaller.\<close>

definition resize_zeros :: "nat \<Rightarrow> string \<Rightarrow> string" where
  "resize_zeros k buf = take k buf @ replicate (k - length buf) (CHR 0x00)"

text \<open>The error value stands for an \<open>Err\<close> of the socket.\<close>

definition peek_tls_sni :: "string timed \<Rightarrow> string timed \<Rightarrow> panic + (string option \<times> string) option" where
  "peek_tls_sni first second =
     (case peek_into (replicate 1024 (CHR 0x00)) first of
        IoError \<Rightarrow> Inr None
      | TimedOut \<Rightarrow> Inr (Some (None, []))
      | Ready (n, buf) \<Rightarrow>
          if n < 5 then Inr (Some (None, []))
          else if byte_at buf 0 \<noteq> 0x16 then Inr (Some (None, []))
          else let total_needed = 5 + be16 buf 3;
                   buf = (if total_needed > length buf then resize_zeros (min total_needed 16384) buf else buf)
               in case peek_into buf second of
                    IoError \<Rightarrow> Inr None
                  | TimedOut \<Rightarrow> Inr (Some (None, []))
                  | Ready (n, buf) \<Rightarrow>
                      if n < min total_needed (length buf) then Inr (Some (None, []))
                      else map_sum id (\<lambda>sni. Some (sni, [])) (parse_sni (drop 5 buf)))"

section \<open>A connection\<close>

datatype connect_result = Connected | ConnectError | ConnectTimeout

datatype tcp_outcome =
    NoRoute
  | ServiceNotFound string
  | NoBackend string
  | ConnectFailed tcp_backend_server
  | Proxied tcp_backend_server string

definition tcp_handle_connection :: "'n ip_net_ops \<Rightarrow> 'n tcp_rule tcp_route l4_router \<Rightarrow> string timed \<Rightarrow> string timed
    \<Rightarrow> (string \<Rightarrow> connect_result) \<Rightarrow> socket_addr \<Rightarrow> string \<Rightarrow> tcp_backend_server l4_service dict
    \<Rightarrow> panic + tcp_outcome \<times> tcp_backend_server l4_service dict" where
  "tcp_handle_connection N router first second connect client_addr entrypoint sm =
     (case peek_tls_sni first second of
        Inl p \<Rightarrow> Inl p
      | Inr peeked \<Rightarrow>
          let (sni, initial_data) = (case peeked of Some r \<Rightarrow> r | None \<Rightarrow> (None, [])) in
          case match_connection N router entrypoint sni (Some client_addr) of
            None \<Rightarrow> Inr (NoRoute, sm)
          | Some route \<Rightarrow>
              (case tcp_get_service sm (l4_service_name route) of
                 None \<Rightarrow> Inr (ServiceNotFound (l4_service_name route), sm)
               | Some service \<Rightarrow>
                   let (backend, service') = tcp_next_server service;
                       sm' = dict_insert (l4_service_name route) service' sm
                   in case backend of
                        None \<Rightarrow> Inr (NoBackend (l4_service_name route), sm')
                      | Some b \<Rightarrow>
                          (case connect (tbs_address b) of
                             Connected \<Rightarrow> Inr (Proxied b initial_data, sm')
                           | _ \<Rightarrow> Inr (ConnectFailed b, sm'))))"

section \<open>Well-formed hellos\<close>

record client_hello =
  ch_length :: string
  ch_version_random :: string
  ch_session_id :: string
  ch_cipher_suites :: string
  ch_compression :: string
  ch_extensions :: "(nat \<times> string) list"

definition u16_bytes :: "nat \<Rightarrow> string" where
  "u16_bytes n = [char_of (n div 256), char_of (n mod 256)]"

fun print_extension :: "nat \<times> string \<Rightarrow> string" where
  "print_extension (t, body) = u16_bytes t @ u16_bytes (length body) @ body"

definition print_extensions :: "(nat \<times> string) list \<Rightarrow> string" where
  "print_extensions exts = concat (map print_extension exts)"

definition print_hello_head :: "client_hello \<Rightarrow> string" where
  "print_hello_head ch = CHR 0x01 # ch_length ch @ ch_version_random ch @
     char_of (length (ch_session_id ch)) # ch_session_id ch @
     u16_bytes (length (ch_cipher_suites ch)) @ ch_cipher_suites ch @
     char_of (length (ch_compression ch)) # ch_compression ch"

definition print_hello :: "client_hello \<Rightarrow> string" where
  "print_hello ch = print_hello_head ch @
     u16_bytes (length (print_extensions (ch_extensions ch))) @ print_extensions (ch_extensions ch)"

text \<open>The lengths fit their fields.\<close>

definition hello_head_ok :: "client_hello \<Rightarrow> bool" where
  "hello_head_ok ch \<longleftrightarrow> length (ch_length ch) = 3 \<and> length (ch_version_random ch) = 34 \<and> length (ch_session_id ch) < 256 \<and>
     length (ch_cipher_suites ch) < 65536 \<and> length (ch_compression ch) < 256"

definition hello_ok :: "client_hello \<Rightarrow> bool" where
  "hello_ok ch \<longleftrightarrow> hello_head_ok ch \<and> length (print_extensions (ch_extensions ch)) < 65536 \<and>
     list_all (\<lambda>(t, body). t < 65536) (ch_extensions ch)"

text \<open>The \<open>server_name\<close> extension for one host name, and the name a hello asks for.\<close>

definition print_server_name :: "string \<Rightarrow> string" where
  "print_server_name name = u16_bytes (length name + 3) @ CHR 0x00 # u16_bytes (length name) @ name"

definition hello_server_name :: "client_hello \<Rightarrow> string option" where
  "hello_server_name ch =
     (case List.find (\<lambda>(t, body). t = 0) (ch_extensions ch) of Some (t, body) \<Rightarrow> parse_sni_extension body | None \<Rightarrow> None)"

section \<open>Reading what was written\<close>

lemma byte_at_append: "byte_at (pre @ c # post) (length pre) = of_char c"
  by (simp add: byte_at_def)

lemma be16_append:
  assumes "n < 65536" shows "be16 (pre @ u16_bytes n @ post) (length pre) = n"
proof -
  have "n div 256 < 256" using assms by (intro less_mult_imp_div_less) simp
  then have "byte_at (pre @ u16_bytes n @ post) (length pre) = n div 256"
    "byte_at (pre @ u16_bytes n @ post) (length pre + 1) = n mod 256"
    by (simp_all add: byte_at_def u16_bytes_def nth_append)
  then show ?thesis by (simp add: be16_def)
qed

lemma length_u16_bytes [simp]: "length (u16_bytes n) = 2"
  by (simp add: u16_bytes_def)

lemma print_extensions_Cons [simp]:
  "print_extensions ((t, body) # es) = u16_bytes t @ u16_bytes (length body) @ body @ print_extensions es"
  "print_extensions [] = []"
  by (simp_all add: print_extensions_def)

text \<open>The loop reads the extensions in order and stops at the first \<open>server_name\<close>.\<close>

lemma sni_ext_loop_print:
  assumes "length (print_extensions exts) < 65536" and "list_all (\<lambda>(t, body). t < 65536) exts"
  shows "sni_ext_loop (pre @ print_extensions exts @ post) (length pre) (length pre + length (print_extensions exts)) =
    Inr (case List.find (\<lambda>(t, body). t = 0) exts of Some (t, body) \<Rightarrow> parse_sni_extension body | None \<Rightarrow> None)"
  using assms
proof (induction exts arbitrary: pre)
  case Nil
  then show ?case by (simp add: sni_ext_loop.simps)
next
  case (Cons e es)
  obtain t body where e: "e = (t, body)" by (cases e)
  let ?d = "pre @ print_extensions (e # es) @ post"
  have ty: "be16 ?d (length pre) = t"
    using be16_append [of t pre "u16_bytes (length body) @ body @ print_extensions es @ post"] Cons.prems by (simp add: e)
  have len: "be16 ?d (length pre + 2) = length body"
    using be16_append [of "length body" "pre @ u16_bytes t" "body @ print_extensions es @ post"] Cons.prems by (simp add: e)
  have fits: "length pre + 4 \<le> length pre + length (print_extensions (e # es))" by (simp add: e)
  show ?case
  proof (cases "t = 0")
    case True
    then show ?thesis unfolding sni_ext_loop.simps [of ?d "length pre"] Let_def ty len using fits
      by (simp add: e)
  next
    case False
    let ?p = "pre @ u16_bytes t @ u16_bytes (length body) @ body"
    have "sni_ext_loop ?d (length pre) (length pre + length (print_extensions (e # es))) =
        sni_ext_loop ?d (length pre + 4 + length body) (length pre + length (print_extensions (e # es)))"
      unfolding sni_ext_loop.simps [of ?d "length pre"] Let_def ty len using fits False by simp
    moreover have "length pre + 4 + length body = length ?p" "?d = ?p @ print_extensions es @ post"
      "length pre + length (print_extensions (e # es)) = length ?p + length (print_extensions es)"
      by (simp_all add: e)
    moreover have "length (print_extensions es) < 65536" "list_all (\<lambda>(t, body). t < 65536) es"
      using Cons.prems by (simp_all add: e)
    ultimately show ?thesis using Cons.IH [of ?p] False by (simp only: e find.simps split if_False)
  qed
qed

text \<open>Up to the extensions every field is skipped by its length.\<close>

lemma parse_sni_head:
  assumes "hello_head_ok ch" and "elen < 65536" and "elen \<le> length rest"
  shows "parse_sni (print_hello_head ch @ u16_bytes elen @ rest) =
    sni_ext_loop (print_hello_head ch @ u16_bytes elen @ rest) (length (print_hello_head ch) + 2) (length (print_hello_head ch) + 2 + elen)"
proof -
  define p0 where "p0 = CHR 0x01 # ch_length ch @ ch_version_random ch"
  define p1 where "p1 = p0 @ char_of (length (ch_session_id ch)) # ch_session_id ch"
  define p2 where "p2 = p1 @ u16_bytes (length (ch_cipher_suites ch)) @ ch_cipher_suites ch"
  define p3 where "p3 = p2 @ char_of (length (ch_compression ch)) # ch_compression ch"
  define d where "d = p3 @ u16_bytes elen @ rest"
  have ok: "length (ch_length ch) = 3" "length (ch_version_random ch) = 34" "length (ch_session_id ch) < 256"
    "length (ch_cipher_suites ch) < 65536" "length (ch_compression ch) < 256"
    using assms(1) by (simp_all add: hello_head_ok_def)
  have p3: "print_hello_head ch = p3" by (simp add: print_hello_head_def p0_def p1_def p2_def p3_def)
  have l: "length p0 = 38" "length p1 = length p0 + (1 + length (ch_session_id ch))"
    "length p2 = length p1 + (2 + length (ch_cipher_suites ch))" "length p3 = length p2 + (1 + length (ch_compression ch))"
    "length d = length p3 + 2 + length rest"
    using ok by (simp_all add: p0_def p1_def p2_def p3_def d_def)
  have "byte_at d 0 = 1" by (simp add: d_def p3_def p2_def p1_def p0_def byte_at_def)
  moreover have "byte_at d 38 = length (ch_session_id ch)"
    using byte_at_append [of p0 "char_of (length (ch_session_id ch))"] ok(3) l(1) by (simp add: d_def p1_def p2_def p3_def)
  moreover have "be16 d (length p1) = length (ch_cipher_suites ch)"
    using be16_append [OF ok(4), of p1] by (simp add: d_def p2_def p3_def)
  moreover have "byte_at d (length p2) = length (ch_compression ch)"
    using byte_at_append [of p2 "char_of (length (ch_compression ch))"] ok(5) by (simp add: d_def p3_def)
  moreover have "be16 d (length p3) = elen" using be16_append [OF assms(2), of p3] by (simp add: d_def)
  ultimately have "parse_sni d = sni_ext_loop d (length p3 + 2) (length p3 + 2 + elen)"
    using l assms(3) by (simp add: parse_sni_def Let_def)
  then show ?thesis by (simp add: d_def p3)
qed

lemma parse_sni_hello:
  assumes "hello_ok ch"
  shows "parse_sni (print_hello ch @ post) = Inr (hello_server_name ch)"
proof -
  let ?e = "print_extensions (ch_extensions ch)" and ?h = "print_hello_head ch"
  have "parse_sni (print_hello ch @ post) = sni_ext_loop ((?h @ u16_bytes (length ?e)) @ ?e @ post)
      (length (?h @ u16_bytes (length ?e))) (length (?h @ u16_bytes (length ?e)) + length ?e)"
    using parse_sni_head [of ch "length ?e" "?e @ post"] assms by (simp add: hello_ok_def print_hello_def)
  also have "\<dots> = Inr (hello_server_name ch)"
    unfolding hello_server_name_def using assms by (intro sni_ext_loop_print) (simp_all add: hello_ok_def)
  finally show ?thesis .
qed

lemma parse_sni_extension_print:
  assumes "length name < 65536"
  shows "parse_sni_extension (print_server_name name) = from_utf8 name"
proof -
  let ?d = "print_server_name name"
  have "length ?d = 5 + length name" by (simp add: print_server_name_def)
  moreover have "byte_at ?d 2 = 0" by (simp add: byte_at_def print_server_name_def u16_bytes_def)
  moreover have "be16 ?d 3 = length name"
    using be16_append [OF assms, of "u16_bytes (length name + 3) @ [CHR 0x00]" name] by (simp add: print_server_name_def)
  moreover have "drop 5 ?d = name" by (simp add: print_server_name_def u16_bytes_def)
  ultimately show ?thesis by (simp add: parse_sni_extension_def)
qed

text \<open>A handshake record that carries the hello, as a client sends it.\<close>

definition print_tls_record :: "string \<Rightarrow> string" where
  "print_tls_record hello = [CHR 0x16, CHR 0x03, CHR 0x01] @ u16_bytes (length hello) @ hello"

lemma length_print_tls_record: "length (print_tls_record hello) = 5 + length hello"
  by (simp add: print_tls_record_def)

lemma peek_front:
  assumes "length r \<le> length buf"
  obtains rest n where "peek_into buf (Ready (r @ tail)) = Ready (n, r @ rest)" and "length r \<le> n"
    and "length (r @ rest) = length buf" and "length buf \<le> length r \<Longrightarrow> rest = []"
proof -
  let ?n = "min (length (r @ tail)) (length buf)"
  let ?rest = "take (?n - length r) tail @ drop ?n buf"
  have "take ?n (r @ tail) @ drop ?n buf = r @ ?rest" using assms by simp
  moreover have "length (r @ ?rest) = length buf" using assms by auto
  ultimately show thesis using that [of ?n ?rest] assms by (auto simp: peek_into_def Let_def)
qed

lemma peek_record:
  assumes "hello_ok ch" and size: "5 + length (print_hello ch) \<le> 16384"
  shows "peek_tls_sni (Ready (print_tls_record (print_hello ch) @ tail)) (Ready (print_tls_record (print_hello ch) @ tail)) =
    Inr (Some (hello_server_name ch, []))"
proof -
  let ?r = "print_tls_record (print_hello ch)"
  define n where "n = min (length (?r @ tail)) 1024"
  define buf where "buf = take n (?r @ tail) @ drop n (replicate 1024 (CHR 0x00))"
  have r5: "5 \<le> length ?r" by (simp add: length_print_tls_record)
  then have n5: "5 \<le> n" by (simp add: n_def)
  have lbuf: "length buf = 1024" by (simp add: buf_def n_def)
  have front: "i < 5 \<Longrightarrow> buf ! i = ?r ! i" for i using n5 r5 by (simp add: buf_def nth_append)
  have first: "peek_into (replicate 1024 (CHR 0x00)) (Ready (?r @ tail)) = Ready (n, buf)"
    by (simp add: peek_into_def buf_def n_def Let_def)
  have b0: "byte_at buf 0 = 0x16" using front [of 0] by (simp add: byte_at_def print_tls_record_def)
  have "be16 ?r 3 = length (print_hello ch)"
    using be16_append [of "length (print_hello ch)" "[CHR 0x16, CHR 0x03, CHR 0x01]" "print_hello ch"] size
    by (simp add: print_tls_record_def numeral_3_eq_3)
  then have b3: "be16 buf 3 = length (print_hello ch)" using front by (simp add: be16_def byte_at_def)
  let ?t = "5 + length (print_hello ch)"
  define buf' where "buf' = (if ?t > length buf then resize_zeros (min ?t 16384) buf else buf)"
  have lbuf': "length buf' = max ?t 1024" using size lbuf by (simp add: buf'_def resize_zeros_def)
  then have "length ?r \<le> length buf'" by (simp add: length_print_tls_record)
  then obtain rest m where m: "peek_into buf' (Ready (?r @ tail)) = Ready (m, ?r @ rest)" "length ?r \<le> m"
    "length (?r @ rest) = length buf'"
    by (rule peek_front [where tail = tail])
  have hello: "drop 5 (?r @ rest) = print_hello ch @ rest" by (simp add: print_tls_record_def u16_bytes_def)
  have "\<not> m < min ?t (length (?r @ rest))" using m(2) by (simp add: length_print_tls_record)
  then have "(if m < min ?t (length (?r @ rest)) then Inr (Some (None, []))
      else map_sum id (\<lambda>sni. Some (sni, [])) (parse_sni (drop 5 (?r @ rest)))) = Inr (Some (hello_server_name ch, []))"
    unfolding hello using parse_sni_hello [OF assms(1), of rest] by auto
  then show ?thesis
    unfolding peek_tls_sni_def first using n5 by (simp add: Let_def b0 b3 m(1) flip: buf'_def)
qed


definition hello_example :: client_hello where
  "hello_example = \<lparr>ch_length = [CHR 0x00, CHR 0x00, CHR 0x40], ch_version_random = replicate 34 (CHR 0x03),
     ch_session_id = [], ch_cipher_suites = [CHR 0x13, CHR 0x01], ch_compression = [CHR 0x00],
     ch_extensions = [(43, [CHR 0x02, CHR 0x03, CHR 0x04]), (0, print_server_name ''db.example.com'')]\<rparr>"

lemma hello_example_ok:
  "hello_ok hello_example" "length (print_hello hello_example) = 77" "utf8_valid ''db.example.com''"
  "List.find (\<lambda>(t, body). t = 0) (ch_extensions hello_example) = Some (0, print_server_name ''db.example.com'')"
  by (simp_all add: hello_ok_def hello_head_ok_def hello_example_def print_hello_def print_hello_head_def print_server_name_def
    utf8_valid_ascii in_range_def)


text \<open>
  A hello whose \<open>server_name\<close> extension announces more bytes than were read ends the connection's
  task with a panic: the slice is taken without a check. Any client can send one.
\<close>

theorem server_name_overrun_panics:
  assumes "hello_head_ok ch" and "k < 65536" and "length post < k"
  shows "parse_sni (print_hello_head ch @ u16_bytes 4 @ u16_bytes 0 @ u16_bytes k @ post) = Inl IndexOutOfBounds"
proof -
  let ?h = "print_hello_head ch"
  let ?d = "?h @ u16_bytes 4 @ u16_bytes 0 @ u16_bytes k @ post"
  have "be16 ?d (length ?h + 2) = 0" using be16_append [of 0 "?h @ u16_bytes 4"] by simp
  moreover have "be16 ?d (length ?h + 2 + 2) = k"
    using be16_append [OF assms(2), of "?h @ u16_bytes 4 @ u16_bytes 0" post] by (simp add: numeral_eq_Suc)
  ultimately have "sni_ext_loop ?d (length ?h + 2) (length ?h + 2 + 4) = Inl IndexOutOfBounds"
    unfolding sni_ext_loop.simps [of ?d "length ?h + 2"] using assms(3) by (simp add: Let_def)
  then show ?thesis using parse_sni_head [OF assms(1), of 4 "u16_bytes 0 @ u16_bytes k @ post"] by simp
qed

text \<open>
  A hello that arrives in two segments is not waited for: when the second look still finds only
  a part, the connection is treated as one without a name.
\<close>

theorem server_name_partial_ignored:
  assumes "5 \<le> length part" and "length part < 5 + be16 part 3" and "length part < 1024"
  shows "peek_tls_sni (Ready part) (Ready part) = Inr (Some (None, []))"
proof -
  define buf where "buf = part @ drop (length part) (replicate 1024 (CHR 0x00))"
  have first: "peek_into (replicate 1024 (CHR 0x00)) (Ready part) = Ready (length part, buf)"
    using assms(3) by (simp add: peek_into_def buf_def Let_def)
  have b: "be16 buf 3 = be16 part 3" using assms(1) by (simp add: be16_def byte_at_def nth_append buf_def)
  let ?t = "5 + be16 part 3"
  define buf' where "buf' = (if ?t > length buf then resize_zeros (min ?t 16384) buf else buf)"
  have l: "1024 \<le> length buf'" using assms(3) by (simp add: buf'_def resize_zeros_def buf_def)
  then have second: "peek_into buf' (Ready part) = Ready (length part, part @ drop (length part) buf')"
    using assms(3) by (simp add: peek_into_def Let_def)
  have "length part < min ?t (length (part @ drop (length part) buf'))" using assms l by simp
  then show ?thesis unfolding peek_tls_sni_def first using assms(1)
    by (simp add: Let_def b second flip: buf'_def)
qed

section \<open>Where a connection goes\<close>

text \<open>The routes the search prefers: specific ones before catch-all routes, then by priority.\<close>

definition tcp_best_route :: "'n ip_net_ops \<Rightarrow> string list \<Rightarrow> tcp_router_config dict \<Rightarrow> string \<Rightarrow> string option
    \<Rightarrow> socket_addr option \<Rightarrow> 'n tcp_rule tcp_route \<Rightarrow> bool" where
  "tcp_best_route N eps cfg ep sni client_addr r \<longleftrightarrow> tcp_route_applies N eps cfg ep sni client_addr r \<and>
     (\<forall>r'. tcp_route_applies N eps cfg ep sni client_addr r' \<longrightarrow>
       (l4_rule r = TcpCatchAll \<longrightarrow> l4_rule r' = TcpCatchAll) \<and>
       ((l4_rule r' = TcpCatchAll) = (l4_rule r = TcpCatchAll) \<longrightarrow> l4_priority r' \<le> l4_priority r))"

lemma match_connection_best:
  assumes "tcp_from_config N eps cfg = Inr ro"
  shows "case match_connection N ro ep sni client_addr of
      None \<Rightarrow> \<forall>r. \<not> tcp_route_applies N eps cfg ep sni client_addr r
    | Some r \<Rightarrow> tcp_best_route N eps cfg ep sni client_addr r"
  using match_connection_spec [OF assms, of ep sni client_addr] by (simp add: tcp_best_route_def split: option.splits)

text \<open>A backend that serves a connection: a server of the service, healthy if the service has a healthy one.\<close>

definition tcp_serves :: "tcp_backend_server l4_service \<Rightarrow> tcp_backend_server \<Rightarrow> bool" where
  "tcp_serves service b \<longleftrightarrow> list_ex (\<lambda>i. l4s_servers service ! i = b \<and> (True \<in> set (l4s_healthy service) \<longrightarrow> l4s_healthy service ! i))
     [0..<length (l4s_servers service)]"

lemma tcp_next_serves:
  assumes "l4_inv service" and "l4_no_wrap service" and "tcp_next_server service = (Some b, service')"
  shows "tcp_serves service b"
proof (cases "True \<in> set (l4s_healthy service)")
  case True
  with l4_next_healthy [OF assms(1,2)] assms(3) show ?thesis
    by (auto simp: tcp_serves_def tcp_next_server_def list_ex_iff)
next
  case False
  have "b \<in> set (l4s_servers service)"
    using l4.next_member [OF assms(1)] assms(3) by (simp add: tcp_next_server_def)
  with False show ?thesis by (auto simp: tcp_serves_def list_ex_iff in_set_conv_nth)
qed


definition tcp_config_example :: "tcp_router_config dict" where
  "tcp_config_example =
     [(''db'', \<lparr>trc_entry_points = [''tls''], trc_rule = ''HostSNI(`db.example.com`)'', trc_rule_syntax = None,
         trc_service = ''db'', trc_middlewares = [], trc_priority = 0, trc_tls = None\<rparr>),
      (''rest'', \<lparr>trc_entry_points = [], trc_rule = ''*'', trc_rule_syntax = None,
         trc_service = ''rest'', trc_middlewares = [], trc_priority = 5, trc_tls = None\<rparr>)]"

definition tcp_services_example :: "tcp_service_config dict" where
  "tcp_services_example =
     [(''db'', \<lparr>tsv_load_balancer = Some \<lparr>tlb_servers = [\<lparr>tsc_address = ''10.0.0.1:5432'', tsc_weight = 1, tsc_tls = False\<rparr>],
         tlb_servers_transport = None, tlb_proxy_protocol = None, tlb_termination_delay = None\<rparr>, tsv_weighted = None\<rparr>)]"

definition tcp_router_example :: "unit tcp_rule tcp_route l4_router" where
  "tcp_router_example = projr (tcp_from_config no_net [''tls''] tcp_config_example)"

lemma tcp_router_example: "tcp_from_config no_net [''tls''] tcp_config_example = Inr tcp_router_example"
proof -
  have "isl (tcp_from_config no_net [''tls''] tcp_config_example :: panic + unit tcp_rule tcp_route l4_router) = False" by code_simp
  then show ?thesis by (simp add: tcp_router_example_def)
qed

lemma tcp_services_example: "\<forall>service \<in> set (map snd (tcp_sm_new tcp_services_example)). l4_inv service \<and> l4_no_wrap service"
  by (simp add: tcp_sm_new_def tcp_services_example_def l4_service_new_def l4_inv_def l4_no_wrap_def map_filter_simps)


end
