(* ===== verification/Udp_Proxy.thy ===== *)
theory Udp_Proxy
  imports L4_Router L4_Service
begin

text \<open>
  \<open>UdpProxy\<close> of \<open>src/src/udp/proxy.rs\<close>: the session table, the handling of a datagram, the listeners
  that carry responses back, the cleanup task and the counters. Datagrams are handled by separate
  tasks, and a task that opens a session waits for its socket between looking the client up and
  storing the session; the step relation \<open>udp_step\<close> lets these tasks, the listeners and the cleanup
  interleave. Sockets are numbered in the order they are bound. The hash of the standard
  library, whose algorithm is not specified, is a parameter, as are the outcomes of sends and binds.
  The lemmas show that all datagrams of a client address go to one backend, that responses
  reach only the client whose datagrams opened the socket, and what the counters count.
\<close>

section \<open>Socket addresses\<close>

text \<open>\<open>SocketAddr\<close> with its parser; the last component is the scope of an IPv6 address.\<close>

type_synonym backend_addr = "socket_addr \<times> u32"

definition read_number :: "nat \<Rightarrow> string \<Rightarrow> (nat \<times> string) option" where
  "read_number bound s =
     (let ds = takeWhile is_ascii_digit s in
      if ds = [] \<or> digits_value ds \<ge> bound then None else Some (digits_value ds, drop (length ds) s))"

definition read_port :: "string \<Rightarrow> (u16 \<times> string) option" where
  "read_port s =
     (case s of
        c # r \<Rightarrow> if c = CHR '':'' then map_option (\<lambda>(n, r'). (of_nat n, r')) (read_number 65536 r) else None
      | [] \<Rightarrow> None)"

definition read_scope_id :: "string \<Rightarrow> (u32 \<times> string) option" where
  "read_scope_id s =
     (case s of
        c # r \<Rightarrow> if c = CHR ''%'' then map_option (\<lambda>(n, r'). (of_nat n, r')) (read_number 4294967296 r) else None
      | [] \<Rightarrow> None)"

definition read_socket_addr_v4 :: "string \<Rightarrow> (backend_addr \<times> string) option" where
  "read_socket_addr_v4 s =
     (case read_ipv4 s of
        Some (a, r) \<Rightarrow> map_option (\<lambda>(p, r'). (((V4 a, p), 0), r')) (read_port r)
      | None \<Rightarrow> None)"

definition read_socket_addr_v6 :: "string \<Rightarrow> (backend_addr \<times> string) option" where
  "read_socket_addr_v6 s =
     (case strip_prefix ''['' s of
        None \<Rightarrow> None
      | Some r \<Rightarrow>
          (case read_ipv6 r of
             None \<Rightarrow> None
           | Some (a, r) \<Rightarrow>
               let (scope, r) = (case read_scope_id r of Some x \<Rightarrow> x | None \<Rightarrow> (0, r)) in
               case strip_prefix '']'' r of
                 None \<Rightarrow> None
               | Some r \<Rightarrow> map_option (\<lambda>(p, r'). (((V6 a, p), scope), r')) (read_port r)))"

definition parse_socket_addr :: "string \<Rightarrow> backend_addr option" where
  "parse_socket_addr s =
     (case (case read_socket_addr_v4 s of Some x \<Rightarrow> Some x | None \<Rightarrow> read_socket_addr_v6 s) of
        Some (a, r) \<Rightarrow> if r = [] then Some a else None
      | None \<Rightarrow> None)"

section \<open>State\<close>

record udp_session =
  us_backend_addr :: backend_addr
  us_service_name :: string
  us_last_activity :: instant
  us_backend_socket :: nat

record udp_proxy =
  up_sessions :: "(socket_addr \<times> udp_session) list"
  up_session_timeout :: duration
  up_packets_received :: u64
  up_packets_sent :: u64
  up_bytes_received :: u64
  up_bytes_sent :: u64

definition udp_proxy_new :: udp_proxy where
  "udp_proxy_new = \<lparr>up_sessions = [], up_session_timeout = 60 * 1000000000, up_packets_received = 0, up_packets_sent = 0,
     up_bytes_received = 0, up_bytes_sent = 0\<rparr>"

definition udp_with_session_timeout :: "duration \<Rightarrow> udp_proxy \<Rightarrow> udp_proxy" where
  "udp_with_session_timeout t p = p\<lparr>up_session_timeout := t\<rparr>"

datatype listener_phase = Starting | Checking | Waiting

record udp_listener =
  ul_socket :: nat
  ul_client :: socket_addr
  ul_phase :: listener_phase
  ul_packets_received :: u64
  ul_packets_sent :: u64
  ul_bytes_received :: u64
  ul_bytes_sent :: u64

text \<open>A task between its lookup and its bind: client, datagram, backend and service.\<close>

type_synonym udp_pending = "socket_addr \<times> string \<times> backend_addr \<times> string"

text \<open>
  The proxy with what surrounds it: the services, the number of sockets bound, the waiting tasks,
  the listeners, the sessions the cleanup task is about to remove, and what was sent, to backends (socket, client, backend, datagram) and to clients
  (socket the response came from, client, response).
\<close>

record udp_world =
  uw_proxy :: udp_proxy
  uw_services :: "udp_backend_server l4_service dict"
  uw_sockets :: nat
  uw_pending :: "udp_pending list"
  uw_listeners :: "udp_listener list"
  uw_expired :: "socket_addr list"
  uw_sent :: "(nat \<times> socket_addr \<times> backend_addr \<times> string) list"
  uw_responses :: "(nat \<times> socket_addr \<times> string) list"

definition udp_start :: "udp_service_config dict \<Rightarrow> udp_proxy \<Rightarrow> udp_world" where
  "udp_start cfg p = \<lparr>uw_proxy = p, uw_services = udp_sm_new cfg, uw_sockets = 0, uw_pending = [], uw_listeners = [],
     uw_expired = [], uw_sent = [], uw_responses = []\<rparr>"

section \<open>Handling a datagram\<close>

definition hash_addr :: "(ip_addr \<Rightarrow> u64) \<Rightarrow> socket_addr \<Rightarrow> usize" where
  "hash_addr hasher addr = hasher (fst addr)"

definition udp_forward_to_backend :: "bool \<Rightarrow> socket_addr \<Rightarrow> nat \<Rightarrow> backend_addr \<Rightarrow> string \<Rightarrow> udp_world \<Rightarrow> bool \<times> udp_world" where
  "udp_forward_to_backend send_ok client sock backend data w =
     (if send_ok
      then let p = uw_proxy w in
           (True, w\<lparr>uw_proxy := p\<lparr>up_packets_sent := up_packets_sent p + 1, up_bytes_sent := up_bytes_sent p + of_nat (length data)\<rparr>,
             uw_sent := uw_sent w @ [(sock, client, backend, data)]\<rparr>)
      else (False, w))"

text \<open>From the routing of a datagram to the address of its backend.\<close>

definition udp_choose_backend :: "'n ip_net_ops \<Rightarrow> 'n udp_rule l4_route l4_router \<Rightarrow> (ip_addr \<Rightarrow> u64) \<Rightarrow> string \<Rightarrow> socket_addr
    \<Rightarrow> udp_backend_server l4_service dict \<Rightarrow> (backend_addr \<times> string) option \<times> udp_backend_server l4_service dict" where
  "udp_choose_backend N router hasher ep client sm =
     (case match_datagram N router ep (Some client) of
        None \<Rightarrow> (None, sm)
      | Some route \<Rightarrow>
          (case udp_get_service sm (l4_service_name route) of
             None \<Rightarrow> (None, sm)
           | Some service \<Rightarrow>
               let (backend, service') = get_server_by_hash (hash_addr hasher client) service;
                   sm' = dict_insert (l4_service_name route) service' sm
               in case backend of
                    None \<Rightarrow> (None, sm')
                  | Some b \<Rightarrow> (map_option (\<lambda>a. (a, l4_service_name route)) (parse_socket_addr (ubs_address b)), sm')))"

text \<open>
  The receive loop counts the datagram. The task then forwards it within the session of its
  client, or finds a backend and goes on to open a session.
\<close>

definition udp_count_received :: "string \<Rightarrow> udp_world \<Rightarrow> udp_world" where
  "udp_count_received data w =
     (let p = uw_proxy w in
      w\<lparr>uw_proxy := p\<lparr>up_packets_received := up_packets_received p + 1,
         up_bytes_received := up_bytes_received p + of_nat (length data)\<rparr>\<rparr>)"

definition udp_touch :: "socket_addr \<Rightarrow> instant \<Rightarrow> udp_world \<Rightarrow> udp_world" where
  "udp_touch client now w =
     (case dict_get (up_sessions (uw_proxy w)) client of
        None \<Rightarrow> w
      | Some s \<Rightarrow> w\<lparr>uw_proxy := (uw_proxy w)\<lparr>up_sessions :=
          dict_insert client (s\<lparr>us_last_activity := now\<rparr>) (up_sessions (uw_proxy w))\<rparr>\<rparr>)"

definition udp_lookup :: "'n ip_net_ops \<Rightarrow> 'n udp_rule l4_route l4_router \<Rightarrow> (ip_addr \<Rightarrow> u64) \<Rightarrow> string
    \<Rightarrow> instant \<Rightarrow> bool \<Rightarrow> socket_addr \<Rightarrow> string \<Rightarrow> udp_world \<Rightarrow> udp_pending option \<times> udp_world" where
  "udp_lookup N router hasher ep now send_ok client data w =
     (case dict_get (up_sessions (uw_proxy w)) client of
        Some s \<Rightarrow> (None, snd (udp_forward_to_backend send_ok client (us_backend_socket s) (us_backend_addr s) data (udp_touch client now w)))
      | None \<Rightarrow>
          let (found, sm) = udp_choose_backend N router hasher ep client (uw_services w); w' = w\<lparr>uw_services := sm\<rparr> in
          (map_option (\<lambda>(addr, svc). (client, data, addr, svc)) found, w'))"

definition udp_open :: "bool \<Rightarrow> bool \<Rightarrow> instant \<Rightarrow> udp_pending \<Rightarrow> udp_world \<Rightarrow> udp_world" where
  "udp_open bind_ok send_ok now pd w =
     (let (client, data, addr, svc) = pd in
      if \<not> bind_ok then w
      else let sock = uw_sockets w;
               session = \<lparr>us_backend_addr = addr, us_service_name = svc, us_last_activity = now, us_backend_socket = sock\<rparr>;
               w1 = w\<lparr>uw_sockets := sock + 1,
                  uw_proxy := (uw_proxy w)\<lparr>up_sessions := dict_insert client session (up_sessions (uw_proxy w))\<rparr>\<rparr>;
               (sent, w2) = udp_forward_to_backend send_ok client sock addr data w1
           in if sent
              then w2\<lparr>uw_listeners := uw_listeners w2 @ [\<lparr>ul_socket = sock, ul_client = client, ul_phase = Starting,
                ul_packets_received = 0, ul_packets_sent = 0, ul_bytes_received = 0, ul_bytes_sent = 0\<rparr>]\<rparr>
              else w2)"

text \<open>A task that runs without being interleaved.\<close>

definition udp_handle_datagram :: "'n ip_net_ops \<Rightarrow> 'n udp_rule l4_route l4_router \<Rightarrow> (ip_addr \<Rightarrow> u64) \<Rightarrow> string
    \<Rightarrow> instant \<Rightarrow> bool \<Rightarrow> bool \<Rightarrow> socket_addr \<Rightarrow> string \<Rightarrow> udp_world \<Rightarrow> udp_world" where
  "udp_handle_datagram N router hasher ep now bind_ok send_ok client data w =
     (case udp_lookup N router hasher ep now send_ok client data w of
        (None, w') \<Rightarrow> w'
      | (Some pd, w') \<Rightarrow> udp_open bind_ok send_ok now pd w')"

section \<open>Listeners and cleanup\<close>

definition udp_remove_session :: "socket_addr \<Rightarrow> udp_world \<Rightarrow> udp_world" where
  "udp_remove_session client w = w\<lparr>uw_proxy := (uw_proxy w)\<lparr>up_sessions := dict_remove client (up_sessions (uw_proxy w))\<rparr>\<rparr>"

definition drop_nth :: "nat \<Rightarrow> 'a list \<Rightarrow> 'a list" where
  "drop_nth i xs = take i xs @ drop (Suc i) xs"

text \<open>A listener binds its response socket; without one it returns at once.\<close>

definition udp_listener_start :: "bool \<Rightarrow> nat \<Rightarrow> udp_world \<Rightarrow> udp_world" where
  "udp_listener_start bind_ok i w =
     (if bind_ok then w\<lparr>uw_listeners := (uw_listeners w)[i := (uw_listeners w ! i)\<lparr>ul_phase := Checking\<rparr>], uw_sockets := uw_sockets w + 1\<rparr>
      else w\<lparr>uw_listeners := drop_nth i (uw_listeners w)\<rparr>)"

text \<open>The end of the loop removes whatever session the client has.\<close>

definition udp_listener_end :: "nat \<Rightarrow> udp_world \<Rightarrow> udp_world" where
  "udp_listener_end i w =
     udp_remove_session (ul_client (uw_listeners w ! i)) (w\<lparr>uw_listeners := drop_nth i (uw_listeners w)\<rparr>)"

definition udp_listener_check :: "nat \<Rightarrow> udp_world \<Rightarrow> udp_world" where
  "udp_listener_check i w =
     (if contains_key (up_sessions (uw_proxy w)) (ul_client (uw_listeners w ! i))
      then w\<lparr>uw_listeners := (uw_listeners w)[i := (uw_listeners w ! i)\<lparr>ul_phase := Waiting\<rparr>]\<rparr>
      else udp_listener_end i w)"

definition udp_listener_response :: "instant \<Rightarrow> bool \<Rightarrow> string \<Rightarrow> nat \<Rightarrow> udp_world \<Rightarrow> udp_world" where
  "udp_listener_response now send_ok data i w =
     (let l = uw_listeners w ! i;
          l1 = l\<lparr>ul_packets_received := ul_packets_received l + 1, ul_bytes_received := ul_bytes_received l + of_nat (length data)\<rparr>;
          w1 = udp_touch (ul_client l) now w;
          l2 = (if send_ok then l1\<lparr>ul_packets_sent := ul_packets_sent l1 + 1, ul_bytes_sent := ul_bytes_sent l1 + of_nat (length data)\<rparr> else l1)
      in w1\<lparr>uw_listeners := (uw_listeners w1)[i := l2\<lparr>ul_phase := Checking\<rparr>],
            uw_responses := uw_responses w1 @ (if send_ok then [(ul_socket l, ul_client l, data)] else [])\<rparr>)"

definition udp_collect_expired :: "instant \<Rightarrow> udp_world \<Rightarrow> socket_addr list" where
  "udp_collect_expired now w =
     (let p = uw_proxy w
      in map fst (filter (\<lambda>(addr, s). now - us_last_activity s > up_session_timeout p) (up_sessions p)))"

definition udp_cleanup_expired_sessions :: "instant \<Rightarrow> udp_world \<Rightarrow> udp_world" where
  "udp_cleanup_expired_sessions now w = foldl (\<lambda>w addr. udp_remove_session addr w) w (udp_collect_expired now w)"

definition udp_metrics :: "udp_world \<Rightarrow> u64 \<times> u64 \<times> u64 \<times> u64 \<times> nat" where
  "udp_metrics w = (let p = uw_proxy w in
     (up_packets_received p, up_packets_sent p, up_bytes_received p, up_bytes_sent p, length (up_sessions p)))"

section \<open>Interleaving\<close>

inductive udp_step :: "'n ip_net_ops \<Rightarrow> 'n udp_rule l4_route l4_router \<Rightarrow> (ip_addr \<Rightarrow> u64) \<Rightarrow> string \<Rightarrow> udp_world \<Rightarrow> udp_world \<Rightarrow> bool"
  for N router hasher ep where
  receive_step: "udp_lookup N router hasher ep now send_ok client data (udp_count_received data w) = (pd, w') \<Longrightarrow>
     udp_step N router hasher ep w (w'\<lparr>uw_pending := uw_pending w' @ (case pd of Some x \<Rightarrow> [x] | None \<Rightarrow> [])\<rparr>)"
| open_step: "i < length (uw_pending w) \<Longrightarrow>
     udp_step N router hasher ep w
       (udp_open bind_ok send_ok now (uw_pending w ! i) (w\<lparr>uw_pending := drop_nth i (uw_pending w)\<rparr>))"
| start_step: "i < length (uw_listeners w) \<Longrightarrow> ul_phase (uw_listeners w ! i) = Starting \<Longrightarrow>
     udp_step N router hasher ep w (udp_listener_start bind_ok i w)"
| check_step: "i < length (uw_listeners w) \<Longrightarrow> ul_phase (uw_listeners w ! i) = Checking \<Longrightarrow>
     udp_step N router hasher ep w (udp_listener_check i w)"
| response_step: "i < length (uw_listeners w) \<Longrightarrow> ul_phase (uw_listeners w ! i) = Waiting \<Longrightarrow>
     udp_step N router hasher ep w (udp_listener_response now send_ok data i w)"
| timeout_step: "i < length (uw_listeners w) \<Longrightarrow> ul_phase (uw_listeners w ! i) = Waiting \<Longrightarrow>
     udp_step N router hasher ep w (udp_listener_end i w)"
| collect_step: "udp_step N router hasher ep w (w\<lparr>uw_expired := uw_expired w @ udp_collect_expired now w\<rparr>)"
| remove_step: "i < length (uw_expired w) \<Longrightarrow>
     udp_step N router hasher ep w (udp_remove_session (uw_expired w ! i) (w\<lparr>uw_expired := drop_nth i (uw_expired w)\<rparr>))"

definition udp_reach :: "'n ip_net_ops \<Rightarrow> 'n udp_rule l4_route l4_router \<Rightarrow> (ip_addr \<Rightarrow> u64) \<Rightarrow> string \<Rightarrow> udp_world \<Rightarrow> udp_world \<Rightarrow> bool" where
  "udp_reach N router hasher ep = (udp_step N router hasher ep)\<^sup>*\<^sup>*"

section \<open>One backend per client address\<close>

definition udp_backend_of :: "'n ip_net_ops \<Rightarrow> 'n udp_rule l4_route l4_router \<Rightarrow> (ip_addr \<Rightarrow> u64) \<Rightarrow> string
    \<Rightarrow> udp_backend_server l4_service dict \<Rightarrow> socket_addr \<Rightarrow> backend_addr option" where
  "udp_backend_of N router hasher ep sm client = map_option fst (fst (udp_choose_backend N router hasher ep client sm))"

text \<open>No service has an unhealthy server. The proxy never marks one.\<close>

definition all_healthy :: "udp_backend_server l4_service dict \<Rightarrow> bool" where
  "all_healthy sm \<longleftrightarrow> list_all (\<lambda>(name, service). l4_inv service \<and> False \<notin> set (l4s_healthy service)) sm"

lemma udp_rule_matches_ip: "fst a = fst b \<Longrightarrow> udp_rule_matches N (Some a) r = udp_rule_matches N (Some b) r"
  by (cases r) simp_all

text \<open>The backend depends on the IP address alone.\<close>

lemma udp_backend_of_ip:
  assumes "fst a = fst b"
  shows "udp_backend_of N router hasher ep sm a = udp_backend_of N router hasher ep sm b"
proof -
  have "udp_rule_matches N (Some a) = udp_rule_matches N (Some b)" using udp_rule_matches_ip [OF assms] by blast
  then have "match_datagram N router ep (Some a) = match_datagram N router ep (Some b)"
    unfolding match_datagram_def l4_match_def by (simp only:)
  moreover have "hash_addr hasher a = hash_addr hasher b" using assms by (simp add: hash_addr_def)
  ultimately show ?thesis unfolding udp_backend_of_def udp_choose_backend_def by (simp only:)
qed

lemma get_server_by_hash_healthy:
  assumes "l4_inv service" and "False \<notin> set (l4s_healthy service)"
  shows "get_server_by_hash hash service =
    (if l4s_servers service = [] then None else Some (l4s_servers service ! unat (hash mod of_nat (length (l4s_servers service)))), service)"
proof (cases "l4s_servers service = []")
  case False
  then have "unat (hash mod of_nat (length (l4s_servers service))) < length (l4s_servers service)"
    using assms(1) by (intro unat_mod_of_nat_lt) (simp_all add: l4_inv_def)
  then have "l4s_healthy service ! unat (hash mod of_nat (length (l4s_servers service)))"
    using assms by (intro all_true_nth) (simp_all add: l4_inv_def)
  with False show ?thesis by (simp add: get_server_by_hash_def)
qed (simp add: get_server_by_hash_def)

lemma all_healthyD: "all_healthy sm \<Longrightarrow> dict_get sm name = Some service \<Longrightarrow> l4_inv service \<and> False \<notin> set (l4s_healthy service)"
  by (auto simp: all_healthy_def list_all_iff dict_get_def dest: map_of_SomeD)

lemma udp_choose_backend_frame:
  assumes "all_healthy sm" shows "snd (udp_choose_backend N router hasher ep client sm) = sm"
proof -
  have "dict_insert name service sm = sm" if "dict_get sm name = Some service" for name service
    using that by (simp add: dict_insert_def dict_get_def update_triv)
  then show ?thesis using all_healthyD [OF assms]
    by (auto simp: udp_choose_backend_def udp_get_service_def get_server_by_hash_healthy split: option.splits)
qed

text \<open>The invariant: sessions, waiting tasks and sent datagrams all agree with the choice for the address.\<close>

definition udp_affine :: "(socket_addr \<Rightarrow> backend_addr option) \<Rightarrow> udp_backend_server l4_service dict \<Rightarrow> udp_world \<Rightarrow> bool" where
  "udp_affine backend sm w \<longleftrightarrow> uw_services w = sm \<and>
     (\<forall>c s. dict_get (up_sessions (uw_proxy w)) c = Some s \<longrightarrow> backend c = Some (us_backend_addr s)) \<and>
     (\<forall>(c, d, a, svc) \<in> set (uw_pending w). backend c = Some a) \<and>
     (\<forall>(k, c, a, d) \<in> set (uw_sent w). backend c = Some a)"

lemma set_drop_nth: "set (drop_nth i xs) \<subseteq> set xs"
  by (auto simp: drop_nth_def dest: in_set_takeD in_set_dropD)

lemma udp_touch_sessions:
  "dict_get (up_sessions (uw_proxy (udp_touch client now w))) c =
     map_option (\<lambda>s. if c = client then s\<lparr>us_last_activity := now\<rparr> else s) (dict_get (up_sessions (uw_proxy w)) c)"
  by (cases "dict_get (up_sessions (uw_proxy w)) c") (auto simp: udp_touch_def dict_simps split: option.splits)

lemma udp_touch_frame:
  "uw_services (udp_touch client now w) = uw_services w" "uw_pending (udp_touch client now w) = uw_pending w"
  "uw_sent (udp_touch client now w) = uw_sent w" "uw_sockets (udp_touch client now w) = uw_sockets w"
  "uw_listeners (udp_touch client now w) = uw_listeners w" "uw_responses (udp_touch client now w) = uw_responses w"
  "up_packets_sent (uw_proxy (udp_touch client now w)) = up_packets_sent (uw_proxy w)"
  "up_bytes_sent (uw_proxy (udp_touch client now w)) = up_bytes_sent (uw_proxy w)"
  by (simp_all add: udp_touch_def split: option.splits)

lemmas udp_listener_defs = udp_listener_start_def udp_listener_check_def udp_listener_end_def udp_remove_session_def

lemma udp_affine_lookup:
  assumes "udp_affine backend sm w" and "backend = udp_backend_of N router hasher ep sm" and "all_healthy sm"
    and "udp_lookup N router hasher ep now send_ok client data w = (pd, w')"
  shows "udp_affine backend sm (w'\<lparr>uw_pending := uw_pending w' @ (case pd of Some x \<Rightarrow> [x] | None \<Rightarrow> [])\<rparr>)"
proof (cases "dict_get (up_sessions (uw_proxy w)) client")
  case None
  obtain found sm' where f: "udp_choose_backend N router hasher ep client sm = (found, sm')"
    by (cases "udp_choose_backend N router hasher ep client sm")
  then have "sm' = sm" using udp_choose_backend_frame [OF assms(3), of N router hasher ep client] by simp
  moreover have "backend client = map_option fst found" by (simp add: assms(3) assms(2) udp_backend_of_def f)
  ultimately show ?thesis using None f assms(1,4)
    by (cases found) (auto simp: udp_lookup_def udp_affine_def simp del: split_paired_All)
next
  case (Some s)
  with assms(1,4) show ?thesis
    by (cases send_ok) (auto simp: udp_lookup_def udp_affine_def udp_forward_to_backend_def udp_touch_sessions udp_touch_frame Let_def
      simp del: split_paired_All)
qed

lemma udp_affine_open:
  assumes "udp_affine backend sm w" and "backend (fst pd) = Some (fst (snd (snd pd)))"
  shows "udp_affine backend sm (udp_open bind_ok send_ok now pd w)"
  using assms by (auto simp: udp_open_def udp_affine_def udp_forward_to_backend_def dict_simps Let_def split: prod.splits)

lemma udp_affine_step:
  assumes "udp_step N router hasher ep w w'" and "udp_affine backend sm w"
    and "backend = udp_backend_of N router hasher ep sm" and "all_healthy sm"
  shows "udp_affine backend sm w'"
  using assms(1,2)
proof cases
  case (receive_step now send_ok client data pd w1)
  have "udp_affine backend sm (udp_count_received data w)"
    using assms(2) by (simp add: udp_affine_def udp_count_received_def Let_def)
  from udp_affine_lookup [OF this assms(3,4) receive_step(2)] show ?thesis unfolding receive_step(1) .
next
  case (open_step i bind_ok send_ok now)
  have "uw_pending w ! i \<in> set (uw_pending w)" using open_step by simp
  then have "backend (fst (uw_pending w ! i)) = Some (fst (snd (snd (uw_pending w ! i))))"
    using assms(2) by (force simp: udp_affine_def)
  moreover have "udp_affine backend sm (w\<lparr>uw_pending := drop_nth i (uw_pending w)\<rparr>)"
    using assms(2) set_drop_nth [of i "uw_pending w"] by (auto simp: udp_affine_def)
  ultimately show ?thesis unfolding open_step(1) by (intro udp_affine_open)
next
  case (response_step i now send_ok data)
  with assms(2) show ?thesis
    by (auto simp: udp_affine_def udp_listener_response_def udp_touch_sessions udp_touch_frame Let_def simp del: split_paired_All)
qed (auto simp: udp_affine_def udp_listener_defs dict_simps)

lemma udp_affine_reach:
  assumes "udp_reach N router hasher ep w w'" and "udp_affine backend sm w"
    and "backend = udp_backend_of N router hasher ep sm" and "all_healthy sm"
  shows "udp_affine backend sm w'"
  using assms(1) unfolding udp_reach_def
  by (induction rule: rtranclp_induct) (use assms udp_affine_step in blast)+

lemma all_healthy_new:
  assumes "\<forall>(name, sc) \<in> set cfg. \<forall>lb. usv_load_balancer sc = Some lb \<longrightarrow> length (ulb_servers lb) < 2 ^ 63"
  shows "all_healthy (udp_sm_new cfg)"
  using assms by (fastforce simp: all_healthy_def udp_sm_new_def list_all_iff l4_service_new_def l4_inv_def List.map_filter_def
    split: option.splits)

lemma udp_affine_start: "all_healthy (udp_sm_new cfg) \<Longrightarrow> udp_affine backend (udp_sm_new cfg) (udp_start cfg udp_proxy_new)"
  by (simp add: udp_affine_def udp_start_def udp_proxy_new_def)

text \<open>
  C37. Session affinity: however the tasks, listeners and cleanups of an entrypoint interleave, every
  datagram that leaves for a backend goes to the one backend that the route and the hash of the
  client's IP address select, so two datagrams from one address, from whatever ports, never reach
  different backends.
\<close>

theorem udp_client_affinity:
  assumes "\<forall>(name, sc) \<in> set cfg. \<forall>lb. usv_load_balancer sc = Some lb \<longrightarrow> length (ulb_servers lb) < 2 ^ 63"
    and "udp_reach N router hasher ep (udp_start cfg udp_proxy_new) w"
    and "(k, c, a, d) \<in> set (uw_sent w)" and "(k', c', a', d') \<in> set (uw_sent w)" and "fst c = fst c'"
  shows "a = a' \<and> udp_backend_of N router hasher ep (udp_sm_new cfg) c = Some a"
proof -
  note h = all_healthy_new [OF assms(1)]
  let ?b = "udp_backend_of N router hasher ep (udp_sm_new cfg)"
  have inv: "udp_affine ?b (udp_sm_new cfg) w"
    using udp_affine_reach [OF assms(2) udp_affine_start [OF h] refl h] .
  then have sent: "\<forall>(k, c, a, d) \<in> set (uw_sent w). ?b c = Some a" unfolding udp_affine_def by blast
  have "?b c = Some a" "?b c' = Some a'" using bspec [OF sent assms(3)] bspec [OF sent assms(4)] by simp_all
  with udp_backend_of_ip [OF assms(5), of N router hasher ep "udp_sm_new cfg"] show ?thesis by simp
qed

section \<open>Responses\<close>

text \<open>Sockets with their clients: of the datagrams sent, of the listeners, and of the responses.\<close>

definition sent_by :: "udp_world \<Rightarrow> (nat \<times> socket_addr) list" where
  "sent_by w = map (\<lambda>(k, c, a, d). (k, c)) (uw_sent w)"

definition listened :: "udp_world \<Rightarrow> (nat \<times> socket_addr) list" where
  "listened w = map (\<lambda>l. (ul_socket l, ul_client l)) (uw_listeners w)"

definition responded :: "udp_world \<Rightarrow> (nat \<times> socket_addr) list" where
  "responded w = map (\<lambda>(k, c, d). (k, c)) (uw_responses w)"

definition owned :: "(nat \<Rightarrow> socket_addr) \<Rightarrow> nat \<Rightarrow> nat \<Rightarrow> socket_addr \<Rightarrow> bool" where
  "owned own n k c \<longleftrightarrow> k < n \<and> own k = c"

text \<open>Every socket belongs to one client, and a listener has a socket that its client has used.\<close>

definition udp_owned :: "(nat \<Rightarrow> socket_addr) \<Rightarrow> udp_world \<Rightarrow> bool" where
  "udp_owned own w \<longleftrightarrow>
     (\<forall>p \<in> set (sent_by w). owned own (uw_sockets w) (fst p) (snd p)) \<and>
     (\<forall>c s. dict_get (up_sessions (uw_proxy w)) c = Some s \<longrightarrow> owned own (uw_sockets w) (us_backend_socket s) c) \<and>
     set (listened w) \<subseteq> set (sent_by w) \<and> set (responded w) \<subseteq> set (sent_by w)"

lemma owned_fresh: "owned own n k c \<Longrightarrow> owned (own(n := x)) (Suc n) k c" "owned (own(n := x)) (Suc n) n x"
  by (auto simp: owned_def)

lemmas udp_owned_defs = udp_owned_def sent_by_def listened_def responded_def

lemma udp_owned_frame:
  assumes "udp_owned own w" and "up_sessions (uw_proxy w') = up_sessions (uw_proxy w)" and "uw_sockets w' = uw_sockets w"
    and "uw_sent w' = uw_sent w" and "uw_listeners w' = uw_listeners w" and "uw_responses w' = uw_responses w"
  shows "udp_owned own w'"
  using assms(1) unfolding udp_owned_defs assms(2-6) .

lemma udp_owned_lookup:
  assumes "udp_owned own w" and "udp_lookup N router hasher ep now send_ok client data w = (pd, w')"
  shows "udp_owned own (w'\<lparr>uw_pending := ps\<rparr>)"
proof (cases "dict_get (up_sessions (uw_proxy w)) client")
  case None
  with assms(2) show ?thesis
    by (intro udp_owned_frame [OF assms(1)]) (auto simp: udp_lookup_def split: prod.splits)
next
  case (Some s)
  then have "owned own (uw_sockets w) (us_backend_socket s) client" using assms(1) unfolding udp_owned_def by blast
  moreover have "sent_by (w'\<lparr>uw_pending := ps\<rparr>) = sent_by w @ (if send_ok then [(us_backend_socket s, client)] else [])"
    "listened (w'\<lparr>uw_pending := ps\<rparr>) = listened w" "responded (w'\<lparr>uw_pending := ps\<rparr>) = responded w"
    "uw_sockets w' = uw_sockets w" "up_sessions (uw_proxy w') = up_sessions (uw_proxy (udp_touch client now w))"
    using Some assms(2) by (auto simp: udp_lookup_def udp_forward_to_backend_def sent_by_def listened_def responded_def udp_touch_frame Let_def)
  ultimately show ?thesis using assms(1)
    by (auto simp: udp_owned_def udp_touch_sessions simp del: split_paired_All split: if_splits)
qed

lemma udp_owned_open:
  assumes "udp_owned own w"
  shows "udp_owned (own(uw_sockets w := fst pd)) (udp_open True send_ok now pd w)"
proof -
  obtain client data addr svc where pd: "pd = (client, data, addr, svc)" by (cases pd)
  let ?w = "udp_open True send_ok now pd w" and ?own = "own(uw_sockets w := client)"
  have sent: "set (sent_by ?w) = set (sent_by w) \<union> (if send_ok then {(uw_sockets w, client)} else {})"
    and n: "uw_sockets ?w = Suc (uw_sockets w)"
    and lis: "set (listened ?w) = set (listened w) \<union> (if send_ok then {(uw_sockets w, client)} else {})"
    and res: "responded ?w = responded w"
    by (auto simp: udp_open_def pd udp_forward_to_backend_def sent_by_def listened_def responded_def Let_def)
  have ses: "dict_get (up_sessions (uw_proxy ?w)) c =
      (if c = client then Some \<lparr>us_backend_addr = addr, us_service_name = svc, us_last_activity = now, us_backend_socket = uw_sockets w\<rparr>
       else dict_get (up_sessions (uw_proxy w)) c)" for c
    by (auto simp: udp_open_def pd udp_forward_to_backend_def dict_simps Let_def)
  from assms have "\<forall>p \<in> set (sent_by ?w). owned ?own (uw_sockets ?w) (fst p) (snd p)"
    unfolding sent n udp_owned_def by (auto simp: owned_fresh simp del: fun_upd_apply)
  moreover have "owned ?own (uw_sockets ?w) (us_backend_socket s) c" if "dict_get (up_sessions (uw_proxy ?w)) c = Some s" for c s
    using assms that unfolding ses n udp_owned_def
    by (auto simp: owned_fresh simp del: fun_upd_apply split_paired_All split: if_splits)
  moreover have "set (listened ?w) \<subseteq> set (sent_by ?w)" "set (responded ?w) \<subseteq> set (sent_by ?w)"
    using assms unfolding sent lis res udp_owned_def by auto
  ultimately show ?thesis unfolding udp_owned_def by (simp add: pd)
qed

lemma udp_owned_response:
  assumes "udp_owned own w" and "i < length (uw_listeners w)"
  shows "udp_owned own (udp_listener_response now send_ok data i w)"
proof -
  let ?l = "uw_listeners w ! i" and ?w = "udp_listener_response now send_ok data i w"
  have "?l \<in> set (uw_listeners w)" using assms(2) by simp
  then have "(ul_socket ?l, ul_client ?l) \<in> set (sent_by w)" using assms(1) by (force simp: udp_owned_def listened_def)
  moreover have "listened ?w = listened w"
    using assms(2) by (simp add: listened_def udp_listener_response_def udp_touch_frame Let_def map_update_same)
  moreover have "sent_by ?w = sent_by w" "uw_sockets ?w = uw_sockets w"
    "responded ?w = responded w @ (if send_ok then [(ul_socket ?l, ul_client ?l)] else [])"
    by (simp_all add: sent_by_def responded_def udp_listener_response_def udp_touch_frame Let_def)
  moreover have "up_sessions (uw_proxy ?w) = up_sessions (uw_proxy (udp_touch (ul_client ?l) now w))"
    by (simp add: udp_listener_response_def Let_def)
  ultimately show ?thesis using assms(1)
    by (auto simp: udp_owned_def udp_touch_sessions simp del: split_paired_All split: if_splits)
qed

lemma listened_drop: "set (listened (w\<lparr>uw_listeners := drop_nth i (uw_listeners w)\<rparr>)) \<subseteq> set (listened w)"
  using set_drop_nth [of i "uw_listeners w"] by (auto simp: listened_def)

lemma listened_phase: "i < length (uw_listeners w) \<Longrightarrow>
    listened (w\<lparr>uw_listeners := (uw_listeners w)[i := (uw_listeners w ! i)\<lparr>ul_phase := x\<rparr>]\<rparr>) = listened w"
  by (simp add: listened_def map_update_same)

lemma udp_owned_remove: "udp_owned own w \<Longrightarrow> udp_owned own (udp_remove_session c w)"
  by (auto simp: udp_owned_defs udp_remove_session_def dict_simps simp del: split_paired_All split: if_splits)

lemma udp_owned_listeners:
  "udp_owned own w \<Longrightarrow> set (listened (w\<lparr>uw_listeners := ls\<rparr>)) \<subseteq> set (listened w) \<Longrightarrow> udp_owned own (w\<lparr>uw_listeners := ls\<rparr>)"
proof -
  assume w: "udp_owned own w" and l: "set (listened (w\<lparr>uw_listeners := ls\<rparr>)) \<subseteq> set (listened w)"
  have "sent_by (w\<lparr>uw_listeners := ls\<rparr>) = sent_by w" "responded (w\<lparr>uw_listeners := ls\<rparr>) = responded w"
    by (simp_all add: sent_by_def responded_def)
  with w subset_trans [OF l] show ?thesis unfolding udp_owned_def by simp
qed

lemma udp_owned_end: "udp_owned own w \<Longrightarrow> udp_owned own (udp_listener_end i w)"
  unfolding udp_listener_end_def by (intro udp_owned_remove udp_owned_listeners listened_drop)

lemma udp_owned_more_sockets: "udp_owned own w \<Longrightarrow> udp_owned own (w\<lparr>uw_sockets := Suc (uw_sockets w)\<rparr>)"
  by (fastforce simp: udp_owned_defs owned_def simp del: split_paired_All)

lemma udp_owned_step:
  assumes "udp_step N router hasher ep w w'" and "udp_owned own w"
  shows "\<exists>own'. udp_owned own' w'"
  using assms(1,2)
proof cases
  case (receive_step now send_ok client data pd w1)
  have "udp_owned own (udp_count_received data w)"
    by (rule udp_owned_frame [OF assms(2)]) (simp_all add: udp_count_received_def Let_def)
  from udp_owned_lookup [OF this receive_step(2)] show ?thesis unfolding receive_step(1) by blast
next
  case (open_step i bind_ok send_ok now)
  have w: "udp_owned own (w\<lparr>uw_pending := drop_nth i (uw_pending w)\<rparr>)"
    by (rule udp_owned_frame [OF assms(2)]) simp_all
  show ?thesis
  proof (cases bind_ok)
    case True
    from udp_owned_open [OF w, of "uw_pending w ! i" send_ok now] show ?thesis unfolding open_step(1) eqTrueI [OF True] by blast
  next
    case False
    with w show ?thesis unfolding open_step(1) by (auto simp: udp_open_def)
  qed
next
  case (start_step i bind_ok)
  show ?thesis
  proof (cases bind_ok)
    case True
    have "udp_owned own (w\<lparr>uw_listeners := (uw_listeners w)[i := (uw_listeners w ! i)\<lparr>ul_phase := Checking\<rparr>]\<rparr>)"
      using assms(2) listened_phase [OF start_step(2)] by (intro udp_owned_listeners) simp_all
    from udp_owned_more_sockets [OF this] True show ?thesis unfolding start_step(1) by (auto simp: udp_listener_start_def)
  next
    case False
    with udp_owned_listeners [OF assms(2) listened_drop] show ?thesis
      unfolding start_step(1) by (auto simp: udp_listener_start_def)
  qed
next
  case (check_step i)
  have "udp_owned own (w\<lparr>uw_listeners := (uw_listeners w)[i := (uw_listeners w ! i)\<lparr>ul_phase := Waiting\<rparr>]\<rparr>)"
    using assms(2) listened_phase [OF check_step(2)] by (intro udp_owned_listeners) simp_all
  with udp_owned_end [OF assms(2)] show ?thesis unfolding check_step(1) by (auto simp: udp_listener_check_def)
next
  case (response_step i now send_ok data)
  with udp_owned_response [OF assms(2)] show ?thesis by blast
next
  case (timeout_step i)
  with udp_owned_end [OF assms(2)] show ?thesis by blast
next
  case (collect_step now)
  have "udp_owned own w'" unfolding collect_step by (rule udp_owned_frame [OF assms(2)]) simp_all
  then show ?thesis by blast
next
  case (remove_step i)
  have "udp_owned own (w\<lparr>uw_expired := drop_nth i (uw_expired w)\<rparr>)" by (rule udp_owned_frame [OF assms(2)]) simp_all
  from udp_owned_remove [OF this] show ?thesis unfolding remove_step(1) by blast
qed

lemma udp_owned_reach:
  assumes "udp_reach N router hasher ep (udp_start cfg p) w" and "up_sessions p = []"
  shows "\<exists>own. udp_owned own w"
  using assms(1) unfolding udp_reach_def
proof (induction rule: rtranclp_induct)
  case base
  then show ?case by (auto simp: udp_owned_defs udp_start_def assms(2))
next
  case (step w w')
  then show ?case using udp_owned_step by blast
qed

text \<open>
  C38. Responses are not mixed up: a response is sent to a client only from a socket on which the proxy
  has sent a datagram of that client, and never from one that carried a datagram of another.
\<close>

theorem udp_responses_isolated:
  assumes "udp_reach N router hasher ep (udp_start cfg udp_proxy_new) w" and "(k, c, r) \<in> set (uw_responses w)"
  shows "(\<exists>a d. (k, c, a, d) \<in> set (uw_sent w)) \<and> (\<forall>c' a d. (k, c', a, d) \<in> set (uw_sent w) \<longrightarrow> c' = c)"
proof -
  obtain own where own: "udp_owned own w" using udp_owned_reach [OF assms(1)] by (auto simp: udp_proxy_new_def)
  then have by_own: "\<forall>p \<in> set (sent_by w). own (fst p) = snd p" and sub: "set (responded w) \<subseteq> set (sent_by w)"
    by (auto simp: udp_owned_def owned_def)
  have "(k, c) \<in> set (responded w)" using assms(2) by (force simp: responded_def)
  then have kc: "(k, c) \<in> set (sent_by w)" using sub by blast
  have "c' = c" if "(k, c', a, d) \<in> set (uw_sent w)" for c' a d
  proof -
    have "(k, c') \<in> set (sent_by w)" using that by (force simp: sent_by_def)
    then show ?thesis using bspec [OF by_own kc] bspec [OF by_own] by fastforce
  qed
  moreover have "\<exists>a d. (k, c, a, d) \<in> set (uw_sent w)" using kc by (auto simp: sent_by_def)
  ultimately show ?thesis by blast
qed

section \<open>Counters\<close>

definition udp_counted :: "udp_world \<Rightarrow> bool" where
  "udp_counted w \<longleftrightarrow> up_packets_sent (uw_proxy w) = of_nat (length (uw_sent w)) \<and>
     up_bytes_sent (uw_proxy w) = of_nat (sum_list (map (\<lambda>(k, c, a, d). length d) (uw_sent w)))"

lemma udp_counted_step: "udp_step N router hasher ep w w' \<Longrightarrow> udp_counted w \<Longrightarrow> udp_counted w'"
proof (induction rule: udp_step.induct)
  case (receive_step now send_ok client data w pd w')
  then show ?case
    by (cases "dict_get (up_sessions (uw_proxy w)) client"; cases send_ok)
      (auto simp: udp_counted_def udp_lookup_def udp_forward_to_backend_def udp_count_received_def udp_touch_frame Let_def
        split: prod.splits)
next
  case (open_step i w bind_ok send_ok now)
  then show ?case
    by (cases bind_ok; cases send_ok) (auto simp: udp_counted_def udp_open_def udp_forward_to_backend_def Let_def split: prod.splits)
qed (simp_all add: udp_counted_def udp_listener_defs udp_listener_response_def udp_touch_frame Let_def)

text \<open>
  The counters of sent traffic count exactly the datagrams that went to backends, modulo the width
  of the counters. Responses are counted by their listener only.
\<close>

lemma udp_counters_exact:
  assumes "udp_reach N router hasher ep (udp_start cfg udp_proxy_new) w"
  shows "udp_counted w"
  using assms unfolding udp_reach_def
proof (induction rule: rtranclp_induct)
  case base
  then show ?case by (simp add: udp_counted_def udp_start_def udp_proxy_new_def)
next
  case (step w w')
  then show ?case using udp_counted_step by blast
qed

section \<open>A run\<close>

definition udp_config_example :: "udp_router_config dict" where
  "udp_config_example = [(''dns'', \<lparr>urc_entry_points = [''dns''], urc_rule = ''*'', urc_service = ''dns'', urc_middlewares = [], urc_priority = 0\<rparr>)]"

definition udp_services_example :: "udp_service_config dict" where
  "udp_services_example = [(''dns'', \<lparr>usv_load_balancer = Some \<lparr>ulb_servers =
     [\<lparr>usc_address = ''10.0.0.1:53'', usc_weight = 1\<rparr>, \<lparr>usc_address = ''10.0.0.2:53'', usc_weight = 1\<rparr>]\<rparr>, usv_weighted = None\<rparr>)]"

definition udp_router_example :: "unit udp_rule l4_route l4_router" where
  "udp_router_example = projr (udp_from_config no_net [''dns''] udp_config_example)"

text \<open>Two ports of one address: a query, its response, and a query from the other port.\<close>

definition udp_service_example :: "udp_backend_server l4_service" where
  "udp_service_example = l4_service_new ''dns'' [\<lparr>ubs_address = ''10.0.0.1:53'', ubs_weight = 1\<rparr>, \<lparr>ubs_address = ''10.0.0.2:53'', ubs_weight = 1\<rparr>]"

lemma udp_sm_example: "udp_sm_new udp_services_example = [(''dns'', udp_service_example)]"
  by (simp add: udp_sm_new_def udp_services_example_def map_filter_simps udp_service_example_def)

lemma udp_parse_example: "parse_socket_addr ''10.0.0.2:53'' = Some ((V4 0x0A000002, 53), 0)"
proof -
  have four: "(4::nat) = Suc (Suc (Suc (Suc 0)))" by simp
  have "read_octets 0 4 ''10.0.0.2:53'' = Some ([10, 0, 0, 2], '':53'')"
    unfolding four by (simp add: read_separator_def read_dec_def is_ascii_digit_def digits_value_def char_digit_def)
  then show ?thesis
    by (simp add: parse_socket_addr_def read_socket_addr_v4_def read_ipv4_def read_port_def read_number_def is_ascii_digit_def
      digits_value_def char_digit_def)
qed

lemma udp_router_example_tables:
  "l4_routers udp_router_example = []"
  "l4_catch_all udp_router_example = [(''dns'', \<lparr>l4_name = ''dns'', l4_service_name = ''dns'', l4_middlewares = [],
     l4_rule = UdpCatchAll, l4_priority = 0\<rparr>)]"
  by code_simp+

lemma udp_choose_example:
  "udp_choose_backend no_net udp_router_example (\<lambda>_. 1) ''dns'' client [(''dns'', udp_service_example)] =
     (Some (((V4 0x0A000002, 53), 0), ''dns''), [(''dns'', udp_service_example)])"
  by (simp add: udp_choose_backend_def match_datagram_def l4_match_def udp_router_example_tables dict_get_def udp_get_service_def
    get_server_by_hash_def udp_service_example_def l4_service_new_def hash_addr_def udp_parse_example dict_insert_def)

text \<open>A new client's datagram, received and opened without interference.\<close>

lemma udp_open_run:
  assumes "dict_get (up_sessions (uw_proxy w)) client = None" and "uw_pending w = []"
    and "udp_choose_backend N router hasher ep client (uw_services w) = (Some (addr, svc), uw_services w)"
  shows "udp_reach N router hasher ep w (udp_open bind_ok send_ok now (client, data, addr, svc) (udp_count_received data w))"
proof -
  let ?w = "udp_count_received data w" and ?p = "(client, data, addr, svc)"
  have "udp_lookup N router hasher ep now True client data ?w = (Some ?p, ?w)"
    using assms by (simp add: udp_lookup_def udp_count_received_def Let_def)
  from udp_step.receive_step [OF this] have first: "udp_step N router hasher ep w (?w\<lparr>uw_pending := [?p]\<rparr>)"
    using assms(2) by (simp add: udp_count_received_def Let_def)
  have "?w\<lparr>uw_pending := drop_nth 0 [?p]\<rparr> = ?w"
    using assms(2) by (simp add: drop_nth_def udp_count_received_def Let_def)
  then have second: "udp_step N router hasher ep (?w\<lparr>uw_pending := [?p]\<rparr>) (udp_open bind_ok send_ok now ?p ?w)"
    using udp_step.open_step [of 0 "?w\<lparr>uw_pending := [?p]\<rparr>" N router hasher ep bind_ok send_ok now] by simp
  show ?thesis unfolding udp_reach_def by (rule converse_rtranclp_into_rtranclp, rule first, rule r_into_rtranclp, rule second)
qed

definition udp_example_1 :: udp_world where
  "udp_example_1 = udp_open True True 5 ((V4 1, 1000), ''a'', ((V4 0x0A000002, 53), 0), ''dns'')
     (udp_count_received ''a'' (udp_start udp_services_example udp_proxy_new))"

definition udp_example_2 :: udp_world where
  "udp_example_2 = udp_listener_response 6 True ''b'' 0 (udp_listener_check 0 (udp_listener_start True 0 udp_example_1))"

definition udp_example_3 :: udp_world where
  "udp_example_3 = udp_open True True 7 ((V4 1, 2000), ''c'', ((V4 0x0A000002, 53), 0), ''dns'') (udp_count_received ''c'' udp_example_2)"

lemmas udp_run_defs = udp_open_def udp_count_received_def udp_start_def udp_proxy_new_def udp_forward_to_backend_def Let_def
  udp_listener_start_def udp_listener_check_def udp_listener_response_def udp_touch_def dict_get_def dict_insert_def contains_key_def

lemma udp_example_sent:
  "uw_sent udp_example_3 = [(0, (V4 1, 1000), ((V4 0x0A000002, 53), 0), ''a''), (2, (V4 1, 2000), ((V4 0x0A000002, 53), 0), ''c'')]"
  "uw_responses udp_example_3 = [(0, (V4 1, 1000), ''b'')]"
  by (simp_all add: udp_example_3_def udp_example_2_def udp_example_1_def udp_run_defs)

lemma udp_reach_step: "udp_reach N router hasher ep w v \<Longrightarrow> udp_step N router hasher ep v u \<Longrightarrow> udp_reach N router hasher ep w u"
  by (simp add: udp_reach_def)

lemma udp_example_reach:
  "udp_reach no_net udp_router_example (\<lambda>_. 1) ''dns'' (udp_start udp_services_example udp_proxy_new) udp_example_3"
proof -
  have w1: "udp_reach no_net udp_router_example (\<lambda>_. 1) ''dns'' (udp_start udp_services_example udp_proxy_new) udp_example_1"
    unfolding udp_example_1_def
    by (rule udp_open_run) (simp_all add: udp_start_def udp_proxy_new_def udp_sm_example udp_choose_example)
  have w2: "udp_reach no_net udp_router_example (\<lambda>_. 1) ''dns'' (udp_start udp_services_example udp_proxy_new) udp_example_2"
    unfolding udp_example_2_def
  proof (rule udp_reach_step)
    show "udp_reach no_net udp_router_example (\<lambda>_. 1) ''dns'' (udp_start udp_services_example udp_proxy_new)
        (udp_listener_check 0 (udp_listener_start True 0 udp_example_1))"
      by (rule udp_reach_step [OF udp_reach_step [OF w1 udp_step.start_step] udp_step.check_step])
        (simp_all add: udp_example_1_def udp_run_defs)
  qed (rule udp_step.response_step, simp_all add: udp_example_1_def udp_run_defs)
  have "udp_reach no_net udp_router_example (\<lambda>_. 1) ''dns'' udp_example_2 udp_example_3"
    unfolding udp_example_3_def
    by (rule udp_open_run) (simp_all add: udp_example_2_def udp_example_1_def udp_run_defs udp_sm_example udp_choose_example)
  with w2 show ?thesis unfolding udp_reach_def by simp
qed

theorem udp_client_affinity_witness:
  "udp_backend_of no_net udp_router_example (\<lambda>_. 1) ''dns'' (udp_sm_new udp_services_example) (V4 1, 1000) = Some ((V4 0x0A000002, 53), 0)"
proof -
  have "\<forall>(name, sc) \<in> set udp_services_example. \<forall>lb. usv_load_balancer sc = Some lb \<longrightarrow> length (ulb_servers lb) < 2 ^ 63"
    by (simp add: udp_services_example_def)
  from udp_client_affinity [OF this udp_example_reach, of 0 "(V4 1, 1000)" "((V4 0x0A000002, 53), 0)" "''a''"
      2 "(V4 1, 2000)" "((V4 0x0A000002, 53), 0)" "''c''"]
  show ?thesis by (simp add: udp_example_sent)
qed

theorem udp_responses_isolated_witness:
  "(\<exists>a d. (0, (V4 1, 1000), a, d) \<in> set (uw_sent udp_example_3)) \<and>
   \<not> (\<exists>a d. (0, (V4 1, 2000), a, d) \<in> set (uw_sent udp_example_3))"
  using udp_responses_isolated [OF udp_example_reach, of 0 "(V4 1, 1000)" "''b''"] by (simp add: udp_example_sent)

text \<open>
  A datagram that cannot be sent leaves its session behind without a listener: later datagrams of
  the client use the session, and no response to them is ever read.
\<close>

lemma udp_failed_send_leaves_session:
  "contains_key (up_sessions (uw_proxy (udp_open True False now (client, data, addr, svc) w))) client \<and>
   uw_listeners (udp_open True False now (client, data, addr, svc) w) = uw_listeners w"
  by (simp add: udp_open_def udp_forward_to_backend_def Let_def contains_key_map_of dict_insert_def update_conv)

text \<open>
  A listener that waits in vain removes the session of its client, however recently the client has
  sent: a client that only sends is given a new socket after every timeout.
\<close>

lemma udp_listener_end_removes_active:
  "dict_get (up_sessions (uw_proxy (udp_listener_end i w))) (ul_client (uw_listeners w ! i)) = None"
  by (simp add: udp_listener_end_def udp_remove_session_def dict_simps)

end
