(* ===== verification/Config_Validate.thy ===== *)
theory Config_Validate
  imports Mw_Config Rust_Std
begin

text \<open>
  The configuration as a whole: \<open>Config\<close> with its sections (\<open>src/src/config/types.rs\<close>), the accessors,
  \<open>validate\<close>, \<open>pre_parse_uris\<close> and \<open>load\<close> of \<open>src/src/config/mod.rs\<close>. The YAML parser and the two URL
  parsers are external and appear as parameters. The lemmas turn a successful validation into
  the facts the other components need: every reference resolves and every pool has a server.
\<close>

section \<open>Data\<close>

record entry_point =
  ep_address :: string

record tcp_middleware_config =
  tmc_ip_allow_list :: "string list option"
  tmc_ip_deny_list :: "string list option"
  tmc_in_flight_conn :: "int option"

definition tcp_middleware_type :: "tcp_middleware_config \<Rightarrow> string" where
  "tcp_middleware_type c =
     (if tmc_ip_allow_list c \<noteq> None then ''ipAllowList''
      else if tmc_ip_deny_list c \<noteq> None then ''ipDenyList''
      else if tmc_in_flight_conn c \<noteq> None then ''inFlightConn''
      else ''unknown'')"

record udp_rate_limit =
  url_average :: u64
  url_burst :: u64
  url_period :: duration

record udp_middleware_config =
  umc_ip_allow_list :: "string list option"
  umc_ip_deny_list :: "string list option"
  umc_rate_limit :: "udp_rate_limit option"

definition udp_middleware_type :: "udp_middleware_config \<Rightarrow> string" where
  "udp_middleware_type c =
     (if umc_ip_allow_list c \<noteq> None then ''ipAllowList''
      else if umc_ip_deny_list c \<noteq> None then ''ipDenyList''
      else if umc_rate_limit c \<noteq> None then ''rateLimit''
      else ''unknown'')"

definition tcp_service_type :: "tcp_service_config \<Rightarrow> string" where
  "tcp_service_type s =
     (if tsv_load_balancer s \<noteq> None then ''loadBalancer'' else if tsv_weighted s \<noteq> None then ''weighted'' else ''unknown'')"

definition udp_service_type :: "udp_service_config \<Rightarrow> string" where
  "udp_service_type s =
     (if usv_load_balancer s \<noteq> None then ''loadBalancer'' else if usv_weighted s \<noteq> None then ''weighted'' else ''unknown'')"

record http_config =
  htc_routers :: "router_config dict"
  htc_services :: "service_config dict"
  htc_middlewares :: "middleware_config dict"

record tcp_config =
  tcf_routers :: "tcp_router_config dict"
  tcf_services :: "tcp_service_config dict"
  tcf_middlewares :: "tcp_middleware_config dict"

record udp_config =
  ucf_routers :: "udp_router_config dict"
  ucf_services :: "udp_service_config dict"
  ucf_middlewares :: "udp_middleware_config dict"

record config =
  cf_entry_points :: "entry_point dict"
  cf_http :: "http_config option"
  cf_tcp :: "tcp_config option"
  cf_udp :: "udp_config option"

section \<open>Accessors\<close>

definition cf_routers :: "config \<Rightarrow> router_config dict" where
  "cf_routers c = (case cf_http c of Some h \<Rightarrow> htc_routers h | None \<Rightarrow> [])"

definition cf_services :: "config \<Rightarrow> service_config dict" where
  "cf_services c = (case cf_http c of Some h \<Rightarrow> htc_services h | None \<Rightarrow> [])"

definition cf_middlewares :: "config \<Rightarrow> middleware_config dict" where
  "cf_middlewares c = (case cf_http c of Some h \<Rightarrow> htc_middlewares h | None \<Rightarrow> [])"

definition cf_tcp_routers :: "config \<Rightarrow> tcp_router_config dict" where
  "cf_tcp_routers c = (case cf_tcp c of Some t \<Rightarrow> tcf_routers t | None \<Rightarrow> [])"

definition cf_tcp_services :: "config \<Rightarrow> tcp_service_config dict" where
  "cf_tcp_services c = (case cf_tcp c of Some t \<Rightarrow> tcf_services t | None \<Rightarrow> [])"

definition cf_tcp_middlewares :: "config \<Rightarrow> tcp_middleware_config dict" where
  "cf_tcp_middlewares c = (case cf_tcp c of Some t \<Rightarrow> tcf_middlewares t | None \<Rightarrow> [])"

definition cf_has_tcp :: "config \<Rightarrow> bool" where
  "cf_has_tcp c = (case cf_tcp c of Some t \<Rightarrow> tcf_routers t \<noteq> [] | None \<Rightarrow> False)"

definition cf_udp_routers :: "config \<Rightarrow> udp_router_config dict" where
  "cf_udp_routers c = (case cf_udp c of Some u \<Rightarrow> ucf_routers u | None \<Rightarrow> [])"

definition cf_udp_services :: "config \<Rightarrow> udp_service_config dict" where
  "cf_udp_services c = (case cf_udp c of Some u \<Rightarrow> ucf_services u | None \<Rightarrow> [])"

definition cf_udp_middlewares :: "config \<Rightarrow> udp_middleware_config dict" where
  "cf_udp_middlewares c = (case cf_udp c of Some u \<Rightarrow> ucf_middlewares u | None \<Rightarrow> [])"

definition cf_has_udp :: "config \<Rightarrow> bool" where
  "cf_has_udp c = (case cf_udp c of Some u \<Rightarrow> ucf_routers u \<noteq> [] | None \<Rightarrow> False)"

section \<open>Validation\<close>

datatype layer = HttpLayer | TcpLayer | UdpLayer

datatype config_error =
    NoEntryPoint
  | NoServer layer string
  | InvalidServerUrl string string
  | WeightedEmpty layer string
  | MirroringEmpty string
  | ServiceEmpty layer string
  | UnknownService layer string string
  | UnknownMiddleware layer string string
  | UnknownEntryPoint layer string string

text \<open>The first failing element ends a loop of checks.\<close>

fun first_error :: "('a \<Rightarrow> 'e option) \<Rightarrow> 'a list \<Rightarrow> 'e option" where
  "first_error f [] = None"
| "first_error f (x # xs) = (case f x of Some e \<Rightarrow> Some e | None \<Rightarrow> first_error f xs)"

definition check_service :: "(string \<Rightarrow> bool) \<Rightarrow> string \<times> service_config \<Rightarrow> config_error option" where
  "check_service url_ok e =
     (let (name, service) = e in
      case sv_load_balancer service of
        Some lb \<Rightarrow>
          if lb_servers lb = [] then Some (NoServer HttpLayer name)
          else first_error (\<lambda>s. if url_ok (srv_url s) then None else Some (InvalidServerUrl name (srv_url s))) (lb_servers lb)
      | None \<Rightarrow> (case sv_weighted service of
          Some w \<Rightarrow> if ws_services w = [] then Some (WeightedEmpty HttpLayer name) else None
        | None \<Rightarrow> (case sv_mirroring service of
            Some m \<Rightarrow> if ms_service m = [] then Some (MirroringEmpty name) else None
          | None \<Rightarrow> Some (ServiceEmpty HttpLayer name))))"

text \<open>The checks of a TCP or UDP service, from its servers and its weighted references.\<close>

definition check_l4_service :: "layer \<Rightarrow> string \<Rightarrow> 's list option \<Rightarrow> 'w list option \<Rightarrow> config_error option" where
  "check_l4_service ly name servers weighted =
     (case servers of
        Some ss \<Rightarrow> if ss = [] then Some (NoServer ly name) else None
      | None \<Rightarrow> (case weighted of
          Some ws \<Rightarrow> if ws = [] then Some (WeightedEmpty ly name) else None
        | None \<Rightarrow> Some (ServiceEmpty ly name)))"

text \<open>The checks of a router, the same for the three layers: service, middlewares, entrypoints.\<close>

definition mw_name_clean :: "string \<Rightarrow> string" where
  "mw_name_clean n = hd (split_char CHR ''@'' n)"

definition check_router :: "layer \<Rightarrow> 's dict \<Rightarrow> 'm dict \<Rightarrow> 'e dict \<Rightarrow> string \<Rightarrow> string \<Rightarrow> string list \<Rightarrow> string list \<Rightarrow> config_error option" where
  "check_router ly services middlewares entry_points name service mws eps =
     (if \<not> contains_key services service then Some (UnknownService ly name service)
      else case first_error (\<lambda>m. if \<not> contains_key middlewares (mw_name_clean m) \<and> \<not> contains_key middlewares m
                  then Some (UnknownMiddleware ly name m) else None) mws of
        Some e \<Rightarrow> Some e
      | None \<Rightarrow> first_error (\<lambda>ep. if \<not> contains_key entry_points ep then Some (UnknownEntryPoint ly name ep) else None) eps)"

definition validate_http :: "(string \<Rightarrow> bool) \<Rightarrow> config \<Rightarrow> config_error option" where
  "validate_http url_ok c =
     (case first_error (check_service url_ok) (cf_services c) of
        Some e \<Rightarrow> Some e
      | None \<Rightarrow> first_error (\<lambda>(name, r). check_router HttpLayer (cf_services c) (cf_middlewares c) (cf_entry_points c)
          name (rc_service r) (rc_middlewares r) (rc_entry_points r)) (cf_routers c))"

definition validate_tcp :: "config \<Rightarrow> config_error option" where
  "validate_tcp c =
     (case first_error (\<lambda>(name, s). check_l4_service TcpLayer name (map_option tlb_servers (tsv_load_balancer s)) (tsv_weighted s)) (cf_tcp_services c) of
        Some e \<Rightarrow> Some e
      | None \<Rightarrow> first_error (\<lambda>(name, r). check_router TcpLayer (cf_tcp_services c) (cf_tcp_middlewares c) (cf_entry_points c)
          name (trc_service r) (trc_middlewares r) (trc_entry_points r)) (cf_tcp_routers c))"

definition validate_udp :: "config \<Rightarrow> config_error option" where
  "validate_udp c =
     (case first_error (\<lambda>(name, s). check_l4_service UdpLayer name (map_option ulb_servers (usv_load_balancer s)) (usv_weighted s)) (cf_udp_services c) of
        Some e \<Rightarrow> Some e
      | None \<Rightarrow> first_error (\<lambda>(name, r). check_router UdpLayer (cf_udp_services c) (cf_udp_middlewares c) (cf_entry_points c)
          name (urc_service r) (urc_middlewares r) (urc_entry_points r)) (cf_udp_routers c))"

definition config_validate :: "(string \<Rightarrow> bool) \<Rightarrow> config \<Rightarrow> config_error + unit" where
  "config_validate url_ok c =
     (if cf_entry_points c = [] then Inl NoEntryPoint
      else case validate_http url_ok c of
        Some e \<Rightarrow> Inl e
      | None \<Rightarrow> (case validate_tcp c of
          Some e \<Rightarrow> Inl e
        | None \<Rightarrow> (case validate_udp c of Some e \<Rightarrow> Inl e | None \<Rightarrow> Inr ())))"

section \<open>Loading\<close>

definition pre_parse_server :: "(string \<Rightarrow> (string option \<times> string option) option) \<Rightarrow> server \<Rightarrow> server" where
  "pre_parse_server uri s =
     (let s1 = s\<lparr>srv_url_arc := Some (srv_url s)\<rparr> in
      case uri (srv_url s) of
        Some (Some sch, Some auth) \<Rightarrow> s1\<lparr>srv_parsed_uri := Some \<lparr>pbu_scheme = sch, pbu_authority = auth\<rparr>\<rparr>
      | _ \<Rightarrow> s1)"

definition pre_parse_uris :: "(string \<Rightarrow> (string option \<times> string option) option) \<Rightarrow> config \<Rightarrow> config" where
  "pre_parse_uris uri c =
     (case cf_http c of
        None \<Rightarrow> c
      | Some h \<Rightarrow> c\<lparr>cf_http := Some (h\<lparr>htc_services := map (\<lambda>(name, s). (name,
          case sv_load_balancer s of
            Some lb \<Rightarrow> s\<lparr>sv_load_balancer := Some (lb\<lparr>lb_servers := map (pre_parse_server uri) (lb_servers lb)\<rparr>)\<rparr>
          | None \<Rightarrow> s)) (htc_services h)\<rparr>)\<rparr>)"

datatype load_error = ReadFailed | ParseFailed | Rejected config_error

definition config_load :: "(string \<Rightarrow> config option) \<Rightarrow> (string \<Rightarrow> bool) \<Rightarrow> (string \<Rightarrow> (string option \<times> string option) option)
    \<Rightarrow> string option \<Rightarrow> load_error + config" where
  "config_load yaml url_ok uri content =
     (case content of
        None \<Rightarrow> Inl ReadFailed
      | Some text \<Rightarrow>
          (case yaml text of
             None \<Rightarrow> Inl ParseFailed
           | Some c \<Rightarrow>
               (case config_validate url_ok c of
                  Inl e \<Rightarrow> Inl (Rejected e)
                | Inr _ \<Rightarrow> Inr (pre_parse_uris uri c))))"

section \<open>What a valid configuration guarantees\<close>

lemma first_error_None: "first_error f xs = None \<longleftrightarrow> (\<forall>x \<in> set xs. f x = None)"
  by (induction xs) (auto split: option.splits)

lemma orelse_None: "(case a of Some e \<Rightarrow> Some e | None \<Rightarrow> b) = None \<longleftrightarrow> a = None \<and> b = None"
  by (cases a) auto

lemma check_router_ok:
  "check_router ly services middlewares entry_points name service mws eps = None \<longleftrightarrow>
     contains_key services service \<and>
     (\<forall>m \<in> set mws. contains_key middlewares (mw_name_clean m) \<or> contains_key middlewares m) \<and>
     (\<forall>ep \<in> set eps. contains_key entry_points ep)"
  by (auto simp: check_router_def orelse_None first_error_None)

lemma check_l4_service_ok:
  "check_l4_service ly name servers weighted = None \<longleftrightarrow>
     (case servers of Some ss \<Rightarrow> ss \<noteq> [] | None \<Rightarrow> (case weighted of Some ws \<Rightarrow> ws \<noteq> [] | None \<Rightarrow> False))"
  by (auto simp: check_l4_service_def split: option.splits)

lemma validate_parts:
  assumes "config_validate url_ok c = Inr ()"
  shows "cf_entry_points c \<noteq> []" "validate_http url_ok c = None" "validate_tcp c = None" "validate_udp c = None"
  using assms by (auto simp: config_validate_def split: if_splits option.splits)

lemma valid_http_service:
  assumes "config_validate url_ok c = Inr ()" and "dict_get (cf_services c) name = Some s"
  shows "(case sv_load_balancer s of Some lb \<Rightarrow> lb_servers lb \<noteq> [] \<and> (\<forall>x \<in> set (lb_servers lb). url_ok (srv_url x))
    | None \<Rightarrow> sv_weighted s \<noteq> None \<or> sv_mirroring s \<noteq> None)"
proof -
  have "check_service url_ok (name, s) = None"
    using validate_parts(2) [OF assms(1)] map_of_SomeD [OF assms(2) [unfolded dict_get_def]]
    by (auto simp: validate_http_def first_error_None split: option.splits)
  then show ?thesis by (auto simp: check_service_def first_error_None split: option.splits if_splits)
qed

lemma valid_http_router:
  assumes "config_validate url_ok c = Inr ()" and "(name, r) \<in> set (cf_routers c)"
  shows "contains_key (cf_services c) (rc_service r)" "\<forall>ep \<in> set (rc_entry_points r). contains_key (cf_entry_points c) ep"
    "\<forall>m \<in> set (rc_middlewares r). contains_key (cf_middlewares c) (mw_name_clean m) \<or> contains_key (cf_middlewares c) m"
  using validate_parts(2) [OF assms(1)] assms(2)
  by (fastforce simp: validate_http_def first_error_None check_router_ok split: option.splits)+

lemma valid_tcp_service:
  assumes "config_validate url_ok c = Inr ()" and "dict_get (cf_tcp_services c) name = Some s"
  shows "(case tsv_load_balancer s of Some lb \<Rightarrow> tlb_servers lb \<noteq> [] | None \<Rightarrow> tsv_weighted s \<noteq> None)"
  using validate_parts(3) [OF assms(1)] map_of_SomeD [OF assms(2) [unfolded dict_get_def]]
  by (fastforce simp: validate_tcp_def first_error_None check_l4_service_ok split: option.splits)

lemma valid_tcp_router:
  assumes "config_validate url_ok c = Inr ()" and "(name, r) \<in> set (cf_tcp_routers c)"
  shows "contains_key (cf_tcp_services c) (trc_service r)"
  using validate_parts(3) [OF assms(1)] assms(2)
  by (fastforce simp: validate_tcp_def first_error_None check_router_ok split: option.splits)

lemma valid_udp_service:
  assumes "config_validate url_ok c = Inr ()" and "dict_get (cf_udp_services c) name = Some s"
  shows "(case usv_load_balancer s of Some lb \<Rightarrow> ulb_servers lb \<noteq> [] | None \<Rightarrow> usv_weighted s \<noteq> None)"
  using validate_parts(4) [OF assms(1)] map_of_SomeD [OF assms(2) [unfolded dict_get_def]]
  by (fastforce simp: validate_udp_def first_error_None check_l4_service_ok split: option.splits)

lemma valid_udp_router:
  assumes "config_validate url_ok c = Inr ()" and "(name, r) \<in> set (cf_udp_routers c)"
  shows "contains_key (cf_udp_services c) (urc_service r)"
  using validate_parts(4) [OF assms(1)] assms(2)
  by (fastforce simp: validate_udp_def first_error_None check_router_ok split: option.splits)

text \<open>A service that only has a failover section is refused, although the configuration knows the section.\<close>

lemma failover_service_refused:
  assumes "sv_load_balancer s = None" and "sv_weighted s = None" and "sv_mirroring s = None"
  shows "check_service url_ok (name, s) = Some (ServiceEmpty HttpLayer name)"
  using assms by (simp add: check_service_def)

end
