(* ===== verification/Valkey_Store.thy ===== *)
theory Valkey_Store
  imports Local_Store
begin

text \<open>
  \<open>ValkeyStore\<close> of \<open>src/src/store/valkey.rs\<close>, the store that the nodes of a cluster share. The server is
  external: its commands are the fields of \<open>valkey_ops\<close>, and \<open>valkey_laws\<close> states the documented
  effect of each on the keyspace (a value with an optional deadline per key). The Lua scripts are in
  the source and are translated command by command; the server runs a script as one step. Every
  command of a call has its own server time and its own fate on the network: delivered, lost
  before the server saw it, or carried out with the reply lost. The JSON codec is a parameter.
  Clock readings, wall clock and the random number of a script are arguments.
\<close>

section \<open>The server\<close>

datatype redis_value = RString string | RSet "string list" | RZSet "(string \<times> int) list"

type_synonym keyspace = "string \<Rightarrow> (redis_value \<times> instant option) option"

record 's valkey_ops =
  vo_keyspace :: "'s \<Rightarrow> keyspace"
  vo_published :: "'s \<Rightarrow> (string \<times> string) list"
  vo_get :: "string \<Rightarrow> instant \<Rightarrow> 's \<Rightarrow> (string + string option) \<times> 's"
  vo_set :: "string \<Rightarrow> string \<Rightarrow> instant \<Rightarrow> 's \<Rightarrow> (string + unit) \<times> 's"
  vo_set_ex :: "string \<Rightarrow> string \<Rightarrow> nat \<Rightarrow> instant \<Rightarrow> 's \<Rightarrow> (string + unit) \<times> 's"
  vo_del :: "string \<Rightarrow> instant \<Rightarrow> 's \<Rightarrow> (string + unit) \<times> 's"
  vo_incr :: "string \<Rightarrow> u64 \<Rightarrow> instant \<Rightarrow> 's \<Rightarrow> (string + u64) \<times> 's"
  vo_expire :: "string \<Rightarrow> int \<Rightarrow> instant \<Rightarrow> 's \<Rightarrow> (string + unit) \<times> 's"
  vo_pexpire :: "string \<Rightarrow> int \<Rightarrow> instant \<Rightarrow> 's \<Rightarrow> (string + unit) \<times> 's"
  vo_sadd :: "string \<Rightarrow> string \<Rightarrow> instant \<Rightarrow> 's \<Rightarrow> (string + unit) \<times> 's"
  vo_srem :: "string \<Rightarrow> string \<Rightarrow> instant \<Rightarrow> 's \<Rightarrow> (string + unit) \<times> 's"
  vo_smembers :: "string \<Rightarrow> instant \<Rightarrow> 's \<Rightarrow> (string + string list) \<times> 's"
  vo_keys :: "string \<Rightarrow> instant \<Rightarrow> 's \<Rightarrow> (string + string list) \<times> 's"
  vo_zremrangebyscore :: "string \<Rightarrow> int \<Rightarrow> int \<Rightarrow> instant \<Rightarrow> 's \<Rightarrow> (string + unit) \<times> 's"
  vo_zcard :: "string \<Rightarrow> instant \<Rightarrow> 's \<Rightarrow> (string + nat) \<times> 's"
  vo_zadd :: "string \<Rightarrow> int \<Rightarrow> string \<Rightarrow> instant \<Rightarrow> 's \<Rightarrow> (string + unit) \<times> 's"
  vo_publish :: "string \<Rightarrow> string \<Rightarrow> instant \<Rightarrow> 's \<Rightarrow> (string + unit) \<times> 's"
  vo_ping :: "instant \<Rightarrow> 's \<Rightarrow> (string + string) \<times> 's"

text \<open>A key is live until its deadline; an expired key counts as absent.\<close>

definition live_entry :: "instant \<Rightarrow> keyspace \<Rightarrow> string \<Rightarrow> (redis_value \<times> instant option) option" where
  "live_entry t ks k = (case ks k of
       Some (v, Some d) \<Rightarrow> if t < d then Some (v, Some d) else None
     | e \<Rightarrow> e)"

definition live :: "instant \<Rightarrow> keyspace \<Rightarrow> string \<Rightarrow> redis_value option" where
  "live t ks k = map_option fst (live_entry t ks k)"

definition millis :: "nat \<Rightarrow> duration" where
  "millis n = n * 1000000"

text \<open>The documented effect of the commands that return nothing of interest.\<close>

definition ks_expire :: "string \<Rightarrow> int \<Rightarrow> instant \<Rightarrow> keyspace \<Rightarrow> keyspace" where
  "ks_expire k ms t ks = (case live_entry t ks k of
       None \<Rightarrow> ks(k := None)
     | Some (v, _) \<Rightarrow> ks(k := (if ms \<le> 0 then None else Some (v, Some (t + millis (nat ms))))))"

definition ks_set_update :: "(string list \<Rightarrow> string list) \<Rightarrow> string \<Rightarrow> instant \<Rightarrow> keyspace \<Rightarrow> keyspace" where
  "ks_set_update f k t ks = (let (ms, d) = (case live_entry t ks k of Some (RSet ms, d) \<Rightarrow> (ms, d) | _ \<Rightarrow> ([], None))
     in ks(k := (if f ms = [] then None else Some (RSet (f ms), d))))"

definition ks_zset :: "instant \<Rightarrow> keyspace \<Rightarrow> string \<Rightarrow> (string \<times> int) list" where
  "ks_zset t ks k = (case live t ks k of Some (RZSet z) \<Rightarrow> z | _ \<Rightarrow> [])"

definition ks_zset_update :: "((string \<times> int) list \<Rightarrow> (string \<times> int) list) \<Rightarrow> string \<Rightarrow> instant \<Rightarrow> keyspace \<Rightarrow> keyspace" where
  "ks_zset_update f k t ks = (let d = (case live_entry t ks k of Some (_, d) \<Rightarrow> d | None \<Rightarrow> None); z = f (ks_zset t ks k)
     in ks(k := (if z = [] then None else Some (RZSet z, d))))"

definition is_string_or_absent :: "instant \<Rightarrow> keyspace \<Rightarrow> string \<Rightarrow> bool" where
  "is_string_or_absent t ks k = (case live t ks k of Some (RString _) \<Rightarrow> True | None \<Rightarrow> True | _ \<Rightarrow> False)"

definition is_set_or_absent :: "instant \<Rightarrow> keyspace \<Rightarrow> string \<Rightarrow> bool" where
  "is_set_or_absent t ks k = (case live t ks k of Some (RSet _) \<Rightarrow> True | None \<Rightarrow> True | _ \<Rightarrow> False)"

definition is_zset_or_absent :: "instant \<Rightarrow> keyspace \<Rightarrow> string \<Rightarrow> bool" where
  "is_zset_or_absent t ks k = (case live t ks k of Some (RZSet _) \<Rightarrow> True | None \<Rightarrow> True | _ \<Rightarrow> False)"

definition live_string :: "instant \<Rightarrow> keyspace \<Rightarrow> string \<Rightarrow> string option" where
  "live_string t ks k = (case live t ks k of Some (RString v) \<Rightarrow> Some v | _ \<Rightarrow> None)"

text \<open>A command does what is documented: it gives the reply and changes the keyspace as stated.\<close>

definition does :: "'s valkey_ops \<Rightarrow> ('s \<Rightarrow> (string + 'a) \<times> 's) \<Rightarrow> 's \<Rightarrow> 'a \<Rightarrow> keyspace \<Rightarrow> bool" where
  "does V c s r ks' \<longleftrightarrow> fst (c s) = Inr r \<and> vo_keyspace V (snd (c s)) = ks' \<and> vo_published V (snd (c s)) = vo_published V s"

definition refuses :: "'s valkey_ops \<Rightarrow> ('s \<Rightarrow> (string + 'a) \<times> 's) \<Rightarrow> 's \<Rightarrow> bool" where
  "refuses V c s \<longleftrightarrow> isl (fst (c s)) \<and> vo_keyspace V (snd (c s)) = vo_keyspace V s \<and> vo_published V (snd (c s)) = vo_published V s"

definition string_laws :: "'s valkey_ops \<Rightarrow> bool" where
  "string_laws V \<longleftrightarrow> (\<forall>k v n t s. let ks = vo_keyspace V s in
     (is_string_or_absent t ks k \<longrightarrow> does V (vo_get V k t) s (live_string t ks k) ks) \<and>
     (\<not> is_string_or_absent t ks k \<longrightarrow> refuses V (vo_get V k t) s) \<and>
     does V (vo_set V k v t) s () (ks(k \<mapsto> (RString v, None))) \<and>
     (0 < n \<longrightarrow> does V (vo_set_ex V k v n t) s () (ks(k \<mapsto> (RString v, Some (t + secs n))))) \<and>
     refuses V (vo_set_ex V k v 0 t) s \<and>
     does V (vo_del V k t) s () (ks(k := None)))"

definition counter_laws :: "'s valkey_ops \<Rightarrow> bool" where
  "counter_laws V \<longleftrightarrow> (\<forall>k d i t s. let ks = vo_keyspace V s in
     (live t ks k = None \<longrightarrow> does V (vo_incr V k d t) s d (ks(k \<mapsto> (RString (show_nat (unat d)), None)))) \<and>
     (\<forall>x dl. live_entry t ks k = Some (RString (show_nat x), dl) \<and> x + unat d < 2 ^ 63 \<longrightarrow>
        does V (vo_incr V k d t) s (of_nat (x + unat d)) (ks(k \<mapsto> (RString (show_nat (x + unat d)), dl)))) \<and>
     does V (vo_expire V k i t) s () (ks_expire k (i * 1000) t ks) \<and>
     does V (vo_pexpire V k i t) s () (ks_expire k i t ks))"

definition set_laws :: "'s valkey_ops \<Rightarrow> bool" where
  "set_laws V \<longleftrightarrow> (\<forall>k m t s. let ks = vo_keyspace V s in
     (is_set_or_absent t ks k \<longrightarrow>
       does V (vo_sadd V k m t) s () (ks_set_update (List.insert m) k t ks) \<and>
       does V (vo_srem V k m t) s () (ks_set_update (removeAll m) k t ks) \<and>
       does V (vo_smembers V k t) s (case live t ks k of Some (RSet ms) \<Rightarrow> ms | _ \<Rightarrow> []) ks) \<and>
     (\<not> is_set_or_absent t ks k \<longrightarrow>
       refuses V (vo_sadd V k m t) s \<and> refuses V (vo_srem V k m t) s \<and> refuses V (vo_smembers V k t) s))"

definition zset_laws :: "'s valkey_ops \<Rightarrow> bool" where
  "zset_laws V \<longleftrightarrow> (\<forall>k lo hi sc m t s. let ks = vo_keyspace V s in is_zset_or_absent t ks k \<longrightarrow>
     does V (vo_zremrangebyscore V k lo hi t) s () (ks_zset_update (filter (\<lambda>(_, x). \<not> (lo \<le> x \<and> x \<le> hi))) k t ks) \<and>
     does V (vo_zcard V k t) s (length (ks_zset t ks k)) ks \<and>
     does V (vo_zadd V k sc m t) s () (ks_zset_update (dict_insert m sc) k t ks))"

text \<open>\<open>KEYS\<close> with a literal prefix before the star lists the live keys with that prefix.\<close>

definition glob_literal :: "string \<Rightarrow> bool" where
  "glob_literal p \<longleftrightarrow> list_all (\<lambda>c. c \<noteq> CHR 0x5C \<and> c \<notin> set ''*?[]^-'') p"

definition keys_law :: "'s valkey_ops \<Rightarrow> bool" where
  "keys_law V \<longleftrightarrow> (\<forall>p t s. let ks = vo_keyspace V s in glob_literal p \<longrightarrow>
     (\<exists>keys. does V (vo_keys V (p @ ''*'') t) s keys ks \<and> distinct keys \<and>
        (\<forall>k. k \<in> set keys \<longleftrightarrow> live t ks k \<noteq> None \<and> starts_with p k)))"

definition publish_laws :: "'s valkey_ops \<Rightarrow> bool" where
  "publish_laws V \<longleftrightarrow> (\<forall>c p t s.
     fst (vo_publish V c p t s) = Inr () \<and> vo_keyspace V (snd (vo_publish V c p t s)) = vo_keyspace V s \<and>
     vo_published V (snd (vo_publish V c p t s)) = vo_published V s @ [(c, p)] \<and>
     does V (vo_ping V t) s ''PONG'' (vo_keyspace V s))"

definition valkey_laws :: "'s valkey_ops \<Rightarrow> bool" where
  "valkey_laws V \<longleftrightarrow> string_laws V \<and> counter_laws V \<and> set_laws V \<and> zset_laws V \<and> keys_law V \<and> publish_laws V"

section \<open>Calls over the network\<close>

datatype fate = Delivered | RequestLost string | ReplyLost string

definition send :: "fate \<Rightarrow> ('s \<Rightarrow> (string + 'a) \<times> 's) \<Rightarrow> 's \<Rightarrow> (store_error + 'a) \<times> 's" where
  "send f c s = (case f of
       Delivered \<Rightarrow> (map_sum Connection id (fst (c s)), snd (c s))
     | RequestLost e \<Rightarrow> (Inl (Connection e), s)
     | ReplyLost e \<Rightarrow> (Inl (Connection e), snd (c s)))"

text \<open>What surrounds one call: time and fate of its commands, the wall clock, the script's random number.\<close>

record vk_env =
  ve_cmd :: "nat \<Rightarrow> instant \<times> fate"
  ve_wall :: u64
  ve_random :: nat

definition cmd :: "vk_env \<Rightarrow> nat \<Rightarrow> (instant \<Rightarrow> 's \<Rightarrow> (string + 'a) \<times> 's) \<Rightarrow> 's \<Rightarrow> (store_error + 'a) \<times> 's" where
  "cmd e i c = send (snd (ve_cmd e i)) (c (fst (ve_cmd e i)))"

record json_codec =
  jc_health_to :: "store_health_status \<Rightarrow> string"
  jc_health_from :: "string \<Rightarrow> string + store_health_status"
  jc_node_to :: "node_info \<Rightarrow> string"
  jc_node_from :: "string \<Rightarrow> string + node_info"

text \<open>What is printed is read back, and a text that begins with a slash is no JSON value.\<close>

definition json_laws :: "json_codec \<Rightarrow> bool" where
  "json_laws J \<longleftrightarrow> (\<forall>h. jc_health_from J (jc_health_to J h) = Inr h) \<and> (\<forall>n. jc_node_from J (jc_node_to J n) = Inr n) \<and>
     (\<forall>x. isl (jc_health_from J (CHR ''/'' # x)))"

record 's valkey_store =
  vs_conn :: "'s valkey_ops"
  vs_key_prefix :: string
  vs_json :: json_codec

definition vk_key :: "'s valkey_store \<Rightarrow> string list \<Rightarrow> string" where
  "vk_key c parts = foldl (\<lambda>key part. key @ [CHR '':''] @ part) (vs_key_prefix c) parts"

section \<open>Scripts\<close>

definition rate_limit_script :: "'s valkey_ops \<Rightarrow> string \<Rightarrow> int \<Rightarrow> int \<Rightarrow> int \<Rightarrow> nat \<Rightarrow> instant \<Rightarrow> 's \<Rightarrow> (string + int list) \<times> 's" where
  "rate_limit_script V key limit window now rnd t =
     tryb (vo_zremrangebyscore V key 0 (now - window * 1000) t) (\<lambda>_.
     tryb (vo_zcard V key t) (\<lambda>count.
     if int count < limit then
       tryb (vo_zadd V key now (show_int now @ ''-'' @ show_nat rnd) t) (\<lambda>_.
       tryb (vo_pexpire V key (window * 1000) t) (\<lambda>_.
       ret [1, limit - int count - 1, now + window * 1000]))
     else ret [0, 0, now + window * 1000]))"

definition leader_acquire_script :: "'s valkey_ops \<Rightarrow> string \<Rightarrow> string \<Rightarrow> nat \<Rightarrow> instant \<Rightarrow> 's \<Rightarrow> (string + int) \<times> 's" where
  "leader_acquire_script V key node_id ttl t =
     tryb (vo_get V key t) (\<lambda>current.
     if current = None \<or> current = Some node_id
     then tryb (vo_set_ex V key node_id ttl t) (\<lambda>_. ret 1)
     else ret 0)"

definition leader_release_script :: "'s valkey_ops \<Rightarrow> string \<Rightarrow> string \<Rightarrow> instant \<Rightarrow> 's \<Rightarrow> (string + int) \<times> 's" where
  "leader_release_script V key node_id t =
     tryb (vo_get V key t) (\<lambda>current.
     if current = Some node_id then tryb (vo_del V key t) (\<lambda>_. ret 1) else ret 0)"

section \<open>Rate limits and sessions\<close>

definition vk_rate_limit_check :: "'s valkey_store \<Rightarrow> vk_env \<Rightarrow> string \<Rightarrow> u64 \<Rightarrow> u64 \<Rightarrow> 's \<Rightarrow> (store_error + bool \<times> u64 \<times> u64) \<times> 's" where
  "vk_rate_limit_check c e key limit window_secs =
     tryb (cmd e 0 (rate_limit_script (vs_conn c) (vk_key c [''ratelimit'', key]) (uint limit) (uint window_secs) (uint (ve_wall e)) (ve_random e)))
       (\<lambda>result. if length result \<ge> 3 then ret (result ! 0 = 1, word_of_int (result ! 1), word_of_int (result ! 2))
          else fail (Serialization ''Invalid rate limit response''))"

definition vk_rate_limit_remaining :: "'s valkey_store \<Rightarrow> vk_env \<Rightarrow> string \<Rightarrow> u64 \<Rightarrow> 's \<Rightarrow> (store_error + u64) \<times> 's" where
  "vk_rate_limit_remaining c e key limit =
     tryb (cmd e 0 (vo_zcard (vs_conn c) (vk_key c [''ratelimit'', key]))) (\<lambda>count. ret (u64_saturating_sub limit (of_nat count)))"

definition as_secs :: "duration \<Rightarrow> nat" where
  "as_secs d = d div 1000000000"

definition vk_sticky_session_get :: "'s valkey_store \<Rightarrow> vk_env \<Rightarrow> string \<Rightarrow> string \<Rightarrow> 's \<Rightarrow> (store_error + string option) \<times> 's" where
  "vk_sticky_session_get c e service session_id = cmd e 0 (vo_get (vs_conn c) (vk_key c [''sticky'', service, session_id]))"

definition vk_sticky_session_set :: "'s valkey_store \<Rightarrow> vk_env \<Rightarrow> string \<Rightarrow> string \<Rightarrow> string \<Rightarrow> duration \<Rightarrow> 's \<Rightarrow> (store_error + unit) \<times> 's" where
  "vk_sticky_session_set c e service session_id server_url ttl =
     cmd e 0 (vo_set_ex (vs_conn c) (vk_key c [''sticky'', service, session_id]) server_url (as_secs ttl))"

definition vk_sticky_session_delete :: "'s valkey_store \<Rightarrow> vk_env \<Rightarrow> string \<Rightarrow> string \<Rightarrow> 's \<Rightarrow> (store_error + unit) \<times> 's" where
  "vk_sticky_session_delete c e service session_id = cmd e 0 (vo_del (vs_conn c) (vk_key c [''sticky'', service, session_id]))"

section \<open>Health and circuit breakers\<close>

definition vk_health_get :: "'s valkey_store \<Rightarrow> vk_env \<Rightarrow> string \<Rightarrow> string \<Rightarrow> 's \<Rightarrow> (store_error + store_health_status option) \<times> 's" where
  "vk_health_get c e service server_url =
     tryb (cmd e 0 (vo_get (vs_conn c) (vk_key c [''health'', service, server_url])))
       (\<lambda>result. case result of
          Some json \<Rightarrow> (case jc_health_from (vs_json c) json of Inl er \<Rightarrow> fail (Serialization er) | Inr status \<Rightarrow> ret (Some status))
        | None \<Rightarrow> ret None)"

definition vk_health_set :: "'s valkey_store \<Rightarrow> vk_env \<Rightarrow> string \<Rightarrow> string \<Rightarrow> store_health_status \<Rightarrow> 's \<Rightarrow> (store_error + unit) \<times> 's" where
  "vk_health_set c e service server_url status =
     (let json = jc_health_to (vs_json c) status in
      tryb (cmd e 0 (vo_set_ex (vs_conn c) (vk_key c [''health'', service, server_url]) json 300)) (\<lambda>_.
      cmd e 1 (vo_publish (vs_conn c) (vk_key c [''events'', ''health_change'']) (service @ '':'' @ server_url @ '':'' @ json))))"

fun vk_health_collect :: "'s valkey_store \<Rightarrow> vk_env \<Rightarrow> nat \<Rightarrow> string \<Rightarrow> string list \<Rightarrow> store_health_status dict
    \<Rightarrow> 's \<Rightarrow> (store_error + store_health_status dict) \<times> 's" where
  "vk_health_collect c e i service [] result = ret result"
| "vk_health_collect c e i service (key # keys) result =
     tryb (cmd e i (vo_get (vs_conn c) key)) (\<lambda>json.
       vk_health_collect c e (Suc i) service keys
         (case json of
            Some j \<Rightarrow> (case jc_health_from (vs_json c) j of
                Inr status \<Rightarrow> (case strip_prefix (vk_key c [''health'', service, []]) key of
                    Some server_url \<Rightarrow> dict_insert server_url status result | None \<Rightarrow> result)
              | Inl _ \<Rightarrow> result)
          | None \<Rightarrow> result))"

definition vk_health_get_all :: "'s valkey_store \<Rightarrow> vk_env \<Rightarrow> string \<Rightarrow> 's \<Rightarrow> (store_error + store_health_status dict) \<times> 's" where
  "vk_health_get_all c e service =
     tryb (cmd e 0 (vo_keys (vs_conn c) (vk_key c [''health'', service, ''*'']))) (\<lambda>keys.
     vk_health_collect c e 1 service keys [])"

definition vk_circuit_breaker_fail :: "'s valkey_store \<Rightarrow> vk_env \<Rightarrow> string \<Rightarrow> u64 \<Rightarrow> 's \<Rightarrow> (store_error + u64) \<times> 's" where
  "vk_circuit_breaker_fail c e service window_secs =
     tryb (cmd e 0 (vo_incr (vs_conn c) (vk_key c [''circuit'', service]) 1)) (\<lambda>count.
     if count = 1
     then tryb (cmd e 1 (vo_expire (vs_conn c) (vk_key c [''circuit'', service]) (sint window_secs))) (\<lambda>_. ret count)
     else ret count)"

definition vk_circuit_breaker_success :: "'s valkey_store \<Rightarrow> vk_env \<Rightarrow> string \<Rightarrow> 's \<Rightarrow> (store_error + unit) \<times> 's" where
  "vk_circuit_breaker_success c e service = cmd e 0 (vo_del (vs_conn c) (vk_key c [''circuit'', service]))"

text \<open>The client converts the reply to \<open>Option<u64>\<close>; a text that is no number is an error of the call.\<close>

definition to_u64 :: "string option \<Rightarrow> 's \<Rightarrow> (store_error + u64) \<times> 's" where
  "to_u64 r = (case r of
       None \<Rightarrow> ret 0
     | Some v \<Rightarrow> (case parse_unsigned (2 ^ 64 - 1) v of Some n \<Rightarrow> ret (of_nat n) | None \<Rightarrow> fail (Connection ''type'')))"

definition vk_circuit_breaker_failures :: "'s valkey_store \<Rightarrow> vk_env \<Rightarrow> string \<Rightarrow> 's \<Rightarrow> (store_error + u64) \<times> 's" where
  "vk_circuit_breaker_failures c e service = tryb (cmd e 0 (vo_get (vs_conn c) (vk_key c [''circuit'', service]))) to_u64"

section \<open>Nodes\<close>

definition vk_node_register :: "'s valkey_store \<Rightarrow> vk_env \<Rightarrow> node_info \<Rightarrow> 's \<Rightarrow> (store_error + unit) \<times> 's" where
  "vk_node_register c e info =
     tryb (cmd e 0 (vo_set_ex (vs_conn c) (vk_key c [''nodes'', ni_node_id info]) (jc_node_to (vs_json c) info) 60)) (\<lambda>_.
     cmd e 1 (vo_sadd (vs_conn c) (vk_key c [''nodes_set'']) (ni_node_id info)))"

text \<open>
  Heartbeat and status change read the entry, change it and write it back, as two commands; the
  first and the second half are separate definitions because other calls may come in between.
\<close>

definition vk_node_read :: "'s valkey_store \<Rightarrow> vk_env \<Rightarrow> string \<Rightarrow> 's \<Rightarrow> (store_error + node_info option) \<times> 's" where
  "vk_node_read c e node_id =
     tryb (cmd e 0 (vo_get (vs_conn c) (vk_key c [''nodes'', node_id]))) (\<lambda>json. case json of
         Some j \<Rightarrow> (case jc_node_from (vs_json c) j of Inl er \<Rightarrow> fail (Serialization er) | Inr info \<Rightarrow> ret (Some info))
       | None \<Rightarrow> ret None)"

definition vk_node_write :: "'s valkey_store \<Rightarrow> vk_env \<Rightarrow> string \<Rightarrow> node_info \<Rightarrow> 's \<Rightarrow> (store_error + unit) \<times> 's" where
  "vk_node_write c e node_id info = cmd e 1 (vo_set_ex (vs_conn c) (vk_key c [''nodes'', node_id]) (jc_node_to (vs_json c) info) 60)"

definition vk_heartbeat_write :: "'s valkey_store \<Rightarrow> vk_env \<Rightarrow> string \<Rightarrow> u64 \<Rightarrow> node_info option \<Rightarrow> 's \<Rightarrow> (store_error + unit) \<times> 's" where
  "vk_heartbeat_write c e node_id connections found = (case found of
       Some info \<Rightarrow> vk_node_write c e node_id (info\<lparr>ni_last_heartbeat := ve_wall e, ni_active_connections := connections\<rparr>)
     | None \<Rightarrow> ret ())"

definition vk_node_heartbeat :: "'s valkey_store \<Rightarrow> vk_env \<Rightarrow> string \<Rightarrow> u64 \<Rightarrow> 's \<Rightarrow> (store_error + unit) \<times> 's" where
  "vk_node_heartbeat c e node_id connections = tryb (vk_node_read c e node_id) (vk_heartbeat_write c e node_id connections)"

definition vk_node_set_status :: "'s valkey_store \<Rightarrow> vk_env \<Rightarrow> string \<Rightarrow> node_status \<Rightarrow> 's \<Rightarrow> (store_error + unit) \<times> 's" where
  "vk_node_set_status c e node_id status =
     tryb (vk_node_read c e node_id) (\<lambda>found. case found of
       Some info \<Rightarrow>
         tryb (vk_node_write c e node_id (info\<lparr>ni_status := status, ni_last_heartbeat := ve_wall e\<rparr>)) (\<lambda>_.
         if status = NodeDraining then cmd e 2 (vo_publish (vs_conn c) (vk_key c [''events'', ''node_drain'']) node_id) else ret ())
     | None \<Rightarrow> ret ())"

definition vk_node_get :: "'s valkey_store \<Rightarrow> vk_env \<Rightarrow> string \<Rightarrow> 's \<Rightarrow> (store_error + node_info option) \<times> 's" where
  "vk_node_get c e node_id = vk_node_read c e node_id"

definition env_from :: "vk_env \<Rightarrow> nat \<Rightarrow> vk_env" where
  "env_from e i = e\<lparr>ve_cmd := (\<lambda>j. ve_cmd e (i + j))\<rparr>"

fun vk_node_collect :: "'s valkey_store \<Rightarrow> vk_env \<Rightarrow> nat \<Rightarrow> string list \<Rightarrow> node_info list \<Rightarrow> 's \<Rightarrow> (store_error + node_info list) \<times> 's" where
  "vk_node_collect c e i [] nodes = ret nodes"
| "vk_node_collect c e i (node_id # ids) nodes =
     tryb (vk_node_get c (env_from e i) node_id) (\<lambda>found. case found of
       Some info \<Rightarrow> vk_node_collect c e (i + 2) ids (nodes @ [info])
     | None \<Rightarrow> (\<lambda>s. vk_node_collect c e (i + 2) ids nodes
         (snd (cmd e (i + 1) (vo_srem (vs_conn c) (vk_key c [''nodes_set'']) node_id) s))))"

definition vk_node_list :: "'s valkey_store \<Rightarrow> vk_env \<Rightarrow> 's \<Rightarrow> (store_error + node_info list) \<times> 's" where
  "vk_node_list c e = tryb (cmd e 0 (vo_smembers (vs_conn c) (vk_key c [''nodes_set'']))) (\<lambda>ids. vk_node_collect c e 1 ids [])"

definition vk_node_deregister :: "'s valkey_store \<Rightarrow> vk_env \<Rightarrow> string \<Rightarrow> 's \<Rightarrow> (store_error + unit) \<times> 's" where
  "vk_node_deregister c e node_id =
     tryb (cmd e 0 (vo_del (vs_conn c) (vk_key c [''nodes'', node_id]))) (\<lambda>_.
     cmd e 1 (vo_srem (vs_conn c) (vk_key c [''nodes_set'']) node_id))"

section \<open>Configuration, challenges, leader election\<close>

definition vk_config_version :: "'s valkey_store \<Rightarrow> vk_env \<Rightarrow> 's \<Rightarrow> (store_error + u64) \<times> 's" where
  "vk_config_version c e = tryb (cmd e 0 (vo_get (vs_conn c) (vk_key c [''config'', ''version'']))) to_u64"

definition vk_config_get :: "'s valkey_store \<Rightarrow> vk_env \<Rightarrow> 's \<Rightarrow> (store_error + string option) \<times> 's" where
  "vk_config_get c e = cmd e 0 (vo_get (vs_conn c) (vk_key c [''config'', ''current'']))"

definition vk_config_set :: "'s valkey_store \<Rightarrow> vk_env \<Rightarrow> string \<Rightarrow> 's \<Rightarrow> (store_error + u64) \<times> 's" where
  "vk_config_set c e content =
     tryb (cmd e 0 (vo_incr (vs_conn c) (vk_key c [''config'', ''version'']) 1)) (\<lambda>new_version.
     tryb (cmd e 1 (vo_set (vs_conn c) (vk_key c [''config'', ''current'']) content)) (\<lambda>_.
     tryb (cmd e 2 (vo_publish (vs_conn c) (vk_key c [''events'', ''config_change'']) (show_nat (unat new_version)))) (\<lambda>_.
     ret new_version)))"

definition vk_acme_challenge_set :: "'s valkey_store \<Rightarrow> vk_env \<Rightarrow> string \<Rightarrow> string \<Rightarrow> duration \<Rightarrow> 's \<Rightarrow> (store_error + unit) \<times> 's" where
  "vk_acme_challenge_set c e token auth ttl = cmd e 0 (vo_set_ex (vs_conn c) (vk_key c [''acme'', token]) auth (as_secs ttl))"

definition vk_acme_challenge_get :: "'s valkey_store \<Rightarrow> vk_env \<Rightarrow> string \<Rightarrow> 's \<Rightarrow> (store_error + string option) \<times> 's" where
  "vk_acme_challenge_get c e token = cmd e 0 (vo_get (vs_conn c) (vk_key c [''acme'', token]))"

definition vk_acme_challenge_delete :: "'s valkey_store \<Rightarrow> vk_env \<Rightarrow> string \<Rightarrow> 's \<Rightarrow> (store_error + unit) \<times> 's" where
  "vk_acme_challenge_delete c e token = cmd e 0 (vo_del (vs_conn c) (vk_key c [''acme'', token]))"

definition vk_leader_acquire :: "'s valkey_store \<Rightarrow> vk_env \<Rightarrow> string \<Rightarrow> string \<Rightarrow> duration \<Rightarrow> 's \<Rightarrow> (store_error + bool) \<times> 's" where
  "vk_leader_acquire c e task node_id ttl =
     tryb (cmd e 0 (leader_acquire_script (vs_conn c) (vk_key c [''leader'', task]) node_id (as_secs ttl))) (\<lambda>r. ret (r = 1))"

definition vk_leader_release :: "'s valkey_store \<Rightarrow> vk_env \<Rightarrow> string \<Rightarrow> string \<Rightarrow> 's \<Rightarrow> (store_error + unit) \<times> 's" where
  "vk_leader_release c e task node_id =
     tryb (cmd e 0 (leader_release_script (vs_conn c) (vk_key c [''leader'', task]) node_id)) (\<lambda>_. ret ())"

definition vk_leader_get :: "'s valkey_store \<Rightarrow> vk_env \<Rightarrow> string \<Rightarrow> 's \<Rightarrow> (store_error + string option) \<times> 's" where
  "vk_leader_get c e task = cmd e 0 (vo_get (vs_conn c) (vk_key c [''leader'', task]))"

definition vk_health_check :: "'s valkey_store \<Rightarrow> vk_env \<Rightarrow> 's \<Rightarrow> (store_error + unit) \<times> 's" where
  "vk_health_check c e = tryb (cmd e 0 (vo_ping (vs_conn c))) (\<lambda>_. ret ())"

section \<open>Subscriptions\<close>

record vk_channels =
  vch_config :: nat
  vch_health :: "(string \<times> string \<times> store_health_status) list"
  vch_drain :: "string list"

text \<open>One message of the subscription; \<open>None\<close> is a payload that is no text.\<close>

definition pubsub_message :: "'s valkey_store \<Rightarrow> string \<times> string option \<Rightarrow> vk_channels \<Rightarrow> vk_channels" where
  "pubsub_message c msg ch =
     (let (channel, p) = msg in case p of None \<Rightarrow> ch | Some payload \<Rightarrow>
      if channel = vk_key c [''events'', ''config_change''] then ch\<lparr>vch_config := vch_config ch + 1\<rparr>
      else if channel = vk_key c [''events'', ''health_change''] then
        (case split_once '':'' payload of
           Some (service, rest) \<Rightarrow> (case split_once '':'' rest of
             Some (server_url, json) \<Rightarrow> (case jc_health_from (vs_json c) json of
               Inr status \<Rightarrow> ch\<lparr>vch_health := vch_health ch @ [(service, server_url, status)]\<rparr>
             | Inl _ \<Rightarrow> ch)
           | None \<Rightarrow> ch)
         | None \<Rightarrow> ch)
      else if channel = vk_key c [''events'', ''node_drain''] then ch\<lparr>vch_drain := vch_drain ch @ [payload]\<rparr>
      else ch)"

definition run_pubsub_loop :: "'s valkey_store \<Rightarrow> (string \<times> string option) list \<Rightarrow> vk_channels \<Rightarrow> vk_channels" where
  "run_pubsub_loop c msgs ch = foldl (\<lambda>ch m. pubsub_message c m ch) ch msgs"

section \<open>Connection\<close>

record valkey_tls_config =
  vtc_ca :: "string option"
  vtc_cert :: "string option"
  vtc_key :: "string option"
  vtc_insecure_skip_verify :: bool

record sentinel_config =
  stc_master_name :: string
  stc_endpoints :: "string list"
  stc_password :: "string option"

record valkey_config =
  vkc_endpoints :: "string list"
  vkc_password :: "string option"
  vkc_username :: "string option"
  vkc_db :: int
  vkc_tls :: "valkey_tls_config option"
  vkc_pool_size :: u32
  vkc_key_prefix :: string
  vkc_connect_timeout :: duration
  vkc_operation_timeout :: duration
  vkc_sentinel :: "sentinel_config option"

text \<open>The address \<open>create_client\<close> opens.\<close>

definition create_client_url :: "valkey_config \<Rightarrow> store_error + string" where
  "create_client_url c = (case vkc_endpoints c of
       [] \<Rightarrow> Inl (Connection ''No endpoints provided'')
     | url # _ \<Rightarrow>
       (let with_auth = (\<lambda>auth. case find_str ''://'' url of
              Some pos \<Rightarrow> take (pos + 3) url @ auth @ ''@'' @ drop (pos + 3) url
            | None \<Rightarrow> url);
            url1 = (if CHR ''@'' \<in> set url then url
                    else case (vkc_username c, vkc_password c) of
                      (Some user, Some pass) \<Rightarrow> with_auth (user @ '':'' @ pass)
                    | (None, Some pass) \<Rightarrow> with_auth ('':'' @ pass)
                    | _ \<Rightarrow> url);
            url2 = (if vkc_db c \<noteq> 0 \<and> CHR ''/'' \<notin> set url1 then url1 @ ''/'' @ show_int (vkc_db c) else url1)
        in Inr url2))"

section \<open>Commands and calls\<close>

lemmas valkey_defs = valkey_laws_def string_laws_def counter_laws_def set_laws_def zset_laws_def keys_law_def publish_laws_def

lemma vk_key_simps [simp]: "vk_key c [] = vs_key_prefix c" "vk_key c (parts @ [p]) = vk_key c parts @ CHR '':'' # p"
  by (simp_all add: vk_key_def)

lemma vk_key_append: "vk_key c parts = vs_key_prefix c @ concat (map (\<lambda>p. CHR '':'' # p) parts)"
  by (induction parts rule: rev_induct) simp_all

lemma get_reply:
  assumes "valkey_laws V"
  shows "vo_keyspace V (snd (vo_get V k t s)) = vo_keyspace V s" "vo_published V (snd (vo_get V k t s)) = vo_published V s"
    and "fst (vo_get V k t s) = Inr r \<Longrightarrow> r = live_string t (vo_keyspace V s) k"
    and "is_string_or_absent t (vo_keyspace V s) k \<Longrightarrow> fst (vo_get V k t s) = Inr (live_string t (vo_keyspace V s) k)"
proof -
  have "string_laws V" using assms by (simp add: valkey_laws_def)
  then have *: "(is_string_or_absent t (vo_keyspace V s) k \<longrightarrow> does V (vo_get V k t) s (live_string t (vo_keyspace V s) k) (vo_keyspace V s)) \<and>
     (\<not> is_string_or_absent t (vo_keyspace V s) k \<longrightarrow> refuses V (vo_get V k t) s)"
    unfolding string_laws_def Let_def by blast
  then show "vo_keyspace V (snd (vo_get V k t s)) = vo_keyspace V s" "vo_published V (snd (vo_get V k t s)) = vo_published V s"
    "fst (vo_get V k t s) = Inr r \<Longrightarrow> r = live_string t (vo_keyspace V s) k"
    "is_string_or_absent t (vo_keyspace V s) k \<Longrightarrow> fst (vo_get V k t s) = Inr (live_string t (vo_keyspace V s) k)"
    by (cases "is_string_or_absent t (vo_keyspace V s) k"; auto simp: does_def refuses_def)+
qed

lemma set_ex_reply:
  assumes "valkey_laws V"
  shows "0 < n \<Longrightarrow> fst (vo_set_ex V k v n t s) = Inr ()"
    and "0 < n \<Longrightarrow> vo_keyspace V (snd (vo_set_ex V k v n t s)) = (vo_keyspace V s)(k \<mapsto> (RString v, Some (t + secs n)))"
    and "isl (fst (vo_set_ex V k v 0 t s))" and "vo_keyspace V (snd (vo_set_ex V k v 0 t s)) = vo_keyspace V s"
    and "vo_published V (snd (vo_set_ex V k v n t s)) = vo_published V s"
proof -
  have "string_laws V" using assms by (simp add: valkey_laws_def)
  then have *: "(0 < n \<longrightarrow> does V (vo_set_ex V k v n t) s () ((vo_keyspace V s)(k \<mapsto> (RString v, Some (t + secs n))))) \<and>
     refuses V (vo_set_ex V k v 0 t) s"
    unfolding string_laws_def Let_def by blast
  then show "0 < n \<Longrightarrow> fst (vo_set_ex V k v n t s) = Inr ()"
    "0 < n \<Longrightarrow> vo_keyspace V (snd (vo_set_ex V k v n t s)) = (vo_keyspace V s)(k \<mapsto> (RString v, Some (t + secs n)))"
    "isl (fst (vo_set_ex V k v 0 t s))" "vo_keyspace V (snd (vo_set_ex V k v 0 t s)) = vo_keyspace V s"
    "vo_published V (snd (vo_set_ex V k v n t s)) = vo_published V s"
    by (cases "n = 0"; auto simp: does_def refuses_def)+
qed

lemma del_reply:
  assumes "valkey_laws V"
  shows "fst (vo_del V k t s) = Inr ()" and "vo_keyspace V (snd (vo_del V k t s)) = (vo_keyspace V s)(k := None)"
  using assms unfolding valkey_laws_def string_laws_def Let_def does_def by blast+

lemma live_string_Some:
  "live_string t ks k = Some v \<longleftrightarrow> (\<exists>d. ks k = Some (RString v, d) \<and> (case d of None \<Rightarrow> True | Some x \<Rightarrow> t < x))"
  by (auto simp: live_string_def live_def live_entry_def split: option.splits redis_value.splits if_splits)

lemma live_string_earlier: "live_string u ks k = Some v \<Longrightarrow> t \<le> u \<Longrightarrow> live_string t ks k = Some v"
  unfolding live_string_Some by (auto split: option.splits)

lemma live_string_upd [simp]:
  "live_string t (ks(k \<mapsto> (RString v, Some d))) k' = (if k' = k then (if t < d then Some v else None) else live_string t ks k')"
  "live_string t (ks(k := None)) k' = (if k' = k then None else live_string t ks k')"
  by (auto simp: live_string_def live_def live_entry_def)

lemma cmd_Inr: "fst (cmd e i c s) = Inr x \<longleftrightarrow> snd (ve_cmd e i) = Delivered \<and> fst (c (fst (ve_cmd e i)) s) = Inr x"
  by (cases "fst (c (fst (ve_cmd e i)) s)") (auto simp: cmd_def send_def split: fate.splits)

lemma cmd_snd: "snd (cmd e i c s) = (case snd (ve_cmd e i) of RequestLost _ \<Rightarrow> s | _ \<Rightarrow> snd (c (fst (ve_cmd e i)) s))"
  by (auto simp: cmd_def send_def split: fate.splits)

section \<open>Leader election\<close>

definition vk_holder :: "'s valkey_store \<Rightarrow> string \<Rightarrow> instant \<Rightarrow> 's \<Rightarrow> string option" where
  "vk_holder c task t s = live_string t (vo_keyspace (vs_conn c) s) (vk_key c [''leader'', task])"

lemma leader_acquire_script_effect:
  assumes "valkey_laws V" and r_def: "r = leader_acquire_script V key n ttl t s"
  shows "fst r = Inr 1 \<and> live_string t (vo_keyspace V s) key \<in> {None, Some n} \<and>
      vo_keyspace V (snd r) = (vo_keyspace V s)(key \<mapsto> (RString n, Some (t + secs ttl))) \<or>
    fst r \<noteq> Inr 1 \<and> vo_keyspace V (snd r) = vo_keyspace V s"
proof (cases "fst (vo_get V key t s)")
  case (Inl er)
  then show ?thesis using get_reply(1) [OF assms(1)] by (simp add: r_def leader_acquire_script_def tryb_Inr tryb_snd)
next
  case (Inr cur)
  note g = get_reply(1,3) [OF assms(1)] Inr
  show ?thesis
  proof (cases "(cur = None \<or> cur = Some n) \<and> ttl \<noteq> 0")
    case True
    then show ?thesis using g set_ex_reply(1,2) [OF assms(1), where n = ttl]
      by (auto simp: r_def leader_acquire_script_def tryb_Inr tryb_snd)
  next
    case False
    then show ?thesis using g set_ex_reply(3,4) [OF assms(1), of key n t "snd (vo_get V key t s)"]
      by (auto simp: r_def leader_acquire_script_def tryb_Inr tryb_snd isl_def)
  qed
qed

lemma leader_release_script_effect:
  assumes "valkey_laws V" and r_def: "r = leader_release_script V key n t s"
  shows "vo_keyspace V (snd r) = vo_keyspace V s \<or>
    live_string t (vo_keyspace V s) key = Some n \<and> vo_keyspace V (snd r) = (vo_keyspace V s)(key := None)"
  using get_reply(1,3) [OF assms(1)] del_reply [OF assms(1)]
  by (cases "fst (vo_get V key t s)") (auto simp: r_def leader_release_script_def tryb_snd)

text \<open>Leases are safe on the shared server, whatever the network does; they last whole seconds.\<close>

lemma valkey_lease_safe:
  assumes "valkey_laws (vs_conn c)"
  shows "lease_safe (\<lambda>e. fst (ve_cmd e 0)) (\<lambda>e. vk_leader_acquire c e task) (\<lambda>e. vk_leader_release c e task) (vk_holder c task)
    (\<lambda>ttl. secs (as_secs ttl))"
proof unfold_locales
  let ?k = "vk_key c [''leader'', task]"
  fix f :: vk_env and n m :: string and ttl :: duration and s and u t :: instant
  note acq = leader_acquire_script_effect [OF assms refl, of ?k _ "as_secs ttl" "fst (ve_cmd f 0)" s]
  note rel = leader_release_script_effect [OF assms refl, of ?k _ "fst (ve_cmd f 0)" s]
  show "vk_holder c task t s = Some n" if "vk_holder c task u s = Some n" "t \<le> u"
    using that unfolding vk_holder_def by (rule live_string_earlier)
  show "vk_holder c task (fst (ve_cmd f 0)) s = None \<or> vk_holder c task (fst (ve_cmd f 0)) s = Some n"
    if "fst (vk_leader_acquire c f task n ttl s) = Inr True"
    using that acq [of n] by (auto simp: vk_leader_acquire_def vk_holder_def tryb_Inr cmd_Inr)
  show "vk_holder c task u (snd (vk_leader_acquire c f task n ttl s)) = Some n"
    if "fst (vk_leader_acquire c f task n ttl s) = Inr True" "u < fst (ve_cmd f 0) + secs (as_secs ttl)"
    using that acq [of n] by (auto simp: vk_leader_acquire_def vk_holder_def tryb_Inr tryb_snd cmd_Inr cmd_snd split: sum.splits)
  show "vk_holder c task u (snd (vk_leader_acquire c f task m ttl s)) = Some n"
    if "vk_holder c task u s = Some n" "m \<noteq> n" "fst (ve_cmd f 0) \<le> u"
  proof -
    have "live_string (fst (ve_cmd f 0)) (vo_keyspace (vs_conn c) s) ?k = Some n"
      using that(1,3) live_string_earlier unfolding vk_holder_def by blast
    then show ?thesis using that acq [of m]
      by (auto simp: vk_leader_acquire_def vk_holder_def tryb_snd cmd_snd split: sum.splits fate.splits)
  qed
  show "vk_holder c task u (snd (vk_leader_release c f task m s)) = Some n"
    if "vk_holder c task u s = Some n" "m \<noteq> n"
    using that rel [of m]
    by (auto simp: vk_leader_release_def vk_holder_def tryb_snd cmd_snd live_string_Some split: sum.splits fate.splits)
qed

section \<open>The sliding window\<close>

abbreviation env_ms :: "vk_env \<Rightarrow> int" where
  "env_ms e \<equiv> uint (ve_wall e)"

abbreviation env_time :: "vk_env \<Rightarrow> instant" where
  "env_time e \<equiv> fst (ve_cmd e 0)"

definition window_member :: "vk_env \<Rightarrow> string" where
  "window_member e = show_int (env_ms e) @ ''-'' @ show_nat (ve_random e)"

text \<open>
  Requests on one key by any number of nodes, in the order in which the server runs them, with
  calls on other keys in between: all requests, those answered with \<open>true\<close>, and the state.
\<close>

inductive rl_reach :: "'s valkey_store \<Rightarrow> string \<Rightarrow> u64 \<Rightarrow> u64 \<Rightarrow> 's \<Rightarrow> vk_env list \<Rightarrow> vk_env list \<Rightarrow> 's \<Rightarrow> bool"
  for c key limit window s0 where
  rl_init: "rl_reach c key limit window s0 [] [] s0"
| rl_request: "rl_reach c key limit window s0 es adm s \<Longrightarrow> vk_rate_limit_check c e key limit window s = (r, s') \<Longrightarrow>
    rl_reach c key limit window s0 (es @ [e]) (case r of Inr (True, _) \<Rightarrow> adm @ [e] | _ \<Rightarrow> adm) s'"
| rl_other: "rl_reach c key limit window s0 es adm s \<Longrightarrow>
    vo_keyspace (vs_conn c) s' (vk_key c [''ratelimit'', key]) = vo_keyspace (vs_conn c) s (vk_key c [''ratelimit'', key]) \<Longrightarrow>
    rl_reach c key limit window s0 es adm s'"

text \<open>
  Neither clock runs backwards, and when the server's clock has advanced by the window the clients'
  clocks have as well.
\<close>

definition clocks_agree :: "u64 \<Rightarrow> vk_env list \<Rightarrow> bool" where
  "clocks_agree window = sorted_wrt (\<lambda>a e. env_time a \<le> env_time e \<and> env_ms a \<le> env_ms e \<and>
     (env_time a + millis (nat (uint window * 1000)) \<le> env_time e \<longrightarrow> env_ms a + uint window * 1000 \<le> env_ms e))"

definition window_entry_ok :: "(redis_value \<times> instant option) option \<Rightarrow> bool" where
  "window_entry_ok x = (case x of None \<Rightarrow> True | Some (RZSet z, _) \<Rightarrow> distinct (map fst z) | _ \<Rightarrow> False)"

text \<open>What the script does to the entry of its key.\<close>

definition window_kept :: "int \<Rightarrow> int \<Rightarrow> (string \<times> int) list \<Rightarrow> (string \<times> int) list" where
  "window_kept now w = filter (\<lambda>(_, x). \<not> (0 \<le> x \<and> x \<le> now - w * 1000))"

lemma zset_reply:
  assumes "valkey_laws V" and "is_zset_or_absent t (vo_keyspace V s) k"
  shows "fst (vo_zremrangebyscore V k lo hi t s) = Inr ()"
    and "vo_keyspace V (snd (vo_zremrangebyscore V k lo hi t s)) = ks_zset_update (filter (\<lambda>(_, x). \<not> (lo \<le> x \<and> x \<le> hi))) k t (vo_keyspace V s)"
    and "fst (vo_zcard V k t s) = Inr (length (ks_zset t (vo_keyspace V s) k))" "vo_keyspace V (snd (vo_zcard V k t s)) = vo_keyspace V s"
    and "fst (vo_zadd V k sc m t s) = Inr ()"
    and "vo_keyspace V (snd (vo_zadd V k sc m t s)) = ks_zset_update (dict_insert m sc) k t (vo_keyspace V s)"
  using assms unfolding valkey_laws_def zset_laws_def Let_def does_def by blast+

lemma pexpire_reply:
  assumes "valkey_laws V"
  shows "fst (vo_pexpire V k i t s) = Inr ()" and "vo_keyspace V (snd (vo_pexpire V k i t s)) = ks_expire k i t (vo_keyspace V s)"
  using assms unfolding valkey_laws_def counter_laws_def Let_def does_def by blast+

lemma zset_update_entry:
  assumes "is_zset_or_absent t ks k" and "z = f (ks_zset t ks k)"
  shows "is_zset_or_absent t (ks_zset_update f k t ks) k" "ks_zset t (ks_zset_update f k t ks) k = z"
    "ks_zset_update f k t ks k = (if z = [] then None else Some (RZSet z, case live_entry t ks k of Some (_, d) \<Rightarrow> d | None \<Rightarrow> None))"
proof -
  have d: "case live_entry t ks k of Some (v, Some d) \<Rightarrow> t < d | _ \<Rightarrow> True"
    by (auto simp: live_entry_def split: option.splits)
  show "ks_zset_update f k t ks k = (if z = [] then None else Some (RZSet z, case live_entry t ks k of Some (_, d) \<Rightarrow> d | None \<Rightarrow> None))"
    by (simp add: ks_zset_update_def assms(2))
  then show "is_zset_or_absent t (ks_zset_update f k t ks) k" "ks_zset t (ks_zset_update f k t ks) k = z"
    using d by (auto simp: is_zset_or_absent_def ks_zset_def live_def live_entry_def split: option.splits if_splits)
qed

lemma rate_limit_script_effect:
  assumes V: "valkey_laws V" and typed: "is_zset_or_absent t (vo_keyspace V s) key" and w: "0 < w"
    and z: "z = window_kept now w (ks_zset t (vo_keyspace V s) key)"
    and r: "r = rate_limit_script V key limit w now rnd t s"
  shows "if int (length z) < limit
    then fst r = Inr [1, limit - int (length z) - 1, now + w * 1000] \<and>
      vo_keyspace V (snd r) key = Some (RZSet (dict_insert (show_int now @ ''-'' @ show_nat rnd) now z), Some (t + millis (nat (w * 1000))))
    else fst r = Inr [0, 0, now + w * 1000] \<and>
      vo_keyspace V (snd r) key = (if z = [] then None else Some (RZSet z, case live_entry t (vo_keyspace V s) key of Some (_, d) \<Rightarrow> d | None \<Rightarrow> None))"
proof -
  let ?s1 = "snd (vo_zremrangebyscore V key 0 (now - w * 1000) t s)"
  let ?s2 = "snd (vo_zcard V key t ?s1)"
  let ?m = "show_int now @ ''-'' @ show_nat rnd"
  let ?s3 = "snd (vo_zadd V key now ?m t ?s2)"
  note a = zset_reply(1,2) [OF V typed, of 0 "now - w * 1000"]
  note e1 = zset_update_entry [OF typed, of z "filter (\<lambda>(_, x). \<not> (0 \<le> x \<and> x \<le> now - w * 1000))", folded a(2)]
  have z': "z = filter (\<lambda>(_, x). \<not> (0 \<le> x \<and> x \<le> now - w * 1000)) (ks_zset t (vo_keyspace V s) key)"
    by (simp add: z window_kept_def)
  note e1 = e1 [OF z']
  note b = zset_reply(3,4) [OF V e1(1)]
  have t2: "is_zset_or_absent t (vo_keyspace V ?s2) key" "ks_zset t (vo_keyspace V ?s2) key = z" using e1 b by simp_all
  note d = zset_reply(5,6) [OF V t2(1), of now ?m]
  note e3 = zset_update_entry [OF t2(1), of "dict_insert ?m now z" "dict_insert ?m now", folded d(2), unfolded t2(2), OF refl]
  have ne: "dict_insert ?m now z \<noteq> []" by (simp add: dict_insert_def)
  have live3: "live_entry t (vo_keyspace V ?s3) key \<noteq> None \<and> (\<forall>v x. live_entry t (vo_keyspace V ?s3) key = Some (v, x) \<longrightarrow> v = RZSet (dict_insert ?m now z))"
    using e3 ne by (auto simp: ks_zset_def live_def split: option.splits redis_value.splits)
  have exp: "vo_keyspace V (snd (vo_pexpire V key (w * 1000) t ?s3)) key = Some (RZSet (dict_insert ?m now z), Some (t + millis (nat (w * 1000))))"
    using live3 w by (auto simp: pexpire_reply(2) [OF V] ks_expire_def)
  show ?thesis
    using a(1) b(1) d(1) e1 b(2) exp pexpire_reply(1) [OF V] unfolding r rate_limit_script_def
    by (simp add: tryb_def split_beta ret_def)
qed

lemma rate_limit_check_allowed:
  assumes "valkey_laws (vs_conn c)" and "window_entry_ok (vo_keyspace (vs_conn c) s (vk_key c [''ratelimit'', key]))" and "0 < window"
    and "vk_rate_limit_check c e key limit window s = (r, s')"
  defines "K \<equiv> vk_key c [''ratelimit'', key]" and "ks \<equiv> vo_keyspace (vs_conn c) s"
  defines "z \<equiv> window_kept (env_ms e) (uint window) (ks_zset (env_time e) ks K)"
  shows "s' = s \<and> isl r \<or>
    int (length z) < uint limit \<and> (isl r \<or> (\<exists>x. r = Inr (True, x))) \<and>
      vo_keyspace (vs_conn c) s' K = Some (RZSet (dict_insert (window_member e) (env_ms e) z), Some (env_time e + millis (nat (uint window * 1000)))) \<or>
    \<not> int (length z) < uint limit \<and> (isl r \<or> (\<exists>x. r = Inr (False, x))) \<and>
      vo_keyspace (vs_conn c) s' K = (if z = [] then None else Some (RZSet z, case live_entry (env_time e) ks K of Some (_, d) \<Rightarrow> d | None \<Rightarrow> None))"
proof -
  have typed: "is_zset_or_absent (env_time e) ks K"
    using assms(2) by (auto simp: ks_def K_def window_entry_ok_def is_zset_or_absent_def live_def live_entry_def split: option.splits redis_value.splits)
  have w: "0 < uint window" using assms(3) by (simp add: word_less_def)
  note eff = rate_limit_script_effect [OF assms(1) typed [unfolded ks_def] w refl refl, of "env_ms e" "uint limit" "ve_random e"]
  show ?thesis using assms(4) eff unfolding K_def [symmetric] ks_def [symmetric] z_def [symmetric] window_member_def [symmetric]
    by (auto simp: vk_rate_limit_check_def tryb_def cmd_def send_def ret_def fail_def K_def ks_def z_def split: fate.splits if_splits)
qed

definition window_inv :: "'s valkey_store \<Rightarrow> string \<Rightarrow> u64 \<Rightarrow> vk_env list \<Rightarrow> vk_env list \<Rightarrow> 's \<Rightarrow> bool" where
  "window_inv c key window es adm s \<longleftrightarrow> (let entry = vo_keyspace (vs_conn c) s (vk_key c [''ratelimit'', key]); W = uint window * 1000 in
     window_entry_ok entry \<and> set adm \<subseteq> set es \<and> distinct adm \<and>
     (\<forall>a \<in> set adm. (\<exists>e \<in> set es. env_ms a + W \<le> env_ms e) \<or>
       (\<exists>z d. entry = Some (RZSet z, Some d) \<and> (window_member a, env_ms a) \<in> set z \<and> env_time a + millis (nat W) \<le> d)))"

lemma set_dict_insert: "distinct (map fst d) \<Longrightarrow> set (dict_insert k v d) = insert (k, v) {p \<in> set d. fst p \<noteq> k}"
  unfolding dict_insert_def by (induction d) force+

lemma distinct_dict_insert: "distinct (map fst d) \<Longrightarrow> distinct (map fst (dict_insert k v d))"
  using dict_wf_insert [of d k v] by (simp add: dict_wf_def)

lemma distinct_window_kept: "distinct (map fst z) \<Longrightarrow> distinct (map fst (window_kept now w z))"
  by (simp add: window_kept_def distinct_map_filter)

text \<open>Every admitted request that is still in the window of \<open>e\<close> is one of the members the script counts.\<close>

lemma window_members_counted:
  assumes inv: "window_inv c key window es adm s" and cl: "clocks_agree window (es @ [e])" and a: "a \<in> set adm"
    and new: "env_ms e < env_ms a + uint window * 1000"
  defines "ks \<equiv> vo_keyspace (vs_conn c) s" and "K \<equiv> vk_key c [''ratelimit'', key]"
  shows "(window_member a, env_ms a) \<in> set (window_kept (env_ms e) (uint window) (ks_zset (env_time e) ks K)) \<and>
    (\<exists>v d. live_entry (env_time e) ks K = Some (v, Some d) \<and> env_time a + millis (nat (uint window * 1000)) \<le> d)"
proof -
  have es: "a \<in> set es" using inv a by (auto simp: window_inv_def Let_def)
  have mono: "env_ms x \<le> env_ms e" if "x \<in> set es" for x using cl that by (auto simp: clocks_agree_def sorted_wrt_append)
  then obtain z d where z: "ks K = Some (RZSet z, Some d)" "(window_member a, env_ms a) \<in> set z" "env_time a + millis (nat (uint window * 1000)) \<le> d"
    using inv a new unfolding window_inv_def ks_def K_def Let_def by (meson le_less_trans less_le_not_le)
  have "env_time e < d"
  proof (rule ccontr)
    assume "\<not> env_time e < d"
    then have "env_time a + millis (nat (uint window * 1000)) \<le> env_time e" using z(3) by simp
    then show False using cl es new by (auto simp: clocks_agree_def sorted_wrt_append)
  qed
  then have "live_entry (env_time e) ks K = Some (RZSet z, Some d)" by (simp add: live_entry_def z(1))
  then show ?thesis using z(2,3) new by (auto simp: ks_zset_def live_def window_kept_def)
qed

lemma window_count:
  assumes inv: "window_inv c key window es adm s" and cl: "clocks_agree window (es @ [e])" and dist: "distinct (map window_member (es @ [e]))"
    and P: "\<And>a. P a \<Longrightarrow> env_ms e < env_ms a + uint window * 1000"
  shows "length (filter P adm) \<le> length (window_kept (env_ms e) (uint window) (ks_zset (env_time e) (vo_keyspace (vs_conn c) s) (vk_key c [''ratelimit'', key])))"
proof -
  let ?z = "window_kept (env_ms e) (uint window) (ks_zset (env_time e) (vo_keyspace (vs_conn c) s) (vk_key c [''ratelimit'', key]))"
  have sub: "window_member ` set (filter P adm) \<subseteq> fst ` set ?z"
    using window_members_counted [OF inv cl] P by force
  have "inj_on window_member (set es)" using dist by (simp add: distinct_map)
  then have inj: "inj_on window_member (set (filter P adm))"
    using inv by (auto simp: window_inv_def Let_def intro: inj_on_subset)
  have "distinct (filter P adm)" using inv by (simp add: window_inv_def Let_def)
  then have "length (filter P adm) = card (set (filter P adm))" by (rule distinct_card [symmetric])
  also have "\<dots> = card (window_member ` set (filter P adm))" using inj by (simp add: card_image)
  also have "\<dots> \<le> card (fst ` set ?z)" using sub by (simp add: card_mono)
  also have "\<dots> \<le> length ?z" using card_length [of "map fst ?z"] by simp
  finally show ?thesis .
qed

lemma window_inv_step:
  assumes V: "valkey_laws (vs_conn c)" and w: "0 < window" and inv: "window_inv c key window es adm s"
    and cl: "clocks_agree window (es @ [e])" and dist: "distinct (map window_member (es @ [e]))"
    and r: "vk_rate_limit_check c e key limit window s = (r, s')"
  shows "window_inv c key window (es @ [e]) (case r of Inr (True, _) \<Rightarrow> adm @ [e] | _ \<Rightarrow> adm) s'"
proof -
  define K ks where "K = vk_key c [''ratelimit'', key]" and "ks = vo_keyspace (vs_conn c) s"
  define z where "z = window_kept (env_ms e) (uint window) (ks_zset (env_time e) ks K)"
  define W where "W = uint window * 1000"
  have ok: "window_entry_ok (ks K)" and sub: "set adm \<subseteq> set es" "distinct adm" using inv by (simp_all add: window_inv_def Let_def ks_def K_def)
  have new: "e \<notin> set es" "window_member e \<notin> window_member ` set es" using dist by auto
  have dz: "distinct (map fst z)"
    using ok unfolding z_def by (intro distinct_window_kept)
      (auto simp: window_entry_ok_def ks_zset_def live_def live_entry_def split: option.splits redis_value.splits)
  have times: "env_time a \<le> env_time e" if "a \<in> set es" for a using cl that by (auto simp: clocks_agree_def sorted_wrt_append)
  have counted: "(\<exists>x \<in> set (es @ [e]). env_ms a + W \<le> env_ms x) \<or> (window_member a, env_ms a) \<in> set z \<and>
      (\<exists>v d. live_entry (env_time e) ks K = Some (v, Some d) \<and> env_time a + millis (nat W) \<le> d)" if "a \<in> set adm" for a
    using window_members_counted [OF inv cl that] unfolding z_def ks_def K_def W_def by (cases "env_ms e < env_ms a + uint window * 1000") auto
  consider (lost) "s' = s" "isl r"
    | (run) "isl r \<or> (\<exists>x. r = Inr (True, x))"
        "vo_keyspace (vs_conn c) s' K = Some (RZSet (dict_insert (window_member e) (env_ms e) z), Some (env_time e + millis (nat W)))"
    | (full) "isl r \<or> (\<exists>x. r = Inr (False, x))"
        "vo_keyspace (vs_conn c) s' K = (if z = [] then None else Some (RZSet z, case live_entry (env_time e) ks K of Some (_, d) \<Rightarrow> d | None \<Rightarrow> None))"
    using rate_limit_check_allowed [OF V ok [unfolded ks_def K_def] w r] unfolding K_def ks_def z_def W_def by blast
  then show ?thesis
  proof cases
    case lost
    then show ?thesis using inv by (auto simp: window_inv_def Let_def isl_def)
  next
    case run
    define adm' where "adm' = (case r of Inr (True, _) \<Rightarrow> adm @ [e] | _ \<Rightarrow> adm)"
    have adm': "set adm' \<subseteq> insert e (set adm)" "distinct adm'" using run(1) sub new by (auto simp: adm'_def isl_def)
    have "(\<exists>x \<in> set (es @ [e]). env_ms a + W \<le> env_ms x) \<or>
        (window_member a, env_ms a) \<in> set (dict_insert (window_member e) (env_ms e) z) \<and> env_time a + millis (nat W) \<le> env_time e + millis (nat W)"
      if "a \<in> set adm'" for a
    proof (cases "a = e")
      case False
      with that adm' have "a \<in> set adm" by auto
      with sub have "a \<in> set es" by blast
      then have "window_member a \<in> window_member ` set es" by (rule imageI)
      then have "window_member a \<noteq> window_member e" "env_time a \<le> env_time e" using new(2) times [OF \<open>a \<in> set es\<close>] by metis+
      then show ?thesis using counted [OF \<open>a \<in> set adm\<close>] by (auto simp: set_dict_insert [OF dz])
    qed (simp add: set_dict_insert [OF dz])
    then show ?thesis unfolding adm'_def [symmetric] using run(2) adm' sub distinct_dict_insert [OF dz]
      by (simp add: window_inv_def Let_def K_def [symmetric] W_def [symmetric] window_entry_ok_def) blast
  next
    case full
    have adm': "(case r of Inr (True, _) \<Rightarrow> adm @ [e] | _ \<Rightarrow> adm) = adm" using full(1) by (auto simp: isl_def)
    have "(\<exists>x \<in> set (es @ [e]). env_ms a + W \<le> env_ms x) \<or>
        (\<exists>z' d. vo_keyspace (vs_conn c) s' K = Some (RZSet z', Some d) \<and> (window_member a, env_ms a) \<in> set z' \<and> env_time a + millis (nat W) \<le> d)"
      if "a \<in> set adm" for a
      using counted [OF that] full(2) by (cases "z = []") auto
    then show ?thesis unfolding adm' using full(2) sub dz
      by (auto simp: window_inv_def Let_def K_def [symmetric] W_def [symmetric] window_entry_ok_def)
  qed
qed


end
