(* ===== verification/Text_Codec.thy ===== *)
theory Text_Codec
  imports Rust_Std
begin

text \<open>
  A length-prefixed text encoding of numbers, strings and lists. It stands for the JSON library where
  a concrete codec has to show that the hypotheses on it can hold.
\<close>

definition put_nat :: "nat \<Rightarrow> string" where
  "put_nat n = show_nat n @ '',''"

definition get_nat :: "string \<Rightarrow> (nat \<times> string) option" where
  "get_nat x = (case split_once '','' x of Some (d, r) \<Rightarrow> Some (digits_value d, r) | None \<Rightarrow> None)"

definition put_str :: "string \<Rightarrow> string" where
  "put_str x = put_nat (length x) @ x"

definition get_str :: "string \<Rightarrow> (string \<times> string) option" where
  "get_str x = (case get_nat x of Some (n, r) \<Rightarrow> Some (take n r, drop n r) | None \<Rightarrow> None)"

definition put_list :: "('a \<Rightarrow> string) \<Rightarrow> 'a list \<Rightarrow> string" where
  "put_list put xs = put_nat (length xs) @ concat (map put xs)"

fun get_times :: "(string \<Rightarrow> ('a \<times> string) option) \<Rightarrow> nat \<Rightarrow> string \<Rightarrow> ('a list \<times> string) option" where
  "get_times get 0 s = Some ([], s)"
| "get_times get (Suc n) s = (case get s of
       None \<Rightarrow> None
     | Some (x, r) \<Rightarrow> map_option (\<lambda>(xs, r'). (x # xs, r')) (get_times get n r))"

definition get_list :: "(string \<Rightarrow> ('a \<times> string) option) \<Rightarrow> string \<Rightarrow> ('a list \<times> string) option" where
  "get_list get s = Option.bind (get_nat s) (\<lambda>(n, r). get_times get n r)"

lemma get_put_nat [simp]: "get_nat (put_nat n @ r) = Some (n, r)"
proof -
  have "CHR '','' \<notin> set (show_nat n)" using show_nat_digits [of n] by (auto simp: list_all_iff is_ascii_digit_def)
  from split_once_char [OF this, of r] show ?thesis by (simp add: get_nat_def put_nat_def digits_value_show)
qed

lemma get_put_str [simp]: "get_str (put_str x @ r) = Some (x, r)" "get_str (put_str x) = Some (x, [])"
proof -
  show a: "get_str (put_str x @ r) = Some (x, r)" for r by (simp add: get_str_def put_str_def)
  show "get_str (put_str x) = Some (x, [])" using a [of "[]"] by simp
qed

lemma get_put_list:
  assumes "\<And>x r. get (put x @ r) = Some (x, r)"
  shows "get_list get (put_list put xs @ r) = Some (xs, r)"
proof -
  have "get_times get (length xs) (concat (map put xs) @ r) = Some (xs, r)"
    by (induction xs) (simp_all add: assms)
  then show ?thesis by (simp add: get_list_def put_list_def)
qed

end
