(* ===== verification/Valkey_Facts.thy ===== *)
theory Valkey_Facts
  imports Valkey_Store Text_Codec
begin

text \<open>
  What the calls of the shared store guarantee beyond leases and rate limits: sessions, the node
  registry, health events and the address of the server. A small server and a small codec show
  that the hypotheses on the external server and on the JSON library can hold.
\<close>

section \<open>A server that keeps the laws\<close>

type_synonym sv_state = "(redis_value \<times> instant option) dict \<times> (string \<times> string) list"

definition sv_keyspace :: "sv_state \<Rightarrow> keyspace" where
  "sv_keyspace s = dict_get (fst s)"

definition sv_via :: "(keyspace \<Rightarrow> keyspace) \<Rightarrow> string \<Rightarrow> sv_state \<Rightarrow> (string + unit) \<times> sv_state" where
  "sv_via g k s = (Inr (), (case g (sv_keyspace s) k of None \<Rightarrow> dict_remove k (fst s) | Some x \<Rightarrow> dict_insert k x (fst s), snd s))"

definition sv_incr :: "string \<Rightarrow> u64 \<Rightarrow> instant \<Rightarrow> sv_state \<Rightarrow> (string + u64) \<times> sv_state" where
  "sv_incr k d t s = (case live_entry t (sv_keyspace s) k of
       None \<Rightarrow> (Inr d, snd (sv_via (\<lambda>ks. ks(k \<mapsto> (RString (show_nat (unat d)), None))) k s))
     | Some (RString v, dl) \<Rightarrow> (let n = digits_value v + unat d in
         (Inr (of_nat n), snd (sv_via (\<lambda>ks. ks(k \<mapsto> (RString (show_nat n), dl))) k s)))
     | _ \<Rightarrow> (Inl ''WRONGTYPE'', s))"

definition simple_valkey :: "sv_state valkey_ops" where
  "simple_valkey = \<lparr>
     vo_keyspace = sv_keyspace,
     vo_published = snd,
     vo_get = (\<lambda>k t s. (if is_string_or_absent t (sv_keyspace s) k then Inr (live_string t (sv_keyspace s) k) else Inl ''WRONGTYPE'', s)),
     vo_set = (\<lambda>k v t. sv_via (\<lambda>ks. ks(k \<mapsto> (RString v, None))) k),
     vo_set_ex = (\<lambda>k v n t s. if n = 0 then (Inl ''invalid expire time'', s) else sv_via (\<lambda>ks. ks(k \<mapsto> (RString v, Some (t + secs n)))) k s),
     vo_del = (\<lambda>k t. sv_via (\<lambda>ks. ks(k := None)) k),
     vo_incr = sv_incr,
     vo_expire = (\<lambda>k i t. sv_via (ks_expire k (i * 1000) t) k),
     vo_pexpire = (\<lambda>k i t. sv_via (ks_expire k i t) k),
     vo_sadd = (\<lambda>k m t s. if is_set_or_absent t (sv_keyspace s) k then sv_via (ks_set_update (List.insert m) k t) k s else (Inl ''WRONGTYPE'', s)),
     vo_srem = (\<lambda>k m t s. if is_set_or_absent t (sv_keyspace s) k then sv_via (ks_set_update (removeAll m) k t) k s else (Inl ''WRONGTYPE'', s)),
     vo_smembers = (\<lambda>k t s. (if is_set_or_absent t (sv_keyspace s) k
       then Inr (case live t (sv_keyspace s) k of Some (RSet ms) \<Rightarrow> ms | _ \<Rightarrow> []) else Inl ''WRONGTYPE'', s)),
     vo_keys = (\<lambda>p t s. (Inr (remdups (filter (\<lambda>k. live t (sv_keyspace s) k \<noteq> None \<and> starts_with (butlast p) k) (map fst (fst s)))), s)),
     vo_zremrangebyscore = (\<lambda>k lo hi t. sv_via (ks_zset_update (filter (\<lambda>(_, x). \<not> (lo \<le> x \<and> x \<le> hi))) k t) k),
     vo_zcard = (\<lambda>k t s. (Inr (length (ks_zset t (sv_keyspace s) k)), s)),
     vo_zadd = (\<lambda>k sc m t. sv_via (ks_zset_update (dict_insert m sc) k t) k),
     vo_publish = (\<lambda>c p t s. (Inr (), (fst s, snd s @ [(c, p)]))),
     vo_ping = (\<lambda>t s. (Inr ''PONG'', s))\<rparr>"

lemma sv_via_keyspace:
  assumes "\<And>k'. k' \<noteq> k \<Longrightarrow> g (sv_keyspace s) k' = sv_keyspace s k'"
  shows "sv_keyspace (snd (sv_via g k s)) = g (sv_keyspace s)"
  using assms by (auto simp: sv_via_def sv_keyspace_def dict_simps fun_eq_iff split: option.splits)

lemma simple_valkey_laws: "valkey_laws simple_valkey"
proof -
  have str: "string_laws simple_valkey"
    unfolding string_laws_def Let_def
    by (auto simp: does_def refuses_def simple_valkey_def sv_via_keyspace) (simp_all add: sv_via_def)
  have cnt: "counter_laws simple_valkey"
    unfolding counter_laws_def Let_def
    by (auto simp: does_def simple_valkey_def sv_via_keyspace sv_incr_def live_def ks_expire_def digits_value_show Let_def split: option.splits)
      (simp_all add: sv_via_def)
  have sets: "set_laws simple_valkey"
    unfolding set_laws_def Let_def
    by (auto simp: does_def refuses_def simple_valkey_def sv_via_keyspace ks_set_update_def Let_def split_beta) (simp_all add: sv_via_def)
  have zs: "zset_laws simple_valkey"
    unfolding zset_laws_def Let_def
    by (auto simp: does_def simple_valkey_def sv_via_keyspace ks_zset_update_def Let_def split_beta) (simp_all add: sv_via_def)
  have keys: "keys_law simple_valkey"
    unfolding keys_law_def Let_def does_def
  proof (intro allI impI exI conjI)
    fix p t and s :: sv_state and k
    show "fst (vo_keys simple_valkey (p @ ''*'') t s) = Inr (projr (fst (vo_keys simple_valkey (p @ ''*'') t s)))" by (simp add: simple_valkey_def)
    show "distinct (projr (fst (vo_keys simple_valkey (p @ ''*'') t s)))" by (simp add: simple_valkey_def)
    show "(k \<in> set (projr (fst (vo_keys simple_valkey (p @ ''*'') t s)))) = (live t (vo_keyspace simple_valkey s) k \<noteq> None \<and> starts_with p k)"
      by (auto simp: simple_valkey_def live_def live_entry_def sv_keyspace_def dict_get_def split: option.splits if_splits dest!: map_of_SomeD)
        (force dest: map_of_SomeD)+
  qed (simp_all add: simple_valkey_def)
  have pub: "publish_laws simple_valkey"
    by (simp add: publish_laws_def does_def simple_valkey_def sv_keyspace_def)
  show ?thesis using str cnt sets zs keys pub by (simp add: valkey_laws_def)
qed

section \<open>A codec that keeps the laws\<close>

definition put_status :: "node_status \<Rightarrow> nat" where
  "put_status st = (case st of NodeActive \<Rightarrow> 0 | NodeDraining \<Rightarrow> 1 | NodeUnhealthy \<Rightarrow> 2)"

definition get_status :: "nat \<Rightarrow> node_status" where
  "get_status n = (if n = 0 then NodeActive else if n = 1 then NodeDraining else NodeUnhealthy)"

definition simple_json :: json_codec where
  "simple_json = \<lparr>
     jc_health_to = (\<lambda>h. ''{'' @ put_nat (if shs_healthy h then 1 else 0) @ put_nat (unat (shs_last_check h)) @
       put_nat (unat (shs_consecutive_failures h)) @ (case shs_last_error h of None \<Rightarrow> ''-'' | Some x \<Rightarrow> ''+'' @ put_str x)),
     jc_health_from = (\<lambda>x. case Option.bind (strip_prefix ''{'' x) (\<lambda>x0. Option.bind (get_nat x0) (\<lambda>(b, x1). Option.bind (get_nat x1) (\<lambda>(l, x2).
         Option.bind (get_nat x2) (\<lambda>(f, x3). Option.bind (case x3 of c # x4 \<Rightarrow> if c = CHR ''-'' then Some None else map_option (Some \<circ> fst) (get_str x4) | [] \<Rightarrow> None)
         (\<lambda>er. Some \<lparr>shs_healthy = (b = 1), shs_last_check = of_nat l, shs_consecutive_failures = of_nat f, shs_last_error = er\<rparr>))))) of
         Some h \<Rightarrow> Inr h | None \<Rightarrow> Inl ''invalid''),
     jc_node_to = (\<lambda>n. ''{'' @ put_str (ni_node_id n) @ put_str (ni_address n) @ put_nat (put_status (ni_status n)) @ put_nat (unat (ni_active_connections n)) @
       put_nat (unat (ni_last_heartbeat n)) @ put_nat (unat (ni_started_at n)) @ put_str (ni_version n)),
     jc_node_from = (\<lambda>x. case Option.bind (strip_prefix ''{'' x) (\<lambda>x0. Option.bind (get_str x0) (\<lambda>(i, x1). Option.bind (get_str x1) (\<lambda>(a, x2).
         Option.bind (get_nat x2) (\<lambda>(st, x3). Option.bind (get_nat x3) (\<lambda>(cn, x4). Option.bind (get_nat x4) (\<lambda>(hb, x5). Option.bind (get_nat x5) (\<lambda>(sa, x6).
         Option.bind (get_str x6) (\<lambda>(v, _). Some \<lparr>ni_node_id = i, ni_address = a, ni_status = get_status st, ni_active_connections = of_nat cn,
           ni_last_heartbeat = of_nat hb, ni_started_at = of_nat sa, ni_version = v\<rparr>)))))))) of
         Some n \<Rightarrow> Inr n | None \<Rightarrow> Inl ''invalid'')\<rparr>"

lemma simple_json_laws: "json_laws simple_json"
proof -
  have "get_status (put_status st) = st" for st by (cases st) (simp_all add: get_status_def put_status_def)
  then have node: "jc_node_from simple_json (jc_node_to simple_json n) = Inr n" for n by (simp add: simple_json_def)
  have health: "jc_health_from simple_json (jc_health_to simple_json h) = Inr h" for h
    by (cases "shs_last_error h") (simp_all add: simple_json_def)
  show ?thesis using node health by (simp add: json_laws_def) (simp add: simple_json_def)
qed

section \<open>The node registry\<close>

definition delivered :: "vk_env \<Rightarrow> bool" where
  "delivered e \<longleftrightarrow> (\<forall>i. snd (ve_cmd e i) = Delivered)"

definition node_entry :: "'s valkey_store \<Rightarrow> string \<Rightarrow> node_info \<Rightarrow> instant \<Rightarrow> 's \<Rightarrow> bool" where
  "node_entry c node_id info d s \<longleftrightarrow>
     vo_keyspace (vs_conn c) s (vk_key c [''nodes'', node_id]) = Some (RString (jc_node_to (vs_json c) info), Some d)"

lemma node_key_ne: "vk_key c [''nodes'', i] \<noteq> vk_key c [''nodes_set'']"
  by (simp add: vk_key_def)

lemma cmd_delivered: "delivered e \<Longrightarrow> cmd e i k s = (map_sum Connection id (fst (k (fst (ve_cmd e i)) s)), snd (k (fst (ve_cmd e i)) s))"
  by (simp add: delivered_def cmd_def send_def)

lemma node_read:
  assumes V: "valkey_laws (vs_conn c)" and J: "json_laws (vs_json c)" and n: "node_entry c i info d s" and e: "delivered e" "env_time e < d"
  shows "fst (vk_node_read c e i s) = Inr (Some info)" "vo_keyspace (vs_conn c) (snd (vk_node_read c e i s)) = vo_keyspace (vs_conn c) s"
    "vo_published (vs_conn c) (snd (vk_node_read c e i s)) = vo_published (vs_conn c) s"
proof -
  let ?k = "vk_key c [''nodes'', i]"
  have "is_string_or_absent (env_time e) (vo_keyspace (vs_conn c) s) ?k" "live_string (env_time e) (vo_keyspace (vs_conn c) s) ?k = Some (jc_node_to (vs_json c) info)"
    using n e(2) by (simp_all add: node_entry_def is_string_or_absent_def live_string_def live_def live_entry_def)
  then have g: "fst (vo_get (vs_conn c) ?k (env_time e) s) = Inr (Some (jc_node_to (vs_json c) info))" using get_reply(4) [OF V] by simp
  show "fst (vk_node_read c e i s) = Inr (Some info)" "vo_keyspace (vs_conn c) (snd (vk_node_read c e i s)) = vo_keyspace (vs_conn c) s"
    "vo_published (vs_conn c) (snd (vk_node_read c e i s)) = vo_published (vs_conn c) s"
    using g J get_reply(1,2) [OF V] by (simp_all add: vk_node_read_def tryb_def cmd_delivered [OF e(1)] json_laws_def ret_def split_beta)
qed

lemma node_write:
  assumes V: "valkey_laws (vs_conn c)" and e: "delivered e"
  shows "fst (vk_node_write c e i info s) = Inr ()" "node_entry c i info (fst (ve_cmd e 1) + secs 60) (snd (vk_node_write c e i info s))"
    "vo_published (vs_conn c) (snd (vk_node_write c e i info s)) = vo_published (vs_conn c) s"
  using set_ex_reply(1,2) [OF V, of 60] set_ex_reply(5) [OF V] by (simp_all add: vk_node_write_def cmd_delivered [OF e] node_entry_def)

lemma node_heartbeat_effect:
  assumes V: "valkey_laws (vs_conn c)" and J: "json_laws (vs_json c)" and n: "node_entry c i info d s" and e: "delivered e" "env_time e < d"
  shows "fst (vk_node_heartbeat c e i conns s) = Inr ()"
    "node_entry c i (info\<lparr>ni_last_heartbeat := ve_wall e, ni_active_connections := conns\<rparr>) (fst (ve_cmd e 1) + secs 60) (snd (vk_node_heartbeat c e i conns s))"
  using node_read [OF assms] node_write [OF V e(1)]
  by (simp_all add: vk_node_heartbeat_def vk_heartbeat_write_def tryb_def split_beta)

text \<open>Heartbeats, each with its environment and the number of connections it reports.\<close>

definition heartbeats :: "'s valkey_store \<Rightarrow> string \<Rightarrow> (vk_env \<times> u64) list \<Rightarrow> 's \<Rightarrow> 's" where
  "heartbeats c node_id beats s = foldl (\<lambda>s (e, n). snd (vk_node_heartbeat c e node_id n s)) s beats"

text \<open>Each heartbeat reads the entry less than a minute after the previous write.\<close>

fun beats_in_time :: "instant \<Rightarrow> (vk_env \<times> u64) list \<Rightarrow> bool" where
  "beats_in_time t [] \<longleftrightarrow> True"
| "beats_in_time t ((e, n) # beats) \<longleftrightarrow> env_time e < t + secs 60 \<and> beats_in_time (fst (ve_cmd e 1)) beats"

fun last_write :: "instant \<Rightarrow> (vk_env \<times> u64) list \<Rightarrow> instant" where
  "last_write t [] = t"
| "last_write t ((e, n) # beats) = last_write (fst (ve_cmd e 1)) beats"

lemma heartbeats_entry:
  assumes V: "valkey_laws (vs_conn c)" and J: "json_laws (vs_json c)" and "node_entry c i info (t + secs 60) s"
    and "\<forall>b \<in> set beats. delivered (fst b)" and "beats_in_time t beats"
  shows "node_entry c i (if beats = [] then info else info\<lparr>ni_last_heartbeat := ve_wall (fst (last beats)), ni_active_connections := snd (last beats)\<rparr>)
    (last_write t beats + secs 60) (heartbeats c i beats s)"
  using assms(3-)
proof (induction beats arbitrary: t info s)
  case (Cons b beats)
  obtain e n where b: "b = (e, n)" by (cases b)
  from node_heartbeat_effect(2) [OF V J Cons.prems(1), of e n] Cons.prems
  have "node_entry c i (info\<lparr>ni_last_heartbeat := ve_wall e, ni_active_connections := n\<rparr>) (fst (ve_cmd e 1) + secs 60) (snd (vk_node_heartbeat c e i n s))"
    by (simp add: b)
  from Cons.IH [OF this] Cons.prems show ?case by (cases "beats = []") (simp_all add: b heartbeats_def)
qed (simp add: heartbeats_def)

text \<open>
  C9. A node that registers and then sends heartbeats less than a minute apart stays registered: at any
  time before the last one runs out, every node of the cluster reads its entry, with the number of
  connections and the time of the last heartbeat.
\<close>

theorem heartbeats_keep_registered:
  assumes V: "valkey_laws (vs_conn c)" and J: "json_laws (vs_json c)"
    and reg: "delivered e" "is_set_or_absent (fst (ve_cmd e 1)) (vo_keyspace (vs_conn c) s) (vk_key c [''nodes_set''])"
    and beats: "\<forall>b \<in> set beats. delivered (fst b)" "beats_in_time (env_time e) beats"
    and read: "delivered e'" "env_time e' < last_write (env_time e) beats + secs 60"
  shows "fst (vk_node_get c e' (ni_node_id info) (heartbeats c (ni_node_id info) beats (snd (vk_node_register c e info s)))) =
    Inr (Some (if beats = [] then info else info\<lparr>ni_last_heartbeat := ve_wall (fst (last beats)), ni_active_connections := snd (last beats)\<rparr>))"
proof -
  let ?i = "ni_node_id info" and ?S = "vk_key c [''nodes_set'']"
  let ?s1 = "snd (vo_set_ex (vs_conn c) (vk_key c [''nodes'', ?i]) (jc_node_to (vs_json c) info) 60 (env_time e) s)"
  have "is_set_or_absent (fst (ve_cmd e 1)) (vo_keyspace (vs_conn c) ?s1) ?S"
    using reg(2) set_ex_reply(2) [OF V, of 60] node_key_ne [of c ?i, symmetric] by (simp add: is_set_or_absent_def live_def live_entry_def)
  then have "does (vs_conn c) (vo_sadd (vs_conn c) ?S ?i (fst (ve_cmd e 1))) ?s1 ()
      (ks_set_update (List.insert ?i) ?S (fst (ve_cmd e 1)) (vo_keyspace (vs_conn c) ?s1))"
    using V unfolding valkey_laws_def set_laws_def Let_def by blast
  then have "node_entry c ?i info (env_time e + secs 60) (snd (vk_node_register c e info s))"
    using set_ex_reply(1,2) [OF V, of 60] node_key_ne [of c ?i]
    by (simp add: vk_node_register_def tryb_def cmd_delivered [OF reg(1)] split_beta node_entry_def does_def ks_set_update_def Let_def)
  from node_read(1) [OF V J heartbeats_entry [OF V J this beats] read] show ?thesis by (simp add: vk_node_get_def)
qed

text \<open>
  A heartbeat does not register: once the entry has run out, no heartbeat brings it back, and the node
  stays out of the registry although it goes on sending them.
\<close>

lemma heartbeat_of_absent:
  assumes V: "valkey_laws (vs_conn c)" and gone: "live_string t (vo_keyspace (vs_conn c) s) (vk_key c [''nodes'', i]) = None" and "t \<le> env_time e"
  shows "vo_keyspace (vs_conn c) (snd (vk_node_heartbeat c e i n s)) = vo_keyspace (vs_conn c) s"
proof -
  let ?k = "vk_key c [''nodes'', i]"
  have "live_string (env_time e) (vo_keyspace (vs_conn c) s) ?k = None"
    using gone live_string_earlier [OF _ assms(3)] by (cases "live_string (env_time e) (vo_keyspace (vs_conn c) s) ?k") fastforce+
  then have "fst (vo_get (vs_conn c) ?k (env_time e) s) = Inr None \<or> isl (fst (vo_get (vs_conn c) ?k (env_time e) s))"
    using get_reply(3) [OF V, of ?k "env_time e" s] by (cases "fst (vo_get (vs_conn c) ?k (env_time e) s)") auto
  then show ?thesis using get_reply(1) [OF V, of ?k "env_time e" s]
    by (cases "snd (ve_cmd e 0)"; cases "vo_get (vs_conn c) ?k (env_time e) s")
      (auto simp: vk_node_heartbeat_def vk_node_read_def vk_heartbeat_write_def tryb_def cmd_def send_def ret_def isl_def)
qed

theorem expired_node_never_returns:
  assumes V: "valkey_laws (vs_conn c)" and gone: "live_string t (vo_keyspace (vs_conn c) s) (vk_key c [''nodes'', i]) = None"
    and "\<forall>b \<in> set beats. t \<le> env_time (fst b)" and "t \<le> env_time e"
  shows "fst (vk_node_get c e i (heartbeats c i beats s)) \<noteq> Inr (Some info)"
proof -
  let ?k = "vk_key c [''nodes'', i]"
  have "vo_keyspace (vs_conn c) (heartbeats c i beats s) = vo_keyspace (vs_conn c) s"
    using assms(3) gone
  proof (induction beats arbitrary: s)
    case (Cons b beats)
    then show ?case using heartbeat_of_absent [OF V, of t s i "fst b" "snd b"] by (simp add: heartbeats_def split_beta)
  qed (simp add: heartbeats_def)
  then have "live_string t (vo_keyspace (vs_conn c) (heartbeats c i beats s)) ?k = None" using gone by simp
  then have "live_string (env_time e) (vo_keyspace (vs_conn c) (heartbeats c i beats s)) ?k = None"
    using live_string_earlier [OF _ assms(4)] by (cases "live_string (env_time e) (vo_keyspace (vs_conn c) (heartbeats c i beats s)) ?k") fastforce+
  then show ?thesis using get_reply(3) [OF V, of ?k "env_time e" "heartbeats c i beats s"]
    by (auto simp: vk_node_get_def vk_node_read_def tryb_Inr cmd_Inr split: option.splits)
qed

text \<open>
  Drain and heartbeat of one node race: when the heartbeat has read the entry before the drain
  writes its status and writes after it, the node is registered as active again.
\<close>

theorem heartbeat_undoes_drain:
  assumes V: "valkey_laws (vs_conn c)" and J: "json_laws (vs_json c)" and n: "node_entry c i info d s"
    and e: "delivered e" "env_time e < d" and e': "delivered e'" "env_time e' < d"
    and read: "vk_node_read c e i s = (Inr found, s1)"
    and drain: "vk_node_set_status c e' i NodeDraining s1 = (r, s2)"
    and late: "delivered e''" "env_time e'' < fst (ve_cmd e 1) + secs 60"
  shows "r = Inr () \<and> fst (vk_node_get c e'' i (snd (vk_heartbeat_write c e i conns found s2))) =
    Inr (Some (info\<lparr>ni_last_heartbeat := ve_wall e, ni_active_connections := conns\<rparr>))"
proof -
  from node_read [OF V J n e] read have f: "found = Some info" "vo_keyspace (vs_conn c) s1 = vo_keyspace (vs_conn c) s" by simp_all
  then have "node_entry c i info d s1" using n by (simp add: node_entry_def)
  from node_read [OF V J this e'] node_write [OF V e'(1)] drain V have "r = Inr ()"
    by (simp add: vk_node_set_status_def tryb_def split_beta cmd_delivered [OF e'(1)] valkey_laws_def publish_laws_def)
  moreover have "node_entry c i (info\<lparr>ni_last_heartbeat := ve_wall e, ni_active_connections := conns\<rparr>) (fst (ve_cmd e 1) + secs 60)
      (snd (vk_heartbeat_write c e i conns found s2))"
    using node_write(2) [OF V e(1)] by (simp add: vk_heartbeat_write_def f(1))
  from node_read(1) [OF V J this late] have "fst (vk_node_get c e'' i (snd (vk_heartbeat_write c e i conns found s2))) =
    Inr (Some (info\<lparr>ni_last_heartbeat := ve_wall e, ni_active_connections := conns\<rparr>))" by (simp add: vk_node_get_def)
  ultimately show ?thesis ..
qed

section \<open>Health events\<close>

text \<open>
  The status itself is read back by every node, but the event that announces it is lost whenever
  the server's address has a scheme: the receiver splits the payload at the first two colons.
\<close>

theorem health_event_lost:
  assumes V: "valkey_laws (vs_conn c)" and J: "json_laws (vs_json c)" and e: "delivered e"
    and svc: "CHR '':'' \<notin> set service" and sch: "CHR '':'' \<notin> set scheme" and url: "url = scheme @ ''://'' @ rest"
    and set: "vk_health_set c e service url status s = (r, s')"
    and read: "delivered e'" "env_time e' < env_time e + secs 300"
  shows "r = Inr () \<and> fst (vk_health_get c e' service url s') = Inr (Some status) \<and>
    (\<exists>msg. vo_published (vs_conn c) s' = vo_published (vs_conn c) s @ [msg] \<and> pubsub_message c (fst msg, Some (snd msg)) ch = ch)"
proof -
  let ?j = "jc_health_to (vs_json c) status" and ?k = "vk_key c [''health'', service, url]"
  let ?s1 = "snd (vo_set_ex (vs_conn c) ?k ?j 300 (env_time e) s)"
  let ?p = "service @ '':'' @ url @ '':'' @ ?j" and ?ch = "vk_key c [''events'', ''health_change'']"
  have pub: "fst (vo_publish (vs_conn c) ch' p t s0) = Inr ()" "vo_keyspace (vs_conn c) (snd (vo_publish (vs_conn c) ch' p t s0)) = vo_keyspace (vs_conn c) s0"
    "vo_published (vs_conn c) (snd (vo_publish (vs_conn c) ch' p t s0)) = vo_published (vs_conn c) s0 @ [(ch', p)]" for ch' p t s0
    using V by (simp_all add: valkey_laws_def publish_laws_def)
  have s': "r = Inr ()" "s' = snd (vo_publish (vs_conn c) ?ch ?p (fst (ve_cmd e 1)) ?s1)"
    using set set_ex_reply(1) [OF V, of 300] pub(1) by (auto simp: vk_health_set_def Let_def tryb_def cmd_delivered [OF e] split_beta)
  have ks: "vo_keyspace (vs_conn c) s' ?k = Some (RString ?j, Some (env_time e + secs 300))"
    unfolding s'(2) pub(2) using set_ex_reply(2) [OF V, of 300] by simp
  have "fst (vo_get (vs_conn c) ?k (env_time e') s') = Inr (Some ?j)"
    using get_reply(4) [OF V, of "env_time e'" s' ?k] ks read(2)
    by (simp add: is_string_or_absent_def live_string_def live_def live_entry_def)
  then have got: "fst (vk_health_get c e' service url s') = Inr (Some status)"
    using J by (simp add: vk_health_get_def tryb_def cmd_delivered [OF read(1)] json_laws_def ret_def split_beta)
  have "split_once '':'' ?p = Some (service, url @ '':'' @ ?j)" using split_once_char [OF svc, of "url @ '':'' @ ?j"] by simp
  moreover have "split_once '':'' (url @ '':'' @ ?j) = Some (scheme, ''//'' @ rest @ '':'' @ ?j)"
    using split_once_char [OF sch, of "''//'' @ rest @ '':'' @ ?j"] by (simp add: url)
  moreover have "isl (jc_health_from (vs_json c) (''//'' @ rest @ '':'' @ ?j))" using J by (simp add: json_laws_def)
  ultimately have "pubsub_message c (?ch, Some ?p) ch = ch"
    by (auto simp: pubsub_message_def vk_key_def isl_def)
  moreover have "vo_published (vs_conn c) s' = vo_published (vs_conn c) s @ [(?ch, ?p)]"
    unfolding s'(2) pub(3) using set_ex_reply(5) [OF V] by simp
  ultimately show ?thesis using s'(1) got by force
qed

section \<open>Sessions\<close>

lemma session_key_inject:
  assumes "CHR '':'' \<notin> set svc" and "CHR '':'' \<notin> set svc'"
  shows "vk_key c [''sticky'', svc, sid] = vk_key c [''sticky'', svc', sid'] \<longleftrightarrow> svc = svc' \<and> sid = sid'"
  using store_key_inject [OF assms, of sid sid'] by (simp add: vk_key_def store_key_def)

text \<open>A session that was stored is found until its time, in whole seconds, is over; other sessions keep theirs.\<close>

theorem valkey_session_kept:
  assumes V: "valkey_laws (vs_conn c)" and e: "delivered e" "delivered e'" and ttl: "1 \<le> as_secs ttl"
    and "CHR '':'' \<notin> set svc" "CHR '':'' \<notin> set svc'"
    and set: "vk_sticky_session_set c e svc sid url ttl s = (r, s')"
    and str: "is_string_or_absent (env_time e') (vo_keyspace (vs_conn c) s) (vk_key c [''sticky'', svc', sid'])"
  shows "r = Inr () \<and> fst (vk_sticky_session_get c e' svc' sid' s') =
    (if svc' = svc \<and> sid' = sid then Inr (if env_time e' < env_time e + secs (as_secs ttl) then Some url else None)
     else fst (vk_sticky_session_get c e' svc' sid' s))"
proof -
  let ?k = "vk_key c [''sticky'', svc, sid]" and ?k' = "vk_key c [''sticky'', svc', sid']"
  have s': "r = Inr ()" "vo_keyspace (vs_conn c) s' = (vo_keyspace (vs_conn c) s)(?k \<mapsto> (RString url, Some (env_time e + secs (as_secs ttl))))"
    using set set_ex_reply(1,2) [OF V, of "as_secs ttl"] ttl by (auto simp: vk_sticky_session_set_def cmd_delivered [OF e(1)])
  have str': "is_string_or_absent (env_time e') (vo_keyspace (vs_conn c) s') ?k'"
    using str unfolding s'(2) by (auto simp: is_string_or_absent_def live_def live_entry_def)
  show ?thesis using get_reply(4) [OF V str'] get_reply(4) [OF V str] s' session_key_inject [OF assms(6,5), of c sid' sid]
    by (simp add: vk_sticky_session_get_def cmd_delivered [OF e(2)])
qed

section \<open>The address of the server\<close>

text \<open>
  The database number is never used when the endpoint has a scheme: the test that should find out
  whether the address already has a path finds the slashes of the scheme.
\<close>

theorem database_number_ignored:
  assumes "vkc_endpoints c = (scheme @ ''://'' @ rest) # others" and "create_client_url c = Inr url"
  shows "create_client_url (c\<lparr>vkc_db := db\<rparr>) = Inr url"
proof -
  define u where u: "u = scheme @ ''://'' @ rest"
  have "find_str ''://'' u \<noteq> None"
    unfolding u by (induction scheme) (simp_all add: starts_with_def)
  then obtain pos where pos: "find_str ''://'' u = Some pos" by blast
  from find_str_Some [OF pos] obtain tl where tl: "drop pos u = ''://'' @ tl" by (auto simp: starts_with_iff)
  have "take (pos + 3) u = take pos u @ take 3 (drop pos u)" by (rule take_add)
  then have "CHR ''/'' \<in> set (take (pos + 3) u)" unfolding tl by simp
  moreover have "CHR ''/'' \<in> set u" by (simp add: u)
  ultimately show ?thesis using assms(1) [folded u] assms(2) pos
    by (simp add: create_client_url_def Let_def split: option.splits if_splits)
qed

section \<open>Examples\<close>

definition vk_example :: "sv_state valkey_store" where
  "vk_example = \<lparr>vs_conn = simple_valkey, vs_key_prefix = ''trafficcop'', vs_json = simple_json\<rparr>"

definition env_at :: "instant \<Rightarrow> u64 \<Rightarrow> nat \<Rightarrow> vk_env" where
  "env_at t wall rnd = \<lparr>ve_cmd = (\<lambda>_. (t, Delivered)), ve_wall = wall, ve_random = rnd\<rparr>"

definition node_example :: node_info where
  "node_example = \<lparr>ni_node_id = ''a'', ni_address = ''a:8080'', ni_status = NodeActive, ni_active_connections = 0,
     ni_last_heartbeat = 0, ni_started_at = 0, ni_version = ''1''\<rparr>"

lemma vk_example_laws: "valkey_laws (vs_conn vk_example)" "json_laws (vs_json vk_example)"
  by (simp_all add: vk_example_def simple_valkey_laws simple_json_laws)

lemma env_at_delivered: "delivered (env_at t w r)"
  by (simp add: delivered_def env_at_def)

lemma example_absent: "vo_keyspace (vs_conn vk_example) ([], []) k = None"
  by (simp add: vk_example_def simple_valkey_def sv_keyspace_def)

text \<open>Requests one after the other.\<close>

definition rl_run :: "'s valkey_store \<Rightarrow> string \<Rightarrow> u64 \<Rightarrow> u64 \<Rightarrow> vk_env list \<Rightarrow> 's \<Rightarrow> vk_env list \<times> 's" where
  "rl_run c key limit window es s = foldl (\<lambda>(adm, s) e. let (r, s') = vk_rate_limit_check c e key limit window s
     in (case r of Inr (True, _) \<Rightarrow> adm @ [e] | _ \<Rightarrow> adm, s')) ([], s) es"

lemma rl_run_reach: "rl_reach c key limit window s es (fst (rl_run c key limit window es s)) (snd (rl_run c key limit window es s))"
proof (induction es rule: rev_induct)
  case Nil
  show ?case by (simp add: rl_run_def rl_init)
next
  case (snoc e es)
  obtain adm s1 where 1: "rl_run c key limit window es s = (adm, s1)" by (cases "rl_run c key limit window es s")
  obtain r s2 where 2: "vk_rate_limit_check c e key limit window s1 = (r, s2)" by (cases "vk_rate_limit_check c e key limit window s1")
  from rl_request [OF snoc [unfolded 1 fst_conv snd_conv] 2] show ?case using 1 2 by (simp add: rl_run_def)
qed


theorem heartbeats_keep_registered_witness:
  "fst (vk_node_get vk_example (env_at 70000000000 70000 0) ''a'' (heartbeats vk_example ''a'' [(env_at 50000000000 50000 0, 7)]
      (snd (vk_node_register vk_example (env_at 0 0 0) node_example ([], []))))) =
    Inr (Some (node_example\<lparr>ni_last_heartbeat := 50000, ni_active_connections := 7\<rparr>))"
  using heartbeats_keep_registered [OF vk_example_laws env_at_delivered, where info = node_example and s = "([], [])"
      and beats = "[(env_at 50000000000 50000 0, 7)]" and e' = "env_at 70000000000 70000 0", of 0 0 0]
  by (simp add: env_at_delivered is_set_or_absent_def live_def live_entry_def example_absent secs_def node_example_def)
    (simp add: env_at_def)

theorem heartbeat_undoes_drain_witness:
  "\<exists>s found s1 r s2. vk_node_read vk_example (env_at 1 1 0) ''a'' s = (Inr found, s1) \<and>
    vk_node_set_status vk_example (env_at 2 2 0) ''a'' NodeDraining s1 = (r, s2) \<and> r = Inr () \<and>
    fst (vk_node_get vk_example (env_at 3 3 0) ''a'' (snd (vk_heartbeat_write vk_example (env_at 1 1 0) ''a'' 5 found s2))) =
      Inr (Some (node_example\<lparr>ni_last_heartbeat := 1, ni_active_connections := 5\<rparr>))"
proof -
  let ?s = "([(''trafficcop:nodes:a'', (RString (jc_node_to simple_json node_example), Some 100))], []) :: sv_state"
  have n: "node_entry vk_example ''a'' node_example 100 ?s"
    by (simp add: node_entry_def vk_example_def simple_valkey_def sv_keyspace_def vk_key_def dict_get_def)
  have t: "env_time (env_at 1 1 0) < 100" "env_time (env_at 2 2 0) < 100" "env_time (env_at 3 3 0) < fst (ve_cmd (env_at 1 1 0) 1) + secs 60"
    by (simp_all add: env_at_def secs_def)
  obtain s1 where r: "vk_node_read vk_example (env_at 1 1 0) ''a'' ?s = (Inr (Some node_example), s1)"
    using node_read(1) [OF vk_example_laws n env_at_delivered t(1)] by (metis prod.collapse)
  obtain x s2 where d: "vk_node_set_status vk_example (env_at 2 2 0) ''a'' NodeDraining s1 = (x, s2)"
    by (cases "vk_node_set_status vk_example (env_at 2 2 0) ''a'' NodeDraining s1")
  have w: "ve_wall (env_at 1 1 0) = 1" by (simp add: env_at_def)
  note h = heartbeat_undoes_drain [OF vk_example_laws n env_at_delivered t(1) env_at_delivered t(2) r d env_at_delivered t(3), of 5, unfolded w]
  show ?thesis
    by (rule exI [of _ ?s], rule exI [of _ "Some node_example"], rule exI [of _ s1], rule exI [of _ x], rule exI [of _ s2]) (use r d h in simp)
qed

theorem health_event_lost_witness:
  "\<exists>r s'. vk_health_set vk_example (env_at 1 1 0) ''web'' ''http://10.0.0.1'' shs_default ([], []) = (r, s') \<and> r = Inr () \<and>
    fst (vk_health_get vk_example (env_at 2 2 0) ''web'' ''http://10.0.0.1'' s') = Inr (Some shs_default) \<and>
    (\<exists>msg. snd s' = [msg] \<and> pubsub_message vk_example (fst msg, Some (snd msg)) \<lparr>vch_config = 0, vch_health = [], vch_drain = []\<rparr> =
      \<lparr>vch_config = 0, vch_health = [], vch_drain = []\<rparr>)"
proof -
  obtain r s' where s: "vk_health_set vk_example (env_at 1 1 0) ''web'' ''http://10.0.0.1'' shs_default ([], []) = (r, s')"
    by (cases "vk_health_set vk_example (env_at 1 1 0) ''web'' ''http://10.0.0.1'' shs_default ([], [])")
  have "env_time (env_at 2 2 0) < env_time (env_at 1 1 0) + secs 300" by (simp add: env_at_def secs_def)
  from health_event_lost [OF vk_example_laws env_at_delivered _ _ _ s env_at_delivered this, of "''http''" "''10.0.0.1''" "\<lparr>vch_config = 0, vch_health = [], vch_drain = []\<rparr>"] s
  show ?thesis by (auto simp: vk_example_def simple_valkey_def)
qed

end
