(* ===== verification/Cluster.thy ===== *)
theory Cluster
  imports Valkey_Facts Active_Health
begin

text \<open>
  The cluster: the trait \<open>Store\<close> as a table of its operations with the local and the shared store as
  instances (\<open>src/src/store/mod.rs\<close>), the choice of a store (\<open>src/src/cluster/mod.rs\<close>), the manager of
  a node with its heartbeat and election tasks (\<open>src/src/cluster/manager.rs\<close>), and the
  health checker that only the leader runs (\<open>src/src/health/distributed.rs\<close>). The whole cluster is a
  step relation over one store and any number of managers. What surrounds a call of the store
  (time, wall clock, the network) is the argument \<open>'f\<close> of every operation.
\<close>

section \<open>The trait\<close>

record ('f, 's) store_ops =
  so_rate_limit_check :: "'f \<Rightarrow> string \<Rightarrow> u64 \<Rightarrow> u64 \<Rightarrow> 's \<Rightarrow> (store_error + bool \<times> u64 \<times> u64) \<times> 's"
  so_rate_limit_remaining :: "'f \<Rightarrow> string \<Rightarrow> u64 \<Rightarrow> 's \<Rightarrow> (store_error + u64) \<times> 's"
  so_sticky_session_get :: "'f \<Rightarrow> string \<Rightarrow> string \<Rightarrow> 's \<Rightarrow> (store_error + string option) \<times> 's"
  so_sticky_session_set :: "'f \<Rightarrow> string \<Rightarrow> string \<Rightarrow> string \<Rightarrow> duration \<Rightarrow> 's \<Rightarrow> (store_error + unit) \<times> 's"
  so_sticky_session_delete :: "'f \<Rightarrow> string \<Rightarrow> string \<Rightarrow> 's \<Rightarrow> (store_error + unit) \<times> 's"
  so_health_get :: "'f \<Rightarrow> string \<Rightarrow> string \<Rightarrow> 's \<Rightarrow> (store_error + store_health_status option) \<times> 's"
  so_health_set :: "'f \<Rightarrow> string \<Rightarrow> string \<Rightarrow> store_health_status \<Rightarrow> 's \<Rightarrow> (store_error + unit) \<times> 's"
  so_health_get_all :: "'f \<Rightarrow> string \<Rightarrow> 's \<Rightarrow> (store_error + store_health_status dict) \<times> 's"
  so_circuit_breaker_fail :: "'f \<Rightarrow> string \<Rightarrow> u64 \<Rightarrow> 's \<Rightarrow> (store_error + u64) \<times> 's"
  so_circuit_breaker_success :: "'f \<Rightarrow> string \<Rightarrow> 's \<Rightarrow> (store_error + unit) \<times> 's"
  so_circuit_breaker_failures :: "'f \<Rightarrow> string \<Rightarrow> 's \<Rightarrow> (store_error + u64) \<times> 's"
  so_node_register :: "'f \<Rightarrow> node_info \<Rightarrow> 's \<Rightarrow> (store_error + unit) \<times> 's"
  so_node_heartbeat :: "'f \<Rightarrow> string \<Rightarrow> u64 \<Rightarrow> 's \<Rightarrow> (store_error + unit) \<times> 's"
  so_node_set_status :: "'f \<Rightarrow> string \<Rightarrow> node_status \<Rightarrow> 's \<Rightarrow> (store_error + unit) \<times> 's"
  so_node_get :: "'f \<Rightarrow> string \<Rightarrow> 's \<Rightarrow> (store_error + node_info option) \<times> 's"
  so_node_list :: "'f \<Rightarrow> 's \<Rightarrow> (store_error + node_info list) \<times> 's"
  so_node_deregister :: "'f \<Rightarrow> string \<Rightarrow> 's \<Rightarrow> (store_error + unit) \<times> 's"
  so_config_version :: "'f \<Rightarrow> 's \<Rightarrow> (store_error + u64) \<times> 's"
  so_config_get :: "'f \<Rightarrow> 's \<Rightarrow> (store_error + string option) \<times> 's"
  so_config_set :: "'f \<Rightarrow> string \<Rightarrow> 's \<Rightarrow> (store_error + u64) \<times> 's"
  so_acme_challenge_set :: "'f \<Rightarrow> string \<Rightarrow> string \<Rightarrow> duration \<Rightarrow> 's \<Rightarrow> (store_error + unit) \<times> 's"
  so_acme_challenge_get :: "'f \<Rightarrow> string \<Rightarrow> 's \<Rightarrow> (store_error + string option) \<times> 's"
  so_acme_challenge_delete :: "'f \<Rightarrow> string \<Rightarrow> 's \<Rightarrow> (store_error + unit) \<times> 's"
  so_leader_acquire :: "'f \<Rightarrow> string \<Rightarrow> string \<Rightarrow> duration \<Rightarrow> 's \<Rightarrow> (store_error + bool) \<times> 's"
  so_leader_release :: "'f \<Rightarrow> string \<Rightarrow> string \<Rightarrow> 's \<Rightarrow> (store_error + unit) \<times> 's"
  so_leader_get :: "'f \<Rightarrow> string \<Rightarrow> 's \<Rightarrow> (store_error + string option) \<times> 's"
  so_health_check :: "'f \<Rightarrow> 's \<Rightarrow> (store_error + unit) \<times> 's"
  so_store_type :: string

text \<open>The operations of the local store never fail; a call has one reading of each clock.\<close>

definition reads :: "('s \<Rightarrow> 'a) \<Rightarrow> 's \<Rightarrow> (store_error + 'a) \<times> 's" where
  "reads f s = (Inr (f s), s)"

definition writes :: "('s \<Rightarrow> 's) \<Rightarrow> 's \<Rightarrow> (store_error + unit) \<times> 's" where
  "writes f s = (Inr (), f s)"

definition replies :: "('s \<Rightarrow> 'a \<times> 's) \<Rightarrow> 's \<Rightarrow> (store_error + 'a) \<times> 's" where
  "replies f s = map_prod Inr id (f s)"

definition local_store_ops :: "(instant \<times> u64, local_store) store_ops" where
  "local_store_ops = \<lparr>
     so_rate_limit_check = (\<lambda>(now, wall) key limit window. replies (ls_rate_limit_check now wall key limit window)),
     so_rate_limit_remaining = (\<lambda>_ key limit. reads (ls_rate_limit_remaining key limit)),
     so_sticky_session_get = (\<lambda>(now, _) service sid. reads (ls_sticky_session_get now service sid)),
     so_sticky_session_set = (\<lambda>(now, _) service sid url ttl. writes (ls_sticky_session_set now service sid url ttl)),
     so_sticky_session_delete = (\<lambda>_ service sid. writes (ls_sticky_session_delete service sid)),
     so_health_get = (\<lambda>_ service url. reads (ls_health_get service url)),
     so_health_set = (\<lambda>_ service url status. writes (ls_health_set service url status)),
     so_health_get_all = (\<lambda>_ service. reads (ls_health_get_all service)),
     so_circuit_breaker_fail = (\<lambda>(now, _) service window. replies (ls_circuit_breaker_fail now service window)),
     so_circuit_breaker_success = (\<lambda>_ service. writes (ls_circuit_breaker_success service)),
     so_circuit_breaker_failures = (\<lambda>_ service. reads (ls_circuit_breaker_failures service)),
     so_node_register = (\<lambda>_ info. writes (ls_node_register info)),
     so_node_heartbeat = (\<lambda>(_, wall) node_id connections. writes (ls_node_heartbeat wall node_id connections)),
     so_node_set_status = (\<lambda>_ node_id status. writes (ls_node_set_status node_id status)),
     so_node_get = (\<lambda>_ node_id. reads (ls_node_get node_id)),
     so_node_list = (\<lambda>_. reads ls_node_list),
     so_node_deregister = (\<lambda>_ node_id. writes (ls_node_deregister node_id)),
     so_config_version = (\<lambda>_. reads ls_config_version),
     so_config_get = (\<lambda>_. reads ls_config_content),
     so_config_set = (\<lambda>_ content. replies (ls_config_set content)),
     so_acme_challenge_set = (\<lambda>(now, _) token auth ttl. writes (ls_acme_challenge_set now token auth ttl)),
     so_acme_challenge_get = (\<lambda>(now, _) token. reads (ls_acme_challenge_get now token)),
     so_acme_challenge_delete = (\<lambda>_ token. writes (ls_acme_challenge_delete token)),
     so_leader_acquire = (\<lambda>(now, _) task node_id ttl. replies (ls_leader_acquire now task node_id ttl)),
     so_leader_release = (\<lambda>_ task node_id. writes (ls_leader_release task node_id)),
     so_leader_get = (\<lambda>(now, _) task. reads (ls_leader_get now task)),
     so_health_check = (\<lambda>_. reads (\<lambda>_. ())),
     so_store_type = ''local''\<rparr>"

definition valkey_store_ops :: "'s valkey_store \<Rightarrow> (vk_env, 's) store_ops" where
  "valkey_store_ops c = \<lparr>
     so_rate_limit_check = vk_rate_limit_check c,
     so_rate_limit_remaining = vk_rate_limit_remaining c,
     so_sticky_session_get = vk_sticky_session_get c,
     so_sticky_session_set = vk_sticky_session_set c,
     so_sticky_session_delete = vk_sticky_session_delete c,
     so_health_get = vk_health_get c,
     so_health_set = vk_health_set c,
     so_health_get_all = vk_health_get_all c,
     so_circuit_breaker_fail = vk_circuit_breaker_fail c,
     so_circuit_breaker_success = vk_circuit_breaker_success c,
     so_circuit_breaker_failures = vk_circuit_breaker_failures c,
     so_node_register = vk_node_register c,
     so_node_heartbeat = vk_node_heartbeat c,
     so_node_set_status = vk_node_set_status c,
     so_node_get = vk_node_get c,
     so_node_list = vk_node_list c,
     so_node_deregister = vk_node_deregister c,
     so_config_version = vk_config_version c,
     so_config_get = vk_config_get c,
     so_config_set = vk_config_set c,
     so_acme_challenge_set = vk_acme_challenge_set c,
     so_acme_challenge_get = vk_acme_challenge_get c,
     so_acme_challenge_delete = vk_acme_challenge_delete c,
     so_leader_acquire = vk_leader_acquire c,
     so_leader_release = vk_leader_release c,
     so_leader_get = vk_leader_get c,
     so_health_check = vk_health_check c,
     so_store_type = ''valkey''\<rparr>"

section \<open>Configuration\<close>

record redis_tls_config =
  rtc_ca :: "string option"
  rtc_cert :: "string option"
  rtc_key :: "string option"
  rtc_insecure_skip_verify :: bool

record redis_sentinel_config =
  rsn_master_name :: string
  rsn_password :: "string option"

record redis_store_config =
  rsc_endpoints :: "string list"
  rsc_password :: "string option"
  rsc_username :: "string option"
  rsc_db :: int
  rsc_tls :: "redis_tls_config option"
  rsc_root_key :: string
  rsc_timeout :: duration
  rsc_sentinel :: "redis_sentinel_config option"

datatype store_config = StoreLocal | StoreRedis redis_store_config

record cluster_config =
  ccf_enabled :: bool
  ccf_node_id :: "string option"
  ccf_advertise_address :: "string option"
  ccf_store :: "store_config option"
  ccf_heartbeat_interval :: duration
  ccf_node_timeout :: duration
  ccf_drain_timeout :: duration
  ccf_leader_ttl :: duration

text \<open>\<open>None\<close> is the local store; \<open>Some\<close> the settings with which the shared one is opened.\<close>

definition create_store_from_config :: "cluster_config \<Rightarrow> valkey_config option" where
  "create_store_from_config config = (case ccf_store config of
       Some (StoreRedis r) \<Rightarrow> Some \<lparr>
         vkc_endpoints = rsc_endpoints r,
         vkc_password = rsc_password r,
         vkc_username = rsc_username r,
         vkc_db = rsc_db r,
         vkc_tls = map_option (\<lambda>t. \<lparr>vtc_ca = rtc_ca t, vtc_cert = rtc_cert t, vtc_key = rtc_key t,
           vtc_insecure_skip_verify = rtc_insecure_skip_verify t\<rparr>) (rsc_tls r),
         vkc_pool_size = 10,
         vkc_key_prefix = rsc_root_key r,
         vkc_connect_timeout = rsc_timeout r,
         vkc_operation_timeout = secs 1,
         vkc_sentinel = map_option (\<lambda>s. \<lparr>stc_master_name = rsn_master_name s, stc_endpoints = rsc_endpoints r,
           stc_password = rsn_password s\<rparr>) (rsc_sentinel r)\<rparr>
     | Some StoreLocal \<Rightarrow> None
     | None \<Rightarrow> None)"

section \<open>The manager of a node\<close>

record cluster_manager =
  cm_node_id :: string
  cm_advertise_address :: string
  cm_config :: cluster_config
  cm_is_leader :: bool
  cm_is_draining :: bool
  cm_active_connections :: u64
  cm_shutdown_sent :: bool

text \<open>The host name is the answer of the operating system, \<open>uuid\<close> the text of a random identifier.\<close>

definition cm_make :: "string option \<Rightarrow> string \<Rightarrow> cluster_config \<Rightarrow> cluster_manager" where
  "cm_make hostname uuid config = \<lparr>
     cm_node_id = (case ccf_node_id config of Some i \<Rightarrow> i
       | None \<Rightarrow> (case hostname of Some h \<Rightarrow> h | None \<Rightarrow> ''unknown'') @ ''-'' @ take 8 uuid),
     cm_advertise_address = (case ccf_advertise_address config of Some a \<Rightarrow> a
       | None \<Rightarrow> (case hostname of Some h \<Rightarrow> h | None \<Rightarrow> ''127.0.0.1'') @ '':8080''),
     cm_config = config, cm_is_leader = False, cm_is_draining = False, cm_active_connections = 0, cm_shutdown_sent = False\<rparr>"

definition cm_register_node :: "('f, 's) store_ops \<Rightarrow> 'f \<Rightarrow> string \<Rightarrow> u64 \<Rightarrow> u64 \<Rightarrow> cluster_manager \<Rightarrow> 's \<Rightarrow> (store_error + unit) \<times> 's" where
  "cm_register_node S f version wall wall' m =
     so_node_register S f \<lparr>ni_node_id = cm_node_id m, ni_address = cm_advertise_address m, ni_status = NodeActive,
       ni_active_connections = 0, ni_last_heartbeat = wall, ni_started_at = wall', ni_version = version\<rparr>"

definition cm_new :: "('f, 's) store_ops \<Rightarrow> 'f \<Rightarrow> string \<Rightarrow> u64 \<Rightarrow> u64 \<Rightarrow> string option \<Rightarrow> string \<Rightarrow> cluster_config \<Rightarrow> 's
    \<Rightarrow> (store_error + cluster_manager) \<times> 's" where
  "cm_new S f version wall wall' hostname uuid config =
     (let m = cm_make hostname uuid config in tryb (cm_register_node S f version wall wall' m) (\<lambda>_. ret m))"

definition cm_update_connections :: "u64 \<Rightarrow> cluster_manager \<Rightarrow> cluster_manager" where
  "cm_update_connections count m = m\<lparr>cm_active_connections := count\<rparr>"

definition cm_start_drain :: "('f, 's) store_ops \<Rightarrow> 'f \<Rightarrow> cluster_manager \<Rightarrow> 's \<Rightarrow> (store_error + unit) \<times> cluster_manager \<times> 's" where
  "cm_start_drain S f m s =
     (let (r, s') = so_node_set_status S f (cm_node_id m) NodeDraining s in (r, m\<lparr>cm_is_draining := True\<rparr>, s'))"

text \<open>The two calls of a shutdown have their own surroundings.\<close>

definition cm_shutdown :: "('f, 's) store_ops \<Rightarrow> 'f \<Rightarrow> 'f \<Rightarrow> cluster_manager \<Rightarrow> 's \<Rightarrow> cluster_manager \<times> 's" where
  "cm_shutdown S f g m s =
     (let s1 = (if cm_is_leader m then snd (so_leader_release S f ''health_check'' (cm_node_id m) s) else s)
      in (m\<lparr>cm_shutdown_sent := True\<rparr>, snd (so_node_deregister S g (cm_node_id m) s1)))"

definition cm_heartbeat_tick :: "('f, 's) store_ops \<Rightarrow> 'f \<Rightarrow> cluster_manager \<Rightarrow> 's \<Rightarrow> 's" where
  "cm_heartbeat_tick S f m s = snd (so_node_heartbeat S f (cm_node_id m) (cm_active_connections m) s)"

definition cm_election_tick :: "('f, 's) store_ops \<Rightarrow> 'f \<Rightarrow> cluster_manager \<Rightarrow> 's \<Rightarrow> cluster_manager \<times> 's" where
  "cm_election_tick S f m s =
     (case so_leader_acquire S f ''health_check'' (cm_node_id m) (ccf_leader_ttl (cm_config m)) s of
        (Inr acquired, s') \<Rightarrow> (m\<lparr>cm_is_leader := acquired\<rparr>, s')
      | (Inl _, s') \<Rightarrow> (m\<lparr>cm_is_leader := False\<rparr>, s'))"

definition cm_get_active_nodes :: "('f, 's) store_ops \<Rightarrow> 'f \<Rightarrow> u64 \<Rightarrow> cluster_manager \<Rightarrow> 's \<Rightarrow> (store_error + node_info list) \<times> 's" where
  "cm_get_active_nodes S f now m =
     tryb (so_node_list S f) (\<lambda>nodes.
       ret (filter (\<lambda>n. ni_status n \<noteq> NodeUnhealthy \<and>
         now - ni_last_heartbeat n < of_nat (ccf_node_timeout (cm_config m) div 1000000)) nodes))"

record cluster_stats =
  cst_node_count :: nat
  cst_active_nodes :: nat
  cst_draining_nodes :: nat
  cst_total_connections :: u64
  cst_this_node_id :: string
  cst_this_node_is_leader :: bool
  cst_this_node_is_draining :: bool

definition cm_get_cluster_stats :: "('f, 's) store_ops \<Rightarrow> 'f \<Rightarrow> u64 \<Rightarrow> cluster_manager \<Rightarrow> 's \<Rightarrow> cluster_stats \<times> 's" where
  "cm_get_cluster_stats S f now m s =
     (let (r, s') = cm_get_active_nodes S f now m s; nodes = (case r of Inr ns \<Rightarrow> ns | Inl _ \<Rightarrow> [])
      in (\<lparr>cst_node_count = length nodes,
           cst_active_nodes = length (filter (\<lambda>n. ni_status n = NodeActive) nodes),
           cst_draining_nodes = length (filter (\<lambda>n. ni_status n = NodeDraining) nodes),
           cst_total_connections = foldl (+) 0 (map ni_active_connections nodes),
           cst_this_node_id = cm_node_id m, cst_this_node_is_leader = cm_is_leader m,
           cst_this_node_is_draining = cm_is_draining m\<rparr>, s'))"

section \<open>Health checks by the leader\<close>

record dh_state =
  dh_successes :: u32
  dh_failures :: u32
  dh_current_health :: bool

definition dh_init :: dh_state where
  "dh_init = \<lparr>dh_successes = 0, dh_failures = 0, dh_current_health = True\<rparr>"

text \<open>\<open>None\<close> is a check that passed; the address is parsed at every check.\<close>

definition dh_perform_http_check :: "(string \<Rightarrow> bool) \<Rightarrow> (u16 \<Rightarrow> string) \<Rightarrow> health_check_config \<Rightarrow> string \<Rightarrow> probe_outcome \<Rightarrow> string option" where
  "dh_perform_http_check uri_ok show_status config server_url p =
     (if uri_ok (check_url config server_url) then perform_http_check show_status config p
      else Some ''Invalid URL'')"

definition dh_check :: "string option \<Rightarrow> dh_state \<Rightarrow> dh_state" where
  "dh_check verdict st =
     (case verdict of
        None \<Rightarrow> (let st' = st\<lparr>dh_successes := dh_successes st + 1, dh_failures := 0\<rparr>
          in if \<not> dh_current_health st' \<and> dh_successes st' \<ge> 2 then st'\<lparr>dh_current_health := True\<rparr> else st')
      | Some _ \<Rightarrow> (let st' = st\<lparr>dh_failures := dh_failures st + 1, dh_successes := 0\<rparr>
          in if dh_current_health st' \<and> dh_failures st' \<ge> 3 then st'\<lparr>dh_current_health := False\<rparr> else st'))"

definition dh_status :: "u64 \<Rightarrow> dh_state \<Rightarrow> store_health_status" where
  "dh_status wall st = \<lparr>shs_healthy = dh_current_health st, shs_last_check = wall, shs_consecutive_failures = dh_failures st,
     shs_last_error = (if dh_current_health st then None else Some ''Health check failed'')\<rparr>"

definition dh_tick :: "('f, 's) store_ops \<Rightarrow> 'f \<Rightarrow> bool \<Rightarrow> string \<Rightarrow> string \<Rightarrow> u64 \<Rightarrow> string option \<Rightarrow> dh_state \<Rightarrow> 's \<Rightarrow> dh_state \<times> 's" where
  "dh_tick S f is_leader service server_url wall verdict st s =
     (if \<not> is_leader then
        (case so_health_get S f service server_url s of
           (Inr (Some status), s') \<Rightarrow> (st\<lparr>dh_current_health := shs_healthy status\<rparr>, s')
         | (Inr None, s') \<Rightarrow> (st\<lparr>dh_current_health := True\<rparr>, s')
         | (Inl _, s') \<Rightarrow> (st, s'))
      else let st' = dh_check verdict st
        in (st', snd (so_health_set S f service server_url (dh_status wall st') s)))"

definition dhm_get_health_status :: "('f, 's) store_ops \<Rightarrow> 'f \<Rightarrow> string \<Rightarrow> 's \<Rightarrow> bool dict" where
  "dhm_get_health_status S f service s =
     (case fst (so_health_get_all S f service s) of Inr statuses \<Rightarrow> map (\<lambda>(url, st). (url, shs_healthy st)) statuses | Inl _ \<Rightarrow> [])"

definition dhm_is_server_healthy :: "('f, 's) store_ops \<Rightarrow> 'f \<Rightarrow> string \<Rightarrow> string \<Rightarrow> 's \<Rightarrow> bool" where
  "dhm_is_server_healthy S f service server_url s =
     (case fst (so_health_get S f service server_url s) of Inr (Some status) \<Rightarrow> shs_healthy status | Inr None \<Rightarrow> True | Inl _ \<Rightarrow> True)"

section \<open>The cluster as a whole\<close>

text \<open>
  One store, the managers by the identifier of their node, the time, and for every node the time at
  which it was last granted the lease (kept for the statements only). The steps are the iterations of
  the tasks and the operations of the managers, in any order; the election task of a node may run
  once more after the shutdown has been signalled.
\<close>

record 's cluster =
  cl_store :: 's
  cl_nodes :: "cluster_manager dict"
  cl_now :: instant
  cl_granted :: "string \<Rightarrow> instant"

inductive cluster_step :: "('f, 's) store_ops \<Rightarrow> ('f \<Rightarrow> instant) \<Rightarrow> 's cluster \<Rightarrow> 's cluster \<Rightarrow> bool" for S at where
  cs_join: "cm_new S f version wall wall' hostname uuid config (cl_store w) = (Inr m, s') \<Longrightarrow>
    dict_get (cl_nodes w) (cm_node_id m) = None \<Longrightarrow>
    cluster_step S at w (w\<lparr>cl_store := s', cl_nodes := dict_insert (cm_node_id m) m (cl_nodes w)\<rparr>)"
| cs_heartbeat: "dict_get (cl_nodes w) n = Some m \<Longrightarrow>
    cluster_step S at w (w\<lparr>cl_store := cm_heartbeat_tick S f m (cl_store w)\<rparr>)"
| cs_election: "dict_get (cl_nodes w) n = Some m \<Longrightarrow> cl_now w \<le> at f \<Longrightarrow> cm_election_tick S f m (cl_store w) = (m', s') \<Longrightarrow>
    cluster_step S at w (w\<lparr>cl_store := s', cl_nodes := dict_insert n m' (cl_nodes w), cl_now := at f,
      cl_granted := (if cm_is_leader m' then (cl_granted w)(n := at f) else cl_granted w)\<rparr>)"
| cs_connections: "dict_get (cl_nodes w) n = Some m \<Longrightarrow>
    cluster_step S at w (w\<lparr>cl_nodes := dict_insert n (cm_update_connections k m) (cl_nodes w)\<rparr>)"
| cs_drain: "dict_get (cl_nodes w) n = Some m \<Longrightarrow> cm_start_drain S f m (cl_store w) = (r, m', s') \<Longrightarrow>
    cluster_step S at w (w\<lparr>cl_store := s', cl_nodes := dict_insert n m' (cl_nodes w)\<rparr>)"
| cs_shutdown: "dict_get (cl_nodes w) n = Some m \<Longrightarrow> cm_shutdown S f g m (cl_store w) = (m', s') \<Longrightarrow>
    cluster_step S at w (w\<lparr>cl_store := s', cl_nodes := dict_insert n m' (cl_nodes w)\<rparr>)"
| cs_exit: "dict_get (cl_nodes w) n = Some m \<Longrightarrow> cm_shutdown_sent m \<Longrightarrow>
    cluster_step S at w (w\<lparr>cl_nodes := dict_remove n (cl_nodes w)\<rparr>)"
| cs_stats: "dict_get (cl_nodes w) n = Some m \<Longrightarrow>
    cluster_step S at w (w\<lparr>cl_store := snd (cm_get_cluster_stats S f wall m (cl_store w))\<rparr>)"
| cs_health: "dict_get (cl_nodes w) n = Some m \<Longrightarrow>
    cluster_step S at w (w\<lparr>cl_store := snd (dh_tick S f (cm_is_leader m) service url wall verdict st (cl_store w))\<rparr>)"
| cs_time: "cl_now w \<le> t \<Longrightarrow> cluster_step S at w (w\<lparr>cl_now := t\<rparr>)"

definition cluster_start :: "'s \<Rightarrow> 's cluster" where
  "cluster_start s = \<lparr>cl_store = s, cl_nodes = [], cl_now = 0, cl_granted = (\<lambda>_. 0)\<rparr>"

text \<open>A node leads while its flag is set, it is not shutting down and its lease cannot have run out.\<close>

definition leads :: "(duration \<Rightarrow> duration) \<Rightarrow> 's cluster \<Rightarrow> string \<Rightarrow> bool" where
  "leads lasts w n = (case dict_get (cl_nodes w) n of None \<Rightarrow> False | Some m \<Rightarrow>
     cm_is_leader m \<and> \<not> cm_shutdown_sent m \<and> cl_now w < cl_granted w n + lasts (ccf_leader_ttl (cm_config m)))"

definition lease_inv :: "(instant \<Rightarrow> 's \<Rightarrow> string option) \<Rightarrow> (duration \<Rightarrow> duration) \<Rightarrow> 's cluster \<Rightarrow> bool" where
  "lease_inv holder lasts w \<longleftrightarrow> (\<forall>n m. dict_get (cl_nodes w) n = Some m \<longrightarrow> cm_node_id m = n \<and>
     (cm_is_leader m \<and> \<not> cm_shutdown_sent m \<longrightarrow>
       (\<forall>u. cl_now w \<le> u \<and> u < cl_granted w n + lasts (ccf_leader_ttl (cm_config m)) \<longrightarrow> holder u (cl_store w) = Some n)))"

text \<open>What the cluster needs of a store: safe leases that no other operation touches.\<close>

locale cluster_store = lease_safe at "\<lambda>f. so_leader_acquire S f ''health_check''" "\<lambda>f. so_leader_release S f ''health_check''" holder lasts
  for S :: "('f, 's) store_ops" and at holder lasts +
  assumes register_frame: "holder u (snd (so_node_register S f info s)) = holder u s"
    and heartbeat_frame: "holder u (snd (so_node_heartbeat S f n k s)) = holder u s"
    and set_status_frame: "holder u (snd (so_node_set_status S f n status s)) = holder u s"
    and list_frame: "holder u (snd (so_node_list S f s)) = holder u s"
    and deregister_frame: "holder u (snd (so_node_deregister S f n s)) = holder u s"
    and health_get_frame: "holder u (snd (so_health_get S f service url s)) = holder u s"
    and health_set_frame: "holder u (snd (so_health_set S f service url hs s)) = holder u s"
begin

lemma inv_frame:
  assumes "lease_inv holder lasts w" and "\<And>u. holder u s' = holder u (cl_store w)"
  shows "lease_inv holder lasts (w\<lparr>cl_store := s'\<rparr>)"
  using assms by (simp add: lease_inv_def)

text \<open>A manager replaced by one that does not lead more than before, over a store that keeps the leases of the others.\<close>

lemma inv_replace:
  assumes "lease_inv holder lasts w" and "cm_node_id m' = n"
    and "\<And>u k. k \<noteq> n \<Longrightarrow> cl_now w \<le> u \<Longrightarrow> holder u (cl_store w) = Some k \<Longrightarrow> holder u s' = Some k"
    and "cm_is_leader m' \<and> \<not> cm_shutdown_sent m' \<Longrightarrow> (\<forall>u. holder u s' = holder u (cl_store w)) \<and>
      (\<exists>m. dict_get (cl_nodes w) n = Some m \<and> cm_is_leader m \<and> \<not> cm_shutdown_sent m \<and> cm_config m = cm_config m')"
  shows "lease_inv holder lasts (w\<lparr>cl_store := s', cl_nodes := dict_insert n m' (cl_nodes w)\<rparr>)"
  unfolding lease_inv_def
proof (intro allI impI conjI)
  fix k m
  assume k: "dict_get (cl_nodes (w\<lparr>cl_store := s', cl_nodes := dict_insert n m' (cl_nodes w)\<rparr>)) k = Some m"
  then show "cm_node_id m = k" using assms(1,2) by (auto simp: lease_inv_def dict_simps split: if_splits)
  fix u
  assume lead: "cm_is_leader m \<and> \<not> cm_shutdown_sent m"
    and u: "cl_now (w\<lparr>cl_store := s', cl_nodes := dict_insert n m' (cl_nodes w)\<rparr>) \<le> u \<and>
      u < cl_granted (w\<lparr>cl_store := s', cl_nodes := dict_insert n m' (cl_nodes w)\<rparr>) k + lasts (ccf_leader_ttl (cm_config m))"
  show "holder u (cl_store (w\<lparr>cl_store := s', cl_nodes := dict_insert n m' (cl_nodes w)\<rparr>)) = Some k"
  proof (cases "k = n")
    case True
    then have "m = m'" using k by (simp add: dict_simps)
    with lead assms(4) obtain m0 where m0: "dict_get (cl_nodes w) n = Some m0" "cm_is_leader m0 \<and> \<not> cm_shutdown_sent m0"
      "cm_config m0 = cm_config m'" "holder u s' = holder u (cl_store w)" by blast
    then show ?thesis using assms(1) u True \<open>m = m'\<close> by (simp add: lease_inv_def)
  next
    case False
    then show ?thesis using assms(1,3) k lead u by (simp add: lease_inv_def dict_simps)
  qed
qed

lemma lease_inv_step:
  assumes "cluster_step S at w w'" and inv: "lease_inv holder lasts w"
  shows "lease_inv holder lasts w'"
  using assms(1)
proof cases
  case (cs_join f version wall wall' hostname uuid config m s')
  from cs_join(2) have m: "m = cm_make hostname uuid config" "s' = snd (cm_register_node S f version wall wall' m (cl_store w))"
    by (auto simp: cm_new_def Let_def tryb_def ret_def split: prod.splits sum.splits)
  then show ?thesis unfolding cs_join(1) by (intro inv_replace [OF inv]) (simp_all add: cm_register_node_def register_frame cm_make_def)
next
  case (cs_heartbeat n m f)
  then show ?thesis by (simp add: inv_frame [OF inv] cm_heartbeat_tick_def heartbeat_frame)
next
  case (cs_election n m f m' s')
  let ?r = "so_leader_acquire S f ''health_check'' (cm_node_id m) (ccf_leader_ttl (cm_config m)) (cl_store w)"
  have id: "cm_node_id m = n" using inv cs_election(2) by (simp add: lease_inv_def)
  have m': "m' = m\<lparr>cm_is_leader := (fst ?r = Inr True)\<rparr>" "s' = snd ?r"
    using cs_election(4) by (auto simp: cm_election_tick_def split: prod.splits sum.splits)
  show ?thesis unfolding cs_election(1) lease_inv_def
  proof (intro allI impI conjI)
    let ?w = "w\<lparr>cl_store := s', cl_nodes := dict_insert n m' (cl_nodes w), cl_now := at f,
      cl_granted := (if cm_is_leader m' then (cl_granted w)(n := at f) else cl_granted w)\<rparr>"
    fix k mk
    assume k: "dict_get (cl_nodes ?w) k = Some mk"
    then show "cm_node_id mk = k" using inv id m' by (auto simp: lease_inv_def dict_simps split: if_splits)
    fix u
    assume lead: "cm_is_leader mk \<and> \<not> cm_shutdown_sent mk" and u: "cl_now ?w \<le> u \<and> u < cl_granted ?w k + lasts (ccf_leader_ttl (cm_config mk))"
    show "holder u (cl_store ?w) = Some k"
    proof (cases "k = n")
      case True
      then have "mk = m'" using k by (simp add: dict_simps)
      then show ?thesis using granted_holds [of f n "ccf_leader_ttl (cm_config m)" "cl_store w" u] lead u True m' id by simp
    next
      case False
      then have "holder u (cl_store w) = Some k" using inv k lead u cs_election(3) by (auto simp: lease_inv_def dict_simps split: if_splits)
      then show ?thesis using acquire_other [of u "cl_store w" k n f "ccf_leader_ttl (cm_config m)"] False u m' id by simp
    qed
  qed
next
  case (cs_connections n m k)
  have id: "cm_node_id m = n" using inv cs_connections(2) by (simp add: lease_inv_def)
  have "lease_inv holder lasts (w\<lparr>cl_store := cl_store w, cl_nodes := dict_insert n (cm_update_connections k m) (cl_nodes w)\<rparr>)"
    using cs_connections(2) by (intro inv_replace [OF inv]) (auto simp: id cm_update_connections_def)
  then show ?thesis unfolding cs_connections(1) by simp
next
  case (cs_drain n m f r m' s')
  have id: "cm_node_id m = n" using inv cs_drain(2) by (simp add: lease_inv_def)
  have "m' = m\<lparr>cm_is_draining := True\<rparr>" "s' = snd (so_node_set_status S f (cm_node_id m) NodeDraining (cl_store w))"
    using cs_drain(3) by (auto simp: cm_start_drain_def split: prod.splits)
  then show ?thesis unfolding cs_drain(1) using cs_drain(2)
    by (intro inv_replace [OF inv]) (auto simp: set_status_frame id)
next
  case (cs_shutdown n m f g m' s')
  have id: "cm_node_id m = n" using inv cs_shutdown(2) by (simp add: lease_inv_def)
  have "m' = m\<lparr>cm_shutdown_sent := True\<rparr>"
    "s' = snd (so_node_deregister S g n (if cm_is_leader m then snd (so_leader_release S f ''health_check'' n (cl_store w)) else cl_store w))"
    using cs_shutdown(3) by (auto simp: cm_shutdown_def Let_def id)
  then show ?thesis unfolding cs_shutdown(1)
    by (intro inv_replace [OF inv]) (auto simp: id deregister_frame intro: release_keeps)
next
  case (cs_exit n m)
  then show ?thesis using inv by (auto simp: lease_inv_def dict_simps)
next
  case (cs_stats n m f wall)
  have "holder u (snd (cm_get_cluster_stats S f wall m (cl_store w))) = holder u (cl_store w)" for u
    using list_frame [of u f "cl_store w"]
    by (auto simp: cm_get_cluster_stats_def cm_get_active_nodes_def tryb_def ret_def Let_def split: prod.splits sum.splits)
  then show ?thesis unfolding cs_stats(1) by (intro inv_frame [OF inv])
next
  case (cs_health n m f service url wall verdict st)
  have "holder u (snd (dh_tick S f (cm_is_leader m) service url wall verdict st (cl_store w))) = holder u (cl_store w)" for u
    using health_get_frame [of u f service url "cl_store w"]
    by (auto simp: dh_tick_def Let_def health_set_frame split: prod.splits sum.splits option.splits)
  then show ?thesis unfolding cs_health(1) by (intro inv_frame [OF inv])
next
  case (cs_time t)
  then show ?thesis using inv by (auto simp: lease_inv_def)
qed

lemma one_leader:
  assumes "(cluster_step S at)\<^sup>*\<^sup>* (cluster_start s0) w" and "leads lasts w n" and "leads lasts w k"
  shows "n = k"
proof -
  have "lease_inv holder lasts w" using assms(1)
    by induction (simp_all add: lease_inv_step, simp add: lease_inv_def cluster_start_def)
  then have "holder (cl_now w) (cl_store w) = Some x" if "leads lasts w x" for x
    using that by (auto simp: lease_inv_def leads_def split: option.splits)
  from this [OF assms(2)] this [OF assms(3)] show ?thesis by simp
qed

end

section \<open>Both stores have the contract\<close>

interpretation local_cluster: cluster_store local_store_ops fst "\<lambda>t. ls_leader_get t ''health_check''" "\<lambda>ttl. ttl"
proof -
  note ls = local_store_ops_def replies_def writes_def reads_def ls_leader_acquire_def ls_leader_release_def ls_leader_get_def
  show "cluster_store local_store_ops fst (\<lambda>t. ls_leader_get t ''health_check'') (\<lambda>ttl. ttl)"
    by unfold_locales
      (auto simp: ls dict_simps Let_def ls_node_register_def ls_node_heartbeat_def ls_node_set_status_def ls_node_deregister_def
        ls_health_set_def split: option.splits if_splits)
qed

definition keeps :: "'s valkey_store \<Rightarrow> string \<Rightarrow> ('s \<Rightarrow> 'a \<times> 's) \<Rightarrow> bool" where
  "keeps c k m \<longleftrightarrow> (\<forall>s. vo_keyspace (vs_conn c) (snd (m s)) k = vo_keyspace (vs_conn c) s k)"

named_theorems keeps_intros

lemma keeps_tryb [keeps_intros]: "keeps c k m \<Longrightarrow> (\<And>x. keeps c k (f x)) \<Longrightarrow> keeps c k (tryb m f)"
  by (auto simp: keeps_def tryb_snd split: sum.splits)

lemma keeps_cmd [keeps_intros]: "(\<And>t. keeps c k (m t)) \<Longrightarrow> keeps c k (cmd e i m)"
  by (auto simp: keeps_def cmd_snd split: fate.splits)

lemma keeps_ret [keeps_intros]: "keeps c k (ret x)" "keeps c k (fail er)"
  by (simp_all add: keeps_def)

lemma keeps_commands [keeps_intros]:
  assumes "valkey_laws (vs_conn c)"
  shows "keeps c k (vo_get (vs_conn c) k' t)" "keeps c k (vo_publish (vs_conn c) ch p t)"
    "k' \<noteq> k \<Longrightarrow> keeps c k (vo_set_ex (vs_conn c) k' v n t)" "k' \<noteq> k \<Longrightarrow> keeps c k (vo_del (vs_conn c) k' t)"
    "k' \<noteq> k \<Longrightarrow> keeps c k (vo_sadd (vs_conn c) k' m t)" "k' \<noteq> k \<Longrightarrow> keeps c k (vo_srem (vs_conn c) k' m t)"
    "keeps c k (vo_smembers (vs_conn c) k' t)"
proof -
  show "keeps c k (vo_get (vs_conn c) k' t)" using get_reply(1) [OF assms] by (simp add: keeps_def)
  show "keeps c k (vo_publish (vs_conn c) ch p t)" using assms by (simp add: keeps_def valkey_laws_def publish_laws_def)
  show "keeps c k (vo_set_ex (vs_conn c) k' v n t)" if "k' \<noteq> k"
    using that set_ex_reply(2) [OF assms, of n k' v t] set_ex_reply(4) [OF assms, of k' v t] by (cases "n = 0") (simp_all add: keeps_def)
  show "keeps c k (vo_del (vs_conn c) k' t)" if "k' \<noteq> k" using that del_reply(2) [OF assms] by (simp add: keeps_def)
  have sets: "set_laws (vs_conn c)" using assms by (simp add: valkey_laws_def)
  have "vo_keyspace (vs_conn c) (snd (vo_sadd (vs_conn c) k' m t s)) k = vo_keyspace (vs_conn c) s k \<and>
      vo_keyspace (vs_conn c) (snd (vo_srem (vs_conn c) k' m t s)) k = vo_keyspace (vs_conn c) s k" if "k' \<noteq> k" for s
    using sets that by (cases "is_set_or_absent t (vo_keyspace (vs_conn c) s) k'")
      (simp_all add: set_laws_def Let_def does_def refuses_def ks_set_update_def split_beta)
  then show "k' \<noteq> k \<Longrightarrow> keeps c k (vo_sadd (vs_conn c) k' m t)" "k' \<noteq> k \<Longrightarrow> keeps c k (vo_srem (vs_conn c) k' m t)" by (simp_all add: keeps_def)
  have "vo_keyspace (vs_conn c) (snd (vo_smembers (vs_conn c) k' t s)) k = vo_keyspace (vs_conn c) s k" for s
    using sets by (cases "is_set_or_absent t (vo_keyspace (vs_conn c) s) k'") (simp_all add: set_laws_def Let_def does_def refuses_def)
  then show "keeps c k (vo_smembers (vs_conn c) k' t)" by (simp add: keeps_def)
qed

lemma keeps_node_read [keeps_intros]: "valkey_laws (vs_conn c) \<Longrightarrow> keeps c k (vk_node_read c e i)"
  unfolding vk_node_read_def by (intro keeps_intros | auto intro: keeps_intros split: option.splits sum.splits)+

lemma keeps_node_write [keeps_intros]: "valkey_laws (vs_conn c) \<Longrightarrow> vk_key c [''nodes'', i] \<noteq> k \<Longrightarrow> keeps c k (vk_node_write c e i info)"
  unfolding vk_node_write_def by (intro keeps_intros)

lemma keeps_collect [keeps_intros]:
  assumes "valkey_laws (vs_conn c)" and "vk_key c [''nodes_set''] \<noteq> k"
  shows "keeps c k (vk_node_collect c e i ids nodes)"
proof (induction ids arbitrary: i nodes)
  case (Cons n ids)
  have "keeps c k (\<lambda>s. vk_node_collect c e j ids nodes (snd (cmd e l (vo_srem (vs_conn c) (vk_key c [''nodes_set'']) n) s)))" for j l nodes
    using Cons [of j nodes] keeps_cmd [OF keeps_commands(6) [OF assms, where m = n], of e l] by (simp add: keeps_def)
  then show ?case using Cons keeps_node_read [OF assms(1)]
    by (auto intro!: keeps_tryb simp: vk_node_get_def split: option.splits)
qed (simp add: keeps_ret)

lemma leader_key_ne:
  "vk_key c [''nodes'', i] \<noteq> vk_key c [''leader'', task]" "vk_key c [''nodes_set''] \<noteq> vk_key c [''leader'', task]"
  "vk_key c [''health'', a, b] \<noteq> vk_key c [''leader'', task]"
  by (simp_all add: vk_key_def)

lemma valkey_cluster_store:
  assumes V: "valkey_laws (vs_conn c)"
  shows "cluster_store (valkey_store_ops c) (\<lambda>e. fst (ve_cmd e 0)) (vk_holder c ''health_check'') (\<lambda>ttl. secs (as_secs ttl))"
proof -
  let ?k = "vk_key c [''leader'', ''health_check'']"
  have frame: "vk_holder c ''health_check'' u (snd (m s)) = vk_holder c ''health_check'' u s"
    if "keeps c ?k m" for u s and m :: "'a \<Rightarrow> (store_error + 'b) \<times> 'a"
    using that by (simp add: vk_holder_def keeps_def live_string_def live_def live_entry_def)
  note ne = leader_key_ne [where c = c and task = "''health_check''"]
  have 1: "keeps c ?k (vk_node_register c f info)" for f info
    unfolding vk_node_register_def by (intro keeps_intros V ne)
  have 2: "keeps c ?k (vk_node_heartbeat c f n x)" for f n x
    unfolding vk_node_heartbeat_def vk_heartbeat_write_def by (intro keeps_tryb keeps_node_read V) (auto intro!: keeps_intros V ne split: option.splits)
  have 3: "keeps c ?k (vk_node_set_status c f n st)" for f n st
    unfolding vk_node_set_status_def by (intro keeps_tryb keeps_node_read V) (auto intro!: keeps_intros V ne split: option.splits)
  have 4: "keeps c ?k (vk_node_list c f)" for f
    unfolding vk_node_list_def by (intro keeps_intros V ne)
  have 5: "keeps c ?k (vk_node_deregister c f n)" for f n
    unfolding vk_node_deregister_def by (intro keeps_intros V ne)
  have 6: "keeps c ?k (vk_health_get c f service url)" for f service url
    unfolding vk_health_get_def by (intro keeps_tryb keeps_cmd keeps_commands V) (auto intro!: keeps_ret split: option.splits sum.splits)
  have 7: "keeps c ?k (vk_health_set c f service url hs)" for f service url hs
    unfolding vk_health_set_def Let_def by (intro keeps_intros V ne)
  show ?thesis
    by (intro cluster_store.intro cluster_store_axioms.intro)
      (simp_all add: valkey_store_ops_def valkey_lease_safe [OF V] 1 2 3 4 5 6 7 frame)
qed

text \<open>
  C6. At most one node of a cluster leads, whatever the network does to the calls and in whatever order
  the tasks of the nodes run: two nodes whose flag is set, which are not shutting down and whose
  lease was granted less than its duration ago are the same node.
\<close>

theorem one_health_check_leader:
  assumes "valkey_laws (vs_conn c)"
    and "(cluster_step (valkey_store_ops c) (\<lambda>e. fst (ve_cmd e 0)))\<^sup>*\<^sup>* (cluster_start s0) w"
    and "leads (\<lambda>ttl. secs (as_secs ttl)) w n" and "leads (\<lambda>ttl. secs (as_secs ttl)) w k"
  shows "n = k"
  using cluster_store.one_leader [OF valkey_cluster_store [OF assms(1)] assms(2-4)] .

lemma register_ok:
  assumes V: "valkey_laws (vs_conn c)" and e: "delivered e"
    and set: "\<forall>t. is_set_or_absent t (vo_keyspace (vs_conn c) s) (vk_key c [''nodes_set''])"
  shows "fst (vk_node_register c e info s) = Inr ()"
    "\<forall>t. is_set_or_absent t (vo_keyspace (vs_conn c) (snd (vk_node_register c e info s))) (vk_key c [''nodes_set''])"
proof -
  let ?i = "ni_node_id info" and ?S = "vk_key c [''nodes_set'']"
  let ?s1 = "snd (vo_set_ex (vs_conn c) (vk_key c [''nodes'', ?i]) (jc_node_to (vs_json c) info) 60 (env_time e) s)"
  have "is_set_or_absent (fst (ve_cmd e 1)) (vo_keyspace (vs_conn c) ?s1) ?S"
    using set set_ex_reply(2) [OF V, of 60] node_key_ne [of c ?i, symmetric] by (simp add: is_set_or_absent_def live_def live_entry_def)
  then have "does (vs_conn c) (vo_sadd (vs_conn c) ?S ?i (fst (ve_cmd e 1))) ?s1 ()
      (ks_set_update (List.insert ?i) ?S (fst (ve_cmd e 1)) (vo_keyspace (vs_conn c) ?s1))"
    using V unfolding valkey_laws_def set_laws_def Let_def by blast
  then show "fst (vk_node_register c e info s) = Inr ()"
    "\<forall>t. is_set_or_absent t (vo_keyspace (vs_conn c) (snd (vk_node_register c e info s))) ?S"
    using set_ex_reply(1) [OF V, of 60]
    by (simp_all add: vk_node_register_def tryb_def cmd_delivered [OF e] split_beta does_def ks_set_update_def Let_def
      is_set_or_absent_def live_def live_entry_def split: option.splits)
qed

lemma acquire_free:
  assumes V: "valkey_laws (vs_conn c)" and e: "delivered e" and "vo_keyspace (vs_conn c) s (vk_key c [''leader'', task]) = None" and "1 \<le> as_secs ttl"
  shows "fst (vk_leader_acquire c e task n ttl s) = Inr True"
proof -
  let ?k = "vk_key c [''leader'', task]"
  have "fst (vo_get (vs_conn c) ?k (env_time e) s) = Inr None"
    using get_reply(4) [OF V, of "env_time e" s ?k] assms(3) by (simp add: is_string_or_absent_def live_string_def live_def live_entry_def)
  then show ?thesis using set_ex_reply(1) [OF V, of "as_secs ttl"] assms(4)
    by (simp add: vk_leader_acquire_def leader_acquire_script_def tryb_def cmd_delivered [OF e] split_beta ret_def)
qed

definition cluster_config_example :: "string \<Rightarrow> cluster_config" where
  "cluster_config_example n = \<lparr>ccf_enabled = True, ccf_node_id = Some n, ccf_advertise_address = None, ccf_store = None,
     ccf_heartbeat_interval = secs 10, ccf_node_timeout = secs 30, ccf_drain_timeout = secs 30, ccf_leader_ttl = secs 15\<rparr>"

theorem one_health_check_leader_witness:
  "\<exists>w. (cluster_step (valkey_store_ops vk_example) (\<lambda>e. fst (ve_cmd e 0)))\<^sup>*\<^sup>* (cluster_start ([], [])) w \<and>
    dict_get (cl_nodes w) ''b'' \<noteq> None \<and> leads (\<lambda>ttl. secs (as_secs ttl)) w ''a'' \<and> \<not> leads (\<lambda>ttl. secs (as_secs ttl)) w ''b''"
proof -
  let ?S = "valkey_store_ops vk_example" and ?c = vk_example and ?at = "\<lambda>e :: vk_env. fst (ve_cmd e 0)"
  let ?m = "\<lambda>n. cm_make None [] (cluster_config_example n)"
  have new: "\<exists>s'. cm_new ?S (env_at 1 1 0) ''1'' 1 1 None [] (cluster_config_example n) s = (Inr (?m n), s') \<and>
      (\<forall>t. is_set_or_absent t (vo_keyspace (vs_conn ?c) s') (vk_key ?c [''nodes_set''])) \<and>
      vo_keyspace (vs_conn ?c) s' (vk_key ?c [''leader'', ''health_check'']) = vo_keyspace (vs_conn ?c) s (vk_key ?c [''leader'', ''health_check''])"
    if "\<forall>t. is_set_or_absent t (vo_keyspace (vs_conn ?c) s) (vk_key ?c [''nodes_set''])" for n s
  proof -
    have "keeps ?c (vk_key ?c [''leader'', ''health_check'']) (vk_node_register ?c (env_at 1 1 0) info)" for info
      unfolding vk_node_register_def by (intro keeps_intros vk_example_laws leader_key_ne)
    then have "vo_keyspace (vs_conn ?c) (snd (vk_node_register ?c (env_at 1 1 0) info s)) (vk_key ?c [''leader'', ''health_check'']) =
        vo_keyspace (vs_conn ?c) s (vk_key ?c [''leader'', ''health_check''])" for info unfolding keeps_def by blast
    then show ?thesis using register_ok [OF vk_example_laws(1) env_at_delivered that]
      by (simp add: cm_new_def Let_def tryb_def cm_register_node_def valkey_store_ops_def ret_def split_beta)
  qed
  have abs: "\<forall>t. is_set_or_absent t (vo_keyspace (vs_conn ?c) ([], [])) (vk_key ?c [''nodes_set''])"
    by (simp add: is_set_or_absent_def live_def live_entry_def example_absent)
  obtain s1 where s1: "cm_new ?S (env_at 1 1 0) ''1'' 1 1 None [] (cluster_config_example ''a'') ([], []) = (Inr (?m ''a''), s1)"
    "\<forall>t. is_set_or_absent t (vo_keyspace (vs_conn ?c) s1) (vk_key ?c [''nodes_set''])"
    "vo_keyspace (vs_conn ?c) s1 (vk_key ?c [''leader'', ''health_check'']) = None"
    using new [OF abs, of "''a''"] by (auto simp: example_absent)
  obtain s2 where s2: "cm_new ?S (env_at 1 1 0) ''1'' 1 1 None [] (cluster_config_example ''b'') s1 = (Inr (?m ''b''), s2)"
    "vo_keyspace (vs_conn ?c) s2 (vk_key ?c [''leader'', ''health_check'']) = None"
    using new [OF s1(2), of "''b''"] s1(3) by auto
  have id: "cm_node_id (?m n) = n" "ccf_leader_ttl (cm_config (?m n)) = secs 15" for n by (simp_all add: cm_make_def cluster_config_example_def)
  have "fst (vk_leader_acquire ?c (env_at 2 2 0) ''health_check'' ''a'' (secs 15) s2) = Inr True"
    by (rule acquire_free [OF vk_example_laws(1) env_at_delivered s2(2)]) (simp add: as_secs_def secs_def)
  then obtain s3 where s3: "cm_election_tick ?S (env_at 2 2 0) (?m ''a'') s2 = ((?m ''a'')\<lparr>cm_is_leader := True\<rparr>, s3)"
    by (cases "vk_leader_acquire ?c (env_at 2 2 0) ''health_check'' ''a'' (secs 15) s2")
      (simp add: cm_election_tick_def id valkey_store_ops_def)
  define w1 where "w1 = (cluster_start ([], []))\<lparr>cl_store := s1, cl_nodes := dict_insert ''a'' (?m ''a'') []\<rparr>"
  define w2 where "w2 = w1\<lparr>cl_store := s2, cl_nodes := dict_insert ''b'' (?m ''b'') (cl_nodes w1)\<rparr>"
  define w3 where "w3 = w2\<lparr>cl_store := s3, cl_nodes := dict_insert ''a'' ((?m ''a'')\<lparr>cm_is_leader := True\<rparr>) (cl_nodes w2), cl_now := ?at (env_at 2 2 0),
    cl_granted := (if cm_is_leader ((?m ''a'')\<lparr>cm_is_leader := True\<rparr>) then (cl_granted w2)(''a'' := ?at (env_at 2 2 0)) else cl_granted w2)\<rparr>"
  have 1: "cluster_step ?S ?at (cluster_start ([], [])) w1"
    using cs_join [of ?S "env_at 1 1 0" "''1''" 1 1 None "[]" "cluster_config_example ''a''" "cluster_start ([], [])" "?m ''a''" s1 ?at] s1(1)
    by (simp add: w1_def cluster_start_def id)
  have 2: "cluster_step ?S ?at w1 w2"
    using cs_join [of ?S "env_at 1 1 0" "''1''" 1 1 None "[]" "cluster_config_example ''b''" w1 "?m ''b''" s2 ?at] s2(1)
    by (simp add: w2_def w1_def cluster_start_def id dict_simps)
  have 3: "cluster_step ?S ?at w2 w3"
    unfolding w3_def
    by (rule cs_election [where m = "?m ''a''" and f = "env_at 2 2 0"]) (use s3 in \<open>simp_all add: w2_def w1_def cluster_start_def dict_simps\<close>)
  from 1 have "(cluster_step ?S ?at)\<^sup>*\<^sup>* (cluster_start ([], [])) w1" by (rule r_into_rtranclp)
  from this 2 have "(cluster_step ?S ?at)\<^sup>*\<^sup>* (cluster_start ([], [])) w2" by (rule rtranclp.rtrancl_into_rtrancl)
  from this 3 have reach: "(cluster_step ?S ?at)\<^sup>*\<^sup>* (cluster_start ([], [])) w3" by (rule rtranclp.rtrancl_into_rtrancl)
  have a: "leads (\<lambda>ttl. secs (as_secs ttl)) w3 ''a''"
    by (simp add: leads_def w3_def w2_def w1_def dict_simps cm_make_def cluster_config_example_def as_secs_def secs_def)
  then have "\<not> leads (\<lambda>ttl. secs (as_secs ttl)) w3 ''b''"
    using one_health_check_leader [OF vk_example_laws(1) reach a, of "''b''"] by blast
  moreover have "dict_get (cl_nodes w3) ''b'' \<noteq> None" by (simp add: w3_def w2_def dict_simps)
  ultimately show ?thesis using reach a by blast
qed

section \<open>Health of the servers across the cluster\<close>

text \<open>The counters of the distributed checker are those of the active checker.\<close>

definition dh_view :: "dh_state \<Rightarrow> health_status" where
  "dh_view st = \<lparr>hs_healthy = dh_current_health st, hs_consecutive_successes = dh_successes st, hs_consecutive_failures = dh_failures st,
     hs_last_check = None, hs_last_error = None\<rparr>"

lemma dh_check_rel:
  assumes "checker_rel h (dh_view st)"
  shows "checker_rel ((verdict = None) # h) (dh_view (dh_check verdict st))"
proof -
  define p where "p = (if verdict = None then ProbeStatus 200 else ProbeTimeout)"
  define cf :: health_check_config where "cf = undefined\<lparr>hc_status := None\<rparr>"
  have v: "perform_http_check ss cf p = None \<longleftrightarrow> verdict = None" for ss
    by (simp add: p_def cf_def perform_http_check_def check_status_def)
  have "checker_rel ((verdict = None) # h) (checker_tick (\<lambda>_. []) cf 0 p (dh_view st))"
    using checker_rel_tick [OF assms, of "\<lambda>_. []" cf p 0] by (simp only: v)
  moreover have "checker_rel h' (checker_tick (\<lambda>_. []) cf 0 p (dh_view st)) = checker_rel h' (dh_view (dh_check verdict st))" for h'
    using v [of "\<lambda>_. []"]
    by (cases verdict) (auto simp: checker_rel_def checker_tick_def dh_check_def dh_view_def hs_record_success_def hs_record_failure_def
      hs_mark_healthy_def hs_mark_unhealthy_def Let_def)
  ultimately show ?thesis by simp
qed

text \<open>Checks by the leader, each with its surroundings, the wall clock and the verdict.\<close>

definition dh_lead :: "('f, 's) store_ops \<Rightarrow> string \<Rightarrow> string \<Rightarrow> ('f \<times> u64 \<times> string option) list \<Rightarrow> dh_state \<times> 's \<Rightarrow> dh_state \<times> 's" where
  "dh_lead S service url checks = (\<lambda>x. foldl (\<lambda>(st, s) (f, wall, v). dh_tick S f True service url wall v st s) x checks)"

lemma dh_lead_hysteresis:
  "dh_current_health (fst (dh_lead S service url checks (dh_init, s))) = hysteresis (rev (map (\<lambda>(_, _, v). v = None) checks))"
proof -
  have "checker_rel (rev (map (\<lambda>(_, _, v). v = None) checks) @ h) (dh_view (fst (dh_lead S service url checks (st, s))))"
    if "checker_rel h (dh_view st)" for h st s
    using that
  proof (induction checks arbitrary: h st s)
    case (Cons x checks)
    obtain f wall v where x: "x = (f, wall, v)" by (cases x)
    from Cons.IH [OF dh_check_rel [OF Cons.prems, of v]] show ?case by (simp add: x dh_lead_def dh_tick_def Let_def)
  qed (simp add: dh_lead_def)
  from this [of "[]" dh_init s] show ?thesis by (simp add: checker_rel_def dh_view_def dh_init_def)
qed

lemma health_set_get:
  assumes V: "valkey_laws (vs_conn c)" and J: "json_laws (vs_json c)" and e: "snd (ve_cmd e 0) = Delivered" "delivered e'"
    and "env_time e' < env_time e + secs 300"
  shows "fst (vk_health_get c e' service url (snd (vk_health_set c e service url status s))) = Inr (Some status)"
proof -
  let ?k = "vk_key c [''health'', service, url]" and ?j = "jc_health_to (vs_json c) status"
  let ?s1 = "snd (vo_set_ex (vs_conn c) ?k ?j 300 (env_time e) s)"
  have first: "cmd e 0 (vo_set_ex (vs_conn c) ?k ?j 300) s = (Inr (), ?s1)"
    using e(1) set_ex_reply(1) [OF V, of 300] by (simp add: cmd_def send_def)
  have "vo_keyspace (vs_conn c) (snd (cmd e 1 (vo_publish (vs_conn c) ch p) s1)) = vo_keyspace (vs_conn c) s1" for ch p s1
    using V by (simp add: cmd_snd valkey_laws_def publish_laws_def split: fate.splits)
  then have "vo_keyspace (vs_conn c) (snd (vk_health_set c e service url status s)) ?k = Some (RString ?j, Some (env_time e + secs 300))"
    using set_ex_reply(2) [OF V, of 300] by (simp add: vk_health_set_def Let_def tryb_def first)
  then have "fst (vo_get (vs_conn c) ?k (env_time e') (snd (vk_health_set c e service url status s))) = Inr (Some ?j)"
    using get_reply(4) [OF V, of "env_time e'" _ ?k] assms(5)
    by (simp add: is_string_or_absent_def live_string_def live_def live_entry_def)
  then show ?thesis using J by (simp add: vk_health_get_def tryb_def cmd_delivered [OF e(2)] json_laws_def ret_def split_beta)
qed

text \<open>
  C8. Every node sees the verdict of the leader: after any checks by the leader, a node that reads the
  store within five minutes of the last one takes over its result, which is the one hysteresis
  gives for all the leader's checks. Whether earlier writes reached the store does not matter.
\<close>

theorem followers_see_leader_verdict:
  assumes V: "valkey_laws (vs_conn c)" and J: "json_laws (vs_json c)"
    and final: "snd (ve_cmd e 0) = Delivered" and read: "delivered e'" "env_time e' < env_time e + secs 300"
    and lead: "dh_lead (valkey_store_ops c) service url (checks @ [(e, wall, verdict)]) (dh_init, s) = (st, s')"
  shows "dh_current_health (fst (dh_tick (valkey_store_ops c) e' False service url wall' verdict' st' s')) =
    hysteresis (rev (map (\<lambda>(_, _, v). v = None) (checks @ [(e, wall, verdict)])))"
proof -
  obtain st0 s0 where 0: "dh_lead (valkey_store_ops c) service url checks (dh_init, s) = (st0, s0)"
    by (cases "dh_lead (valkey_store_ops c) service url checks (dh_init, s)")
  have st: "st = dh_check verdict st0" "s' = snd (vk_health_set c e service url (dh_status wall st) s0)"
    using lead 0 by (auto simp: dh_lead_def dh_tick_def Let_def valkey_store_ops_def)
  have "fst (vk_health_get c e' service url s') = Inr (Some (dh_status wall st))"
    unfolding st(2) by (rule health_set_get [OF V J final read])
  then have "dh_current_health (fst (dh_tick (valkey_store_ops c) e' False service url wall' verdict' st' s')) = dh_current_health st"
    by (cases "vk_health_get c e' service url s'") (simp add: dh_tick_def valkey_store_ops_def dh_status_def)
  also have "dh_current_health st = hysteresis (rev (map (\<lambda>(_, _, v). v = None) (checks @ [(e, wall, verdict)])))"
    using dh_lead_hysteresis [of "valkey_store_ops c" service url "checks @ [(e, wall, verdict)]" s] unfolding lead by simp
  finally show ?thesis .
qed

theorem followers_see_leader_verdict_witness:
  "\<exists>st s'. dh_lead (valkey_store_ops vk_example) ''web'' ''http://10.0.0.1''
      ([(env_at 1 1 0, 1, Some ''down''), (env_at 2 2 0, 2, Some ''down'')] @ [(env_at 3 3 0, 3, Some ''down'')]) (dh_init, ([], [])) = (st, s') \<and>
    dh_current_health (fst (dh_tick (valkey_store_ops vk_example) (env_at 4 4 0) False ''web'' ''http://10.0.0.1'' 4 None dh_init s')) = False"
proof -
  let ?cs = "[(env_at 1 1 0, 1, Some ''down''), (env_at 2 2 0, 2, Some ''down'')]"
  obtain st s' where l: "dh_lead (valkey_store_ops vk_example) ''web'' ''http://10.0.0.1'' (?cs @ [(env_at 3 3 0, 3, Some ''down'')]) (dh_init, ([], [])) = (st, s')"
    by (cases "dh_lead (valkey_store_ops vk_example) ''web'' ''http://10.0.0.1'' (?cs @ [(env_at 3 3 0, 3, Some ''down'')]) (dh_init, ([], []))")
  have "snd (ve_cmd (env_at 3 3 0) 0) = Delivered" "env_time (env_at 4 4 0) < env_time (env_at 3 3 0) + secs 300"
    by (simp_all add: env_at_def secs_def)
  from followers_see_leader_verdict [OF vk_example_laws this(1) env_at_delivered this(2) l, of 4 None dh_init] l
  show ?thesis by (intro exI conjI) simp_all
qed

end
