(* ===== verification/Config_Source.thy ===== *)
theory Config_Source
  imports Config_Validate
begin

text \<open>
  Where configurations come from: the file watcher (\<open>src/src/config/watcher.rs\<close>) and the HTTP
  providers (\<open>src/src/cluster/provider.rs\<close>). The file notifier, the HTTP client and the YAML library are
  external: their events and answers are arguments of the steps, the file is its content over time.
  The lemmas show that only validated configurations reach the server, and which changes are lost.
\<close>

section \<open>The file watcher\<close>

datatype event_kind = EvModify | EvCreate | EvOther

datatype watch_msg = FileEvent event_kind "string list" | WatchError | ChannelClosed

record watch_state =
  wst_last_event :: instant
  wst_sent :: "config list"
  wst_running :: bool

definition watch_start :: "instant \<Rightarrow> watch_state" where
  "watch_start now = \<lparr>wst_last_event = now, wst_sent = [], wst_running = True\<rparr>"

definition dur_ms :: "nat \<Rightarrow> duration" where
  "dur_ms n = n * 1000000"

text \<open>
  One message, received at \<open>now\<close>; \<open>disk t\<close> is the content of the file at time \<open>t\<close>, \<open>subscribed\<close> whether
  somebody listens, and \<open>load\<close> is \<open>Config::load\<close> on a content.
\<close>

definition watch_step :: "(string option \<Rightarrow> load_error + config) \<Rightarrow> (string \<Rightarrow> bool) \<Rightarrow> string \<Rightarrow> (instant \<Rightarrow> string option) \<Rightarrow> bool
    \<Rightarrow> instant \<Rightarrow> watch_msg \<Rightarrow> watch_state \<Rightarrow> watch_state" where
  "watch_step load url_ok config_filename disk subscribed now msg w =
     (if \<not> wst_running w then w else
      case msg of
        ChannelClosed \<Rightarrow> w\<lparr>wst_running := False\<rparr>
      | WatchError \<Rightarrow> w
      | FileEvent kind names \<Rightarrow>
          if kind = EvOther then w
          else if \<not> list_ex (\<lambda>f. f = config_filename) names then w
          else if now - wst_last_event w < dur_ms 200 then w
          else let w1 = w\<lparr>wst_last_event := now\<rparr> in
            case load (disk (now + dur_ms 100)) of
              Inl _ \<Rightarrow> w1
            | Inr config \<Rightarrow>
                (case config_validate url_ok config of
                   Inl _ \<Rightarrow> w1
                 | Inr _ \<Rightarrow> if subscribed then w1\<lparr>wst_sent := wst_sent w1 @ [config]\<rparr> else w1\<lparr>wst_running := False\<rparr>))"

definition watch_run :: "(string option \<Rightarrow> load_error + config) \<Rightarrow> (string \<Rightarrow> bool) \<Rightarrow> string \<Rightarrow> (instant \<Rightarrow> string option)
    \<Rightarrow> (bool \<times> instant \<times> watch_msg) list \<Rightarrow> watch_state \<Rightarrow> watch_state" where
  "watch_run load url_ok fname disk msgs w = foldl (\<lambda>w (sub, now, msg). watch_step load url_ok fname disk sub now msg w) w msgs"

lemma watch_step_sent:
  "list_all (\<lambda>c. config_validate url_ok c = Inr ()) (wst_sent w) \<Longrightarrow>
   list_all (\<lambda>c. config_validate url_ok c = Inr ()) (wst_sent (watch_step load url_ok fname disk sub now msg w))"
  by (auto simp: watch_step_def Let_def split: watch_msg.splits sum.splits)

lemma watch_run_sent:
  "list_all (\<lambda>c. config_validate url_ok c = Inr ()) (wst_sent w) \<Longrightarrow>
   list_all (\<lambda>c. config_validate url_ok c = Inr ()) (wst_sent (watch_run load url_ok fname disk msgs w))"
  unfolding watch_run_def by (induction msgs arbitrary: w) (auto simp: watch_step_sent split_beta)

text \<open>
  Events that come within 200 milliseconds of the last one that was handled are dropped and not
  postponed: a change made after the file was read, announced only by such events, is never loaded.
\<close>

lemma watch_drops_early:
  assumes "\<forall>(sub, now, msg) \<in> set msgs. now - wst_last_event w < dur_ms 200 \<and> msg \<noteq> ChannelClosed"
  shows "watch_run load url_ok fname disk msgs w = w"
  using assms
proof (induction msgs)
  case (Cons m msgs)
  obtain sub now msg where m: "m = (sub, now, msg)" by (cases m)
  have "watch_step load url_ok fname disk sub now msg w = w"
    using Cons.prems by (auto simp: m watch_step_def Let_def split: watch_msg.splits)
  then show ?case using Cons by (simp add: m watch_run_def)
qed (simp add: watch_run_def)

theorem late_change_lost:
  assumes first: "kind \<noteq> EvOther" "fname \<in> set names" "dur_ms 200 \<le> t - wst_last_event w" "wst_running w"
    and old: "load (disk (t + dur_ms 100)) = Inr c" "config_validate url_ok c = Inr ()"
    and late: "\<forall>(sub, now, msg) \<in> set msgs. t \<le> now \<and> now < t + dur_ms 200 \<and> msg \<noteq> ChannelClosed"
  shows "wst_sent (watch_run load url_ok fname disk ((True, t, FileEvent kind names) # msgs) w) = wst_sent w @ [c]"
proof -
  let ?w = "watch_step load url_ok fname disk True t (FileEvent kind names) w"
  have w: "wst_sent ?w = wst_sent w @ [c]" "wst_last_event ?w = t"
    using first old by (auto simp: watch_step_def Let_def list_ex_iff)
  have "watch_run load url_ok fname disk msgs ?w = ?w"
    using late by (intro watch_drops_early) (auto simp: w)
  then show ?thesis using w(1) by (simp add: watch_run_def)
qed

section \<open>HTTP providers\<close>

record basic_auth_credentials =
  bac_username :: string
  bac_password :: string

record http_provider_config =
  hpc_endpoint :: string
  hpc_poll_interval :: duration
  hpc_timeout :: duration
  hpc_headers :: "string dict"
  hpc_basic_auth :: "basic_auth_credentials option"

text \<open>The other two kinds are accepted and skipped.\<close>

datatype config_provider_config = ProviderHttp http_provider_config | ProviderS3 | ProviderConsul

record http_provider =
  hp_config :: http_provider_config
  hp_last_etag :: "string option"

record provider_request =
  prq_url :: string
  prq_headers :: "string dict"
  prq_basic_auth :: "(string \<times> string) option"

definition hp_request :: "http_provider \<Rightarrow> provider_request" where
  "hp_request p = \<lparr>prq_url = hpc_endpoint (hp_config p),
     prq_headers = hpc_headers (hp_config p) @ (case hp_last_etag p of Some etag \<Rightarrow> [(''If-None-Match'', etag)] | None \<Rightarrow> []),
     prq_basic_auth = map_option (\<lambda>a. (bac_username a, bac_password a)) (hpc_basic_auth (hp_config p))\<rparr>"

text \<open>What the HTTP client reports: no answer, or a status, the ETag as text, and the body.\<close>

datatype provider_answer = SendFailed string | Answer u16 "string option" "string + string"

datatype provider_error = RequestFailed string | NotModified | BadStatus u16 | BodyFailed string | ConfigParse | ConfigInvalid config_error
  | ProviderNotFound | AllFailed

definition hp_fetch :: "provider_answer \<Rightarrow> http_provider \<Rightarrow> (provider_error + string) \<times> http_provider" where
  "hp_fetch ans p = (case ans of
       SendFailed e \<Rightarrow> (Inl (RequestFailed e), p)
     | Answer status etag body \<Rightarrow>
         if status = 304 then (Inl NotModified, p)
         else if \<not> (200 \<le> status \<and> status < 300) then (Inl (BadStatus status), p)
         else let p' = (case etag of Some t \<Rightarrow> p\<lparr>hp_last_etag := Some t\<rparr> | None \<Rightarrow> p)
           in (map_sum BodyFailed id body, p'))"

record provider_manager =
  pm_providers :: "http_provider list"
  pm_current_config :: "config option"
  pm_on_change :: bool
  pm_called :: "config list"

fun pm_providers_of :: "config_provider_config list \<Rightarrow> http_provider list" where
  "pm_providers_of [] = []"
| "pm_providers_of (ProviderHttp c # cs) = \<lparr>hp_config = c, hp_last_etag = None\<rparr> # pm_providers_of cs"
| "pm_providers_of (_ # cs) = pm_providers_of cs"

definition pm_new :: "config_provider_config list \<Rightarrow> provider_manager" where
  "pm_new configs = \<lparr>pm_providers = pm_providers_of configs, pm_current_config = None, pm_on_change = False, pm_called = []\<rparr>"

definition pm_set_on_change :: "provider_manager \<Rightarrow> provider_manager" where
  "pm_set_on_change m = m\<lparr>pm_on_change := True\<rparr>"

text \<open>\<open>yaml\<close> reads a configuration, \<open>print\<close> writes it; a text that cannot be written counts as empty.\<close>

definition pm_poll_provider :: "(string \<Rightarrow> config option) \<Rightarrow> (config \<Rightarrow> string option) \<Rightarrow> (string \<Rightarrow> bool) \<Rightarrow> provider_answer \<Rightarrow> nat \<Rightarrow> provider_manager
    \<Rightarrow> (provider_error + unit) \<times> provider_manager" where
  "pm_poll_provider yaml print url_ok ans idx m =
     (if length (pm_providers m) \<le> idx then (Inl ProviderNotFound, m)
      else let (r, p') = hp_fetch ans (pm_providers m ! idx);
               m1 = m\<lparr>pm_providers := (pm_providers m)[idx := p']\<rparr>
        in case r of
          Inl e \<Rightarrow> (Inl e, m1)
        | Inr content \<Rightarrow>
            (case yaml content of
               None \<Rightarrow> (Inl ConfigParse, m1)
             | Some new_config \<Rightarrow>
                 (case config_validate url_ok new_config of
                    Inl e \<Rightarrow> (Inl (ConfigInvalid e), m1)
                  | Inr _ \<Rightarrow>
                      let text = (\<lambda>c. case print c of Some t \<Rightarrow> t | None \<Rightarrow> []);
                          config_changed = (case pm_current_config m1 of None \<Rightarrow> True | Some c \<Rightarrow> text c \<noteq> text new_config)
                      in if config_changed
                         then (Inr (), m1\<lparr>pm_current_config := Some new_config,
                                 pm_called := pm_called m1 @ (if pm_on_change m1 then [new_config] else [])\<rparr>)
                         else (Inr (), m1))))"

fun pm_fetch_initial :: "(string \<Rightarrow> config option) \<Rightarrow> (string \<Rightarrow> bool) \<Rightarrow> provider_answer list \<Rightarrow> nat \<Rightarrow> provider_manager
    \<Rightarrow> (provider_error + config) \<times> provider_manager" where
  "pm_fetch_initial yaml url_ok [] idx m = (Inl AllFailed, m)"
| "pm_fetch_initial yaml url_ok (ans # answers) idx m =
     (if length (pm_providers m) \<le> idx then (Inl AllFailed, m)
      else let (r, p') = hp_fetch ans (pm_providers m ! idx);
               m1 = m\<lparr>pm_providers := (pm_providers m)[idx := p']\<rparr>
        in case r of
          Inl _ \<Rightarrow> pm_fetch_initial yaml url_ok answers (Suc idx) m1
        | Inr content \<Rightarrow>
            (case yaml content of
               None \<Rightarrow> (Inl ConfigParse, m1)
             | Some config \<Rightarrow>
                 (case config_validate url_ok config of
                    Inl e \<Rightarrow> (Inl (ConfigInvalid e), m1)
                  | Inr _ \<Rightarrow> (Inr config, m1\<lparr>pm_current_config := Some config\<rparr>))))"

section \<open>Only validated configurations are passed on\<close>

definition pm_inv :: "(string \<Rightarrow> bool) \<Rightarrow> provider_manager \<Rightarrow> bool" where
  "pm_inv url_ok m \<longleftrightarrow> list_all (\<lambda>c. config_validate url_ok c = Inr ()) (pm_called m) \<and>
     (case pm_current_config m of None \<Rightarrow> True | Some c \<Rightarrow> config_validate url_ok c = Inr ())"

lemma pm_inv_init: "pm_inv url_ok (pm_new configs)" "pm_inv url_ok m \<Longrightarrow> pm_inv url_ok (pm_set_on_change m)"
  by (simp_all add: pm_inv_def pm_new_def pm_set_on_change_def)

lemma pm_inv_poll: "pm_inv url_ok m \<Longrightarrow> pm_inv url_ok (snd (pm_poll_provider yaml print url_ok ans idx m))"
  by (auto simp: pm_inv_def pm_poll_provider_def Let_def split: prod.splits sum.splits option.splits)

lemma pm_inv_fetch: "pm_inv url_ok m \<Longrightarrow> pm_inv url_ok (snd (pm_fetch_initial yaml url_ok answers idx m))"
proof (induction answers arbitrary: idx m)
  case (Cons ans answers)
  have "pm_inv url_ok (m\<lparr>pm_providers := ps\<rparr>)" for ps using Cons.prems by (simp add: pm_inv_def)
  then show ?case using Cons.IH by (auto simp: Let_def pm_inv_def split: prod.splits sum.splits option.splits)
qed simp

text \<open>The operations of the manager and of the watcher, in any order.\<close>

inductive pm_reach :: "(string \<Rightarrow> config option) \<Rightarrow> (config \<Rightarrow> string option) \<Rightarrow> (string \<Rightarrow> bool) \<Rightarrow> config_provider_config list \<Rightarrow> provider_manager \<Rightarrow> bool"
  for yaml print url_ok configs where
  pm_start: "pm_reach yaml print url_ok configs (pm_new configs)"
| pm_subscribe: "pm_reach yaml print url_ok configs m \<Longrightarrow> pm_reach yaml print url_ok configs (pm_set_on_change m)"
| pm_poll: "pm_reach yaml print url_ok configs m \<Longrightarrow> pm_reach yaml print url_ok configs (snd (pm_poll_provider yaml print url_ok ans idx m))"
| pm_initial: "pm_reach yaml print url_ok configs m \<Longrightarrow> pm_reach yaml print url_ok configs (snd (pm_fetch_initial yaml url_ok answers 0 m))"

text \<open>
  Whatever the file system and the providers deliver, only configurations that pass validation are
  handed to the server: by the watcher to its subscribers and by the providers to the callback.
\<close>

theorem only_valid_configs_applied:
  assumes "pm_reach yaml print url_ok configs m"
    and "c \<in> set (pm_called m) \<or> c \<in> set (wst_sent (watch_run load url_ok fname disk msgs (watch_start t)))"
  shows "config_validate url_ok c = Inr ()"
proof -
  from assms(1) have "pm_inv url_ok m"
    by induction (auto intro: pm_inv_init pm_inv_poll pm_inv_fetch)
  moreover have "list_all (\<lambda>c. config_validate url_ok c = Inr ()) (wst_sent (watch_run load url_ok fname disk msgs (watch_start t)))"
    by (rule watch_run_sent) (simp add: watch_start_def)
  ultimately show ?thesis using assms(2) by (auto simp: pm_inv_def list_all_iff)
qed

text \<open>A poll that brings the same text again calls nobody.\<close>

lemma same_text_no_callback:
  assumes "pm_current_config m = Some c" and "yaml content = Some c'" and "print c' = print c"
    and "pm_poll_provider yaml print url_ok (Answer 200 etag (Inr content)) idx m = (r, m')"
  shows "pm_called m' = pm_called m \<and> pm_current_config m' = Some c"
  using assms by (auto simp: pm_poll_provider_def hp_fetch_def Let_def split: if_splits sum.splits)

text \<open>The first provider that answers decides: if its text is not a valid configuration the others are not asked.\<close>

lemma first_answer_decides:
  assumes "pm_providers m \<noteq> []" and "yaml content = None"
  shows "fst (pm_fetch_initial yaml url_ok (Answer 200 etag (Inr content) # answers) 0 m) = Inl ConfigParse"
  using assms by (simp add: hp_fetch_def Let_def)

section \<open>Instance\<close>

definition bare_config :: config where
  "bare_config = \<lparr>cf_entry_points = [(''web'', \<lparr>ep_address = ''0.0.0.0:80''\<rparr>)], cf_http = None, cf_tcp = None, cf_udp = None\<rparr>"

definition one_provider :: "config_provider_config list" where
  "one_provider = [ProviderHttp \<lparr>hpc_endpoint = ''http://c'', hpc_poll_interval = 5, hpc_timeout = 5, hpc_headers = [], hpc_basic_auth = None\<rparr>]"

definition polled :: provider_manager where
  "polled = snd (pm_poll_provider (\<lambda>_. Some bare_config) (\<lambda>_. None) (\<lambda>_. True) (Answer 200 None (Inr ''text'')) 0 (pm_set_on_change (pm_new one_provider)))"

theorem only_valid_configs_applied_witness:
  "pm_called polled = [bare_config] \<and> config_validate (\<lambda>_. True) bare_config = Inr ()"
proof -
  have "config_validate (\<lambda>_. True) bare_config = Inr ()" by code_simp
  then have called: "pm_called polled = [bare_config]"
    by (simp add: polled_def pm_poll_provider_def pm_new_def one_provider_def pm_set_on_change_def hp_fetch_def Let_def)
  have "pm_reach (\<lambda>_. Some bare_config) (\<lambda>_. None) (\<lambda>_. True) one_provider polled"
    unfolding polled_def by (intro pm_poll pm_subscribe pm_start)
  from only_valid_configs_applied [OF this, of bare_config] called show ?thesis by simp
qed

end
