(* ===== verification/Der.thy ===== *)
theory Der
  imports Rust_Std
begin

text \<open>
  The certificate signing request of the ACME client (\<open>build_csr\<close> and its helpers in
  \<open>src/src/tls/acme/client.rs\<close>) and the PEM armour. Key and signature come from an external library:
  the public key is an argument, signing a parameter, and so is the Base64 text of \<open>pem_encode\<close>. A reader
  for the tag-length-value encoding is the reference: it finds the requested names again.
\<close>

section \<open>Encoding\<close>

definition byte :: "nat \<Rightarrow> char" where
  "byte n = char_of (n mod 256)"

definition encode_length :: "nat \<Rightarrow> string" where
  "encode_length len =
     (if len < 128 then [byte len]
      else if len < 256 then [byte 0x81, byte len]
      else [byte 0x82, byte (len div 256), byte len])"

definition wrap_sequence :: "string \<Rightarrow> string" where
  "wrap_sequence d = byte 0x30 # encode_length (length d) @ d"

definition wrap_set :: "string \<Rightarrow> string" where
  "wrap_set d = byte 0x31 # encode_length (length d) @ d"

definition wrap_bit_string :: "string \<Rightarrow> string" where
  "wrap_bit_string d = byte 0x03 # encode_length (length d + 1) @ byte 0 # d"

definition wrap_octet_string :: "string \<Rightarrow> string" where
  "wrap_octet_string d = byte 0x04 # encode_length (length d) @ d"

definition build_cn :: "string \<Rightarrow> string" where
  "build_cn cn =
     (let cn_value = byte 0x0c # encode_length (length cn) @ cn;
          atv = map byte [0x06, 0x03, 0x55, 0x04, 0x03] @ cn_value
      in wrap_sequence (wrap_set (wrap_sequence atv)))"

definition build_ec_spki :: "string \<Rightarrow> string" where
  "build_ec_spki public_key =
     wrap_sequence (map byte [0x30, 0x13, 0x06, 0x07, 0x2a, 0x86, 0x48, 0xce, 0x3d, 0x02, 0x01, 0x06, 0x08, 0x2a, 0x86,
        0x48, 0xce, 0x3d, 0x03, 0x01, 0x07] @ wrap_bit_string public_key)"

definition san_entry :: "string \<Rightarrow> string" where
  "san_entry domain = byte 0x82 # encode_length (length domain) @ domain"

definition build_san_attribute :: "string list \<Rightarrow> string" where
  "build_san_attribute domains =
     (let san_seq = wrap_sequence (concat (map san_entry domains));
          ext = map byte [0x06, 0x03, 0x55, 0x1d, 0x11] @ wrap_octet_string san_seq;
          exts_seq = wrap_sequence (wrap_sequence ext);
          attr = map byte [0x06, 0x09, 0x2a, 0x86, 0x48, 0x86, 0xf7, 0x0d, 0x01, 0x09, 0x0e] @ wrap_set exts_seq;
          attr_seq = wrap_sequence attr
      in byte 0xa0 # encode_length (length attr_seq) @ attr_seq)"

definition csr_info :: "string \<Rightarrow> string list \<Rightarrow> string \<Rightarrow> string" where
  "csr_info cn domains public_key =
     wrap_sequence (map byte [0x02, 0x01, 0x00] @ build_cn cn @ build_ec_spki public_key @ build_san_attribute domains)"

text \<open>\<open>Inl\<close> is the panic of \<open>domains[0]\<close> on an empty list; \<open>Inr None\<close> a signature that failed.\<close>

definition build_csr :: "(string \<Rightarrow> string option) \<Rightarrow> string \<Rightarrow> string list \<Rightarrow> panic + string option" where
  "build_csr sign public_key domains = (case domains of
       [] \<Rightarrow> Inl IndexOutOfBounds
     | cn # _ \<Rightarrow>
        (let info = csr_info cn domains public_key in
         Inr (case sign info of
            None \<Rightarrow> None
          | Some signature \<Rightarrow> Some (wrap_sequence (info @
              map byte [0x30, 0x0a, 0x06, 0x08, 0x2a, 0x86, 0x48, 0xce, 0x3d, 0x04, 0x03, 0x02] @ wrap_bit_string signature)))))"

section \<open>PEM\<close>

function chunks :: "nat \<Rightarrow> 'a list \<Rightarrow> 'a list list" where
  "chunks n xs = (if xs = [] \<or> n = 0 then [] else take n xs # chunks n (drop n xs))"
  by pat_completeness auto
termination chunks by (relation "measure (length \<circ> snd)") auto

declare chunks.simps [simp del]

definition pem_encode :: "(string \<Rightarrow> string) \<Rightarrow> string \<Rightarrow> string \<Rightarrow> string" where
  "pem_encode b64 label d =
     ''-----BEGIN '' @ label @ ''-----'' @ [byte 10] @
     concat (map (\<lambda>chunk. chunk @ [byte 10]) (chunks 64 (b64 d))) @
     ''-----END '' @ label @ ''-----'' @ [byte 10]"

lemma concat_chunks: "0 < n \<Longrightarrow> concat (chunks n xs) = xs"
proof (induction n xs rule: chunks.induct)
  case (1 n xs)
  then show ?case by (subst chunks.simps) auto
qed

lemma chunks_short: "c \<in> set (chunks n xs) \<Longrightarrow> c \<noteq> [] \<and> length c \<le> n"
proof (induction n xs rule: chunks.induct)
  case (1 n xs)
  show ?case
  proof (cases "xs = [] \<or> n = 0")
    case False
    then have "c = take n xs \<or> c \<in> set (chunks n (drop n xs))" using 1(2) by (subst (asm) chunks.simps) auto
    then show ?thesis using 1(1) [OF False] False by auto
  qed (use 1(2) in \<open>simp add: chunks.simps\<close>)
qed

section \<open>Reading\<close>

text \<open>The reference reader: one element is a tag, a length in one of the three forms, and its content.\<close>

definition read_length :: "string \<Rightarrow> (nat \<times> string) option" where
  "read_length s = (case s of
       [] \<Rightarrow> None
     | c # r \<Rightarrow>
         if of_char c < (128 :: nat) then Some (of_char c, r)
         else if of_char c = (0x81 :: nat) then (case r of a # r' \<Rightarrow> Some (of_char a, r') | [] \<Rightarrow> None)
         else if of_char c = (0x82 :: nat) then (case r of a # b # r' \<Rightarrow> Some (of_char a * 256 + of_char b, r') | _ \<Rightarrow> None)
         else None)"

definition read_tlv :: "string \<Rightarrow> (nat \<times> string \<times> string) option" where
  "read_tlv s = (case s of
       [] \<Rightarrow> None
     | tag # r \<Rightarrow> (case read_length r of
         Some (n, r') \<Rightarrow> if n \<le> length r' then Some (of_char tag, take n r', drop n r') else None
       | None \<Rightarrow> None))"

definition read_expect :: "nat \<Rightarrow> string \<Rightarrow> (string \<times> string) option" where
  "read_expect tag s = (case read_tlv s of Some (t, c, r) \<Rightarrow> if t = tag then Some (c, r) else None | None \<Rightarrow> None)"

fun read_names :: "nat \<Rightarrow> string \<Rightarrow> string list option" where
  "read_names 0 s = (if s = [] then Some [] else None)"
| "read_names (Suc fuel) s = (if s = [] then Some [] else
     case read_expect 0x82 s of Some (d, r) \<Rightarrow> map_option ((#) d) (read_names fuel r) | None \<Rightarrow> None)"

text \<open>
  The names of a request: version, subject and key are skipped; in the attributes the extension
  request holds one extension, the alternative names.
\<close>

definition attribute_names :: "string \<Rightarrow> string list option" where
  "attribute_names s =
     Option.bind (read_expect 0xa0 s) (\<lambda>(attrs, _).
     Option.bind (read_expect 0x30 attrs) (\<lambda>(attr, _).
     Option.bind (read_expect 0x06 attr) (\<lambda>(_, r4).
     Option.bind (read_expect 0x31 r4) (\<lambda>(exts_set, _).
     Option.bind (read_expect 0x30 exts_set) (\<lambda>(exts, _).
     Option.bind (read_expect 0x30 exts) (\<lambda>(ext, _).
     Option.bind (read_expect 0x06 ext) (\<lambda>(_, r5).
     Option.bind (read_expect 0x04 r5) (\<lambda>(octets, _).
     Option.bind (read_expect 0x30 octets) (\<lambda>(names, _).
     read_names (length names) names)))))))))"

definition csr_names :: "string \<Rightarrow> string list option" where
  "csr_names csr =
     Option.bind (read_expect 0x30 csr) (\<lambda>(body, _).
     Option.bind (read_expect 0x30 body) (\<lambda>(info, _).
     Option.bind (read_expect 0x02 info) (\<lambda>(_, r1).
     Option.bind (read_expect 0x30 r1) (\<lambda>(_, r2).
     Option.bind (read_expect 0x30 r2) (\<lambda>(_, r3).
     attribute_names r3)))))"

lemma of_char_byte [simp]: "(of_char (byte n) :: nat) = n mod 256"
  by (simp add: byte_def)

lemma read_length_encode:
  assumes "n < 65536"
  shows "read_length (encode_length n @ r) = Some (n, r)"
proof -
  have "n div 256 < 256" using assms by linarith
  then have "n div 256 mod 256 * 256 + n mod 256 = n" using div_mult_mod_eq [of n 256] by simp
  then show ?thesis by (simp add: encode_length_def read_length_def)
qed

lemma read_expect_encode:
  assumes "length d < 65536" and "t < 256"
  shows "read_expect t (byte t # encode_length (length d) @ d @ r) = Some (d, r)"
  using read_length_encode [OF assms(1), of "d @ r"] assms(2) by (simp add: read_expect_def read_tlv_def)

lemmas wrap_defs = wrap_sequence_def wrap_set_def wrap_octet_string_def wrap_bit_string_def

lemma read_wrap:
  assumes "length d < 65536"
  shows "read_expect 0x30 (wrap_sequence d @ r) = Some (d, r)" "read_expect 0x31 (wrap_set d @ r) = Some (d, r)"
    "read_expect 0x04 (wrap_octet_string d @ r) = Some (d, r)" "read_expect 0x82 (san_entry d @ r) = Some (d, r)"
    "read_expect 0x30 (wrap_sequence d) = Some (d, [])" "read_expect 0x31 (wrap_set d) = Some (d, [])"
    "read_expect 0x04 (wrap_octet_string d) = Some (d, [])"
  using assms read_expect_encode [where d = d and r = r] read_expect_encode [where d = d and r = "[]"]
  by (simp_all add: wrap_defs san_entry_def)

lemma length_encode_length [simp]: "encode_length n \<noteq> []"
  by (simp add: encode_length_def)

lemma wrap_longer:
  "length d < length (wrap_sequence d)" "length d < length (wrap_set d)" "length d < length (wrap_octet_string d)" "length d < length (san_entry d)"
  by (simp_all add: wrap_defs san_entry_def)

lemma read_names_entries:
  assumes "length (concat (map san_entry domains)) < 65536" and "length domains \<le> fuel"
  shows "read_names fuel (concat (map san_entry domains)) = Some domains"
  using assms
proof (induction domains arbitrary: fuel)
  case Nil
  then show ?case by (cases fuel) simp_all
next
  case (Cons d ds)
  then obtain f where f: "fuel = Suc f" by (cases fuel) auto
  have "length d < 65536" using Cons.prems(1) wrap_longer(4) [of d] by simp
  from read_wrap(4) [OF this] Cons f show ?case by (simp add: san_entry_def)
qed

lemma read_oid:
  "read_expect 0x02 (map byte [0x02, 0x01, 0x00] @ r) = Some (map byte [0x00], r)"
  "read_expect 0x06 (map byte [0x06, 0x03, 0x55, 0x1d, 0x11] @ r) = Some (map byte [0x55, 0x1d, 0x11], r)"
  "read_expect 0x06 (map byte [0x06, 0x09, 0x2a, 0x86, 0x48, 0x86, 0xf7, 0x0d, 0x01, 0x09, 0x0e] @ r) =
     Some (map byte [0x2a, 0x86, 0x48, 0x86, 0xf7, 0x0d, 0x01, 0x09, 0x0e], r)"
  by (simp_all add: read_expect_def read_tlv_def read_length_def)

lemma entries_count: "length ds \<le> length (concat (map san_entry ds))"
  by (induction ds) (simp_all add: san_entry_def)

lemma attribute_names_build:
  assumes "length (build_san_attribute ds) < 65536"
  shows "attribute_names (build_san_attribute ds) = Some ds"
proof -
  define names where "names = concat (map san_entry ds)"
  define octets where "octets = wrap_sequence names"
  define ext where "ext = map byte [0x06, 0x03, 0x55, 0x1d, 0x11] @ wrap_octet_string octets"
  define exts where "exts = wrap_sequence ext"
  define exts_seq where "exts_seq = wrap_sequence exts"
  define attr where "attr = map byte [0x06, 0x09, 0x2a, 0x86, 0x48, 0x86, 0xf7, 0x0d, 0x01, 0x09, 0x0e] @ wrap_set exts_seq"
  define attrs where "attrs = wrap_sequence attr"
  have eq: "build_san_attribute ds = byte 0xa0 # encode_length (length attrs) @ attrs"
    by (simp add: build_san_attribute_def Let_def attrs_def attr_def exts_seq_def exts_def ext_def octets_def names_def)
  have l7: "length attrs < 65536" using assms eq by simp
  have l6: "length attr < 65536" using l7 wrap_longer(1) [of attr] by (simp add: attrs_def)
  have l5: "length exts_seq < 65536" using l6 wrap_longer(2) [of exts_seq] by (simp add: attr_def)
  have l4: "length exts < 65536" using l5 wrap_longer(1) [of exts] by (simp add: exts_seq_def)
  have l3: "length ext < 65536" using l4 wrap_longer(1) [of ext] by (simp add: exts_def)
  have l2: "length octets < 65536" using l3 wrap_longer(3) [of octets] by (simp add: ext_def)
  have l1: "length names < 65536" using l2 wrap_longer(1) [of names] by (simp add: octets_def)
  have "read_expect 0xa0 (build_san_attribute ds) = Some (attrs, [])"
    using read_expect_encode [where d = attrs and t = "0xa0" and r = "[]"] l7 by (simp add: eq)
  moreover have "read_expect 0x30 attrs = Some (attr, [])" unfolding attrs_def by (rule read_wrap(5) [OF l6])
  moreover have "read_expect 0x06 attr = Some (map byte [0x2a, 0x86, 0x48, 0x86, 0xf7, 0x0d, 0x01, 0x09, 0x0e], wrap_set exts_seq)"
    unfolding attr_def by (rule read_oid)
  moreover have "read_expect 0x31 (wrap_set exts_seq) = Some (exts_seq, [])" by (rule read_wrap(6) [OF l5])
  moreover have "read_expect 0x30 exts_seq = Some (exts, [])" unfolding exts_seq_def by (rule read_wrap(5) [OF l4])
  moreover have "read_expect 0x30 exts = Some (ext, [])" unfolding exts_def by (rule read_wrap(5) [OF l3])
  moreover have "read_expect 0x06 ext = Some (map byte [0x55, 0x1d, 0x11], wrap_octet_string octets)"
    unfolding ext_def by (rule read_oid)
  moreover have "read_expect 0x04 (wrap_octet_string octets) = Some (octets, [])" by (rule read_wrap(7) [OF l2])
  moreover have "read_expect 0x30 octets = Some (names, [])" unfolding octets_def by (rule read_wrap(5) [OF l1])
  moreover have "read_names (length names) names = Some ds"
    unfolding names_def by (rule read_names_entries) (use l1 entries_count in \<open>simp_all add: names_def\<close>)
  ultimately show ?thesis by (simp add: attribute_names_def)
qed

text \<open>
  C30. A signing request reads back to the names it was made for, in their order, whenever it is built at
  all and fits in 64 KiB, the largest length the encoder can write.
\<close>

theorem csr_names_build:
  assumes "build_csr sign public_key domains = Inr (Some csr)" and "length csr < 65536"
  shows "csr_names csr = Some domains"
proof -
  obtain cn ds where d: "domains = cn # ds" using assms(1) by (cases domains) (simp_all add: build_csr_def)
  define body where "body = map byte [0x02, 0x01, 0x00] @ build_cn cn @ build_ec_spki public_key @ build_san_attribute domains"
  obtain rest where csr: "csr = wrap_sequence (wrap_sequence body @ rest)"
    using assms(1) by (auto simp: build_csr_def d Let_def csr_info_def body_def split: option.splits)
  obtain cn_body where cn: "build_cn cn = wrap_sequence cn_body" by (simp add: build_cn_def Let_def)
  obtain key_body where key: "build_ec_spki public_key = wrap_sequence key_body" by (simp add: build_ec_spki_def)
  have l1: "length (wrap_sequence body @ rest) < 65536"
    using assms(2) wrap_longer(1) [of "wrap_sequence body @ rest"] by (simp add: csr)
  have l2: "length body < 65536" using l1 wrap_longer(1) [of body] by simp
  have l3: "length cn_body < 65536" "length key_body < 65536" "length (build_san_attribute domains) < 65536"
    using l2 wrap_longer(1) [of cn_body] wrap_longer(1) [of key_body] by (simp_all add: body_def cn key)
  have "read_expect 0x02 body = Some (map byte [0x00], build_cn cn @ build_ec_spki public_key @ build_san_attribute domains)"
    unfolding body_def by (rule read_oid)
  then show ?thesis
    using read_wrap(5) [OF l1] read_wrap(1) [OF l2, of rest] read_wrap(1) [OF l3(1)] read_wrap(1) [OF l3(2)] attribute_names_build [OF l3(3)]
    by (simp add: csr_names_def csr cn key)
qed

definition demo_names :: "string list" where
  "demo_names = [''shop.org'', ''www.shop.org'']"

theorem csr_names_build_witness:
  "\<exists>csr. build_csr (\<lambda>_. Some ''sig'') ''key'' demo_names = Inr (Some csr) \<and> csr_names csr = Some demo_names"
proof -
  obtain csr where csr: "build_csr (\<lambda>_. Some ''sig'') ''key'' demo_names = Inr (Some csr)" "length csr < 65536"
    by (simp add: build_csr_def demo_names_def csr_info_def build_cn_def build_ec_spki_def build_san_attribute_def san_entry_def wrap_defs
        encode_length_def Let_def)
  from csr_names_build [OF csr] csr(1) show ?thesis by blast
qed

end
