(* ===== verification/Acme_Storage.thy ===== *)
theory Acme_Storage
  imports Dict Text_Codec "HOL-Library.Word"
begin

text \<open>
  The stored ACME account and certificates (\<open>src/src/tls/acme/storage.rs\<close>) and the certificate chosen
  for a server name (\<open>src/src/tls/resolver.rs\<close>). The file system is a table of file contents and every
  save has an outcome; the JSON codec and the PEM, key and X.509 libraries are parameters. The storage
  manager is shared between the client and the resolver: the resolver's operations take its current
  value.
\<close>

section \<open>Storage\<close>

record stored_certificate =
  sc_domain :: string
  sc_domains :: "string list"
  sc_certificate_pem :: string
  sc_private_key_pem :: string
  sc_not_after :: "64 word"
  sc_not_before :: "64 word"

record acme_account =
  aa_url :: string
  aa_private_key_pem :: string
  aa_email :: string

record acme_storage =
  as_account :: "acme_account option"
  as_certificates :: "(string \<times> stored_certificate) list"

definition acme_storage_default :: acme_storage where
  "acme_storage_default = \<lparr> as_account = None, as_certificates = [] \<rparr>"

definition needs_renewal :: "64 word \<Rightarrow> stored_certificate \<Rightarrow> bool" where
  "needs_renewal now c =
     (let thirty_days = 30 * 24 * 60 * 60
      in (if sc_not_after c < thirty_days then 0 else sc_not_after c - thirty_days) < now)"

definition sc_is_expired :: "64 word \<Rightarrow> stored_certificate \<Rightarrow> bool" where
  "sc_is_expired now c \<longleftrightarrow> sc_not_after c < now"

record storage_codec =
  stc_to :: "acme_storage \<Rightarrow> string"
  stc_from :: "string \<Rightarrow> acme_storage option"

text \<open>What serialising the storage and reading it back gives.\<close>

definition codec_laws :: "storage_codec \<Rightarrow> bool" where
  "codec_laws J \<longleftrightarrow> (\<forall>x. stc_from J (stc_to J x) = Some x)"

record storage_manager =
  stm_path :: string
  stm_data :: acme_storage

type_synonym disk = "(string \<times> string) list"

datatype storage_error = OpenFailed | ParseFailed | DirFailed | CreateFailed | WriteFailed | RenameFailed

definition stm_new :: "storage_codec \<Rightarrow> bool \<Rightarrow> string \<Rightarrow> disk \<Rightarrow> storage_error + storage_manager" where
  "stm_new J opens path d = (case dict_get d path of
       Some text \<Rightarrow>
         if \<not> opens then Inl OpenFailed
         else (case stc_from J text of
             Some x \<Rightarrow> Inr \<lparr> stm_path = path, stm_data = x \<rparr>
           | None \<Rightarrow> Inl ParseFailed)
     | None \<Rightarrow> Inr \<lparr> stm_path = path, stm_data = acme_storage_default \<rparr>)"

text \<open>
  How one save goes. \<open>FlushLost\<close>: the buffered writer is dropped, not flushed, so an error in writing
  its last buffer is not seen and the file holds what was written before.
\<close>

datatype save_fate = Saved | DirFate | CreateFate | WriteFate string | FlushLost string | RenameFate

definition temp_path :: "storage_manager \<Rightarrow> string" where
  "temp_path m = stm_path m @ ''.tmp''"

definition stm_save :: "storage_codec \<Rightarrow> save_fate \<Rightarrow> storage_manager \<Rightarrow> disk \<Rightarrow> (storage_error + unit) \<times> disk" where
  "stm_save J f m d =
     (let full = stc_to J (stm_data m);
          renamed = (\<lambda>text. dict_remove (temp_path m) (dict_insert (stm_path m) text d))
      in case f of
        DirFate \<Rightarrow> (Inl DirFailed, d)
      | CreateFate \<Rightarrow> (Inl CreateFailed, d)
      | WriteFate part \<Rightarrow> (Inl WriteFailed, dict_insert (temp_path m) part d)
      | RenameFate \<Rightarrow> (Inl RenameFailed, dict_insert (temp_path m) full d)
      | FlushLost part \<Rightarrow> (Inr (), renamed part)
      | Saved \<Rightarrow> (Inr (), renamed full))"

definition stm_get_account :: "storage_manager \<Rightarrow> acme_account option" where
  "stm_get_account m = as_account (stm_data m)"

definition stm_set_account ::
  "storage_codec \<Rightarrow> save_fate \<Rightarrow> acme_account \<Rightarrow> storage_manager \<times> disk \<Rightarrow> (storage_error + unit) \<times> storage_manager \<times> disk" where
  "stm_set_account J f a md =
     (let m = (fst md)\<lparr> stm_data := (stm_data (fst md))\<lparr> as_account := Some a \<rparr> \<rparr>;
          (r, d) = stm_save J f m (snd md)
      in (r, m, d))"

definition stm_store_certificate ::
  "storage_codec \<Rightarrow> save_fate \<Rightarrow> stored_certificate \<Rightarrow> storage_manager \<times> disk \<Rightarrow> (storage_error + unit) \<times> storage_manager \<times> disk" where
  "stm_store_certificate J f c md =
     (let m = (fst md)\<lparr> stm_data := (stm_data (fst md))\<lparr>
                as_certificates := dict_insert (sc_domain c) c (as_certificates (stm_data (fst md))) \<rparr> \<rparr>;
          (r, d) = stm_save J f m (snd md)
      in (r, m, d))"

definition stm_remove_certificate ::
  "storage_codec \<Rightarrow> save_fate \<Rightarrow> string \<Rightarrow> storage_manager \<times> disk \<Rightarrow> (storage_error + unit) \<times> storage_manager \<times> disk" where
  "stm_remove_certificate J f domain md =
     (let m = (fst md)\<lparr> stm_data := (stm_data (fst md))\<lparr>
                as_certificates := dict_remove domain (as_certificates (stm_data (fst md))) \<rparr> \<rparr>;
          (r, d) = stm_save J f m (snd md)
      in (r, m, d))"

definition stm_values :: "storage_manager \<Rightarrow> stored_certificate list" where
  "stm_values m = map snd (as_certificates (stm_data m))"

definition get_certificates_needing_renewal :: "64 word \<Rightarrow> storage_manager \<Rightarrow> stored_certificate list" where
  "get_certificates_needing_renewal now m = filter (needs_renewal now) (stm_values m)"

definition get_all_certificates :: "64 word \<Rightarrow> storage_manager \<Rightarrow> stored_certificate list" where
  "get_all_certificates now m = filter (\<lambda>c. \<not> sc_is_expired now c) (stm_values m)"

text \<open>
  The wildcard test of \<open>get_certificate\<close>. The second slice ends one byte before the base: when the
  name is the base itself the subtraction underflows and the call panics. Names are ASCII.
\<close>

definition stored_wildcard :: "string \<Rightarrow> string \<Rightarrow> panic + bool" where
  "stored_wildcard domain cert_domain = (case strip_prefix ''*.'' cert_domain of
       None \<Rightarrow> Inr False
     | Some base \<Rightarrow>
         if ends_with base domain \<and> CHR ''.'' \<notin> set (take (length domain - length base) domain)
         then if length domain = length base then Inl ArithmeticOverflow
              else Inr (CHR ''.'' \<notin> set (take (length domain - length base - 1) domain))
         else Inr False)"

fun scan_names :: "string \<Rightarrow> string list \<Rightarrow> panic + bool" where
  "scan_names domain [] = Inr False"
| "scan_names domain (n # ns) = (case stored_wildcard domain n of
       Inl p \<Rightarrow> Inl p
     | Inr True \<Rightarrow> Inr True
     | Inr False \<Rightarrow> scan_names domain ns)"

fun scan_certs :: "string \<Rightarrow> stored_certificate list \<Rightarrow> panic + stored_certificate option" where
  "scan_certs domain [] = Inr None"
| "scan_certs domain (c # cs) =
     (if domain \<in> set (sc_domains c) then Inr (Some c)
      else case scan_names domain (sc_domains c) of
        Inl p \<Rightarrow> Inl p
      | Inr True \<Rightarrow> Inr (Some c)
      | Inr False \<Rightarrow> scan_certs domain cs)"

definition stm_get_certificate :: "storage_manager \<Rightarrow> string \<Rightarrow> panic + stored_certificate option" where
  "stm_get_certificate m domain = (case dict_get (as_certificates (stm_data m)) domain of
       Some c \<Rightarrow> Inr (Some c)
     | None \<Rightarrow> scan_certs domain (stm_values m))"

section \<open>Resolver\<close>

record ('c, 'p, 's) tls_lib =
  lib_certs :: "string \<Rightarrow> 'c list option"
  lib_private_key :: "string \<Rightarrow> 'p option option"
  lib_signing_key :: "'p \<Rightarrow> 's option"
  lib_names :: "'c \<Rightarrow> (string list \<times> string list) option"

record ('c, 's) certified_key =
  ck_cert :: "'c list"
  ck_key :: 's

record ('c, 's) cert_resolver =
  cr_static_certs :: "(string \<times> ('c, 's) certified_key) list"
  cr_has_acme :: bool
  cr_acme_cache :: "(string \<times> ('c, 's) certified_key) list"
  cr_default_cert :: "('c, 's) certified_key option"

definition cr_new :: "('c, 's) cert_resolver" where
  "cr_new = \<lparr> cr_static_certs = [], cr_has_acme = False, cr_acme_cache = [], cr_default_cert = None \<rparr>"

definition cr_add_certificate :: "string list \<Rightarrow> ('c, 's) certified_key \<Rightarrow> ('c, 's) cert_resolver \<Rightarrow> ('c, 's) cert_resolver" where
  "cr_add_certificate domains cert r =
     (let r1 = r\<lparr> cr_static_certs := fold (\<lambda>d. dict_insert d cert) domains (cr_static_certs r) \<rparr>
      in if cr_default_cert r1 = None \<and> domains \<noteq> [] then r1\<lparr> cr_default_cert := Some cert \<rparr> else r1)"

definition certified_key_of ::
  "('c, 'p, 's) tls_lib \<Rightarrow> string \<Rightarrow> string \<Rightarrow> ('c, 's) certified_key option" where
  "certified_key_of L cert_pem key_pem =
     (case lib_certs L cert_pem of
        None \<Rightarrow> None
      | Some certs \<Rightarrow> (case lib_private_key L key_pem of
          Some (Some key) \<Rightarrow> map_option (\<lambda>s. \<lparr> ck_cert = certs, ck_key = s \<rparr>) (lib_signing_key L key)
        | _ \<Rightarrow> None))"

definition load_certificate_files ::
  "('c, 'p, 's) tls_lib \<Rightarrow> (string \<Rightarrow> string option) \<Rightarrow> string \<Rightarrow> string \<Rightarrow> ('c, 's) certified_key option" where
  "load_certificate_files L open_file cert_path key_path =
     (case open_file cert_path of
        None \<Rightarrow> None
      | Some cert_pem \<Rightarrow> (case lib_certs L cert_pem of
          None \<Rightarrow> None
        | Some _ \<Rightarrow> Option.bind (open_file key_path) (certified_key_of L cert_pem)))"

definition load_stored_certificate :: "('c, 'p, 's) tls_lib \<Rightarrow> stored_certificate \<Rightarrow> ('c, 's) certified_key option" where
  "load_stored_certificate L c = certified_key_of L (sc_certificate_pem c) (sc_private_key_pem c)"

definition push_name :: "string \<Rightarrow> string list \<Rightarrow> string list" where
  "push_name s domains = (if s \<noteq> [] \<and> s \<notin> set domains then domains @ [s] else domains)"

definition extract_cert_domains :: "('c, 'p, 's) tls_lib \<Rightarrow> 'c \<Rightarrow> string list option" where
  "extract_cert_domains L cert = (case lib_names L cert of
       None \<Rightarrow> None
     | Some (common_names, dns_names) \<Rightarrow> Some (fold push_name dns_names (fold push_name common_names [])))"

text \<open>\<open>from_static_certs\<close> reads the names of \<open>key.cert[0]\<close>, which panics when the file holds no certificate.\<close>

fun static_certs_loop ::
  "('c, 'p, 's) tls_lib \<Rightarrow> (string \<Rightarrow> string option) \<Rightarrow> (string \<times> string) list \<Rightarrow> ('c, 's) cert_resolver \<Rightarrow>
   panic + ('c, 's) cert_resolver option" where
  "static_certs_loop L open_file [] r = Inr (Some r)"
| "static_certs_loop L open_file ((cert_file, key_file) # tcs) r =
     (case load_certificate_files L open_file cert_file key_file of
        None \<Rightarrow> Inr None
      | Some key \<Rightarrow> (case ck_cert key of
          [] \<Rightarrow> Inl IndexOutOfBounds
        | cert # _ \<Rightarrow> (case extract_cert_domains L cert of
            None \<Rightarrow> Inr None
          | Some domains \<Rightarrow>
              if domains = [] then static_certs_loop L open_file tcs r
              else static_certs_loop L open_file tcs (cr_add_certificate domains key r))))"

definition from_static_certs ::
  "('c, 'p, 's) tls_lib \<Rightarrow> (string \<Rightarrow> string option) \<Rightarrow> (string \<times> string) list \<Rightarrow> panic + ('c, 's) cert_resolver option" where
  "from_static_certs L open_file certs = static_certs_loop L open_file certs cr_new"

type_synonym ('c, 's) key_table = "(string \<times> ('c, 's) certified_key) list"

definition cache_names :: "string list \<Rightarrow> ('c, 's) certified_key \<Rightarrow> ('c, 's) key_table \<Rightarrow> ('c, 's) key_table" where
  "cache_names names key cache = fold (\<lambda>d. dict_insert d key) names cache"

definition cache_stored :: "('c, 'p, 's) tls_lib \<Rightarrow> stored_certificate \<Rightarrow> ('c, 's) key_table \<Rightarrow> ('c, 's) key_table" where
  "cache_stored L c cache = (case load_stored_certificate L c of
       Some key \<Rightarrow> cache_names (sc_domains c) key cache
     | None \<Rightarrow> cache)"

definition set_acme_storage ::
  "('c, 'p, 's) tls_lib \<Rightarrow> 64 word \<Rightarrow> storage_manager \<Rightarrow> ('c, 's) cert_resolver \<Rightarrow> ('c, 's) cert_resolver" where
  "set_acme_storage L now m r =
     r\<lparr> cr_acme_cache := fold (cache_stored L) (get_all_certificates now m) (cr_acme_cache r), cr_has_acme := True \<rparr>"

definition cr_set_default :: "('c, 's) certified_key \<Rightarrow> ('c, 's) cert_resolver \<Rightarrow> ('c, 's) cert_resolver" where
  "cr_set_default cert r = r\<lparr> cr_default_cert := Some cert \<rparr>"

definition refresh_acme_cache ::
  "('c, 'p, 's) tls_lib \<Rightarrow> 64 word \<Rightarrow> storage_manager \<Rightarrow> ('c, 's) cert_resolver \<Rightarrow> ('c, 's) cert_resolver" where
  "refresh_acme_cache L now m r =
     (if cr_has_acme r then r\<lparr> cr_acme_cache := fold (cache_stored L) (get_all_certificates now m) [] \<rparr> else r)"

definition find_wildcard_match :: "string \<Rightarrow> ('c, 's) key_table \<Rightarrow> ('c, 's) certified_key option" where
  "find_wildcard_match domain certs = (case find_str ''.'' domain of
       Some dot_pos \<Rightarrow> dict_get certs (CHR ''*'' # drop dot_pos domain)
     | None \<Rightarrow> None)"

definition stale_lookup ::
  "('c, 'p, 's) tls_lib \<Rightarrow> 64 word \<Rightarrow> storage_manager \<Rightarrow> string \<Rightarrow> ('c, 's) cert_resolver \<Rightarrow>
   panic + (('c, 's) certified_key \<times> ('c, 's) cert_resolver) option" where
  "stale_lookup L now m domain r =
     (if \<not> cr_has_acme r then Inr None
      else case stm_get_certificate m domain of
        Inl p \<Rightarrow> Inl p
      | Inr None \<Rightarrow> Inr None
      | Inr (Some stored) \<Rightarrow>
          if sc_is_expired now stored then Inr None
          else Inr (map_option (\<lambda>cert. (cert, r\<lparr> cr_acme_cache := cache_names (sc_domains stored) cert (cr_acme_cache r) \<rparr>))
                 (load_stored_certificate L stored)))"

definition find_cert ::
  "('c, 'p, 's) tls_lib \<Rightarrow> 64 word \<Rightarrow> storage_manager \<Rightarrow> string \<Rightarrow> ('c, 's) cert_resolver \<Rightarrow>
   (panic + ('c, 's) certified_key option) \<times> ('c, 's) cert_resolver" where
  "find_cert L now m domain r = (case dict_get (cr_static_certs r) domain of
       Some cert \<Rightarrow> (Inr (Some cert), r)
     | None \<Rightarrow> (case find_wildcard_match domain (cr_static_certs r) of
       Some cert \<Rightarrow> (Inr (Some cert), r)
     | None \<Rightarrow> (case dict_get (cr_acme_cache r) domain of
       Some cert \<Rightarrow> (Inr (Some cert), r)
     | None \<Rightarrow> (case find_wildcard_match domain (cr_acme_cache r) of
       Some cert \<Rightarrow> (Inr (Some cert), r)
     | None \<Rightarrow> (case stale_lookup L now m domain r of
         Inl p \<Rightarrow> (Inl p, r)
       | Inr (Some (cert, r')) \<Rightarrow> (Inr (Some cert), r')
       | Inr None \<Rightarrow> (Inr (cr_default_cert r), r))))))"

definition cr_resolve ::
  "('c, 'p, 's) tls_lib \<Rightarrow> 64 word \<Rightarrow> storage_manager \<Rightarrow> string option \<Rightarrow> ('c, 's) cert_resolver \<Rightarrow>
   (panic + ('c, 's) certified_key option) \<times> ('c, 's) cert_resolver" where
  "cr_resolve L now m sni r = (case sni of
       None \<Rightarrow> (Inr None, r)
     | Some domain \<Rightarrow> find_cert L now m domain r)"

section \<open>Persistence\<close>

lemma temp_path_ne [simp]: "temp_path m \<noteq> stm_path m" "stm_path m \<noteq> temp_path m"
  by (simp_all add: temp_path_def)

lemma save_reply:
  assumes "stm_save J f m d = (r, d')" and "\<And>part. f \<noteq> FlushLost part"
  shows "r = Inr () \<Longrightarrow> dict_get d' (stm_path m) = Some (stc_to J (stm_data m))"
    and "r = Inl e \<Longrightarrow> dict_get d' (stm_path m) = dict_get d (stm_path m)"
  using assms by (cases f; auto simp: stm_save_def Let_def dict_simps)+


text \<open>A lost flush is reported as success although the file cannot be read any more.\<close>

theorem lost_flush_unnoticed:
  assumes "stc_from J part = None"
  obtains d' where "stm_save J (FlushLost part) m d = (Inr (), d')" and "stm_new J True (stm_path m) d' = Inl ParseFailed"
  using assms by (simp add: stm_save_def Let_def stm_new_def dict_simps)

section \<open>Names\<close>

lemma stored_wildcard_base:
  "stored_wildcard domain (''*.'' @ base) =
     (if ends_with base domain \<and> CHR ''.'' \<notin> set (take (length domain - length base) domain)
      then if length domain = length base then Inl ArithmeticOverflow else Inr True else Inr False)"
proof -
  have "set (take (length domain - length base - 1) domain) \<subseteq> set (take (length domain - length base) domain)"
    by (rule set_take_subset_set_take) simp
  then show ?thesis by (auto simp: stored_wildcard_def)
qed

text \<open>
  With a single stored wildcard certificate \<open>*.base\<close>: no name below the base finds it, a name that only
  ends with the base's characters does, and looking up the base itself panics.
\<close>

theorem stored_wildcard_lookup:
  assumes "stm_values m = [c]" and "as_certificates (stm_data m) = [(''*.'' @ base, c)]" and "sc_domains c = [''*.'' @ base]"
    and "label \<noteq> []" and "CHR ''.'' \<notin> set label" and "CHR ''*'' \<notin> set label" and "CHR ''*'' \<notin> set base"
  shows "stm_get_certificate m (label @ ''.'' @ base) = Inr None"
    and "stm_get_certificate m (label @ base) = Inr (Some c)"
    and "stm_get_certificate m base = Inl ArithmeticOverflow"
proof -
  have ne: "label @ ''.'' @ base \<noteq> ''*.'' @ base" "label @ base \<noteq> ''*.'' @ base" "base \<noteq> ''*.'' @ base"
    using assms(4,6) by (cases label; auto)+
  have look: "stm_get_certificate m n = (case stored_wildcard n (''*.'' @ base) of
      Inl p \<Rightarrow> Inl p | Inr True \<Rightarrow> Inr (Some c) | Inr False \<Rightarrow> Inr None)" if "n \<noteq> ''*.'' @ base" for n
    using that assms(1-3) by (auto simp: stm_get_certificate_def dict_get_Cons split: sum.split bool.split)
  show "stm_get_certificate m (label @ ''.'' @ base) = Inr None"
    unfolding look [OF ne(1)] stored_wildcard_base by simp
  show "stm_get_certificate m (label @ base) = Inr (Some c)"
    unfolding look [OF ne(2)] stored_wildcard_base using assms(4,5) by (simp add: ends_with_iff)
  show "stm_get_certificate m base = Inl ArithmeticOverflow"
    unfolding look [OF ne(3)] stored_wildcard_base by (simp add: ends_with_iff)
qed

text \<open>Without wildcard names the lookup is by listed name and cannot panic.\<close>

definition no_wildcards :: "storage_manager \<Rightarrow> bool" where
  "no_wildcards m \<longleftrightarrow> (\<forall>c \<in> set (stm_values m). \<forall>n \<in> set (sc_domains c). \<not> starts_with ''*.'' n)"

lemma stored_wildcard_plain: "\<not> starts_with ''*.'' n \<Longrightarrow> stored_wildcard d n = Inr False"
  unfolding starts_with_def stored_wildcard_def not_not by (simp only: option.case)

lemma scan_names_plain: "\<forall>n \<in> set ns. \<not> starts_with ''*.'' n \<Longrightarrow> scan_names d ns = Inr False"
  by (induction ns) (simp_all add: stored_wildcard_plain)

lemma scan_certs_plain:
  assumes "\<forall>c \<in> set cs. \<forall>n \<in> set (sc_domains c). \<not> starts_with ''*.'' n"
  shows "scan_certs d cs = Inr (find (\<lambda>c. d \<in> set (sc_domains c)) cs)"
  using assms by (induction cs) (auto simp: scan_names_plain)

lemma get_certificate_plain:
  assumes "no_wildcards m" and "\<forall>(k, c) \<in> set (as_certificates (stm_data m)). k \<in> set (sc_domains c)"
  obtains co where "stm_get_certificate m d = Inr co"
    and "\<And>c. co = Some c \<Longrightarrow> c \<in> set (stm_values m) \<and> d \<in> set (sc_domains c)"
proof (cases "dict_get (as_certificates (stm_data m)) d")
  case None
  then have "stm_get_certificate m d = Inr (find (\<lambda>c. d \<in> set (sc_domains c)) (stm_values m))"
    using scan_certs_plain assms(1) by (simp add: stm_get_certificate_def no_wildcards_def)
  then show ?thesis by (rule that) (auto simp: find_Some_iff)
next
  case (Some c)
  then have "(d, c) \<in> set (as_certificates (stm_data m))" by (simp add: dict_get_def map_of_SomeD)
  then show ?thesis using that [of "Some c"] Some assms(2) by (force simp: stm_get_certificate_def stm_values_def)
qed

section \<open>Served certificates\<close>

text \<open>The wildcard name that stands for a name: its first label replaced.\<close>

definition wildcard_name :: "string \<Rightarrow> string option" where
  "wildcard_name domain = map_option (\<lambda>i. CHR ''*'' # drop i domain) (find_str ''.'' domain)"

definition covers :: "string list \<Rightarrow> string \<Rightarrow> bool" where
  "covers names domain \<longleftrightarrow> domain \<in> set names \<or> (\<exists>w. wildcard_name domain = Some w \<and> w \<in> set names)"

definition key_for :: "('c, 'p, 's) tls_lib \<Rightarrow> stored_certificate set \<Rightarrow> string \<Rightarrow> ('c, 's) certified_key \<Rightarrow> bool" where
  "key_for L G n k \<longleftrightarrow> (\<exists>c \<in> G. n \<in> set (sc_domains c) \<and> load_stored_certificate L c = Some k)"

text \<open>Every cached key was loaded from a certificate of \<open>G\<close> that lists the name it is cached under.\<close>

definition cache_ok :: "('c, 'p, 's) tls_lib \<Rightarrow> stored_certificate set \<Rightarrow> ('c, 's) key_table \<Rightarrow> bool" where
  "cache_ok L G t \<longleftrightarrow> (\<forall>n k. dict_get t n = Some k \<longrightarrow> key_for L G n k)"

lemma find_wildcard_match_eq: "find_wildcard_match d t = Option.bind (wildcard_name d) (dict_get t)"
  by (simp add: find_wildcard_match_def wildcard_name_def split: option.splits)

lemma find_wildcard_match_Nil [simp]: "find_wildcard_match n [] = None"
  by (simp add: find_wildcard_match_def split: option.split)

lemma cache_names_get: "dict_get (cache_names ns k t) n = (if n \<in> set ns then Some k else dict_get t n)"
  unfolding cache_names_def by (induction ns arbitrary: t) (auto simp: dict_simps)

lemma cache_names_ok:
  assumes "cache_ok L G t" and "c \<in> G" and "load_stored_certificate L c = Some k"
  shows "cache_ok L G (cache_names (sc_domains c) k t)"
  using assms unfolding cache_ok_def key_for_def by (auto simp: cache_names_get)

lemma cache_stored_ok: "cache_ok L G t \<Longrightarrow> c \<in> G \<Longrightarrow> cache_ok L G (cache_stored L c t)"
  by (simp add: cache_stored_def cache_names_ok split: option.split)

lemma cache_all_ok: "cache_ok L G t \<Longrightarrow> set cs \<subseteq> G \<Longrightarrow> cache_ok L G (fold (cache_stored L) cs t)"
  by (induction cs arbitrary: t) (simp_all add: cache_stored_ok)

lemma cache_ok_Nil [simp]: "cache_ok L G []"
  by (simp add: cache_ok_def)

lemma get_all_subset: "set (get_all_certificates now m) \<subseteq> set (stm_values m)"
  by (auto simp: get_all_certificates_def)

lemma resolver_cache_ok:
  assumes "cache_ok L G (cr_acme_cache r)" and "set (stm_values m) \<subseteq> G"
  shows "cache_ok L G (cr_acme_cache (set_acme_storage L now m r))" "cache_ok L G (cr_acme_cache (refresh_acme_cache L now m r))"
    "cache_ok L G (cr_acme_cache (cr_add_certificate domains k r))" "cache_ok L G (cr_acme_cache (cr_set_default k r))"
  using assms cache_all_ok [where L = L, OF _ order_trans [OF get_all_subset assms(2)]]
  by (simp_all add: set_acme_storage_def refresh_acme_cache_def cr_add_certificate_def cr_set_default_def Let_def)

lemma cached_covers:
  assumes "cache_ok L G t"
  shows "dict_get t d = Some k \<Longrightarrow> \<exists>c \<in> G. covers (sc_domains c) d \<and> load_stored_certificate L c = Some k"
    and "find_wildcard_match d t = Some k \<Longrightarrow> \<exists>c \<in> G. covers (sc_domains c) d \<and> load_stored_certificate L c = Some k"
  using assms unfolding cache_ok_def key_for_def covers_def find_wildcard_match_eq bind_eq_Some_conv by blast+

lemma stale_lookup_plain:
  assumes "no_wildcards m" and "\<forall>(k, c) \<in> set (as_certificates (stm_data m)). k \<in> set (sc_domains c)"
    and "set (stm_values m) \<subseteq> G" and "cache_ok L G (cr_acme_cache r)"
  obtains x where "stale_lookup L now m d r = Inr x"
    and "\<And>k r'. x = Some (k, r') \<Longrightarrow> cache_ok L G (cr_acme_cache r') \<and>
           (\<exists>c \<in> G. covers (sc_domains c) d \<and> load_stored_certificate L c = Some k)"
proof -
  obtain co where co: "stm_get_certificate m d = Inr co"
      "\<And>c. co = Some c \<Longrightarrow> c \<in> set (stm_values m) \<and> d \<in> set (sc_domains c)"
    by (rule get_certificate_plain [OF assms(1,2), of d]) blast
  show ?thesis
  proof (cases co)
    case None
    then show ?thesis using that [of None] co(1) by (simp add: stale_lookup_def)
  next
    case (Some c)
    then have c: "c \<in> G" "d \<in> set (sc_domains c)" using co(2) assms(3) by auto
    show ?thesis
    proof (cases "cr_has_acme r \<and> \<not> sc_is_expired now c")
      case False
      then show ?thesis using that [of None] co(1) Some by (simp add: stale_lookup_def)
    next
      case True
      show ?thesis
        by (rule that) (use True co(1) Some c cache_names_ok [OF assms(4) c(1)] in
          \<open>auto simp: stale_lookup_def covers_def intro!: bexI [of _ c]\<close>)
    qed
  qed
qed

text \<open>
  C29. When no stored certificate has a wildcard name, the choice of a certificate never panics and the
  certificate presented for a name is one of the configured ones for it, the default, or one loaded
  from a stored certificate that covers the name.
\<close>

theorem served_certificate_covers:
  assumes "no_wildcards m" and "\<forall>(k, c) \<in> set (as_certificates (stm_data m)). k \<in> set (sc_domains c)"
    and "set (stm_values m) \<subseteq> G" and "cache_ok L G (cr_acme_cache r)"
    and "find_cert L now m d r = (res, r')"
  shows "cache_ok L G (cr_acme_cache r') \<and>
    (case res of
       Inl _ \<Rightarrow> False
     | Inr None \<Rightarrow> cr_default_cert r = None
     | Inr (Some k) \<Rightarrow> dict_get (cr_static_certs r) d = Some k \<or> find_wildcard_match d (cr_static_certs r) = Some k \<or>
         cr_default_cert r = Some k \<or> (\<exists>c \<in> G. covers (sc_domains c) d \<and> load_stored_certificate L c = Some k))"
proof -
  obtain x where x: "stale_lookup L now m d r = Inr x" "\<And>k r'. x = Some (k, r') \<Longrightarrow> cache_ok L G (cr_acme_cache r') \<and>
      (\<exists>c \<in> G. covers (sc_domains c) d \<and> load_stored_certificate L c = Some k)"
    by (rule stale_lookup_plain [OF assms(1-4), of now d]) blast
  show ?thesis
    using assms(5) assms(4) x cached_covers [OF assms(4), of d]
    by (cases "cr_default_cert r") (auto simp: find_cert_def split: option.splits)
qed

lemma cache_all_complete:
  assumes "c \<in> set cs" and "n \<in> set (sc_domains c)" and "load_stored_certificate L c = Some k"
  shows "\<exists>k'. dict_get (fold (cache_stored L) cs t) n = Some k'"
  using assms(1)
proof (induction cs arbitrary: t rule: rev_induct)
  case (snoc c' cs)
  then show ?case using assms(2,3)
    by (cases "c = c'") (auto simp: cache_stored_def cache_names_get split: option.split)
qed simp

lemma store_certificate_values:
  assumes "stm_store_certificate J f c (m, d) = (res, m', d')"
  shows "c \<in> set (stm_values m')"
proof -
  have "dict_get (as_certificates (stm_data m')) (sc_domain c) = Some c"
    using assms by (auto simp: stm_store_certificate_def Let_def dict_simps split: prod.splits)
  then show ?thesis by (force simp: dict_get_def stm_values_def dest: map_of_SomeD)
qed

lemma stored_certificate_found:
  assumes store: "stm_store_certificate J f c (m, d) = (res, m', d')" and acme: "cr_has_acme r"
    and valid: "\<not> sc_is_expired now c" and loads: "load_stored_certificate L c = Some k" and listed: "n \<in> set (sc_domains c)"
    and static: "dict_get (cr_static_certs r) n = None" "find_wildcard_match n (cr_static_certs r) = None"
  shows "\<exists>k' c'. find_cert L now' m' n (refresh_acme_cache L now m' r) = (Inr (Some k'), refresh_acme_cache L now m' r) \<and>
    c' \<in> set (get_all_certificates now m') \<and> n \<in> set (sc_domains c') \<and> load_stored_certificate L c' = Some k'"
proof -
  let ?r = "refresh_acme_cache L now m' r"
  have c: "c \<in> set (get_all_certificates now m')" using valid store_certificate_values [OF store] by (simp add: get_all_certificates_def)
  from cache_all_complete [OF c listed loads] obtain k' where k': "dict_get (cr_acme_cache ?r) n = Some k'"
    using acme by (auto simp: refresh_acme_cache_def)
  have "cache_ok L (set (get_all_certificates now m')) (cr_acme_cache ?r)"
    using acme cache_all_ok [OF cache_ok_Nil order_refl] by (simp add: refresh_acme_cache_def)
  then obtain c' where "c' \<in> set (get_all_certificates now m')" "n \<in> set (sc_domains c')" "load_stored_certificate L c' = Some k'"
    using k' by (auto simp: cache_ok_def key_for_def)
  moreover have "find_cert L now' m' n ?r = (Inr (Some k'), ?r)"
    using k' static acme by (simp add: find_cert_def refresh_acme_cache_def)
  ultimately show ?thesis by blast
qed

text \<open>
  A handshake for the base of a wildcard certificate whose names the caches do not hold panics; for a
  name that only ends with the base's characters the wildcard certificate is presented, not the
  default.
\<close>

theorem wildcard_handshake:
  assumes "as_certificates (stm_data m) = [(''*.'' @ base, c)]" and "sc_domains c = [''*.'' @ base]"
    and "cr_has_acme r" and "cr_static_certs r = []" and "cr_acme_cache r = [(''*.'' @ base, k)]" and "CHR ''*'' \<notin> set base"
    and "label \<noteq> []" and "CHR ''.'' \<notin> set label" and "CHR ''*'' \<notin> set label" and "\<not> sc_is_expired now c" and "load_stored_certificate L c = Some k"
    and "wildcard_name base \<noteq> Some (''*.'' @ base)" and "wildcard_name (label @ base) \<noteq> Some (''*.'' @ base)"
  shows "fst (find_cert L now m base r) = Inl ArithmeticOverflow"
    and "fst (find_cert L now m (label @ base) r) = Inr (Some k)"
proof -
  have v: "stm_values m = [c]" by (simp add: stm_values_def assms(1))
  note look = stored_wildcard_lookup [OF v assms(1,2,7,8,9,6)]
  have ne: "base \<noteq> ''*.'' @ base" "label @ base \<noteq> ''*.'' @ base" using assms(7,9) by (cases label; auto)+
  show "fst (find_cert L now m base r) = Inl ArithmeticOverflow"
    using ne(1) assms(3-5,12) look(3) by (auto simp: find_cert_def find_wildcard_match_eq stale_lookup_def dict_get_Cons split: bind_splits)
  show "fst (find_cert L now m (label @ base) r) = Inr (Some k)"
    using ne(2) assms(3-5,10,11,13) look(2) by (auto simp: find_cert_def find_wildcard_match_eq stale_lookup_def dict_get_Cons split: bind_splits)
qed

section \<open>Instances\<close>

text \<open>A codec, a library and a stored certificate that keep the hypotheses.\<close>

definition put_certificate :: "stored_certificate \<Rightarrow> string" where
  "put_certificate c = put_str (sc_domain c) @ put_list put_str (sc_domains c) @ put_str (sc_certificate_pem c) @
     put_str (sc_private_key_pem c) @ put_nat (unat (sc_not_after c)) @ put_nat (unat (sc_not_before c))"

definition read_certificate :: "string \<Rightarrow> (stored_certificate \<times> string) option" where
  "read_certificate s = Option.bind (get_str s) (\<lambda>(d, s1). Option.bind (get_list get_str s1) (\<lambda>(ds, s2).
     Option.bind (get_str s2) (\<lambda>(cp, s3). Option.bind (get_str s3) (\<lambda>(kp, s4). Option.bind (get_nat s4) (\<lambda>(na, s5).
     Option.bind (get_nat s5) (\<lambda>(nb, s6). Some (\<lparr> sc_domain = d, sc_domains = ds, sc_certificate_pem = cp, sc_private_key_pem = kp,
       sc_not_after = of_nat na, sc_not_before = of_nat nb \<rparr>, s6)))))))"

definition put_account :: "acme_account \<Rightarrow> string" where
  "put_account a = put_str (aa_url a) @ put_str (aa_private_key_pem a) @ put_str (aa_email a)"

definition read_account :: "string \<Rightarrow> (acme_account \<times> string) option" where
  "read_account s = Option.bind (get_str s) (\<lambda>(u, s1). Option.bind (get_str s1) (\<lambda>(k, s2). Option.bind (get_str s2) (\<lambda>(e, s3).
     Some (\<lparr> aa_url = u, aa_private_key_pem = k, aa_email = e \<rparr>, s3))))"

definition put_entry :: "string \<times> stored_certificate \<Rightarrow> string" where
  "put_entry kc = put_str (fst kc) @ put_certificate (snd kc)"

definition read_entry :: "string \<Rightarrow> ((string \<times> stored_certificate) \<times> string) option" where
  "read_entry s = Option.bind (get_str s) (\<lambda>(k, s1). Option.bind (read_certificate s1) (\<lambda>(c, s2). Some ((k, c), s2)))"

definition simple_codec :: storage_codec where
  "simple_codec = \<lparr>
     stc_to = (\<lambda>x. put_list put_account (case as_account x of None \<Rightarrow> [] | Some a \<Rightarrow> [a]) @ put_list put_entry (as_certificates x)),
     stc_from = (\<lambda>s. Option.bind (get_list read_account s) (\<lambda>(as, s1). Option.bind (get_list read_entry s1) (\<lambda>(cs, _).
       Some \<lparr> as_account = (case as of [] \<Rightarrow> None | a # _ \<Rightarrow> Some a), as_certificates = cs \<rparr>))) \<rparr>"

lemma simple_codec_laws: "codec_laws simple_codec"
proof -
  have "read_certificate (put_certificate c @ r) = Some (c, r)" for c r
    by (simp add: read_certificate_def put_certificate_def get_put_list)
  then have e: "read_entry (put_entry kc @ r) = Some (kc, r)" for kc r
    by (simp add: read_entry_def put_entry_def)
  have a: "read_account (put_account a @ r) = Some (a, r)" for a r
    by (simp add: read_account_def put_account_def)
  show ?thesis
    unfolding codec_laws_def
  proof
    fix x
    show "stc_from simple_codec (stc_to simple_codec x) = Some x"
      using get_put_list [of read_entry put_entry, OF e, of "as_certificates x" "[]"]
      by (cases x; cases "as_account x") (simp_all add: simple_codec_def get_put_list [OF a])
  qed
qed

definition simple_tls :: "(string, string, string) tls_lib" where
  "simple_tls = \<lparr> lib_certs = (\<lambda>s. Some [s]), lib_private_key = (\<lambda>s. Some (Some s)), lib_signing_key = Some,
     lib_names = (\<lambda>c. Some ([c], [])) \<rparr>"

definition shop_cert :: stored_certificate where
  "shop_cert = \<lparr> sc_domain = ''shop.org'', sc_domains = [''shop.org'', ''www.shop.org''], sc_certificate_pem = ''C'',
     sc_private_key_pem = ''K'', sc_not_after = 9000000, sc_not_before = 1000000 \<rparr>"

definition empty_manager :: storage_manager where
  "empty_manager = \<lparr> stm_path = ''acme.json'', stm_data = acme_storage_default \<rparr>"

definition acme_resolver :: "(string, string) cert_resolver" where
  "acme_resolver = set_acme_storage simple_tls 2000000 empty_manager cr_new"

lemmas storage_example_defs = shop_cert_def empty_manager_def acme_resolver_def simple_tls_def acme_storage_default_def cr_new_def
  set_acme_storage_def get_all_certificates_def stm_values_def stm_store_certificate_def load_stored_certificate_def certified_key_of_def
  sc_is_expired_def find_wildcard_match_def


definition shop_manager :: storage_manager where
  "shop_manager = \<lparr> stm_path = ''acme.json'', stm_data = \<lparr> as_account = None, as_certificates = [(''shop.org'', shop_cert)] \<rparr> \<rparr>"

theorem served_certificate_covers_witness:
  "case fst (find_cert simple_tls 2000000 shop_manager ''www.shop.org'' acme_resolver) of
     Inr (Some k) \<Rightarrow> covers (sc_domains shop_cert) ''www.shop.org'' \<and> load_stored_certificate simple_tls shop_cert = Some k
   | _ \<Rightarrow> False"
proof -
  obtain res r' where run: "find_cert simple_tls 2000000 shop_manager ''www.shop.org'' acme_resolver = (res, r')"
    by (cases "find_cert simple_tls 2000000 shop_manager ''www.shop.org'' acme_resolver") auto
  have "stm_get_certificate shop_manager ''www.shop.org'' = Inr (Some shop_cert)"
    by (simp add: stm_get_certificate_def stm_values_def shop_manager_def dict_get_Cons) (simp add: shop_cert_def)
  moreover have r: "cr_static_certs acme_resolver = []" "cr_acme_cache acme_resolver = []" "cr_default_cert acme_resolver = None"
    "cr_has_acme acme_resolver"
    by (simp_all add: storage_example_defs)
  moreover have "\<not> sc_is_expired 2000000 shop_cert" "load_stored_certificate simple_tls shop_cert \<noteq> None"
    by (simp_all add: storage_example_defs)
  ultimately have res: "\<exists>k. res = Inr (Some k)"
    using run by (auto simp: find_cert_def stale_lookup_def)
  have "no_wildcards shop_manager"
    by (simp add: no_wildcards_def stm_values_def shop_manager_def shop_cert_def starts_with_def)
  moreover have "\<forall>(k, c) \<in> set (as_certificates (stm_data shop_manager)). k \<in> set (sc_domains c)"
    by (simp add: shop_manager_def shop_cert_def)
  moreover have "set (stm_values shop_manager) \<subseteq> {shop_cert}" by (simp add: stm_values_def shop_manager_def)
  ultimately show ?thesis
    using served_certificate_covers [OF _ _ _ _ run, of "{shop_cert}"] res r by (auto simp: run find_wildcard_match_eq split: bind_splits)
qed

end
