(* ===== verification/Acme_Client.thy ===== *)
theory Acme_Client
  imports Der Acme_Storage
begin

text \<open>
  The ACME client, the HTTP-01 responder and the certificate manager (\<open>client.rs\<close>, \<open>challenge.rs\<close> and
  \<open>manager.rs\<close> of \<open>src/src/tls/acme\<close>). The certificate authority is a parameter: a function of the
  request, of its own state and of the challenges it can fetch through this process's port, since it
  may look at them at any moment of the exchange. Cryptography, JSON and Base64 are parameters too.
  The waits are the source's loops of 30 polls; the two seconds between polls are not modelled.
\<close>

section \<open>Protocol data\<close>

record acme_directory =
  ad_new_nonce :: string
  ad_new_account :: string
  ad_new_order :: string

record acme_identifier =
  id_type :: string
  id_value :: string

record acme_order =
  ao_status :: string
  ao_identifiers :: "acme_identifier list"
  ao_authorizations :: "string list"
  ao_finalize :: string
  ao_certificate :: "string option"

record acme_challenge =
  ch_type :: string
  ch_url :: string
  ch_token :: string
  ch_status :: string

record acme_authorization =
  aut_identifier :: acme_identifier
  aut_status :: string
  aut_challenges :: "acme_challenge list"

record pending_challenge =
  pc_token :: string
  pc_key_authorization :: string

type_synonym pending = "(string \<times> pending_challenge) list"

record jwk =
  jwk_kty :: string
  jwk_crv :: string
  jwk_x :: string
  jwk_y :: string

datatype key_ref = Jwk jwk | Kid string

record protected_header =
  ph_alg :: string
  ph_nonce :: string
  ph_url :: string
  ph_key :: key_ref

datatype payload =
    AccountPayload bool "string list"
  | OrderPayload "acme_identifier list"
  | EmptyPayload
  | CsrPayload string

record jws_body =
  jb_protected :: string
  jb_payload :: string
  jb_signature :: string

datatype ca_request = GetUrl string | HeadUrl string | PostUrl string jws_body

record ca_response =
  ca_location :: "string option"
  ca_nonce :: "string option"
  ca_body :: string

datatype acme_error =
    RequestFailed | BadJson | NoDirectory | NoKeyPair | NoAccountUrl | NoNonce | NoLocation | BadPublicKey | SignFailed
  | KeyFailed | NoHttp01 | ChallengeInvalid | ChallengeTimeout | OrderInvalid | OrderReadyTimeout | OrderValidTimeout
  | NoCertificateUrl | StorageFailed storage_error | Panicked panic

section \<open>Responder\<close>

definition challenge_prefix :: string where
  "challenge_prefix = ''/.well-known/acme-challenge/''"

type_synonym challenge_response = "nat \<times> (string \<times> string) list \<times> string"

definition challenge_not_found :: challenge_response where
  "challenge_not_found = (404, [], ''Not Found'')"

definition is_challenge_request :: "string \<Rightarrow> bool" where
  "is_challenge_request path = starts_with challenge_prefix path"

definition challenge_handle :: "pending \<Rightarrow> string \<Rightarrow> challenge_response option" where
  "challenge_handle p path =
     (if \<not> starts_with challenge_prefix path then None
      else let token = trim_start_str challenge_prefix path in
        if token = [] then Some challenge_not_found
        else case dict_get p token of
          Some challenge \<Rightarrow> Some (200, [(''Content-Type'', ''text/plain'')], pc_key_authorization challenge)
        | None \<Rightarrow> Some challenge_not_found)"

definition try_handle_challenge :: "pending \<Rightarrow> string \<Rightarrow> challenge_response option" where
  "try_handle_challenge p path = (if \<not> is_challenge_request path then None else challenge_handle p path)"

section \<open>Client\<close>

datatype pem_key = Pkcs8 string | OtherKey

record ('k, 'w) acme_lib =
  ax_ca :: "pending \<Rightarrow> ca_request \<Rightarrow> 'w \<Rightarrow> ca_response option \<times> 'w"
  ax_listening :: bool
  ax_generate_pkcs8 :: "'w \<Rightarrow> string option \<times> 'w"
  ax_from_pkcs8 :: "string \<Rightarrow> 'k option"
  ax_pem_key :: "string \<Rightarrow> pem_key option option"
  ax_public_key :: "'k \<Rightarrow> string"
  ax_sign :: "'k \<Rightarrow> string \<Rightarrow> 'w \<Rightarrow> string option \<times> 'w"
  ax_sha256 :: "string \<Rightarrow> string"
  ax_b64url :: "string \<Rightarrow> string"
  ax_b64 :: "string \<Rightarrow> string"
  ax_show_protected :: "protected_header \<Rightarrow> string"
  ax_show_payload :: "payload \<Rightarrow> string"
  ax_show_jwk :: "jwk \<Rightarrow> string"
  ax_parse_directory :: "string \<Rightarrow> acme_directory option"
  ax_parse_order :: "string \<Rightarrow> acme_order option"
  ax_parse_authorization :: "string \<Rightarrow> acme_authorization option"
  ax_parse_challenge :: "string \<Rightarrow> acme_challenge option"
  ax_codec :: storage_codec

text \<open>
  The client, with what it acts on: the disk, the outcomes of the coming saves (none left: they
  succeed) and the state of the world outside.
\<close>

record ('k, 'w) acme_client =
  ac_storage :: storage_manager
  ac_directory_url :: string
  ac_directory :: "acme_directory option"
  ac_email :: string
  ac_key_pair :: "'k option"
  ac_account_url :: "string option"
  ac_pending :: pending
  ac_disk :: disk
  ac_fates :: "save_fate list"
  ac_world :: 'w

type_synonym ('k, 'w, 'a) acme_call = "('k, 'w) acme_client \<Rightarrow> (acme_error + 'a) \<times> ('k, 'w) acme_client"

definition lets_encrypt_production :: string where
  "lets_encrypt_production = ''https://acme-v02.api.letsencrypt.org/directory''"

definition ac_new :: "storage_manager \<Rightarrow> string \<Rightarrow> string option \<Rightarrow> disk \<Rightarrow> save_fate list \<Rightarrow> 'w \<Rightarrow> ('k, 'w) acme_client" where
  "ac_new storage email ca_server d fates w = \<lparr> ac_storage = storage,
     ac_directory_url = (case ca_server of Some url \<Rightarrow> url | None \<Rightarrow> lets_encrypt_production),
     ac_directory = None, ac_email = email, ac_key_pair = None, ac_account_url = None, ac_pending = [],
     ac_disk = d, ac_fates = fates, ac_world = w \<rparr>"

text \<open>One request to the authority. It sees the pending challenges only when the port is served.\<close>

definition call_ca :: "('k, 'w) acme_lib \<Rightarrow> ca_request \<Rightarrow> ('k, 'w, ca_response) acme_call" where
  "call_ca A rq s =
     (let (r, w) = ax_ca A (if ax_listening A then ac_pending s else []) rq (ac_world s)
      in (case r of Some x \<Rightarrow> Inr x | None \<Rightarrow> Inl RequestFailed, s\<lparr> ac_world := w \<rparr>))"

definition opt_else :: "'e \<Rightarrow> 'a option \<Rightarrow> 's \<Rightarrow> ('e + 'a) \<times> 's" where
  "opt_else e x = (case x of Some a \<Rightarrow> ret a | None \<Rightarrow> fail e)"

definition with_storage ::
  "(storage_codec \<Rightarrow> save_fate \<Rightarrow> storage_manager \<times> disk \<Rightarrow> (storage_error + unit) \<times> storage_manager \<times> disk) \<Rightarrow>
   ('k, 'w) acme_lib \<Rightarrow> ('k, 'w, unit) acme_call" where
  "with_storage f A s =
     (let fate = (case ac_fates s of [] \<Rightarrow> Saved | x # _ \<Rightarrow> x);
          (r, m, d) = f (ax_codec A) fate (ac_storage s, ac_disk s)
      in (map_sum StorageFailed id r, s\<lparr> ac_storage := m, ac_disk := d, ac_fates := tl (ac_fates s) \<rparr>))"

definition load_key_pair :: "('k, 'w) acme_lib \<Rightarrow> string \<Rightarrow> acme_error + 'k" where
  "load_key_pair A pem = (case ax_pem_key A pem of
       Some (Some (Pkcs8 bytes)) \<Rightarrow> (case ax_from_pkcs8 A bytes of Some k \<Rightarrow> Inr k | None \<Rightarrow> Inl KeyFailed)
     | _ \<Rightarrow> Inl KeyFailed)"

definition generate_account_key :: "('k, 'w) acme_lib \<Rightarrow> ('k, 'w, string \<times> 'k) acme_call" where
  "generate_account_key A s =
     (let (r, w) = ax_generate_pkcs8 A (ac_world s); s1 = s\<lparr> ac_world := w \<rparr>
      in case r of
        None \<Rightarrow> fail KeyFailed s1
      | Some bytes \<Rightarrow>
          (case ax_from_pkcs8 A bytes of
             None \<Rightarrow> fail KeyFailed s1
           | Some k \<Rightarrow> ret (pem_encode (ax_b64 A) ''PRIVATE KEY'' bytes, k) s1))"

definition get_nonce :: "('k, 'w) acme_lib \<Rightarrow> ('k, 'w, string) acme_call" where
  "get_nonce A s = (case ac_directory s of
       None \<Rightarrow> fail NoDirectory s
     | Some dir \<Rightarrow> tryb (call_ca A (HeadUrl (ad_new_nonce dir))) (\<lambda>r. opt_else NoNonce (ca_nonce r)) s)"

definition get_jwk :: "('k, 'w) acme_lib \<Rightarrow> 'k \<Rightarrow> acme_error + jwk" where
  "get_jwk A key =
     (let public_key = ax_public_key A key in
      if length public_key \<noteq> 65 \<or> hd public_key \<noteq> byte 0x04 then Inl BadPublicKey
      else Inr \<lparr> jwk_kty = ''EC'', jwk_crv = ''P-256'', jwk_x = ax_b64url A (take 32 (drop 1 public_key)),
                 jwk_y = ax_b64url A (drop 33 public_key) \<rparr>)"

definition sum_else :: "'e + 'a \<Rightarrow> 's \<Rightarrow> ('e + 'a) \<times> 's" where
  "sum_else x s = (x, s)"

definition get_key_authorization :: "('k, 'w) acme_lib \<Rightarrow> string \<Rightarrow> ('k, 'w) acme_client \<Rightarrow> acme_error + string" where
  "get_key_authorization A token s = (case ac_key_pair s of
       None \<Rightarrow> Inl NoKeyPair
     | Some key \<Rightarrow> map_sum id (\<lambda>jwk. token @ ''.'' @ ax_b64url A (ax_sha256 A (ax_show_jwk A jwk))) (get_jwk A key))"

definition key_ref_of :: "('k, 'w) acme_lib \<Rightarrow> 'k \<Rightarrow> bool \<Rightarrow> ('k, 'w) acme_client \<Rightarrow> acme_error + key_ref" where
  "key_ref_of A key use_jwk s =
     (if use_jwk then map_sum id Jwk (get_jwk A key)
      else case ac_account_url s of Some url \<Rightarrow> Inr (Kid url) | None \<Rightarrow> Inl NoAccountUrl)"

definition sign_and_post ::
  "('k, 'w) acme_lib \<Rightarrow> 'k \<Rightarrow> string \<Rightarrow> payload option \<Rightarrow> protected_header \<Rightarrow> ('k, 'w, ca_response) acme_call" where
  "sign_and_post A key url pl protected s =
     (let protected_b64 = ax_b64url A (ax_show_protected A protected);
          payload_b64 = (case pl of Some p \<Rightarrow> ax_b64url A (ax_show_payload A p) | None \<Rightarrow> []);
          (r, w) = ax_sign A key (protected_b64 @ ''.'' @ payload_b64) (ac_world s);
          s1 = s\<lparr> ac_world := w \<rparr>
      in case r of
        None \<Rightarrow> fail SignFailed s1
      | Some signature \<Rightarrow> call_ca A (PostUrl url \<lparr> jb_protected = protected_b64, jb_payload = payload_b64,
          jb_signature = ax_b64url A signature \<rparr>) s1)"

definition signed_request :: "('k, 'w) acme_lib \<Rightarrow> string \<Rightarrow> payload option \<Rightarrow> bool \<Rightarrow> ('k, 'w, ca_response) acme_call" where
  "signed_request A url pl use_jwk s = (case ac_key_pair s of
       None \<Rightarrow> fail NoKeyPair s
     | Some key \<Rightarrow>
         tryb (get_nonce A) (\<lambda>nonce.
         tryb (\<lambda>s. sum_else (key_ref_of A key use_jwk s) s) (\<lambda>ref.
         sign_and_post A key url pl \<lparr> ph_alg = ''ES256'', ph_nonce = nonce, ph_url = url, ph_key = ref \<rparr>)) s)"

definition create_account :: "('k, 'w) acme_lib \<Rightarrow> ('k, 'w, unit) acme_call" where
  "create_account A s = (case ac_directory s of
       None \<Rightarrow> fail NoDirectory s
     | Some dir \<Rightarrow>
         tryb (generate_account_key A) (\<lambda>(pem, key) s1.
         tryb (signed_request A (ad_new_account dir) (Some (AccountPayload True [''mailto:'' @ ac_email s])) True) (\<lambda>resp.
         tryb (opt_else NoLocation (ca_location resp)) (\<lambda>url s2.
         with_storage (\<lambda>J f. stm_set_account J f \<lparr> aa_url = url, aa_private_key_pem = pem, aa_email = ac_email s \<rparr>) A
           (s2\<lparr> ac_account_url := Some url \<rparr>)))
         (s1\<lparr> ac_key_pair := Some key \<rparr>)) s)"

definition ac_init :: "('k, 'w) acme_lib \<Rightarrow> ('k, 'w, unit) acme_call" where
  "ac_init A s =
     tryb (call_ca A (GetUrl (ac_directory_url s))) (\<lambda>resp.
     tryb (opt_else BadJson (ax_parse_directory A (ca_body resp))) (\<lambda>dir s1.
     let s2 = s1\<lparr> ac_directory := Some dir \<rparr> in
     case stm_get_account (ac_storage s2) of
       Some account \<Rightarrow>
         (case load_key_pair A (aa_private_key_pem account) of
            Inl e \<Rightarrow> fail e (s2\<lparr> ac_account_url := Some (aa_url account) \<rparr>)
          | Inr k \<Rightarrow> ret () (s2\<lparr> ac_account_url := Some (aa_url account), ac_key_pair := Some k \<rparr>))
     | None \<Rightarrow> create_account A s2)) s"

section \<open>Orders\<close>

text \<open>A wait of at most \<open>n\<close> polls; \<open>decide\<close> says what ends it.\<close>

fun poll ::
  "('k, 'w) acme_lib \<Rightarrow> string \<Rightarrow> (string \<Rightarrow> 'o option) \<Rightarrow> ('o \<Rightarrow> (acme_error + 'a) option) \<Rightarrow> acme_error \<Rightarrow> nat \<Rightarrow> ('k, 'w, 'a) acme_call" where
  "poll A url parse decide timeout 0 s = fail timeout s"
| "poll A url parse decide timeout (Suc n) s =
     tryb (signed_request A url None False) (\<lambda>resp.
     tryb (opt_else BadJson (parse (ca_body resp))) (\<lambda>x.
     case decide x of Some r \<Rightarrow> sum_else r | None \<Rightarrow> poll A url parse decide timeout n)) s"

definition wait_for_challenge_valid :: "('k, 'w) acme_lib \<Rightarrow> string \<Rightarrow> ('k, 'w, unit) acme_call" where
  "wait_for_challenge_valid A url =
     poll A url (ax_parse_challenge A)
       (\<lambda>c. if ch_status c = ''valid'' then Some (Inr ())
            else if ch_status c = ''invalid'' then Some (Inl ChallengeInvalid)
            else None) ChallengeTimeout 30"

definition wait_for_order_ready :: "('k, 'w) acme_lib \<Rightarrow> string \<Rightarrow> acme_order \<Rightarrow> ('k, 'w, acme_order) acme_call" where
  "wait_for_order_ready A url initial =
     (if ao_status initial = ''ready'' then ret initial
      else poll A url (ax_parse_order A)
       (\<lambda>x. if ao_status x = ''ready'' then Some (Inr x)
            else if ao_status x = ''invalid'' then Some (Inl OrderInvalid)
            else None) OrderReadyTimeout 30)"

definition wait_for_order_valid :: "('k, 'w) acme_lib \<Rightarrow> string \<Rightarrow> acme_order \<Rightarrow> ('k, 'w, acme_order) acme_call" where
  "wait_for_order_valid A url initial =
     (if ao_status initial = ''valid'' \<and> ao_certificate initial \<noteq> None then ret initial
      else poll A url (ax_parse_order A)
       (\<lambda>x. if ao_status x = ''valid'' \<and> ao_certificate x \<noteq> None then Some (Inr x)
            else if ao_status x = ''invalid'' then Some (Inl OrderInvalid)
            else None) OrderValidTimeout 30)"

definition set_pending :: "(pending \<Rightarrow> pending) \<Rightarrow> ('k, 'w, unit) acme_call" where
  "set_pending f s = ret () (s\<lparr> ac_pending := f (ac_pending s) \<rparr>)"

definition respond_challenge :: "('k, 'w) acme_lib \<Rightarrow> acme_challenge \<Rightarrow> ('k, 'w, unit) acme_call" where
  "respond_challenge A ch =
     tryb (\<lambda>s. sum_else (get_key_authorization A (ch_token ch) s) s) (\<lambda>key_auth.
     tryb (set_pending (dict_insert (ch_token ch) \<lparr> pc_token = ch_token ch, pc_key_authorization = key_auth \<rparr>)) (\<lambda>_.
     tryb (signed_request A (ch_url ch) (Some EmptyPayload) False) (\<lambda>_.
     tryb (wait_for_challenge_valid A (ch_url ch)) (\<lambda>_.
     set_pending (dict_remove (ch_token ch))))))"

definition process_authorization :: "('k, 'w) acme_lib \<Rightarrow> string \<Rightarrow> ('k, 'w, unit) acme_call" where
  "process_authorization A authz_url =
     tryb (signed_request A authz_url None False) (\<lambda>resp.
     tryb (opt_else BadJson (ax_parse_authorization A (ca_body resp))) (\<lambda>authz.
     if aut_status authz = ''valid'' then ret ()
     else case find (\<lambda>c. ch_type c = ''http-01'') (aut_challenges authz) of
         None \<Rightarrow> fail NoHttp01
       | Some ch \<Rightarrow> if ch_status ch = ''valid'' then ret () else respond_challenge A ch))"

fun process_authorizations :: "('k, 'w) acme_lib \<Rightarrow> string list \<Rightarrow> ('k, 'w, unit) acme_call" where
  "process_authorizations A [] = ret ()"
| "process_authorizations A (u # us) = tryb (process_authorization A u) (\<lambda>_. process_authorizations A us)"

definition generate_csr :: "('k, 'w) acme_lib \<Rightarrow> string list \<Rightarrow> ('k, 'w, string \<times> string) acme_call" where
  "generate_csr A domains s =
     tryb (generate_account_key A) (\<lambda>(pem, key) s1.
       (let sign = (\<lambda>text. fst (ax_sign A key text (ac_world s1)));
            w = (case domains of [] \<Rightarrow> ac_world s1
                 | cn # _ \<Rightarrow> snd (ax_sign A key (csr_info cn domains (ax_public_key A key)) (ac_world s1)));
            s2 = s1\<lparr> ac_world := w \<rparr>
        in case build_csr sign (ax_public_key A key) domains of
          Inl p \<Rightarrow> fail (Panicked p) s2
        | Inr None \<Rightarrow> fail SignFailed s2
        | Inr (Some csr) \<Rightarrow> ret (pem, csr) s2)) s"

definition parse_certificate_dates :: "64 word \<Rightarrow> 64 word \<times> 64 word" where
  "parse_certificate_dates now = (now, now + 90 * 24 * 60 * 60)"

definition finish_order ::
  "('k, 'w) acme_lib \<Rightarrow> 64 word \<Rightarrow> string list \<Rightarrow> string \<Rightarrow> acme_order \<Rightarrow> ('k, 'w, stored_certificate) acme_call" where
  "finish_order A now domains order_url order =
     tryb (generate_csr A domains) (\<lambda>(cert_key_pem, csr).
     tryb (signed_request A (ao_finalize order) (Some (CsrPayload (ax_b64url A csr))) False) (\<lambda>_.
     tryb (wait_for_order_valid A order_url order) (\<lambda>order'.
     tryb (opt_else NoCertificateUrl (ao_certificate order')) (\<lambda>cert_url.
     tryb (signed_request A cert_url None False) (\<lambda>resp.
     let (not_before, not_after) = parse_certificate_dates now;
         stored = \<lparr> sc_domain = hd domains, sc_domains = domains, sc_certificate_pem = ca_body resp,
                    sc_private_key_pem = cert_key_pem, sc_not_after = not_after, sc_not_before = not_before \<rparr>
     in tryb (with_storage (\<lambda>J f. stm_store_certificate J f stored) A) (\<lambda>_. ret stored))))))"

definition order_certificate :: "('k, 'w) acme_lib \<Rightarrow> 64 word \<Rightarrow> string list \<Rightarrow> ('k, 'w, stored_certificate) acme_call" where
  "order_certificate A now domains s = (case ac_directory s of
       None \<Rightarrow> fail NoDirectory s
     | Some dir \<Rightarrow>
         tryb (signed_request A (ad_new_order dir)
           (Some (OrderPayload (map (\<lambda>d. \<lparr> id_type = ''dns'', id_value = d \<rparr>) domains))) False) (\<lambda>resp.
         let order_url = (case ca_location resp of Some url \<Rightarrow> url | None \<Rightarrow> []) in
         tryb (opt_else BadJson (ax_parse_order A (ca_body resp))) (\<lambda>order.
         tryb (process_authorizations A (ao_authorizations order)) (\<lambda>_.
         tryb (wait_for_order_ready A order_url order) (\<lambda>order'.
         finish_order A now domains order_url order')))) s)"

section \<open>Manager\<close>

record ('k, 'w, 'c, 's) acme_manager =
  am_client :: "('k, 'w) acme_client"
  am_resolver :: "('c, 's) cert_resolver"

definition am_new ::
  "('k, 'w) acme_lib \<Rightarrow> ('c, 'p, 's) tls_lib \<Rightarrow> 64 word \<Rightarrow> bool \<Rightarrow> string \<Rightarrow> string \<Rightarrow> string option \<Rightarrow> disk \<Rightarrow> save_fate list \<Rightarrow> 'w \<Rightarrow>
   acme_error + ('k, 'w, 'c, 's) acme_manager" where
  "am_new A L now opens storage_path email ca_server d fates w =
     (case stm_new (ax_codec A) opens storage_path d of
        Inl e \<Rightarrow> Inl (StorageFailed e)
      | Inr storage \<Rightarrow>
          (case ac_init A (ac_new storage email ca_server d fates w) of
             (Inl e, _) \<Rightarrow> Inl e
           | (Inr _, client) \<Rightarrow> Inr \<lparr> am_client = client, am_resolver = set_acme_storage L now (ac_storage client) cr_new \<rparr>))"

definition obtain_certificate ::
  "('k, 'w) acme_lib \<Rightarrow> ('c, 'p, 's) tls_lib \<Rightarrow> 64 word \<Rightarrow> string list \<Rightarrow> ('k, 'w, 'c, 's) acme_manager \<Rightarrow>
   (acme_error + unit) \<times> ('k, 'w, 'c, 's) acme_manager" where
  "obtain_certificate A L now domains m = (case order_certificate A now domains (am_client m) of
       (Inl e, s) \<Rightarrow> (Inl e, m\<lparr> am_client := s \<rparr>)
     | (Inr _, s) \<Rightarrow> (Inr (), \<lparr> am_client = s, am_resolver = refresh_acme_cache L now (ac_storage s) (am_resolver m) \<rparr>))"

text \<open>Failures of an order are logged; only a panic ends the loops of the manager.\<close>

fun ensure_certificates ::
  "('k, 'w) acme_lib \<Rightarrow> ('c, 'p, 's) tls_lib \<Rightarrow> 64 word \<Rightarrow> string list list \<Rightarrow> ('k, 'w, 'c, 's) acme_manager \<Rightarrow>
   panic + ('k, 'w, 'c, 's) acme_manager" where
  "ensure_certificates A L now [] m = Inr m"
| "ensure_certificates A L now ([] # sets) m = ensure_certificates A L now sets m"
| "ensure_certificates A L now ((primary # rest) # sets) m =
     (case stm_get_certificate (ac_storage (am_client m)) primary of
        Inl p \<Rightarrow> Inl p
      | Inr co \<Rightarrow>
          if (case co of Some cert \<Rightarrow> \<not> needs_renewal now cert | None \<Rightarrow> False) then ensure_certificates A L now sets m
          else (case obtain_certificate A L now (primary # rest) m of
              (Inl (Panicked p), _) \<Rightarrow> Inl p
            | (_, m') \<Rightarrow> ensure_certificates A L now sets m'))"

fun renew_all ::
  "('k, 'w) acme_lib \<Rightarrow> ('c, 'p, 's) tls_lib \<Rightarrow> 64 word \<Rightarrow> stored_certificate list \<Rightarrow> ('k, 'w, 'c, 's) acme_manager \<Rightarrow>
   panic + ('k, 'w, 'c, 's) acme_manager" where
  "renew_all A L now [] m = Inr m"
| "renew_all A L now (c # cs) m = (case obtain_certificate A L now (sc_domains c) m of
       (Inl (Panicked p), _) \<Rightarrow> Inl p
     | (_, m') \<Rightarrow> renew_all A L now cs m')"

definition renewal_round ::
  "('k, 'w) acme_lib \<Rightarrow> ('c, 'p, 's) tls_lib \<Rightarrow> 64 word \<Rightarrow> ('k, 'w, 'c, 's) acme_manager \<Rightarrow> panic + ('k, 'w, 'c, 's) acme_manager" where
  "renewal_round A L now m = renew_all A L now (get_certificates_needing_renewal now (ac_storage (am_client m))) m"

record acme_builder =
  ab_storage_path :: string
  ab_email :: string
  ab_ca_server :: "string option"
  ab_domains :: "string list list"

definition ab_new :: "string \<Rightarrow> string \<Rightarrow> acme_builder" where
  "ab_new email storage_path = \<lparr> ab_storage_path = storage_path, ab_email = email, ab_ca_server = None, ab_domains = [] \<rparr>"

definition ab_staging :: "acme_builder \<Rightarrow> acme_builder" where
  "ab_staging b = b\<lparr> ab_ca_server := Some ''https://acme-staging-v02.api.letsencrypt.org/directory'' \<rparr>"

definition ab_production :: "acme_builder \<Rightarrow> acme_builder" where
  "ab_production b = b\<lparr> ab_ca_server := Some ''https://acme-v02.api.letsencrypt.org/directory'' \<rparr>"

definition ab_set_ca_server :: "string \<Rightarrow> acme_builder \<Rightarrow> acme_builder" where
  "ab_set_ca_server url b = b\<lparr> ab_ca_server := Some url \<rparr>"

definition ab_domain :: "string list \<Rightarrow> acme_builder \<Rightarrow> acme_builder" where
  "ab_domain domains b = b\<lparr> ab_domains := ab_domains b @ [domains] \<rparr>"

definition ab_build ::
  "('k, 'w) acme_lib \<Rightarrow> ('c, 'p, 's) tls_lib \<Rightarrow> 64 word \<Rightarrow> bool \<Rightarrow> disk \<Rightarrow> save_fate list \<Rightarrow> 'w \<Rightarrow> acme_builder \<Rightarrow>
   acme_error + ('k, 'w, 'c, 's) acme_manager" where
  "ab_build A L now opens d fates w b =
     (case am_new A L now opens (ab_storage_path b) (ab_email b) (ab_ca_server b) d fates w of
        Inl e \<Rightarrow> Inl e
      | Inr m \<Rightarrow>
          if ab_domains b = [] then Inr m
          else (case ensure_certificates A L now (ab_domains b) m of
              Inl p \<Rightarrow> Inl (Panicked p)
            | Inr m' \<Rightarrow> Inr m'))"

section \<open>What the calls change\<close>

text \<open>A call that only talks to the outside leaves the client's own state as it was.\<close>

definition outside_only :: "('k, 'w, 'a) acme_call \<Rightarrow> bool" where
  "outside_only m \<longleftrightarrow> (\<forall>s. \<exists>w. snd (m s) = s\<lparr> ac_world := w \<rparr>)"

named_theorems outside

lemma same_world [simp]: "\<exists>w. s = s\<lparr> ac_world := w \<rparr>"
  by (rule exI [of _ "ac_world s"]) simp

lemma outside_pure [outside]: "outside_only (ret x)" "outside_only (fail e)" "outside_only (opt_else e y)" "outside_only (sum_else r)"
  by (auto simp: outside_only_def opt_else_def sum_else_def split: option.split)

lemma outside_reader [outside]: "outside_only (\<lambda>s. sum_else (f s) s)"
  by (auto simp: outside_only_def sum_else_def)

lemma outside_tryb [outside]:
  assumes "outside_only m" and "\<And>x. outside_only (f x)"
  shows "outside_only (tryb m f)"
  unfolding outside_only_def
proof
  fix s
  obtain w where w: "snd (m s) = s\<lparr> ac_world := w \<rparr>" using assms(1) by (auto simp: outside_only_def)
  show "\<exists>w. snd (tryb m f s) = s\<lparr> ac_world := w \<rparr>"
  proof (cases "fst (m s)")
    case (Inr x)
    obtain w' where "snd (f x (s\<lparr> ac_world := w \<rparr>)) = s\<lparr> ac_world := w, ac_world := w' \<rparr>"
      using assms(2) [of x] unfolding outside_only_def by blast
    then show ?thesis by (auto simp: tryb_snd Inr w)
  qed (auto simp: tryb_snd w)
qed

lemma outside_call [outside]: "outside_only (call_ca A rq)"
  by (auto simp: outside_only_def call_ca_def Let_def split: prod.split)

lemma outside_nonce [outside]: "outside_only (get_nonce A)"
  unfolding outside_only_def
proof
  fix s
  show "\<exists>w. snd (get_nonce A s) = s\<lparr> ac_world := w \<rparr>"
  proof (cases "ac_directory s")
    case (Some dir)
    have "outside_only (tryb (call_ca A (HeadUrl (ad_new_nonce dir))) (\<lambda>r. opt_else NoNonce (ca_nonce r)))" by (intro outside)
    then show ?thesis by (simp add: get_nonce_def Some outside_only_def)
  qed (simp add: get_nonce_def)
qed

lemma outside_post [outside]: "outside_only (sign_and_post A key url pl h)"
  unfolding outside_only_def by (auto simp: sign_and_post_def Let_def call_ca_def split: prod.split option.split)

lemma outside_request [outside]: "outside_only (signed_request A url pl j)"
  unfolding outside_only_def
proof
  fix s
  show "\<exists>w. snd (signed_request A url pl j s) = s\<lparr> ac_world := w \<rparr>"
  proof (cases "ac_key_pair s")
    case None
    then show ?thesis by (auto simp: signed_request_def)
  next
    case (Some key)
    have "outside_only (tryb (get_nonce A) (\<lambda>nonce. tryb (\<lambda>s. sum_else (key_ref_of A key j s) s) (\<lambda>ref.
        sign_and_post A key url pl \<lparr> ph_alg = ''ES256'', ph_nonce = nonce, ph_url = url, ph_key = ref \<rparr>)))"
      by (intro outside)
    then show ?thesis by (simp add: signed_request_def Some outside_only_def)
  qed
qed

lemma outside_poll [outside]: "outside_only (poll A url parse decide e n)"
proof (induction n)
  case 0
  show ?case unfolding outside_only_def by (auto)
next
  case (Suc n)
  have "outside_only (tryb (signed_request A url None False) (\<lambda>resp. tryb (opt_else BadJson (parse (ca_body resp))) (\<lambda>x.
      case decide x of Some r \<Rightarrow> sum_else r | None \<Rightarrow> poll A url parse decide e n)))"
    by (intro outside) (auto intro: outside Suc split: option.split)
  then show ?case by (simp add: outside_only_def)
qed

lemma outside_waits [outside]:
  "outside_only (wait_for_challenge_valid A url)" "outside_only (wait_for_order_ready A url x)" "outside_only (wait_for_order_valid A url x)"
  by (simp_all add: wait_for_challenge_valid_def wait_for_order_ready_def wait_for_order_valid_def outside)

lemma outside_key [outside]: "outside_only (generate_account_key A)"
  by (auto simp: outside_only_def generate_account_key_def Let_def split: prod.split option.split)

lemma outside_csr [outside]: "outside_only (generate_csr A domains)"
proof -
  have "outside_only (tryb (generate_account_key A) (\<lambda>(pem, key) s1.
       (let sign = (\<lambda>text. fst (ax_sign A key text (ac_world s1)));
            w = (case domains of [] \<Rightarrow> ac_world s1
                 | cn # _ \<Rightarrow> snd (ax_sign A key (csr_info cn domains (ax_public_key A key)) (ac_world s1)));
            s2 = s1\<lparr> ac_world := w \<rparr>
        in case build_csr sign (ax_public_key A key) domains of
          Inl p \<Rightarrow> fail (Panicked p) s2
        | Inr None \<Rightarrow> fail SignFailed s2
        | Inr (Some csr) \<Rightarrow> ret (pem, csr) s2)))"
    by (rule outside_tryb [OF outside_key]) (auto simp: outside_only_def Let_def split: sum.split option.split)
  then show ?thesis by (simp add: outside_only_def generate_csr_def)
qed

lemma outsideE:
  assumes "outside_only m"
  obtains w where "snd (m s) = s\<lparr> ac_world := w \<rparr>"
  using assms by (auto simp: outside_only_def)

text \<open>The certificates stored are those of before until an order is finished.\<close>

definition keeps_storage :: "('k, 'w, 'a) acme_call \<Rightarrow> bool" where
  "keeps_storage m \<longleftrightarrow> (\<forall>s. ac_storage (snd (m s)) = ac_storage s)"

lemma keeps_storage_outside: "outside_only m \<Longrightarrow> keeps_storage m"
  unfolding outside_only_def keeps_storage_def
proof
  fix s
  assume "\<forall>s. \<exists>w. snd (m s) = s\<lparr> ac_world := w \<rparr>"
  then obtain w where "snd (m s) = s\<lparr> ac_world := w \<rparr>" by blast
  then show "ac_storage (snd (m s)) = ac_storage s" by simp
qed

lemma keeps_storage_tryb:
  assumes "keeps_storage m" and "\<And>x. keeps_storage (f x)"
  shows "keeps_storage (tryb m f)"
  using assms by (auto simp: keeps_storage_def tryb_snd split: sum.split)

lemma keeps_storage_pending: "keeps_storage (set_pending f)"
  by (simp add: keeps_storage_def set_pending_def)

lemma keeps_storage_authorization: "keeps_storage (process_authorization A u)"
proof -
  have respond: "keeps_storage (respond_challenge A ch)" for ch
    unfolding respond_challenge_def by (intro keeps_storage_tryb keeps_storage_pending) (rule keeps_storage_outside, rule outside)+
  show ?thesis
    unfolding process_authorization_def
    by (intro keeps_storage_tryb)
      (auto split: option.split intro: respond keeps_storage_outside outside_request outside_pure)
qed

lemma keeps_storage_authorizations: "keeps_storage (process_authorizations A us)"
  by (induction us) (simp_all add: keeps_storage_outside outside keeps_storage_tryb keeps_storage_authorization)

end
