(* ===== verification/Acme_Facts.thy ===== *)
theory Acme_Facts
  imports Acme_Client
begin

text \<open>
  What the ACME client guarantees: an order makes a bounded number of requests, a challenge is
  answered while the authority looks for it, an obtained certificate is stored and served, and what
  happens when the orders run before the port is served.
\<close>

section \<open>The number of requests\<close>

text \<open>A measure of the outside that one request raises by at most one: a request counter is one.\<close>

definition counts_requests :: "('k, 'w) acme_lib \<Rightarrow> ('w \<Rightarrow> nat) \<Rightarrow> bool" where
  "counts_requests A \<mu> \<longleftrightarrow> (\<forall>p rq w. \<mu> (snd (ax_ca A p rq w)) \<le> Suc (\<mu> w)) \<and> (\<forall>k x w. \<mu> (snd (ax_sign A k x w)) \<le> \<mu> w) \<and>
     (\<forall>w. \<mu> (snd (ax_generate_pkcs8 A w)) \<le> \<mu> w)"

definition cost :: "('w \<Rightarrow> nat) \<Rightarrow> ('k, 'w, 'a) acme_call \<Rightarrow> nat \<Rightarrow> bool" where
  "cost \<mu> m n \<longleftrightarrow> (\<forall>s. \<mu> (ac_world (snd (m s))) \<le> \<mu> (ac_world s) + n)"

lemma cost_pure: "cost \<mu> (ret x) 0" "cost \<mu> (fail e) 0" "cost \<mu> (opt_else e y) 0" "cost \<mu> (sum_else r) 0" "cost \<mu> (\<lambda>s. sum_else (f s) s) 0"
  "cost \<mu> (set_pending g) 0"
  by (auto simp: cost_def opt_else_def sum_else_def set_pending_def split: option.split)

lemma cost_mono: "cost \<mu> m a \<Longrightarrow> a \<le> b \<Longrightarrow> cost \<mu> m b"
  unfolding cost_def by (meson add_left_mono order_trans)

lemma cost_tryb:
  assumes "cost \<mu> m a" and "\<And>x. cost \<mu> (f x) b"
  shows "cost \<mu> (tryb m f) (a + b)"
  unfolding cost_def
proof
  fix s
  have 1: "\<mu> (ac_world (snd (m s))) \<le> \<mu> (ac_world s) + a" using assms(1) by (simp add: cost_def)
  have 2: "\<mu> (ac_world (snd (f x (snd (m s))))) \<le> \<mu> (ac_world (snd (m s))) + b" for x using assms(2) by (simp add: cost_def)
  show "\<mu> (ac_world (snd (tryb m f s))) \<le> \<mu> (ac_world s) + (a + b)"
    using 1 order_trans [OF 2] by (fastforce simp: tryb_snd split: sum.split)
qed

lemma cost_tryb0: "cost \<mu> m 0 \<Longrightarrow> (\<And>x. cost \<mu> (f x) b) \<Longrightarrow> cost \<mu> (tryb m f) b"
  using cost_tryb [of \<mu> m 0 f b] by simp

lemma cost_call: "counts_requests A \<mu> \<Longrightarrow> cost \<mu> (call_ca A rq) 1"
  by (auto simp: counts_requests_def cost_def call_ca_def Let_def split: prod.split) (metis snd_conv)+

lemma cost_nonce:
  assumes "counts_requests A \<mu>"
  shows "cost \<mu> (get_nonce A) 1"
proof -
  have "cost \<mu> (tryb (call_ca A rq) (\<lambda>r. opt_else NoNonce (ca_nonce r))) (1 + 0)" for rq
    by (intro cost_tryb cost_call cost_pure assms)
  then show ?thesis by (auto simp: cost_def get_nonce_def split: option.split)
qed

lemma cost_post:
  fixes A :: "('k, 'w) acme_lib"
  assumes "counts_requests A \<mu>"
  shows "cost \<mu> (sign_and_post A key url pl h) 1"
  unfolding cost_def
proof
  fix s :: "('k, 'w) acme_client"
  let ?x = "ax_b64url A (ax_show_protected A h) @ ''.'' @ (case pl of Some p \<Rightarrow> ax_b64url A (ax_show_payload A p) | None \<Rightarrow> [])"
  obtain r w where sg: "ax_sign A key ?x (ac_world s) = (r, w)" by fastforce
  have "\<mu> (snd (ax_sign A key ?x (ac_world s))) \<le> \<mu> (ac_world s)" using assms by (simp add: counts_requests_def)
  then have w: "\<mu> w \<le> \<mu> (ac_world s)" by (simp only: sg snd_conv)
  have call: "\<mu> (ac_world (snd (call_ca A rq (s\<lparr> ac_world := w \<rparr>)))) \<le> \<mu> (ac_world s) + 1" for rq
  proof -
    have "\<mu> (ac_world (snd (call_ca A rq (s\<lparr> ac_world := w \<rparr>)))) \<le> \<mu> (ac_world (s\<lparr> ac_world := w \<rparr>)) + 1"
      using cost_call [OF assms, of rq] unfolding cost_def by blast
    then show ?thesis using w by simp
  qed
  show "\<mu> (ac_world (snd (sign_and_post A key url pl h s))) \<le> \<mu> (ac_world s) + 1"
    unfolding sign_and_post_def Let_def sg prod.case using call w by (cases r) simp_all
qed

lemma cost_request:
  assumes "counts_requests A \<mu>"
  shows "cost \<mu> (signed_request A url pl j) 2"
proof -
  have "cost \<mu> (tryb (get_nonce A) (\<lambda>nonce. tryb (\<lambda>s. sum_else (key_ref_of A key j s) s) (\<lambda>ref.
      sign_and_post A key url pl \<lparr> ph_alg = ''ES256'', ph_nonce = nonce, ph_url = url, ph_key = ref \<rparr>))) (1 + (0 + 1))" for key
    by (intro cost_tryb cost_nonce cost_post cost_pure assms)
  then show ?thesis by (auto simp: cost_def signed_request_def split: option.split)
qed

lemma cost_poll:
  assumes "counts_requests A \<mu>"
  shows "cost \<mu> (poll A url parse decide e n) (2 * n)"
proof (induction n)
  case 0
  show ?case by (simp add: cost_def)
next
  case (Suc n)
  have "cost \<mu> (tryb (signed_request A url None False) (\<lambda>resp. tryb (opt_else BadJson (parse (ca_body resp))) (\<lambda>x.
      case decide x of Some r \<Rightarrow> sum_else r | None \<Rightarrow> poll A url parse decide e n))) (2 + (0 + 2 * n))"
    by (intro cost_tryb cost_request cost_pure assms) (auto intro: Suc cost_mono [OF cost_pure(4)] split: option.split)
  then show ?case by (simp add: cost_def)
qed

lemma cost_waits:
  assumes "counts_requests A \<mu>"
  shows "cost \<mu> (wait_for_challenge_valid A url) 60" "cost \<mu> (wait_for_order_ready A url x) 60" "cost \<mu> (wait_for_order_valid A url x) 60"
proof -
  note p = cost_poll [OF assms, where n = 30, simplified]
  show "cost \<mu> (wait_for_challenge_valid A url) 60" unfolding wait_for_challenge_valid_def by (rule p)
  show "cost \<mu> (wait_for_order_ready A url x) 60" "cost \<mu> (wait_for_order_valid A url x) 60"
    unfolding wait_for_order_ready_def wait_for_order_valid_def by (auto intro: p cost_mono [OF cost_pure(1)])
qed

lemma cost_authorization:
  assumes "counts_requests A \<mu>"
  shows "cost \<mu> (process_authorization A url) 64"
proof -
  have "cost \<mu> (respond_challenge A ch) (0 + (0 + (2 + (60 + 0))))" for ch
    unfolding respond_challenge_def by (intro cost_tryb cost_pure cost_request cost_waits assms)
  then have r: "cost \<mu> (respond_challenge A ch) 62" for ch by simp
  have "cost \<mu> (process_authorization A url) (2 + (0 + 62))"
    unfolding process_authorization_def
    by (intro cost_tryb cost_pure cost_request assms)
      (auto intro: r cost_mono [OF cost_pure(1)] cost_mono [OF cost_pure(2)] split: option.split)
  then show ?thesis by simp
qed

lemma cost_authorizations: "counts_requests A \<mu> \<Longrightarrow> cost \<mu> (process_authorizations A us) (64 * length us)"
proof (induction us)
  case (Cons u us)
  then show ?case using cost_tryb [OF cost_authorization, of A \<mu> "\<lambda>_. process_authorizations A us"] by simp
qed (simp add: cost_pure)

lemma cost_key:
  fixes A :: "('k, 'w) acme_lib"
  assumes "counts_requests A \<mu>"
  shows "cost \<mu> (generate_account_key A) 0"
  unfolding cost_def
proof
  fix s :: "('k, 'w) acme_client"
  obtain r w where g: "ax_generate_pkcs8 A (ac_world s) = (r, w)" by fastforce
  have "\<mu> (snd (ax_generate_pkcs8 A (ac_world s))) \<le> \<mu> (ac_world s)" using assms by (simp add: counts_requests_def)
  then show "\<mu> (ac_world (snd (generate_account_key A s))) \<le> \<mu> (ac_world s) + 0"
    by (auto simp: generate_account_key_def Let_def g split: option.split)
qed

lemma cost_csr:
  fixes A :: "('k, 'w) acme_lib"
  assumes "counts_requests A \<mu>"
  shows "cost \<mu> (generate_csr A domains) 0"
proof -
  have "\<mu> (snd (ax_sign A k x w)) \<le> \<mu> w" for k x w using assms by (simp add: counts_requests_def)
  then have "cost \<mu> (tryb (generate_account_key A) (\<lambda>(pem, key) s1.
       (let sign = (\<lambda>text. fst (ax_sign A key text (ac_world s1)));
            w = (case domains of [] \<Rightarrow> ac_world s1
                 | cn # _ \<Rightarrow> snd (ax_sign A key (csr_info cn domains (ax_public_key A key)) (ac_world s1)));
            s2 = s1\<lparr> ac_world := w \<rparr>
        in case build_csr sign (ax_public_key A key) domains of
          Inl p \<Rightarrow> fail (Panicked p) s2
        | Inr None \<Rightarrow> fail SignFailed s2
        | Inr (Some csr) \<Rightarrow> ret (pem, csr) s2))) 0"
    by (intro cost_tryb0 cost_key assms) (auto simp: cost_def Let_def split: sum.split option.split list.split)
  then show ?thesis by (simp add: cost_def generate_csr_def)
qed

lemma cost_storage: "cost \<mu> (with_storage f A) 0"
  by (auto simp: cost_def with_storage_def Let_def split: prod.split)

lemma cost_finish:
  assumes "counts_requests A \<mu>"
  shows "cost \<mu> (finish_order A now domains url x) 64"
proof -
  have "cost \<mu> (finish_order A now domains url x) (0 + (2 + (60 + (0 + (2 + (0 + 0))))))"
    unfolding finish_order_def Let_def split_beta by (intro cost_tryb cost_pure cost_request cost_waits cost_csr cost_storage assms)
  then show ?thesis by simp
qed

text \<open>
  C26. An order ends after a bounded number of requests to the authority, whatever it answers: when
  no order lists more than \<open>n\<close> authorizations, at most \<open>126 + 64 n\<close>, the nonces included.
\<close>

theorem order_requests_bounded:
  assumes count: "counts_requests A \<mu>" and auths: "\<And>x ord. ax_parse_order A x = Some ord \<Longrightarrow> length (ao_authorizations ord) \<le> n"
  shows "\<mu> (ac_world (snd (order_certificate A now domains s))) \<le> \<mu> (ac_world s) + (126 + 64 * n)"
proof -
  have step: "cost \<mu> (tryb (process_authorizations A (ao_authorizations ord)) (\<lambda>_. tryb (wait_for_order_ready A url ord) (\<lambda>ord'.
      finish_order A now domains url ord'))) (64 * n + 124)" if "ax_parse_order A x = Some ord" for x ord url
  proof -
    have "cost \<mu> (tryb (process_authorizations A (ao_authorizations ord)) (\<lambda>_. tryb (wait_for_order_ready A url ord) (\<lambda>ord'.
        finish_order A now domains url ord'))) (64 * length (ao_authorizations ord) + (60 + 64))"
      by (intro cost_tryb cost_authorizations cost_waits cost_finish count)
    then show ?thesis by (rule cost_mono) (use auths [OF that] in simp)
  qed
  have "cost \<mu> (tryb (opt_else BadJson (ax_parse_order A x)) (\<lambda>ord. tryb (process_authorizations A (ao_authorizations ord)) (\<lambda>_.
      tryb (wait_for_order_ready A url ord) (\<lambda>ord'. finish_order A now domains url ord')))) (64 * n + 124)" for x url
    using step [of x] by (cases "ax_parse_order A x") (auto simp: cost_def opt_else_def tryb_def ret_def fail_def)
  then have "cost \<mu> (tryb (signed_request A u pl False) (\<lambda>resp. let order_url = (case ca_location resp of Some url \<Rightarrow> url | None \<Rightarrow> []) in
      tryb (opt_else BadJson (ax_parse_order A (ca_body resp))) (\<lambda>ord. tryb (process_authorizations A (ao_authorizations ord)) (\<lambda>_.
      tryb (wait_for_order_ready A order_url ord) (\<lambda>ord'. finish_order A now domains order_url ord'))))) (2 + (64 * n + 124))" for u pl
    unfolding Let_def by (rule cost_tryb [OF cost_request [OF count]])
  then show ?thesis by (auto simp: order_certificate_def cost_def add.commute split: option.split)
qed

section \<open>Answering a challenge\<close>

text \<open>The authority's validation: the token's path is answered with the key authorization.\<close>

definition answered :: "acme_challenge \<Rightarrow> string \<Rightarrow> pending \<Rightarrow> bool" where
  "answered ch ka p \<longleftrightarrow> try_handle_challenge p (challenge_prefix @ ch_token ch) = Some (200, [(''Content-Type'', ''text/plain'')], ka)"

lemma registered_answered:
  assumes "ch_token ch \<noteq> []" and "\<not> starts_with challenge_prefix (ch_token ch)"
    and "dict_get p (ch_token ch) = Some \<lparr> pc_token = ch_token ch, pc_key_authorization = ka \<rparr>"
  shows "answered ch ka p"
proof -
  have "strip_prefix challenge_prefix (ch_token ch) = None" using assms(2) unfolding starts_with_def not_not .
  moreover have "strip_prefix challenge_prefix (challenge_prefix @ ch_token ch) = Some (ch_token ch)" by simp
  moreover have "challenge_prefix \<noteq> []" by (simp add: challenge_prefix_def)
  ultimately have "trim_start_str challenge_prefix (challenge_prefix @ ch_token ch) = ch_token ch"
    by (subst trim_start_str.simps, subst trim_start_str.simps) simp
  then show ?thesis
    using assms(1,3) by (simp add: answered_def try_handle_challenge_def is_challenge_request_def challenge_handle_def Let_def starts_with_iff)
qed

text \<open>
  What the protocol promises of one challenge. \<open>left w\<close> is the number of further requests at the
  challenge's address before the validation is reported, \<open>None\<close> once it has failed. A request that
  arrives while the token is not answered makes it fail.
\<close>

definition challenge_laws ::
  "('k, 'w) acme_lib \<Rightarrow> ('w \<Rightarrow> nat option) \<Rightarrow> acme_challenge \<Rightarrow> string \<Rightarrow> bool" where
  "challenge_laws A left ch ka \<longleftrightarrow>
     (\<forall>p url w. \<exists>r w'. ax_ca A p (HeadUrl url) w = (Some r, w') \<and> ca_nonce r \<noteq> None \<and> left w' = left w) \<and>
     (\<forall>k x w. \<exists>y w'. ax_sign A k x w = (Some y, w') \<and> left w' = left w) \<and>
     (\<forall>p b w. let now = (if answered ch ka p then left w else None) in
        \<exists>r w' c. ax_ca A p (PostUrl (ch_url ch) b) w = (Some r, w') \<and> ax_parse_challenge A (ca_body r) = Some c \<and>
          ch_status c = (case now of None \<Rightarrow> ''invalid'' | Some 0 \<Rightarrow> ''valid'' | Some (Suc _) \<Rightarrow> ''pending'') \<and>
          left w' = map_option (\<lambda>k. k - 1) now)"

definition ready_client :: "('k, 'w) acme_client \<Rightarrow> bool" where
  "ready_client s \<longleftrightarrow> ac_directory s \<noteq> None \<and> ac_key_pair s \<noteq> None \<and> ac_account_url s \<noteq> None"

lemma ready_client_world [simp]: "ready_client (s\<lparr> ac_world := w \<rparr>) \<longleftrightarrow> ready_client s"
  "ready_client (s\<lparr> ac_pending := p \<rparr>) \<longleftrightarrow> ready_client s"
  by (simp_all add: ready_client_def)

lemma challenge_request:
  assumes laws: "challenge_laws A left ch ka" and ready: "ready_client s"
  obtains r w c where "signed_request A (ch_url ch) pl False s = (Inr r, s\<lparr> ac_world := w \<rparr>)"
    and "ax_parse_challenge A (ca_body r) = Some c"
    and "let now = (if answered ch ka (if ax_listening A then ac_pending s else []) then left (ac_world s) else None) in
           ch_status c = (case now of None \<Rightarrow> ''invalid'' | Some 0 \<Rightarrow> ''valid'' | Some (Suc _) \<Rightarrow> ''pending'') \<and>
           left w = map_option (\<lambda>k. k - 1) now"
proof -
  obtain dir key url where f: "ac_directory s = Some dir" "ac_key_pair s = Some key" "ac_account_url s = Some url"
    using ready by (auto simp: ready_client_def)
  let ?p = "if ax_listening A then ac_pending s else []"
  obtain r1 w1 n where 1: "ax_ca A ?p (HeadUrl (ad_new_nonce dir)) (ac_world s) = (Some r1, w1)" "ca_nonce r1 = Some n" "left w1 = left (ac_world s)"
    using laws unfolding challenge_laws_def by (metis not_Some_eq)
  let ?h = "\<lparr> ph_alg = ''ES256'', ph_nonce = n, ph_url = ch_url ch, ph_key = Kid url \<rparr>"
  let ?pb = "ax_b64url A (ax_show_protected A ?h)"
  let ?lb = "case pl of Some p \<Rightarrow> ax_b64url A (ax_show_payload A p) | None \<Rightarrow> []"
  obtain y w2 where 2: "ax_sign A key (?pb @ ''.'' @ ?lb) w1 = (Some y, w2)" "left w2 = left w1"
    using laws unfolding challenge_laws_def by blast
  let ?b = "\<lparr> jb_protected = ?pb, jb_payload = ?lb, jb_signature = ax_b64url A y \<rparr>"
  obtain r w c where 3: "ax_ca A ?p (PostUrl (ch_url ch) ?b) w2 = (Some r, w)" "ax_parse_challenge A (ca_body r) = Some c"
      "let now = (if answered ch ka ?p then left w2 else None) in
         ch_status c = (case now of None \<Rightarrow> ''invalid'' | Some 0 \<Rightarrow> ''valid'' | Some (Suc _) \<Rightarrow> ''pending'') \<and>
         left w = map_option (\<lambda>k. k - 1) now"
    using laws unfolding challenge_laws_def Let_def by blast
  have "call_ca A (HeadUrl (ad_new_nonce dir)) s = (Inr r1, s\<lparr> ac_world := w1 \<rparr>)"
    using 1(1) by (simp add: call_ca_def Let_def split del: if_split)
  then have nonce: "get_nonce A s = (Inr n, s\<lparr> ac_world := w1 \<rparr>)"
    by (simp add: get_nonce_def f tryb_def opt_else_def 1(2) ret_def)
  have "call_ca A (PostUrl (ch_url ch) ?b) (s\<lparr> ac_world := w2 \<rparr>) = (Inr r, s\<lparr> ac_world := w \<rparr>)"
    using 3(1) by (cases "ax_listening A") (simp_all add: call_ca_def Let_def)
  then have "sign_and_post A key (ch_url ch) pl ?h (s\<lparr> ac_world := w1 \<rparr>) = (Inr r, s\<lparr> ac_world := w \<rparr>)"
    using 2(1) by (simp add: sign_and_post_def Let_def)
  then have "signed_request A (ch_url ch) pl False s = (Inr r, s\<lparr> ac_world := w \<rparr>)"
    by (simp add: signed_request_def f tryb_def nonce sum_else_def key_ref_of_def)
  then show ?thesis using 3(2,3) unfolding 2(2) 1(3) by (rule that)
qed

definition challenge_verdict :: "acme_challenge \<Rightarrow> (acme_error + unit) option" where
  "challenge_verdict c = (if ch_status c = ''valid'' then Some (Inr ())
     else if ch_status c = ''invalid'' then Some (Inl ChallengeInvalid) else None)"

lemma wait_eq: "wait_for_challenge_valid A url = poll A url (ax_parse_challenge A) challenge_verdict ChallengeTimeout 30"
  by (simp add: wait_for_challenge_valid_def challenge_verdict_def [abs_def])

lemma poll_until_valid:
  assumes laws: "challenge_laws A left ch ka" and listening: "ax_listening A" and "ready_client s"
    and "answered ch ka (ac_pending s)" and "left (ac_world s) = Some k" and "k < n"
  shows "\<exists>w. poll A (ch_url ch) (ax_parse_challenge A) challenge_verdict e n s = (Inr (), s\<lparr> ac_world := w \<rparr>)"
  using assms(3-6)
proof (induction n arbitrary: s k)
  case (Suc n)
  obtain r w c where 1: "signed_request A (ch_url ch) None False s = (Inr r, s\<lparr> ac_world := w \<rparr>)" "ax_parse_challenge A (ca_body r) = Some c"
      "ch_status c = (case k of 0 \<Rightarrow> ''valid'' | Suc _ \<Rightarrow> ''pending'')" "left w = Some (k - 1)"
    by (rule challenge_request [OF laws Suc.prems(1), of None]) (use listening Suc.prems(2,3) in \<open>simp add: Let_def\<close>)
  note run = 1(1,2) tryb_def opt_else_def ret_def sum_else_def challenge_verdict_def
  show ?case
  proof (cases k)
    case 0
    then show ?thesis using 1(3) by (auto simp: run)
  next
    case (Suc k')
    have "\<exists>w'. poll A (ch_url ch) (ax_parse_challenge A) challenge_verdict e n (s\<lparr> ac_world := w \<rparr>) =
        (Inr (), s\<lparr> ac_world := w, ac_world := w' \<rparr>)"
      by (rule Suc.IH [where k = k']) (use Suc.prems 1(4) Suc in simp_all)
    then obtain w' where "poll A (ch_url ch) (ax_parse_challenge A) challenge_verdict e n (s\<lparr> ac_world := w \<rparr>) = (Inr (), s\<lparr> ac_world := w' \<rparr>)"
      by auto
    then have "poll A (ch_url ch) (ax_parse_challenge A) challenge_verdict e (Suc n) s = (Inr (), s\<lparr> ac_world := w' \<rparr>)"
      using 1(3) Suc by (simp add: run)
    then show ?thesis by blast
  qed
qed simp


text \<open>
  While the port is not served the authority cannot fetch the answer: the challenge fails, and
  its token stays pending although nothing waits for it any more.
\<close>

theorem unserved_challenge_fails:
  assumes laws: "challenge_laws A left ch ka" and listening: "\<not> ax_listening A" and ready: "ready_client s"
    and ka: "get_key_authorization A (ch_token ch) s = Inr ka"
  shows "\<exists>s'. respond_challenge A ch s = (Inl ChallengeInvalid, s') \<and>
    dict_get (ac_pending s') (ch_token ch) = Some \<lparr> pc_token = ch_token ch, pc_key_authorization = ka \<rparr>"
proof -
  let ?s1 = "s\<lparr> ac_pending := dict_insert (ch_token ch) \<lparr> pc_token = ch_token ch, pc_key_authorization = ka \<rparr> (ac_pending s) \<rparr>"
  have ans: "\<not> answered ch ka []"
    by (auto simp: answered_def try_handle_challenge_def challenge_handle_def Let_def challenge_not_found_def)
  have r1: "ready_client ?s1" using ready by simp
  obtain r w where 1: "signed_request A (ch_url ch) (Some EmptyPayload) False ?s1 = (Inr r, ?s1\<lparr> ac_world := w \<rparr>)"
    by (rule challenge_request [OF laws r1, of "Some EmptyPayload"]) simp
  have r2: "ready_client (?s1\<lparr> ac_world := w \<rparr>)" using r1 by simp
  obtain r' w' c where 2: "signed_request A (ch_url ch) None False (?s1\<lparr> ac_world := w \<rparr>) = (Inr r', ?s1\<lparr> ac_world := w' \<rparr>)"
      "ax_parse_challenge A (ca_body r') = Some c" "ch_status c = ''invalid''"
    by (rule challenge_request [OF laws r2, of None]) (use listening ans in \<open>simp add: Let_def\<close>)
  have "wait_for_challenge_valid A (ch_url ch) (?s1\<lparr> ac_world := w \<rparr>) = (Inl ChallengeInvalid, ?s1\<lparr> ac_world := w' \<rparr>)"
    using 2 poll.simps(2) [of A "ch_url ch" "ax_parse_challenge A" challenge_verdict ChallengeTimeout 29 "?s1\<lparr> ac_world := w \<rparr>"]
    by (simp add: wait_eq tryb_def opt_else_def ret_def sum_else_def challenge_verdict_def)
  then show ?thesis
    using ka 1 by (simp add: respond_challenge_def tryb_def sum_else_def set_pending_def ret_def dict_simps)
qed

section \<open>Obtained certificates\<close>

text \<open>A call whose success stores its result: everything before the store leaves the storage alone.\<close>

definition stored_by ::
  "('k, 'w) acme_lib \<Rightarrow> 64 word \<Rightarrow> string list \<Rightarrow> storage_manager \<Rightarrow> stored_certificate \<Rightarrow> storage_manager \<Rightarrow> bool" where
  "stored_by A now domains m c m' \<longleftrightarrow>
     (\<exists>f d d'. stm_store_certificate (ax_codec A) f c (m, d) = (Inr (), m', d')) \<and>
     sc_domains c = domains \<and> sc_domain c = hd domains \<and> sc_not_after c = now + 90 * 24 * 60 * 60"

definition stores ::
  "('k, 'w) acme_lib \<Rightarrow> 64 word \<Rightarrow> string list \<Rightarrow> ('k, 'w, stored_certificate) acme_call \<Rightarrow> bool" where
  "stores A now domains m \<longleftrightarrow> (\<forall>s c s'. m s = (Inr c, s') \<longrightarrow> stored_by A now domains (ac_storage s) c (ac_storage s'))"

lemma stores_tryb:
  assumes "keeps_storage m" and "\<And>x. stores A now domains (f x)"
  shows "stores A now domains (tryb m f)"
  unfolding stores_def
proof (intro allI impI)
  fix s c s'
  assume "tryb m f s = (Inr c, s')"
  then obtain x s1 where 1: "m s = (Inr x, s1)" "f x s1 = (Inr c, s')" by (rule tryb_InrD)
  have "ac_storage s1 = ac_storage s" using assms(1) 1(1) unfolding keeps_storage_def by (metis snd_conv)
  then show "stored_by A now domains (ac_storage s) c (ac_storage s')" using assms(2) [of x] 1(2) unfolding stores_def by metis
qed

lemma stores_store:
  assumes "sc_domains c = domains" and "sc_domain c = hd domains" and "sc_not_after c = now + 90 * 24 * 60 * 60"
  shows "stores A now domains (tryb (with_storage (\<lambda>J f. stm_store_certificate J f c) A) (\<lambda>_. ret c))"
  unfolding stores_def
proof (intro allI impI)
  fix s c' s'
  assume "tryb (with_storage (\<lambda>J f. stm_store_certificate J f c) A) (\<lambda>_. ret c) s = (Inr c', s')"
  then have c': "c' = c" and 1: "with_storage (\<lambda>J f. stm_store_certificate J f c) A s = (Inr (), s')"
    by (auto simp: ret_def elim!: tryb_InrD)
  obtain r m d where w: "stm_store_certificate (ax_codec A) (case ac_fates s of [] \<Rightarrow> Saved | x # _ \<Rightarrow> x) c (ac_storage s, ac_disk s) = (r, m, d)"
    by (metis prod_cases3)
  have "r = Inr ()" "ac_storage s' = m" using 1 w by (cases r; auto simp: with_storage_def Let_def)+
  then show "stored_by A now domains (ac_storage s) c' (ac_storage s')" using w assms c' unfolding stored_by_def by blast
qed

lemma finish_order_stores: "stores A now domains (finish_order A now domains url x)"
  unfolding finish_order_def split_beta Let_def parse_certificate_dates_def
  by (intro stores_tryb stores_store keeps_storage_outside outside) simp_all

lemma order_certificate_stores: "stores A now domains (order_certificate A now domains)"
proof -
  have "stores A now domains (tryb (signed_request A u pl False) (\<lambda>resp. let order_url = (case ca_location resp of Some url \<Rightarrow> url | None \<Rightarrow> []) in
      tryb (opt_else BadJson (ax_parse_order A (ca_body resp))) (\<lambda>ord. tryb (process_authorizations A (ao_authorizations ord)) (\<lambda>_.
      tryb (wait_for_order_ready A order_url ord) (\<lambda>ord'. finish_order A now domains order_url ord')))))" for u pl
    unfolding Let_def by (intro stores_tryb finish_order_stores keeps_storage_authorizations keeps_storage_outside outside)
  then show ?thesis by (auto simp: stores_def order_certificate_def fail_def split: option.splits)
qed


section \<open>Orders before the port is served\<close>

text \<open>
  An authority that can fetch no answer never reports a challenge or an authorization as valid, and
  every order it opens has an authorization to fulfil.
\<close>

definition validates_fetched :: "('k, 'w) acme_lib \<Rightarrow> bool" where
  "validates_fetched A \<longleftrightarrow> (\<forall>rq w r w'. ax_ca A [] rq w = (Some r, w') \<longrightarrow>
     (\<forall>c. ax_parse_challenge A (ca_body r) = Some c \<longrightarrow> ch_status c \<noteq> ''valid'') \<and>
     (\<forall>a. ax_parse_authorization A (ca_body r) = Some a \<longrightarrow> aut_status a \<noteq> ''valid'' \<and> (\<forall>c \<in> set (aut_challenges a). ch_status c \<noteq> ''valid'')) \<and>
     (\<forall>ord. ax_parse_order A (ca_body r) = Some ord \<longrightarrow> ao_authorizations ord \<noteq> []))"

definition no_answer :: "('k, 'w) acme_lib \<Rightarrow> ca_response \<Rightarrow> bool" where
  "no_answer A r \<longleftrightarrow> (\<exists>rq w w'. ax_ca A [] rq w = (Some r, w'))"

lemma no_answerD:
  assumes "validates_fetched A" and "no_answer A r"
  shows "ax_parse_challenge A (ca_body r) = Some c \<Longrightarrow> ch_status c \<noteq> ''valid''"
    and "ax_parse_authorization A (ca_body r) = Some a \<Longrightarrow> aut_status a \<noteq> ''valid'' \<and> (\<forall>c \<in> set (aut_challenges a). ch_status c \<noteq> ''valid'')"
    and "ax_parse_order A (ca_body r) = Some ord \<Longrightarrow> ao_authorizations ord \<noteq> []"
  using assms unfolding validates_fetched_def no_answer_def by blast+

lemma call_no_answer:
  assumes "\<not> ax_listening A" and "call_ca A rq s = (Inr r, s')"
  shows "no_answer A r"
proof -
  obtain y w where y: "ax_ca A [] rq (ac_world s) = (y, w)" by fastforce
  then have "y = Some r" using assms by (cases y) (auto simp: call_ca_def)
  then show ?thesis using y by (auto simp: no_answer_def)
qed

lemma opt_else_Inr: "opt_else e x s = (Inr a, s') \<longleftrightarrow> x = Some a \<and> s' = s"
  by (auto simp: opt_else_def ret_def fail_def split: option.splits)

lemma post_no_answer:
  assumes "\<not> ax_listening A" and "sign_and_post A key url pl h s = (Inr r, s')"
  shows "no_answer A r"
  using assms(2) call_no_answer [OF assms(1)] by (auto simp: sign_and_post_def Let_def fail_def split: prod.splits option.splits)

lemma request_no_answer:
  assumes "\<not> ax_listening A" and "signed_request A url pl j s = (Inr r, s')"
  shows "no_answer A r"
proof -
  obtain key where "ac_key_pair s = Some key" using assms(2) by (cases "ac_key_pair s") (auto simp: signed_request_def fail_def)
  then show ?thesis
    using assms(2) post_no_answer [OF assms(1)] by (auto simp: signed_request_def elim!: tryb_InrD)
qed

lemma poll_not_valid:
  assumes unserved: "\<not> ax_listening A" and laws: "validates_fetched A"
  shows "poll A url (ax_parse_challenge A) challenge_verdict e n s \<noteq> (Inr (), s')"
proof (induction n arbitrary: s)
  case (Suc n)
  show ?case
  proof
    assume "poll A url (ax_parse_challenge A) challenge_verdict e (Suc n) s = (Inr (), s')"
    then obtain resp s1 c where 1: "signed_request A url None False s = (Inr resp, s1)" "ax_parse_challenge A (ca_body resp) = Some c"
        "(case challenge_verdict c of Some r \<Rightarrow> sum_else r | None \<Rightarrow> poll A url (ax_parse_challenge A) challenge_verdict e n) s1 = (Inr (), s')"
      by (auto elim!: tryb_InrD simp: opt_else_Inr)
    have "ch_status c \<noteq> ''valid''" by (rule no_answerD(1) [OF laws request_no_answer [OF unserved 1(1)] 1(2)])
    then have "challenge_verdict c = None \<or> challenge_verdict c = Some (Inl ChallengeInvalid)" by (simp add: challenge_verdict_def)
    then show False using 1(3) Suc.IH [of s1] by (auto simp: sum_else_def)
  qed
qed (simp add: fail_def)

lemma authorization_fails:
  assumes unserved: "\<not> ax_listening A" and laws: "validates_fetched A"
  shows "process_authorization A url s \<noteq> (Inr (), s')"
proof
  assume "process_authorization A url s = (Inr (), s')"
  then obtain resp s1 a where 1: "signed_request A url None False s = (Inr resp, s1)" "ax_parse_authorization A (ca_body resp) = Some a"
      "(if aut_status a = ''valid'' then ret () else case find (\<lambda>c. ch_type c = ''http-01'') (aut_challenges a) of
         None \<Rightarrow> fail NoHttp01 | Some ch \<Rightarrow> if ch_status ch = ''valid'' then ret () else respond_challenge A ch) s1 = (Inr (), s')"
    unfolding process_authorization_def by (elim tryb_InrD) (auto simp: opt_else_Inr)
  note na = no_answerD(2) [OF laws request_no_answer [OF unserved 1(1)] 1(2)]
  obtain ch where f: "find (\<lambda>c. ch_type c = ''http-01'') (aut_challenges a) = Some ch"
    using 1(3) na by (auto simp: fail_def split: option.splits)
  then have "ch \<in> set (aut_challenges a)" by (auto simp: find_Some_iff)
  then have "respond_challenge A ch s1 = (Inr (), s')" using 1(3) na f by auto
  then obtain s2 s3 where "wait_for_challenge_valid A (ch_url ch) s2 = (Inr (), s3)"
    unfolding respond_challenge_def by (elim tryb_InrD) auto
  then show False using poll_not_valid [OF unserved laws] by (simp add: wait_eq)
qed

lemma unserved_order_fails:
  assumes unserved: "\<not> ax_listening A" and laws: "validates_fetched A"
  shows "order_certificate A now domains s \<noteq> (Inr c, s')"
proof
  assume run: "order_certificate A now domains s = (Inr c, s')"
  then obtain dir where dir: "ac_directory s = Some dir" by (cases "ac_directory s") (auto simp: order_certificate_def fail_def)
  obtain url pl resp s1 ord s2 where 1: "signed_request A url pl False s = (Inr resp, s1)" "ax_parse_order A (ca_body resp) = Some ord"
      "process_authorizations A (ao_authorizations ord) s1 = (Inr (), s2)"
    using run unfolding order_certificate_def dir option.case Let_def by (elim tryb_InrD) (auto simp: opt_else_Inr)
  have "ao_authorizations ord \<noteq> []" by (rule no_answerD(3) [OF laws request_no_answer [OF unserved 1(1)] 1(2)])
  then obtain u us where "ao_authorizations ord = u # us" by (cases "ao_authorizations ord") auto
  then obtain s3 where "process_authorization A u s1 = (Inr (), s3)" using 1(3) by (auto elim: tryb_InrD)
  then show False using authorization_fails [OF unserved laws] by blast
qed

lemma unserved_order_storage:
  assumes unserved: "\<not> ax_listening A" and laws: "validates_fetched A"
  shows "ac_storage (snd (order_certificate A now domains s)) = ac_storage s"
proof (cases "ac_directory s")
  case (Some dir)
  let ?pl = "Some (OrderPayload (map (\<lambda>d. \<lparr> id_type = ''dns'', id_value = d \<rparr>) domains))"
  obtain r s1 where 1: "signed_request A (ad_new_order dir) ?pl False s = (r, s1)" by fastforce
  have s1: "ac_storage s1 = ac_storage s"
    using keeps_storage_outside [OF outside_request, of A "ad_new_order dir" ?pl False] 1 unfolding keeps_storage_def by (metis snd_conv)
  show ?thesis
  proof (cases "\<exists>resp ord. r = Inr resp \<and> ax_parse_order A (ca_body resp) = Some ord")
    case False
    then show ?thesis using 1 s1
      by (cases r) (auto simp: order_certificate_def Some tryb_def opt_else_def fail_def Let_def)
  next
    case True
    then obtain resp ord where r: "r = Inr resp" and ord: "ax_parse_order A (ca_body resp) = Some ord" by blast
    have "ao_authorizations ord \<noteq> []" by (rule no_answerD(3) [OF laws request_no_answer [OF unserved 1 [unfolded r]] ord])
    then obtain u us where u: "ao_authorizations ord = u # us" by (cases "ao_authorizations ord") auto
    obtain e s2 where 2: "process_authorization A u s1 = (Inl e, s2)"
      using authorization_fails [OF unserved laws, of u s1] by (cases "process_authorization A u s1"; cases "fst (process_authorization A u s1)") auto
    have "ac_storage s2 = ac_storage s1"
      using keeps_storage_authorization [of A u] 2 unfolding keeps_storage_def by (metis snd_conv)
    then show ?thesis using 1 2 s1 by (simp add: order_certificate_def Some tryb_def r ord u opt_else_def ret_def Let_def)
  qed
qed (simp add: order_certificate_def fail_def)

lemma unserved_obtain:
  assumes unserved: "\<not> ax_listening A" and laws: "validates_fetched A"
  shows "\<exists>e s. obtain_certificate A L now domains m = (Inl e, m\<lparr> am_client := s \<rparr>) \<and> ac_storage s = ac_storage (am_client m)"
proof -
  obtain r s where 1: "order_certificate A now domains (am_client m) = (r, s)" by fastforce
  then obtain e where "r = Inl e" using unserved_order_fails [OF unserved laws, of now domains "am_client m"] by (cases r) auto
  then show ?thesis using 1 unserved_order_storage [OF unserved laws, of now domains "am_client m"] by (auto simp: obtain_certificate_def)
qed

lemma unserved_ensure:
  assumes unserved: "\<not> ax_listening A" and laws: "validates_fetched A"
  shows "ensure_certificates A L now sets m = Inr m' \<Longrightarrow> ac_storage (am_client m') = ac_storage (am_client m)"
proof (induction sets arbitrary: m)
  case (Cons dset sets)
  show ?case
  proof (cases dset)
    case Nil
    then show ?thesis using Cons by simp
  next
    case (Cons primary rest)
    obtain e s where o: "obtain_certificate A L now (primary # rest) m = (Inl e, m\<lparr> am_client := s \<rparr>)" "ac_storage s = ac_storage (am_client m)"
      using unserved_obtain [OF unserved laws] by blast
    then show ?thesis
      using Cons.prems Cons.IH [of m] Cons.IH [of "m\<lparr> am_client := s \<rparr>"] Cons
      by (cases e) (auto split: sum.splits if_splits)
  qed
qed simp

text \<open>Opening the account stores no certificate.\<close>

definition keeps_certificates :: "('k, 'w, 'a) acme_call \<Rightarrow> bool" where
  "keeps_certificates m \<longleftrightarrow> (\<forall>s. as_certificates (stm_data (ac_storage (snd (m s)))) = as_certificates (stm_data (ac_storage s)))"

lemma keeps_certificates_outside: "outside_only m \<Longrightarrow> keeps_certificates m"
  using keeps_storage_outside [of m] by (simp add: keeps_certificates_def keeps_storage_def)

lemma keeps_certificates_tryb:
  "keeps_certificates m \<Longrightarrow> (\<And>x. keeps_certificates (f x)) \<Longrightarrow> keeps_certificates (tryb m f)"
  by (auto simp: keeps_certificates_def tryb_snd split: sum.split)

lemma keeps_certificates_set:
  assumes "keeps_certificates m"
  shows "keeps_certificates (\<lambda>s. m (s\<lparr> ac_key_pair := k \<rparr>))" "keeps_certificates (\<lambda>s. m (s\<lparr> ac_account_url := u \<rparr>))"
    "keeps_certificates (\<lambda>s. m (s\<lparr> ac_directory := d \<rparr>))"
  using assms by (simp_all add: keeps_certificates_def)

lemma keeps_certificates_account: "keeps_certificates (with_storage (\<lambda>J f. stm_set_account J f a) A)"
  by (auto simp: keeps_certificates_def with_storage_def stm_set_account_def Let_def split: prod.split)

lemma create_account_keeps: "keeps_certificates (create_account A)"
proof -
  have "keeps_certificates (tryb (generate_account_key A) (\<lambda>(pem, key) s1.
         tryb (signed_request A url pl True) (\<lambda>resp.
         tryb (opt_else NoLocation (ca_location resp)) (\<lambda>url s2.
         with_storage (\<lambda>J f. stm_set_account J f \<lparr> aa_url = url, aa_private_key_pem = pem, aa_email = email \<rparr>) A
           (s2\<lparr> ac_account_url := Some url \<rparr>)))
         (s1\<lparr> ac_key_pair := Some key \<rparr>)))" for url pl email
    unfolding split_beta
    by (intro keeps_certificates_tryb keeps_certificates_set keeps_certificates_account keeps_certificates_outside outside)
  then show ?thesis by (auto simp: keeps_certificates_def create_account_def split: option.split)
qed

lemma init_keeps: "keeps_certificates (ac_init A)"
proof -
  have account: "keeps_certificates (\<lambda>s1. let s2 = s1\<lparr> ac_directory := Some dir \<rparr> in
     case stm_get_account (ac_storage s2) of
       Some account \<Rightarrow>
         (case load_key_pair A (aa_private_key_pem account) of
            Inl e \<Rightarrow> fail e (s2\<lparr> ac_account_url := Some (aa_url account) \<rparr>)
          | Inr k \<Rightarrow> ret () (s2\<lparr> ac_account_url := Some (aa_url account), ac_key_pair := Some k \<rparr>))
     | None \<Rightarrow> create_account A s2)" for dir
    using create_account_keeps [of A] by (auto simp: keeps_certificates_def Let_def split: option.split sum.split)
  have "keeps_certificates (tryb (call_ca A rq) (\<lambda>resp. tryb (opt_else BadJson (ax_parse_directory A (ca_body resp))) (\<lambda>dir s1.
     let s2 = s1\<lparr> ac_directory := Some dir \<rparr> in
     case stm_get_account (ac_storage s2) of
       Some account \<Rightarrow>
         (case load_key_pair A (aa_private_key_pem account) of
            Inl e \<Rightarrow> fail e (s2\<lparr> ac_account_url := Some (aa_url account) \<rparr>)
          | Inr k \<Rightarrow> ret () (s2\<lparr> ac_account_url := Some (aa_url account), ac_key_pair := Some k \<rparr>))
     | None \<Rightarrow> create_account A s2)))" for rq
    by (intro keeps_certificates_tryb account) (intro keeps_certificates_outside outside)+
  then show ?thesis by (simp add: keeps_certificates_def ac_init_def)
qed

text \<open>
  C27. The program builds its manager before it serves any port. Built so, with no storage file yet and
  an authority that validates what it can fetch, the manager comes up without a certificate; and
  since the renewal rounds look only at stored certificates, none of them ever asks for one.
\<close>

theorem first_certificate_never_requested:
  assumes unserved: "\<not> ax_listening A" and laws: "validates_fetched A" and fresh: "dict_get d (ab_storage_path b) = None"
    and built: "ab_build A L now opens d fates w b = Inr m"
  shows "as_certificates (stm_data (ac_storage (am_client m))) = [] \<and> renewal_round A' L' now' m = Inr m"
proof -
  obtain m0 where m0: "am_new A L now opens (ab_storage_path b) (ab_email b) (ab_ca_server b) d fates w = Inr m0"
      and m: "m = m0 \<or> ensure_certificates A L now (ab_domains b) m0 = Inr m"
    using built by (auto simp: ab_build_def split: sum.splits if_splits)
  obtain storage where st: "stm_data storage = acme_storage_default"
      and init: "ac_init A (ac_new storage (ab_email b) (ab_ca_server b) d fates w) = (Inr (), am_client m0)"
    by (rule that [of "\<lparr> stm_path = ab_storage_path b, stm_data = acme_storage_default \<rparr>"])
      (use m0 fresh in \<open>auto simp: am_new_def stm_new_def split: sum.splits prod.splits\<close>)
  have "as_certificates (stm_data (ac_storage (am_client m0))) = []"
    using init_keeps [of A] init st unfolding keeps_certificates_def
    by (metis (no_types, lifting) acme_client.select_convs(1) ac_new_def acme_storage_default_def acme_storage.select_convs(2) snd_conv)
  then have "as_certificates (stm_data (ac_storage (am_client m))) = []"
    using m unserved_ensure [OF unserved laws] by metis
  then show ?thesis by (simp add: renewal_round_def get_certificates_needing_renewal_def stm_values_def)
qed

section \<open>Renewal\<close>

lemma needs_renewal_nat:
  "needs_renewal now c \<longleftrightarrow> unat (sc_not_after c) - 2592000 < unat now"
  by (auto simp: needs_renewal_def word_less_nat_alt unat_sub word_le_nat_alt)

text \<open>
  When the rounds of the renewal task are never more than 30 days apart, every certificate that is
  still valid at the first round is found due for renewal by a round at which it has not expired.
\<close>

theorem renewal_before_expiry:
  assumes mono: "\<And>i. unat (t i) \<le> unat (t (Suc i))" and gap: "\<And>i. unat (t (Suc i)) \<le> unat (t i) + 2592000"
    and first: "0 < unat (t 0)" "unat (t 0) \<le> unat (sc_not_after c)" and late: "unat (sc_not_after c) < unat (t n)"
    and stored: "c \<in> set (stm_values m)"
  shows "\<exists>i < n. c \<in> set (get_certificates_needing_renewal (t i) m) \<and> \<not> sc_is_expired (t i) c"
proof -
  let ?P = "\<lambda>i. unat (sc_not_after c) < unat (t i)"
  define j where "j = (LEAST i. ?P i)"
  have j: "?P j" unfolding j_def by (rule LeastI [of ?P, OF late])
  have "j \<le> n" unfolding j_def by (rule Least_le [of ?P, OF late])
  have "j \<noteq> 0" using j first(2) by (metis leD)
  then obtain i where i: "j = Suc i" by (cases j) auto
  have "\<not> ?P i" using not_less_Least [of i ?P] i j_def by simp
  then have 1: "unat (t i) \<le> unat (sc_not_after c)" by simp
  have 2: "unat (sc_not_after c) < unat (t i) + 2592000" using j gap [of i] i by simp
  have "unat (t 0) \<le> unat (t k)" for k by (induction k) (auto intro: order_trans [OF _ mono])
  then have "0 < unat (t i)" using first(1) by (metis less_le_trans)
  then have "needs_renewal (t i) c" using 2 by (simp add: needs_renewal_nat)
  moreover have "\<not> sc_is_expired (t i) c" using 1 by (simp add: sc_is_expired_def word_less_nat_alt)
  moreover have "i < n" using \<open>j \<le> n\<close> i by simp
  ultimately show ?thesis using stored by (auto simp: get_certificates_needing_renewal_def)
qed

section \<open>Instances\<close>

text \<open>
  An authority with one challenge, for which the client is set up. Its state is the number of requests,
  what is left of the validation, and whether the order is finalized.
\<close>

type_synonym demo_world = "nat \<times> nat option \<times> bool"

definition demo_challenge :: acme_challenge where
  "demo_challenge = \<lparr> ch_type = ''http-01'', ch_url = ''/challenge'', ch_token = ''tok'', ch_status = ''pending'' \<rparr>"

definition demo_reply :: "string \<Rightarrow> ca_response" where
  "demo_reply body = \<lparr> ca_location = Some ''/order/1'', ca_nonce = Some ''nonce'', ca_body = body \<rparr>"

definition demo_ca :: "pending \<Rightarrow> ca_request \<Rightarrow> demo_world \<Rightarrow> ca_response option \<times> demo_world" where
  "demo_ca p rq w = (case w of (n, l, f) \<Rightarrow> (case rq of
       PostUrl url b \<Rightarrow>
         if url = ''/challenge''
         then let now = (if answered demo_challenge ''tok.t'' p then l else None)
              in (Some (demo_reply (case now of None \<Rightarrow> ''invalid'' | Some 0 \<Rightarrow> ''valid'' | Some (Suc _) \<Rightarrow> ''pending'')),
                  Suc n, map_option (\<lambda>k. k - 1) now, f)
         else if url = ''/finalize'' then (Some (demo_reply ''finalized''), Suc n, l, True)
         else if url = ''/order/1''
         then (Some (demo_reply (if f then ''order valid'' else if l = Some 0 then ''order ready'' else ''order pending'')), Suc n, l, f)
         else (Some (demo_reply ''pem''), Suc n, l, f)
     | _ \<Rightarrow> (Some (demo_reply ''directory''), Suc n, l, f)))"

definition demo_order :: "string \<Rightarrow> acme_order" where
  "demo_order body = \<lparr> ao_status = (if body = ''order valid'' then ''valid'' else if body = ''order ready'' then ''ready'' else ''pending''),
     ao_identifiers = [], ao_authorizations = [''/authorization''], ao_finalize = ''/finalize'', ao_certificate = Some ''/certificate'' \<rparr>"

definition demo_lib :: "bool \<Rightarrow> (string, demo_world) acme_lib" where
  "demo_lib listening = \<lparr> ax_ca = demo_ca, ax_listening = listening, ax_generate_pkcs8 = (\<lambda>w. (Some ''key'', w)), ax_from_pkcs8 = Some,
     ax_pem_key = (\<lambda>x. Some (Some (Pkcs8 x))), ax_public_key = (\<lambda>_. byte 4 # replicate 64 (CHR ''k'')), ax_sign = (\<lambda>k x w. (Some ''sig'', w)),
     ax_sha256 = (\<lambda>_. ''t''), ax_b64url = (\<lambda>x. x), ax_b64 = (\<lambda>x. x), ax_show_protected = (\<lambda>_. ''{}''), ax_show_payload = (\<lambda>_. ''{}''),
     ax_show_jwk = (\<lambda>_. ''{}''),
     ax_parse_directory = (\<lambda>_. Some \<lparr> ad_new_nonce = ''/nonce'', ad_new_account = ''/account'', ad_new_order = ''/orders'' \<rparr>),
     ax_parse_order = (\<lambda>x. Some (demo_order x)),
     ax_parse_authorization = (\<lambda>_. Some \<lparr> aut_identifier = \<lparr> id_type = ''dns'', id_value = ''shop.org'' \<rparr>, aut_status = ''pending'',
       aut_challenges = [demo_challenge] \<rparr>),
     ax_parse_challenge = (\<lambda>x. Some (demo_challenge\<lparr> ch_status := x \<rparr>)),
     ax_codec = \<lparr> stc_to = (\<lambda>_. []), stc_from = (\<lambda>_. None) \<rparr> \<rparr>"

definition demo_client :: "(string, demo_world) acme_client" where
  "demo_client = snd (ac_init (demo_lib True) (ac_new empty_manager ''a@shop.org'' None [] [] (0, Some 3, False)))"

lemma demo_counts: "counts_requests (demo_lib listening) fst"
proof -
  have "fst (snd (demo_ca p rq w)) \<le> Suc (fst w)" for p rq w by (cases rq; cases w) (simp_all add: demo_ca_def Let_def)
  then show ?thesis by (simp add: counts_requests_def demo_lib_def)
qed

lemma demo_challenge_laws: "challenge_laws (demo_lib listening) (fst \<circ> snd) demo_challenge ''tok.t''"
  unfolding challenge_laws_def Let_def
  by (auto simp: demo_lib_def demo_ca_def demo_reply_def demo_challenge_def Let_def split: nat.split option.split)

lemma demo_validates_fetched: "validates_fetched (demo_lib listening)"
proof -
  have "ca_body r \<noteq> ''valid''" if "demo_ca [] rq w = (Some r, w')" for rq w r w'
  proof -
    have "\<not> answered demo_challenge ''tok.t'' []"
      by (auto simp: answered_def try_handle_challenge_def challenge_handle_def Let_def challenge_not_found_def)
    then show ?thesis using that by (cases rq; cases w) (auto simp: demo_ca_def demo_reply_def Let_def split: if_splits)
  qed
  then show ?thesis by (auto simp: validates_fetched_def demo_lib_def demo_order_def demo_challenge_def)
qed

lemma demo_orders: "ax_parse_order (demo_lib True) x = Some ord \<Longrightarrow> length (ao_authorizations ord) \<le> 1"
  by (auto simp: demo_lib_def demo_order_def)

theorem order_requests_bounded_witness:
  "fst (ac_world (snd (order_certificate (demo_lib True) 1000000 [''shop.org''] demo_client))) \<le> fst (ac_world demo_client) + (126 + 64 * 1)"
  by (rule order_requests_bounded [OF demo_counts demo_orders])


definition demo_manager :: "(string, demo_world, string, string) acme_manager" where
  "demo_manager = \<lparr> am_client = demo_client, am_resolver = acme_resolver \<rparr>"


theorem first_certificate_never_requested_witness:
  "case ab_build (demo_lib False) simple_tls 1000000 True [] [] (0, Some 3, False) (ab_domain [''shop.org''] (ab_new ''a@shop.org'' ''acme.json'')) of
     Inl _ \<Rightarrow> False
   | Inr m \<Rightarrow> renewal_round (demo_lib True) simple_tls 2000000 m = Inr m"
proof -
  let ?b = "ab_domain [''shop.org''] (ab_new ''a@shop.org'' ''acme.json'')"
  let ?r = "ab_build (demo_lib False) simple_tls 1000000 True [] [] (0, Some 3, False) ?b"
  have "isl ?r = False" by code_simp
  then obtain m where m: "?r = Inr m" by (cases ?r) auto
  have "\<not> ax_listening (demo_lib False)" by (simp add: demo_lib_def)
  from first_certificate_never_requested [where A' = "demo_lib True" and L' = simple_tls and now' = 2000000, OF this demo_validates_fetched _ m] m
  show ?thesis by simp
qed

definition demo_rounds :: "nat \<Rightarrow> 64 word" where
  "demo_rounds i = (if i = 0 then 7000000 else 9500000)"

theorem renewal_before_expiry_witness:
  "\<exists>i < 1. shop_cert \<in> set (get_certificates_needing_renewal (demo_rounds i) shop_manager) \<and> \<not> sc_is_expired (demo_rounds i) shop_cert"
  by (rule renewal_before_expiry) (simp_all add: shop_cert_def stm_values_def shop_manager_def demo_rounds_def)

end
