(* ===== verification/Server.thy ===== *)
theory Server
  imports Mw_Registry Config_Validate Udp_Proxy Acme_Client
begin

text \<open>
  The server (\<open>src/src/server\<close>): the count of open connections and the graceful drain, the state that
  a hot reload replaces, the TLS decision of an entry point and the handling of one request. The
  connection tasks are an interleaving of their atomic steps. Sockets, signals and the timers that
  start the steps are I/O and not modelled.
\<close>

section \<open>Connections\<close>

record connection_tracker =
  ct_active :: "64 word"
  ct_draining :: bool

definition ct_new :: connection_tracker where
  "ct_new = \<lparr> ct_active = 0, ct_draining = False \<rparr>"

text \<open>\<open>connection_start\<close> is two atomic operations: the test of the flag and the increment.\<close>

definition ct_may_start :: "connection_tracker \<Rightarrow> bool" where
  "ct_may_start t \<longleftrightarrow> \<not> ct_draining t"

definition ct_count_in :: "connection_tracker \<Rightarrow> connection_tracker" where
  "ct_count_in t = t\<lparr> ct_active := ct_active t + 1 \<rparr>"

definition connection_start :: "connection_tracker \<Rightarrow> bool \<times> connection_tracker" where
  "connection_start t = (if ct_may_start t then (True, ct_count_in t) else (False, t))"

definition connection_end :: "connection_tracker \<Rightarrow> connection_tracker" where
  "connection_end t = t\<lparr> ct_active := ct_active t - 1 \<rparr>"

definition active_count :: "connection_tracker \<Rightarrow> 64 word" where
  "active_count t = ct_active t"

definition start_drain :: "connection_tracker \<Rightarrow> connection_tracker" where
  "start_drain t = t\<lparr> ct_draining := True \<rparr>"

definition is_draining :: "connection_tracker \<Rightarrow> bool" where
  "is_draining t = ct_draining t"

text \<open>
  \<open>wait_for_drain\<close>: turn \<open>i\<close> of the loop reads the counter and the clock; the result is the turn at
  which it returns. The fuel bounds the turns looked at.
\<close>

fun wait_for_drain :: "(nat \<Rightarrow> 64 word) \<Rightarrow> (nat \<Rightarrow> instant) \<Rightarrow> instant \<Rightarrow> nat \<Rightarrow> nat \<Rightarrow> nat option" where
  "wait_for_drain counts clock deadline 0 i = None"
| "wait_for_drain counts clock deadline (Suc fuel) i =
     (if counts i = 0 then Some i
      else if deadline \<le> clock i then Some i
      else wait_for_drain counts clock deadline fuel (Suc i))"

section \<open>Connection tasks\<close>

text \<open>
  A spawned task: before the test, past the test, counted in, turned away, ended, or dead after a
  panic, in which case \<open>connection_end\<close> is never called.
\<close>

datatype phase = Spawned | Passed | Counted | Rejected | Ended | Dead

type_synonym conns = "connection_tracker \<times> phase list"

inductive conn_step :: "conns \<Rightarrow> conns \<Rightarrow> bool" where
  accept: "conn_step (t, ps) (t, ps @ [Spawned])"
| pass: "i < length ps \<Longrightarrow> ps ! i = Spawned \<Longrightarrow> ct_may_start t \<Longrightarrow> conn_step (t, ps) (t, ps[i := Passed])"
| turn_away: "i < length ps \<Longrightarrow> ps ! i = Spawned \<Longrightarrow> \<not> ct_may_start t \<Longrightarrow> conn_step (t, ps) (t, ps[i := Rejected])"
| count_in: "i < length ps \<Longrightarrow> ps ! i = Passed \<Longrightarrow> conn_step (t, ps) (ct_count_in t, ps[i := Counted])"
| finish: "i < length ps \<Longrightarrow> ps ! i = Counted \<Longrightarrow> conn_step (t, ps) (connection_end t, ps[i := Ended])"
| panic: "i < length ps \<Longrightarrow> ps ! i = Counted \<Longrightarrow> conn_step (t, ps) (t, ps[i := Dead])"
| drain: "conn_step (t, ps) (start_drain t, ps)"

inductive_cases conn_stepE: "conn_step s s'"

definition conn_start :: conns where
  "conn_start = (ct_new, [])"

section \<open>Shared state\<close>

record server_config = config +
  svc_tls_certificates :: "(string \<times> string) list option"
  svc_access_log :: "access_log_config option"

definition plain_config :: "'z config_scheme \<Rightarrow> config" where
  "plain_config c = config.truncate c"

record ('r, 'i, 'c, 's) shared_state =
  sh_router :: "'r router"
  sh_middlewares :: "'i dict"
  sh_proxy :: mw_state
  sh_connections :: connection_tracker
  sh_challenges :: pending
  sh_resolver :: "('c, 's) cert_resolver option"

definition mw_init :: "service_config dict \<Rightarrow> passive_health_config \<Rightarrow> u32 \<Rightarrow> access_log_writer \<Rightarrow> mw_state" where
  "mw_init services config rng w =
     \<lparr>px_services = sm_new services, px_passive = phk_new config, px_rng = rng, px_access_log = w, mws_limiters = []\<rparr>"

definition build_static_resolver ::
  "('c, 'p, 's) tls_lib \<Rightarrow> (string \<Rightarrow> string option) \<Rightarrow> server_config \<Rightarrow> panic + ('c, 's) cert_resolver option" where
  "build_static_resolver L open_file c = (case svc_tls_certificates c of
       None \<Rightarrow> Inr None
     | Some certs \<Rightarrow> if certs = [] then Inr None else from_static_certs L open_file certs)"

definition state_of ::
  "('h, 'v, 'm) header_ops_scheme \<Rightarrow> ('n, 'e, 'q) mw_ops \<Rightarrow> (string \<Rightarrow> 'x + 'r) \<Rightarrow> (string \<Rightarrow> string list option) \<Rightarrow> u32 \<Rightarrow> pending \<Rightarrow>
   ('c, 's) cert_resolver option \<Rightarrow> server_config \<Rightarrow> panic + ('r, ('v, 'n, 'q) mw_instance, 'c, 's) shared_state" where
  "state_of H M rx open_log rng challenges resolver c =
     (case registry_from_config H M (cf_middlewares (plain_config c)) of
        Inl p \<Rightarrow> Inl p
      | Inr reg \<Rightarrow> Inr \<lparr> sh_router = router_from_config rx (cf_routers (plain_config c)), sh_middlewares = reg,
          sh_proxy = mw_init (cf_services (plain_config c)) phc_default rng (alw_new open_log (svc_access_log c)),
          sh_connections = ct_new, sh_challenges = challenges, sh_resolver = resolver \<rparr>)"

definition shared_new ::
  "('h, 'v, 'm) header_ops_scheme \<Rightarrow> ('n, 'e, 'q) mw_ops \<Rightarrow> (string \<Rightarrow> 'x + 'r) \<Rightarrow> (string \<Rightarrow> string list option) \<Rightarrow> u32 \<Rightarrow>
   ('c, 'p, 's) tls_lib \<Rightarrow> (string \<Rightarrow> string option) \<Rightarrow> server_config \<Rightarrow> panic + ('r, ('v, 'n, 'q) mw_instance, 'c, 's) shared_state" where
  "shared_new H M rx open_log rng L open_file c =
     (case build_static_resolver L open_file c of
        Inl p \<Rightarrow> Inl p
      | Inr resolver \<Rightarrow> state_of H M rx open_log rng [] resolver c)"

definition shared_with_acme ::
  "('h, 'v, 'm) header_ops_scheme \<Rightarrow> ('n, 'e, 'q) mw_ops \<Rightarrow> (string \<Rightarrow> 'x + 'r) \<Rightarrow> (string \<Rightarrow> string list option) \<Rightarrow> u32 \<Rightarrow>
   ('k, 'w, 'c, 's) acme_manager \<Rightarrow> server_config \<Rightarrow> panic + ('r, ('v, 'n, 'q) mw_instance, 'c, 's) shared_state" where
  "shared_with_acme H M rx open_log rng m c =
     state_of H M rx open_log rng (ac_pending (am_client m)) (Some (am_resolver m)) c"

text \<open>
  A reload replaces the router, the services and the middlewares, whose rate limiters start afresh;
  the passive health checker stays.
\<close>

definition reload ::
  "('h, 'v, 'm) header_ops_scheme \<Rightarrow> ('n, 'e, 'q) mw_ops \<Rightarrow> (string \<Rightarrow> 'x + 'r) \<Rightarrow> config \<Rightarrow>
   ('r, ('v, 'n, 'q) mw_instance, 'c, 's) shared_state \<Rightarrow> panic + ('r, ('v, 'n, 'q) mw_instance, 'c, 's) shared_state" where
  "reload H M rx c sh =
     (case registry_from_config H M (cf_middlewares c) of
        Inl p \<Rightarrow> Inl p
      | Inr reg \<Rightarrow> Inr (sh\<lparr> sh_router := router_from_config rx (cf_routers c), sh_middlewares := reg,
          sh_proxy := (sh_proxy sh)\<lparr> px_services := sm_new (cf_services c), mws_limiters := [] \<rparr> \<rparr>))"

record ('r, 'i, 'c, 's) server_state =
  sr_config :: config
  sr_state :: "('r, 'i, 'c, 's) shared_state"

definition reload_config ::
  "('h, 'v, 'm) header_ops_scheme \<Rightarrow> ('n, 'e, 'q) mw_ops \<Rightarrow> (string \<Rightarrow> 'x + 'r) \<Rightarrow> (string \<Rightarrow> bool) \<Rightarrow> config \<Rightarrow>
   ('r, ('v, 'n, 'q) mw_instance, 'c, 's) server_state \<Rightarrow>
   panic + (config_error + unit) \<times> ('r, ('v, 'n, 'q) mw_instance, 'c, 's) server_state" where
  "reload_config H M rx url_ok c srv = (case config_validate url_ok c of
       Inl e \<Rightarrow> Inr (Inl e, srv)
     | Inr _ \<Rightarrow> (case reload H M rx c (sr_state srv) of
         Inl p \<Rightarrow> Inl p
       | Inr st \<Rightarrow> Inr (Inr (), \<lparr> sr_config = c, sr_state = st \<rparr>)))"

definition hot_reload ::
  "('h, 'v, 'm) header_ops_scheme \<Rightarrow> ('n, 'e, 'q) mw_ops \<Rightarrow> (string \<Rightarrow> 'x + 'r) \<Rightarrow> config \<Rightarrow>
   ('r, ('v, 'n, 'q) mw_instance, 'c, 's) server_state \<Rightarrow>
   panic + health_task list \<times> ('r, ('v, 'n, 'q) mw_instance, 'c, 's) server_state" where
  "hot_reload H M rx c srv = (case reload H M rx c (sr_state srv) of
       Inl p \<Rightarrow> Inl p
     | Inr st \<Rightarrow> (case sm_start_health_checks (px_services (sh_proxy st)) of
         Inl p \<Rightarrow> Inl p
       | Inr tasks \<Rightarrow> Inr (tasks, \<lparr> sr_config = c, sr_state = st \<rparr>)))"

section \<open>Listeners\<close>

record entry_point_tls =
  ept_cert_resolver :: "string option"

record entry_point_http =
  eph_tls :: "entry_point_tls option"

text \<open>An acceptor asks the shared resolver for certificates; building it cannot fail.\<close>

record tls_acceptor =
  ta_alpn :: "string list"

definition from_resolver :: tls_acceptor where
  "from_resolver = \<lparr> ta_alpn = [''h2'', ''http/1.1''] \<rparr>"

definition build_tls_acceptor :: "entry_point_http option \<Rightarrow> ('c, 's) cert_resolver option \<Rightarrow> tls_acceptor option" where
  "build_tls_acceptor http resolver = (case http of
       None \<Rightarrow> None
     | Some h \<Rightarrow> (case eph_tls h of
         None \<Rightarrow> None
       | Some tls_config \<Rightarrow>
           if ept_cert_resolver tls_config \<noteq> None \<and> resolver \<noteq> None then Some from_resolver
           else (case resolver of Some _ \<Rightarrow> Some from_resolver | None \<Rightarrow> None)))"

definition challenge_to_response :: "('h, 'v, 'm) header_ops_scheme \<Rightarrow> challenge_response \<Rightarrow> 'h response" where
  "challenge_to_response H r = (case r of (status, headers, body) \<Rightarrow>
     \<lparr> rs_status = of_nat status,
       rs_headers = fold (\<lambda>(n, v). hm_append H (to_lowercase n) (hv_static H v)) headers (hm_empty H), rs_body = body \<rparr>)"

definition serve_request ::
  "('h, 'v, 'u, 'm) http_ops_scheme \<Rightarrow> ('r \<Rightarrow> string \<Rightarrow> bool) \<Rightarrow> (access_log_entry \<Rightarrow> string option) \<Rightarrow> ('n, 'e, 'q) mw_ops \<Rightarrow> clock3 \<Rightarrow>
   ('h, 'u) exchange \<Rightarrow> ip_addr \<times> u16 \<Rightarrow> string \<Rightarrow> bool \<Rightarrow> ('h, 'u) request \<Rightarrow>
   ('r, ('v, 'n, 'q) mw_instance, 'c, 's) shared_state \<Rightarrow> (panic + 'h response) \<times> ('r, ('v, 'n, 'q) mw_instance, 'c, 's) shared_state" where
  "serve_request H im js M ck E remote_addr entrypoint is_tls req sh =
     (case (if is_tls then None else try_handle_challenge (sh_challenges sh) (ur_path H (rq_uri req))) of
        Some response \<Rightarrow> (Inr (challenge_to_response H response), sh)
      | None \<Rightarrow>
          (let req' = req\<lparr> rq_context := Some \<lparr> ctx_remote_ip = fst remote_addr, ctx_is_tls = is_tls \<rparr> \<rparr>;
               (r, px) = proxy_handle H im js E (sh_router sh) (registry_resolve H M ck (sh_middlewares sh))
                           remote_addr entrypoint is_tls req' (sh_proxy sh)
           in (r, sh\<lparr> sh_proxy := px \<rparr>)))"

datatype listener = HttpListener string | UdpEntryListener string

definition started_listeners :: "'n ip_net_ops \<Rightarrow> config \<Rightarrow> panic + listener list" where
  "started_listeners N c =
     (let http = map (\<lambda>(name, _). HttpListener name) (cf_entry_points c) in
      if \<not> cf_has_udp c then Inr http
      else (case udp_from_config N (map fst (cf_entry_points c)) (cf_udp_routers c) of
          Inl p \<Rightarrow> Inl p
        | Inr udp_router \<Rightarrow>
            Inr (http @ map (\<lambda>(name, _). UdpEntryListener name)
              (filter (\<lambda>(name, _). udp_has_routes_for udp_router name) (cf_entry_points c)))))"

section \<open>Draining\<close>

definition counted :: "phase list \<Rightarrow> nat" where
  "counted ps = length (filter (\<lambda>p. p = Counted \<or> p = Dead) ps)"

definition conns_inv :: "conns \<Rightarrow> bool" where
  "conns_inv s \<longleftrightarrow> ct_active (fst s) = of_nat (counted (snd s))"

lemma counted_update:
  assumes "i < length ps"
  shows "counted (ps[i := p]) + (if ps ! i = Counted \<or> ps ! i = Dead then 1 else 0) = counted ps + (if p = Counted \<or> p = Dead then 1 else 0)"
proof -
  have split: "counted (xs @ q # ys) = counted xs + (if q = Counted \<or> q = Dead then 1 else 0) + counted ys" for xs q ys
    by (simp add: counted_def)
  have "counted ps = counted (take i ps @ ps ! i # drop (Suc i) ps)" using id_take_nth_drop [OF assms] by simp
  moreover have "counted (ps[i := p]) = counted (take i ps @ p # drop (Suc i) ps)" using upd_conv_take_nth_drop [OF assms, of p] by simp
  ultimately show ?thesis unfolding split by simp
qed

lemma conns_inv_step: "conn_step s s' \<Longrightarrow> conns_inv s \<Longrightarrow> conns_inv s'"
proof (induction rule: conn_step.induct)
  case (finish i ps t)
  from counted_update [OF finish(1), of Ended] finish(2) have "counted ps = Suc (counted (ps[i := Ended]))" by simp
  then show ?case using finish(3) by (simp add: conns_inv_def connection_end_def)
next
  case (count_in i ps t)
  from counted_update [OF count_in(1), of Counted] count_in(2) have "counted (ps[i := Counted]) = Suc (counted ps)" by simp
  then show ?case using count_in(3) by (simp add: conns_inv_def ct_count_in_def)
next
  case (accept t ps)
  then show ?case by (simp add: conns_inv_def counted_def)
next
  case (drain t ps)
  then show ?case by (simp add: conns_inv_def start_drain_def)
next
  case (pass i ps t)
  then show ?case using counted_update [OF pass(1), of Passed] by (simp add: conns_inv_def)
next
  case (turn_away i ps t)
  then show ?case using counted_update [OF turn_away(1), of Rejected] by (simp add: conns_inv_def)
next
  case (panic i ps t)
  then show ?case using counted_update [OF panic(1), of Dead] by (simp add: conns_inv_def)
qed

lemma conns_inv_reach: "conn_step\<^sup>*\<^sup>* conn_start s \<Longrightarrow> conns_inv s"
proof (induction rule: rtranclp_induct)
  case base
  show ?case by (simp add: conn_start_def conns_inv_def counted_def ct_new_def)
qed (rule conns_inv_step)

lemma counted_zero:
  assumes "conns_inv s" and "length (snd s) < 2 ^ 64"
  shows "active_count (fst s) = 0 \<longleftrightarrow> counted (snd s) = 0"
proof -
  have "counted (snd s) < 2 ^ 64" using assms(2) length_filter_le [of _ "snd s"] unfolding counted_def by (rule order_le_less_trans [rotated])
  then have "(of_nat (counted (snd s)) :: 64 word) = 0 \<longleftrightarrow> counted (snd s) = 0"
    by (auto simp: word_of_nat_eq_0_iff dest: dvd_imp_le)
  then show ?thesis using assms(1) by (simp add: conns_inv_def active_count_def)
qed

text \<open>Once draining with no task between its test and its count, nothing is counted in any more.\<close>

definition quiesced :: "conns \<Rightarrow> bool" where
  "quiesced s \<longleftrightarrow> ct_draining (fst s) \<and> Passed \<notin> set (snd s)"

lemma quiesced_step: "conn_step s s' \<Longrightarrow> quiesced s \<Longrightarrow> quiesced s' \<and> counted (snd s') \<le> counted (snd s)"
proof (induction rule: conn_step.induct)
  case (accept t ps)
  then show ?case by (simp add: quiesced_def counted_def)
next
  case (count_in i ps t)
  then show ?case using nth_mem [of i ps] by (simp add: quiesced_def)
next
  case (turn_away i ps t)
  then show ?case using counted_update [OF turn_away(1), of Rejected] set_update_subset_insert [of ps i Rejected] by (auto simp: quiesced_def)
next
  case (finish i ps t)
  then show ?case using counted_update [OF finish(1), of Ended] set_update_subset_insert [of ps i Ended] by (auto simp: quiesced_def connection_end_def)
next
  case (panic i ps t)
  then show ?case using counted_update [OF panic(1), of Dead] set_update_subset_insert [of ps i Dead] by (auto simp: quiesced_def)
qed (simp_all add: quiesced_def ct_may_start_def start_drain_def)

lemma quiesced_reach: "conn_step\<^sup>*\<^sup>* s s' \<Longrightarrow> quiesced s \<Longrightarrow> quiesced s' \<and> counted (snd s') \<le> counted (snd s)"
  by (induction rule: rtranclp_induct) (auto dest!: quiesced_step)

text \<open>
  C31. The drain is sound once the tasks that passed the test have been counted: when the counter then
  reads zero, no connection is being served, in that state and in every later one.
\<close>

theorem drained_is_final:
  assumes "conn_step\<^sup>*\<^sup>* conn_start s" and "quiesced s" and "length (snd s) < 2 ^ 64" and "active_count (fst s) = 0"
    and "conn_step\<^sup>*\<^sup>* s s'"
  shows "Counted \<notin> set (snd s') \<and> active_count (fst s') = 0"
proof -
  have "counted (snd s) = 0" using counted_zero [OF conns_inv_reach [OF assms(1)] assms(3)] assms(4) by simp
  then have c: "counted (snd s') = 0" using quiesced_reach [OF assms(5,2)] by simp
  have "conns_inv s'" by (rule conns_inv_reach [OF rtranclp_trans [OF assms(1,5)]])
  then show ?thesis using c by (auto simp: conns_inv_def active_count_def counted_def filter_empty_conv)
qed

text \<open>
  Without that condition it is not: a task that passed the test before the drain began is counted in
  after the counter has read zero.
\<close>

theorem drain_race:
  "\<exists>s s'. conn_step\<^sup>*\<^sup>* conn_start s \<and> is_draining (fst s) \<and> active_count (fst s) = 0 \<and> conn_step s s' \<and> active_count (fst s') = 1"
proof -
  have 1: "conn_step conn_start (ct_new, [Spawned])" using conn_step.accept [of ct_new "[]"] by (simp add: conn_start_def)
  have 2: "conn_step (ct_new, [Spawned]) (ct_new, [Passed])"
    using conn_step.pass [of 0 "[Spawned]" ct_new] by (simp add: ct_may_start_def ct_new_def)
  have 3: "conn_step (ct_new, [Passed]) (start_drain ct_new, [Passed])" by (rule conn_step.drain)
  have 4: "conn_step (start_drain ct_new, [Passed]) (ct_count_in (start_drain ct_new), [Counted])"
    using conn_step.count_in [of 0 "[Passed]" "start_drain ct_new"] by simp
  have "conn_step\<^sup>*\<^sup>* conn_start (start_drain ct_new, [Passed])" using 1 2 3 by (meson converse_rtranclp_into_rtranclp rtranclp.rtrancl_refl)
  moreover have "is_draining (start_drain ct_new)" "active_count (start_drain ct_new) = 0" "active_count (ct_count_in (start_drain ct_new)) = 1"
    by (simp_all add: is_draining_def active_count_def ct_count_in_def start_drain_def ct_new_def)
  ultimately show ?thesis using 4 by fastforce
qed

text \<open>A task that panicked keeps the counter above zero for ever: the drain runs into its deadline.\<close>

lemma dead_step: "conn_step s s' \<Longrightarrow> Dead \<in> set (snd s) \<Longrightarrow> Dead \<in> set (snd s')"
  by (induction rule: conn_step.induct) (auto simp: in_set_conv_nth nth_list_update, (metis phase.distinct)+)

theorem dead_connection_blocks_drain:
  assumes "conn_step\<^sup>*\<^sup>* conn_start s" and "Dead \<in> set (snd s)" and "conn_step\<^sup>*\<^sup>* s s'" and "length (snd s') < 2 ^ 64"
  shows "active_count (fst s') \<noteq> 0"
proof -
  have "Dead \<in> set (snd s')" using assms(3,2) by (induction rule: rtranclp_induct) (auto dest: dead_step)
  then have "0 < counted (snd s')" by (auto simp: counted_def filter_empty_conv)
  moreover have "conns_inv s'" by (rule conns_inv_reach [OF rtranclp_trans [OF assms(1,3)]])
  ultimately show ?thesis using counted_zero assms(4) by simp
qed

text \<open>
  The wait for the drain returns. When every turn sleeps at least 100 milliseconds, it returns
  within the number of such intervals in the timeout, and only at a turn where the counter read zero
  or the deadline had passed.
\<close>

lemma wait_for_drain_some:
  assumes "i \<le> n" and "counts n = 0 \<or> deadline \<le> clock n" and "n - i < fuel"
  shows "\<exists>k. i \<le> k \<and> k \<le> n \<and> wait_for_drain counts clock deadline fuel i = Some k \<and> (counts k = 0 \<or> deadline \<le> clock k)"
  using assms
proof (induction fuel arbitrary: i)
  case (Suc fuel)
  show ?case
  proof (cases "counts i = 0 \<or> deadline \<le> clock i")
    case True
    then show ?thesis using Suc.prems(1) by (intro exI [of _ i]) auto
  next
    case False
    then have "i \<noteq> n" using Suc.prems(2) by blast
    then have "Suc i \<le> n" "n - Suc i < fuel" using Suc.prems(1,3) by simp_all
    from Suc.IH [OF this(1) Suc.prems(2) this(2)] obtain k where
      "Suc i \<le> k" "k \<le> n" "wait_for_drain counts clock deadline fuel (Suc i) = Some k" "counts k = 0 \<or> deadline \<le> clock k" by blast
    then show ?thesis using False by (intro exI [of _ k]) auto
  qed
qed simp

theorem wait_for_drain_returns:
  assumes sleep: "\<And>i. clock i + 100000000 \<le> clock (Suc i)" and deadline: "deadline = clock 0 + timeout"
  shows "\<exists>k \<le> timeout div 100000000 + 1. wait_for_drain counts clock deadline (timeout div 100000000 + 2) 0 = Some k \<and>
    (counts k = 0 \<or> deadline \<le> clock k)"
proof -
  let ?n = "timeout div 100000000 + 1"
  have "clock 0 + i * 100000000 \<le> clock i" for i
  proof (induction i)
    case (Suc i)
    then show ?case using sleep [of i] by simp
  qed simp
  from this [of ?n] have "deadline \<le> clock ?n" using deadline div_mult_mod_eq [of timeout 100000000] mod_less_divisor [of 100000000 timeout] by simp
  then show ?thesis using wait_for_drain_some [of 0 ?n counts deadline clock "?n + 1"] by auto
qed

section \<open>TLS of an entry point\<close>

text \<open>One unreadable certificate file makes the whole list fail.\<close>

lemma unreadable_certificate:
  assumes "(cert_file, key_file) \<in> set tcs" and "load_certificate_files L open_file cert_file key_file = None"
  shows "\<nexists>r'. static_certs_loop L open_file tcs r = Inr (Some r')"
  using assms(1)
proof (induction tcs arbitrary: r)
  case (Cons tc tcs)
  obtain a b where tc: "tc = (a, b)" by fastforce
  show ?case
  proof (cases "(a, b) = (cert_file, key_file)")
    case True
    then show ?thesis using assms(2) by (simp add: tc)
  next
    case False
    then have "\<nexists>r'. static_certs_loop L open_file tcs r0 = Inr (Some r')" for r0 using Cons tc by auto
    then show ?thesis by (auto simp: tc split: option.splits list.splits if_splits)
  qed
qed simp


text \<open>With a resolver an entry point has an acceptor exactly when TLS is configured for it.\<close>

lemma acceptor_iff: "build_tls_acceptor http (Some r) \<noteq> None \<longleftrightarrow> (\<exists>h. http = Some h \<and> eph_tls h \<noteq> None)"
  by (auto simp: build_tls_acceptor_def split: option.splits)

section \<open>Requests\<close>

text \<open>
  On a plain connection the paths of the HTTP-01 challenges never reach the proxy, whatever the
  routes are and whether certificates are managed or not: the answer is the key authorization of a
  pending token or 404, and nothing changes.
\<close>

theorem challenge_path_not_proxied:
  assumes "starts_with challenge_prefix (ur_path H (rq_uri req))"
  shows "\<exists>resp. serve_request H im js M ck E addr ep False req sh = (Inr resp, sh) \<and>
    (rs_status resp = 404 \<or> rs_status resp = 200 \<and>
      (\<exists>t pc. dict_get (sh_challenges sh) t = Some pc \<and> rs_body resp = pc_key_authorization pc))"
proof -
  let ?path = "ur_path H (rq_uri req)"
  have "\<exists>st hs body. try_handle_challenge (sh_challenges sh) ?path = Some (st, hs, body) \<and>
      (st = 404 \<or> st = 200 \<and> (\<exists>t pc. dict_get (sh_challenges sh) t = Some pc \<and> body = pc_key_authorization pc))"
    using assms
    by (cases "dict_get (sh_challenges sh) (trim_start_str challenge_prefix ?path)"; cases "trim_start_str challenge_prefix ?path = []")
      (auto simp: try_handle_challenge_def is_challenge_request_def challenge_handle_def Let_def challenge_not_found_def)
  then obtain st hs body where h: "try_handle_challenge (sh_challenges sh) ?path = Some (st, hs, body)"
      and b: "st = 404 \<or> st = 200 \<and> (\<exists>t pc. dict_get (sh_challenges sh) t = Some pc \<and> body = pc_key_authorization pc)" by blast
  show ?thesis using b by (auto simp: serve_request_def h challenge_to_response_def)
qed

section \<open>Reload\<close>

lemma unhealthy_failure:
  assumes "\<not> phk_is_healthy k url" and "phk_is_failure (phk_config k) st r" and "phc_success_threshold (phk_config k) \<noteq> 0"
  shows "fst (phk_record_response url st r now now' k) = NoChange" "\<not> phk_is_healthy (snd (phk_record_response url st r now now' k)) url"
proof -
  obtain s where s: "dict_get (phk_backends k) url = Some s" "\<not> bs_healthy s"
    using assms(1) by (auto simp: phk_is_healthy_def split: option.splits)
  have "phc_success_threshold (phk_config k) > 0" using assms(3) by (simp add: word_neq_0_conv)
  then show 1: "fst (phk_record_response url st r now now' k) = NoChange"
    using s assms(2) by (simp add: phk_record_response_def Let_def split_beta bs_record_def not_le)
  show "\<not> phk_is_healthy (snd (phk_record_response url st r now now' k)) url" using phk_record_healthy [of url st r now now' k url] 1 assms(1) by simp
qed

text \<open>
  C33. A reload forgets ejections: it makes every backend eligible again while the passive checker still
  holds some unhealthy, and such a backend is not ejected by failures, however many follow, because
  the checker reports only changes.
\<close>

theorem reload_forgets_ejection:
  fixes responses :: "(('h, 'u) exchange \<times> u16) list"
  assumes "reload H M rx c sh = Inr sh'" and "\<not> phk_is_healthy (px_passive (sh_proxy sh)) url"
    and "phc_success_threshold (phk_config (px_passive (sh_proxy sh))) \<noteq> 0"
    and "\<And>E st. (E, st) \<in> set responses \<Longrightarrow> phk_is_failure (phk_config (px_passive (sh_proxy sh))) st (ex_elapsed E)"
    and px: "px = foldl (\<lambda>px (E, st). px_record E name url st px) (sh_proxy sh') responses"
  shows "px_services px = sm_new (cf_services c) \<and> \<not> phk_is_healthy (px_passive px) url"
proof -
  have sh': "px_services (sh_proxy sh') = sm_new (cf_services c)" "px_passive (sh_proxy sh') = px_passive (sh_proxy sh)"
    using assms(1) by (auto simp: reload_def split: sum.splits)
  have "px_services (foldl (\<lambda>px (E, st). px_record E name url st px) p responses) = px_services p \<and>
      \<not> phk_is_healthy (px_passive (foldl (\<lambda>px (E, st). px_record E name url st px) p responses)) url"
    if "\<not> phk_is_healthy (px_passive p) url" "phk_config (px_passive p) = phk_config (px_passive (sh_proxy sh))" for p :: mw_state
    using that assms(4)
  proof (induction responses arbitrary: p)
    case (Cons e responses)
    obtain E st where e: "e = (E, st)" by fastforce
    let ?r = "phk_record_response url st (ex_elapsed E) (ex_now E) (ex_now' E) (px_passive p)"
    note u = unhealthy_failure [OF Cons.prems(1), of st "ex_elapsed E" "ex_now E" "ex_now' E"]
    have f: "phk_is_failure (phk_config (px_passive p)) st (ex_elapsed E)" "phc_success_threshold (phk_config (px_passive p)) \<noteq> 0"
      using Cons.prems(2,3) assms(3) e by auto
    have "px_record E name url st p = p\<lparr> px_passive := snd ?r \<rparr>"
      using u(1) [OF f] by (simp add: px_record_def Let_def split_beta px_apply_health_change_def)
    then show ?case
      using Cons.IH [of "p\<lparr> px_passive := snd ?r \<rparr>"] u(2) [OF f] Cons.prems(2,3) e by (simp add: phk_record_config)
  qed simp
  then show ?thesis using assms(2) sh' px by simp
qed

text \<open>No listener serves the TCP routers: what is started depends on the entry points and the UDP routers only.\<close>

theorem tcp_routers_not_started: "started_listeners N (c\<lparr> cf_tcp := t \<rparr>) = started_listeners N c"
proof -
  have "cf_entry_points (c\<lparr> cf_tcp := t \<rparr>) = cf_entry_points c" "cf_has_udp (c\<lparr> cf_tcp := t \<rparr>) = cf_has_udp c"
    "cf_udp_routers (c\<lparr> cf_tcp := t \<rparr>) = cf_udp_routers c" by (simp_all add: cf_has_udp_def cf_udp_routers_def)
  then show ?thesis by (simp only: started_listeners_def)
qed

section \<open>Instances\<close>

definition web_config :: server_config where
  "web_config =
     \<lparr>cf_entry_points = [(''https'', \<lparr>ep_address = ''0.0.0.0:8443''\<rparr>)],
      cf_http = Some \<lparr>htc_routers = [], htc_services = px_services_example, htc_middlewares = []\<rparr>, cf_tcp = None, cf_udp = None,
      svc_tls_certificates = Some [(''a.pem'', ''a.key''), (''b.pem'', ''b.key'')], svc_access_log = None\<rparr>"

text \<open>The file system lacks the second pair of files.\<close>

definition some_files :: "string \<Rightarrow> string option" where
  "some_files path = (if path = ''a.pem'' \<or> path = ''a.key'' then Some path else None)"


definition closing_conns :: conns where
  "closing_conns = (connection_end (start_drain (ct_count_in ct_new)), [Ended])"

lemma closing_reach: "conn_step\<^sup>*\<^sup>* conn_start closing_conns"
proof -
  have 1: "conn_step conn_start (ct_new, [Spawned])" using conn_step.accept [of ct_new "[]"] by (simp add: conn_start_def)
  have 2: "conn_step (ct_new, [Spawned]) (ct_new, [Passed])"
    using conn_step.pass [of 0 "[Spawned]" ct_new] by (simp add: ct_may_start_def ct_new_def)
  have 3: "conn_step (ct_new, [Passed]) (ct_count_in ct_new, [Counted])" using conn_step.count_in [of 0 "[Passed]" ct_new] by simp
  have 4: "conn_step (ct_count_in ct_new, [Counted]) (start_drain (ct_count_in ct_new), [Counted])" by (rule conn_step.drain)
  have 5: "conn_step (start_drain (ct_count_in ct_new), [Counted]) closing_conns"
    using conn_step.finish [of 0 "[Counted]" "start_drain (ct_count_in ct_new)"] by (simp add: closing_conns_def)
  show ?thesis
    by (rule converse_rtranclp_into_rtranclp [OF 1 converse_rtranclp_into_rtranclp [OF 2 converse_rtranclp_into_rtranclp [OF 3
      converse_rtranclp_into_rtranclp [OF 4 r_into_rtranclp [of conn_step, OF 5]]]]])
qed

theorem drained_is_final_witness:
  "Counted \<notin> set (snd (fst closing_conns, [Ended, Spawned])) \<and> active_count (fst closing_conns) = 0"
proof -
  have "conn_step closing_conns (fst closing_conns, [Ended, Spawned])"
    using conn_step.accept [of "fst closing_conns" "[Ended]"] by (simp add: closing_conns_def)
  then have step: "conn_step\<^sup>*\<^sup>* closing_conns (fst closing_conns, [Ended, Spawned])" by (rule r_into_rtranclp [of conn_step])
  have "quiesced closing_conns" "length (snd closing_conns) < 2 ^ 64" "active_count (fst closing_conns) = 0"
    by (simp_all add: closing_conns_def quiesced_def connection_end_def start_drain_def ct_count_in_def ct_new_def active_count_def)
  from drained_is_final [OF closing_reach this step] show ?thesis by simp
qed

theorem wait_for_drain_returns_witness:
  "\<exists>k \<le> 250000000 div 100000000 + 1. wait_for_drain (\<lambda>_. 1) (\<lambda>i. i * 100000000) 250000000 (250000000 div 100000000 + 2) 0 = Some k"
proof -
  have "\<exists>k \<le> 250000000 div 100000000 + 1. wait_for_drain (\<lambda>_. 1) (\<lambda>i. i * 100000000) 250000000 (250000000 div 100000000 + 2) 0 = Some k \<and>
    ((\<lambda>_ :: nat. 1 :: 64 word) k = 0 \<or> 250000000 \<le> k * 100000000)"
    by (rule wait_for_drain_returns) simp_all
  then show ?thesis by blast
qed

definition failing_checker :: passive_health_checker where
  "failing_checker = foldl phk_apply (phk_new phc_example) [(''http://a'', 503, 5, 2, 2), (''http://a'', 500, 5, 3, 3)]"

definition web_state :: "(unit, (string, unit, unit) mw_instance, string, string) shared_state" where
  "web_state = \<lparr> sh_router = router_from_config no_regex [], sh_middlewares = [],
     sh_proxy = (mw_init px_services_example phc_default 1 None)\<lparr> px_passive := failing_checker \<rparr>,
     sh_connections = ct_new, sh_challenges = [], sh_resolver = None \<rparr>"

theorem reload_forgets_ejection_witness:
  "\<exists>sh'. reload simple_http mw_ops_example no_regex (plain_config web_config) web_state = Inr sh' \<and>
     px_services (px_record exchange_example ''web'' ''http://a'' 503 (sh_proxy sh')) = sm_new px_services_example \<and>
     \<not> phk_is_healthy (px_passive (px_record exchange_example ''web'' ''http://a'' 503 (sh_proxy sh'))) ''http://a''"
proof -
  have pc: "cf_services (plain_config web_config) = px_services_example" "cf_middlewares (plain_config web_config) = []"
    by (simp_all add: plain_config_def config.truncate_def web_config_def cf_services_def cf_middlewares_def)
  obtain sh' where r: "reload simple_http mw_ops_example no_regex (plain_config web_config) web_state = Inr sh'"
    by (simp add: reload_def pc)
  have p: "px_passive (sh_proxy web_state) = failing_checker" by (simp add: web_state_def)
  have "\<not> phk_is_healthy failing_checker ''http://a''" "phc_success_threshold (phk_config failing_checker) \<noteq> 0"
    "phk_is_failure (phk_config failing_checker) 503 (ex_elapsed exchange_example)" by code_simp+
  then have "px_services (px_record exchange_example ''web'' ''http://a'' 503 (sh_proxy sh')) = sm_new (cf_services (plain_config web_config)) \<and>
     \<not> phk_is_healthy (px_passive (px_record exchange_example ''web'' ''http://a'' 503 (sh_proxy sh'))) ''http://a''"
    using reload_forgets_ejection [OF r, of "''http://a''" "[(exchange_example, 503)]" _ "''web''"] by (simp add: p)
  then show ?thesis using r pc by auto
qed

end
