(* ===== verification/Spec2Isabelle.thy ===== *)
theory Spec2Isabelle
  imports Load_Balancer Active_Health Circuit_Breaker Passive_Health Local_Store Router Service_Routers Handler
    Mw_Registry Sticky Tcp_Proxy Udp_Proxy Config_Validate Cluster Config_Source Acme_Facts Server
begin

text \<open>
  Verification development for TrafficCop, a reverse proxy and load balancer for HTTP, TCP and UDP
  written in Rust (\<open>src/src\<close>).

  \<^bold>\<open>The program.\<close> An HTTP request enters \<open>ProxyHandler::handle\<close> (\<open>proxy/handler.rs\<close>), is matched by the
  \<open>Router\<close> against the rules of the configuration, passes the middlewares of its route and is
  forwarded to the server that the service's \<open>LoadBalancer\<close> selects; the outcome feeds the passive
  health checker, whose verdicts set the balancer's health flags. TCP connections are routed by the
  server name of their TLS ClientHello or by address, UDP datagrams by address with a session per
  client. Nodes of a cluster share sessions, limits and leases through a \<open>Store\<close>. The server accepts the
  connections, reloads the configuration and drains on shutdown; certificates come from files or
  from an ACME authority.

  \<^bold>\<open>How the code is modelled.\<close> A struct is a \<open>record\<close>, an enum a \<open>datatype\<close>, a method a function on the
  record that returns the updated record; field names carry a prefix of their struct. \<open>u8\<close> to \<open>u64\<close>
  and \<open>usize\<close> are words that wrap as in a release build, \<open>i64\<close> is an integer with the wrap-around
  written out, and a \<open>panic\<close> is a value of the type of that name. Strings are byte lists. A \<open>HashMap\<close>
  or \<open>DashMap\<close> is an association list whose order stands for the unspecified iteration order. Clock
  readings are arguments in nanoseconds, one per reading. Results of the network are arguments of
  the operation that waits for them. Concurrency is modelled where the code relies on it, by step
  relations over the atomic operations (rate limiter, connection count) or over the tasks (UDP proxy,
  nodes of a cluster); elsewhere an operation is one step. Types of external crates (\<open>HeaderMap\<close>, \<open>Uri\<close>, \<open>Regex\<close>, \<open>IpNetwork\<close>, the
  JSON and hash functions) are parameters, with their documented behaviour as the named predicates
  \<open>header_laws\<close> and \<open>uri_laws\<close> where a theorem needs it. External services are functions of the request
  and their own state with named laws: the Valkey server (\<open>valkey_laws\<close>, and any command or reply may be
  lost) and the certificate authority (\<open>challenge_laws\<close>, \<open>validates_fetched\<close>); a small instance shows that
  each set of laws can hold.

  \<^bold>\<open>Shared layer.\<close> \<open>Prelude\<close> (integers, lists, panics), \<open>Dict\<close> (lookup tables and the locale
  \<open>lookup_table\<close>), \<open>Rust_Std\<close> (string functions of the standard library), \<open>Text_Codec\<close> (an encoding that stands for
  JSON in the instances), \<open>Ip_Addr\<close> (addresses and their
  text), \<open>Config_Types\<close> and \<open>Mw_Config\<close> (the configuration structs of \<open>config/types.rs\<close>).

  \<^bold>\<open>Balancers\<close> (\<open>balancer/\<close>). \<open>Balancer_Iface\<close> states the contract of the trait \<open>Balancer\<close> as the locales
  \<open>backend_pool\<close>, \<open>balancer\<close> and \<open>health_pool\<close>, with the handler's use of it; \<open>Round_Robin\<close>,
  \<open>Weighted_Balancer\<close> (over the abstract algorithm of \<open>Smooth_WRR\<close>), \<open>Least_Conn\<close>, \<open>Random_Balancer\<close> and
  \<open>Load_Balancer\<close> interpret it. Shown are the exact order and shares of every strategy, that healthy
  servers are preferred after any sequence of calls, and where wrap-around breaks this. \<open>Sticky\<close> models
  the sticky sessions of \<open>balancer/sticky.rs\<close> over the store interface.

  \<^bold>\<open>Health\<close> (\<open>health/\<close>). \<open>Active_Health\<close> (counters and checker rounds, equal to hysteresis over the history),
  \<open>Passive_Health\<close> (windows and thresholds, detection of failures) and \<open>Circuit_Breaker\<close> (refinement of a
  three-state machine).

  \<^bold>\<open>Routing\<close> (\<open>router/\<close>). \<open>Rule\<close> and \<open>Rule_Parser\<close> (evaluation, URL decoding, the parser and its round trip),
  \<open>Router\<close> (the indexed search is sound and complete).

  \<^bold>\<open>Services\<close> (\<open>service/\<close>). \<open>Service_Routers\<close> (weighted, mirroring, failover) and \<open>Service_Manager\<close>.

  \<^bold>\<open>Store and cluster\<close> (\<open>store/\<close>, \<open>cluster/\<close>, \<open>health/distributed.rs\<close>). \<open>Store_Iface\<close> states the contracts of sessions
  and leases as locales, \<open>Local_Store\<close> models every operation of the in-process store and interprets
  them. \<open>Valkey_Store\<close> and \<open>Valkey_Facts\<close> model the shared store with its scripts: exclusive leases, the bound
  of the sliding window, node registration, lost events. \<open>Cluster\<close> runs the tasks of the nodes over
  either store (locale \<open>cluster_store\<close>): one leader, and followers that take over its verdicts.

  \<^bold>\<open>Proxy\<close> (\<open>proxy/\<close>). \<open>Http\<close> (requests, responses and the parameters for header maps and URIs), \<open>Grpc\<close>,
  \<open>Proxy_Request\<close> (what the backend sees of the client), \<open>Handler\<close> (the whole path of a request with
  its state).

  \<^bold>\<open>Middlewares\<close> (\<open>middleware/\<close>). \<open>Path_Mw\<close>, \<open>Ip_Filter\<close>, \<open>Headers_Cors\<close>, \<open>Base64\<close> with \<open>Basic_Auth\<close>, \<open>Rate_Limit\<close>,
  \<open>Access_Log\<close>, and \<open>Mw_Registry\<close>, which builds the instances and runs a route's chain.

  \<^bold>\<open>Transport layer\<close> (\<open>tcp/\<close>, \<open>udp/\<close>). \<open>L4_Router\<close> (both routers over one table, locale \<open>l4_rules\<close>), \<open>L4_Service\<close>
  (both services, interpreting \<open>health_pool\<close>), \<open>Tcp_Proxy\<close> (the ClientHello reader and a connection up to
  the copying) and \<open>Udp_Proxy\<close> (sessions, listeners and cleanup as a step relation with its invariants).

  \<^bold>\<open>Configuration\<close> (\<open>config/\<close>, \<open>cluster/provider.rs\<close>). \<open>Config_Validate\<close> (validation and loading) and \<open>Config_Source\<close> (the file
  watcher and the HTTP providers: only valid configurations are applied, and which changes are lost).

  \<^bold>\<open>Certificates\<close> (\<open>tls/\<close>). \<open>Der\<close> (signing requests and their reading back), \<open>Acme_Storage\<close> (persistence and the
  choice of a certificate for a name), \<open>Acme_Client\<close> (client, responder, manager) and \<open>Acme_Facts\<close> (orders end,
  challenges are answered, obtained certificates are served, and what fails before the port is served).

  \<^bold>\<open>Server\<close> (\<open>server/\<close>). \<open>Server\<close> models the connection count and the drain as an interleaving of connection tasks,
  the shared state with its reload, the TLS decision of an entry point and the handling of a request.

  \<^bold>\<open>This theory\<close> composes them: passive health and balancing agree after any requests through any
  middlewares, protected routes are protected, and every answered request is logged once.

  \<^bold>\<open>Bounds.\<close> Loops are structural or have a termination proof; fuel is the source's own limit
  where it has one (eight attempts in the token bucket, 30 polls of an ACME wait); the wait for the
  drain takes fuel, and \<open>wait_for_drain_returns\<close> shows how much is enough. Side conditions on counters (\<open>rr_no_wrap\<close>,
  \<open>l4_no_wrap\<close>) exclude the wrap of a 64-bit counter during a call. A \<open>Vec\<close> has fewer than \<open>2 ^ 63\<close> elements.

  \<^bold>\<open>Not modelled.\<close> Socket and TLS I/O, the copying of bodies and streams, and the timers that start the
  modelled steps; process start, signals and the lock file; the configuration of the external TLS
  library for client certificates; deserialisation of the configuration, done by an external crate;
  durations as text; telemetry, metrics and the admin views, which no decision reads; and the
  middlewares the registry does not instantiate.
\<close>

section \<open>The proxy with its middlewares\<close>

lemma px_good_frame:
  assumes "px_services s' = px_services s" and "px_passive s' = px_passive s"
  shows "px_good C s' \<longleftrightarrow> px_good C s"
  using assms by (simp add: px_good_def px_synced_def pools_ok_def px_inv_def px_pool_def)

lemma px_good_limiters: "px_good C (s\<lparr>mws_limiters := d\<rparr>) \<longleftrightarrow> px_good C s"
  by (rule px_good_frame) simp_all

lemma mw_reach_good:
  assumes ok: "services_ok services"
    and reach: "px_reach H im js router (range (\<lambda>ck. registry_resolve H M ck reg)) (mw_init services config rng w) px"
  shows "px_good (configured services) px"
proof (rule px_reach_good [OF reach])
  show "px_good (configured services) (mw_init services config rng w)"
    using px_init_good [OF ok, of config rng]
    by (simp add: mw_init_def px_init_def px_good_def px_synced_def pools_ok_def px_inv_def px_pool_def)
  show "mw_keeps (px_good (configured services)) m"
    if r: "resolve \<in> range (\<lambda>ck. registry_resolve H M ck reg)" "m \<in> set (resolve names)" for resolve names m
  proof -
    obtain ck where "m \<in> set (registry_resolve H M ck reg names)" using r by blast
    then show ?thesis by (rule registry_keeps [rotated]) (simp add: px_good_limiters)
  qed
qed


definition mw_reached_example :: mw_state where
  "mw_reached_example = snd (proxy_handle simple_http (\<lambda>_ _. False) (\<lambda>_. None) exchange_example
     (router_from_config no_regex router_example)
     (registry_resolve simple_http mw_ops_example \<lparr>ck_epoch = 0, ck_now = 0, ck_sync = 0\<rparr> registry_example)
     (V4 1, 80) ''https'' False request_example (mw_init px_services_example phc_default 1 None))"


text \<open>
  C19. A protected route is protected, end to end: when the route of a request has an address filter
  or a basic authentication that refuses its client, and no middleware before it sets the
  credentials, then handling the request leaves the services, their balancers and the passive
  health as they were, so no backend was chosen and none was called; the answer does not depend
  on what the backends would answer.
\<close>

theorem protected_route:
  fixes H :: "('h, 'v, 'u, 'm) http_ops_scheme" and s :: "'z mw_state_scheme"
  assumes H: "header_laws H"
    and route: "match_request im router entrypoint (request_host H req) (ur_path H (rq_uri req)) (ur_query H (rq_uri req))
      (Some (rq_method req)) (header_view H (rq_headers req)) = Some route"
    and mws: "rt_middlewares route = before @ name # after"
    and i: "dict_get reg name = Some i" and blocks: "mw_blocks H M i req"
    and pre: "\<forall>n \<in> set before. \<forall>j. dict_get reg n = Some j \<longrightarrow> \<not> sets_credentials j"
    and h: "handle = (\<lambda>E. proxy_handle H im js E router (registry_resolve H M ck reg) addr entrypoint tls req s)"
  shows "px_services (snd (handle E)) = px_services s \<and> px_passive (snd (handle E)) = px_passive s \<and> px_rng (snd (handle E)) = px_rng s \<and>
    fst (handle E) = fst (handle E')"
proof -
  define chain :: "('h, 'u, 'z) proxy_middleware list" where "chain = registry_resolve H M ck reg (rt_middlewares route)"
  have stop: "next_run chain ep req s = next_run chain ep' req s" for ep ep'
    unfolding chain_def mws by (rule blocked_request_stops [OF H i blocks pre])
  define P :: "'z mw_state_scheme \<Rightarrow> bool" where "P = (\<lambda>s'. px_services s' = px_services s \<and> px_passive s' = px_passive s \<and> px_rng s' = px_rng s)"
  have "P (snd (next_run chain (\<lambda>q s. (Inl UnwrapFailed, s)) req s))"
  proof (rule next_run_keeps [where P = P])
    show "\<forall>m \<in> set chain. mw_keeps P m"
      unfolding chain_def by (auto intro!: registry_keeps simp: P_def)
  qed (simp_all add: P_def)
  then have P: "P (snd (next_run chain ep req s))" for ep using stop by metis
  have one: "handle E = (case next_run chain (\<lambda>q s. (Inl UnwrapFailed, s)) req s of
        (Inl e, s') \<Rightarrow> (Inl e, s')
      | (Inr resp, s') \<Rightarrow> (Inr resp, log_access H js E addr tls req (rs_status resp) (Some (rt_name route, rt_service route)) s'))" for E
    unfolding h proxy_handle_def Let_def route option.case chain_def [symmetric]
    by (subst stop [of _ "\<lambda>q s. (Inl UnwrapFailed, s)"]) (rule refl)
  show ?thesis
    using P [of "\<lambda>q s. (Inl UnwrapFailed, s)"] unfolding one P_def
    by (auto simp: log_access_def Let_def split: prod.split sum.split)
qed

definition protected_router_example :: "unit router" where
  "protected_router_example = router_from_config no_regex
     [(''web'', \<lparr>rc_entry_points = [], rc_rule = ''PathPrefix(`/`)'', rc_rule_syntax = None, rc_service = ''web'',
         rc_middlewares = [''add'', ''deny''], rc_priority = 0\<rparr>)]"

theorem protected_route_witness:
  "let clock = \<lparr>ck_epoch = 0, ck_now = 0, ck_sync = 0\<rparr>; s = mw_init px_services_example phc_default 1 None in
   px_passive (snd (proxy_handle simple_http (\<lambda>_ _. False) (\<lambda>_. None) exchange_example protected_router_example
     (registry_resolve simple_http mw_ops_example clock registry_example) (V4 7, 80) ''https'' False client_request_example s)) = px_passive s"
proof -
  let ?route = "hd (ro_routes protected_router_example)"
  have route: "match_request (\<lambda>_ _. False) protected_router_example ''https'' (request_host simple_http client_request_example)
      (ur_path simple_http (rq_uri client_request_example)) (ur_query simple_http (rq_uri client_request_example))
      (Some (rq_method client_request_example)) (header_view simple_http (rq_headers client_request_example)) = Some ?route"
    and mws: "rt_middlewares ?route = [''add''] @ ''deny'' # []"
    by code_simp+
  have i: "dict_get registry_example ''deny'' = Some (IpDenyWrapper \<lparr>dl_source_range = [()], dl_ip_strategy = None, dl_excluded_networks = []\<rparr>)"
    and pre: "\<forall>n \<in> set [''add'']. \<forall>j. dict_get registry_example n = Some j \<longrightarrow> \<not> sets_credentials j"
    by (simp_all add: registry_example_def dict_get_def)
  have "mw_blocks simple_http mw_ops_example (IpDenyWrapper \<lparr>dl_source_range = [()], dl_ip_strategy = None, dl_excluded_networks = []\<rparr>)
      client_request_example"
    by (simp add: mw_client_ip_def client_request_example_def dl_is_denied_def mw_ops_example_def)
  from protected_route [OF header_laws_simple route mws i this pre refl, where s = "mw_init px_services_example phc_default 1 None"]
  show ?thesis by (simp add: Let_def)
qed



section \<open>Valid configurations are served\<close>

text \<open>The strategies that configurations lead to; they return a server even when none is healthy.\<close>

fun config_strategy :: "balancer_strategy \<Rightarrow> bool" where
  "config_strategy (RoundRobinStrategy b) = True"
| "config_strategy (WeightedStrategy b) = True"
| "config_strategy _ = False"

definition config_strategies :: "service_state dict \<Rightarrow> bool" where
  "config_strategies d \<longleftrightarrow>
     (\<forall>name s b. dict_get d name = Some s \<and> ss_balancer s = Some b \<longrightarrow> config_strategy (lbal_strategy b))"

lemma lbal_next_Some:
  assumes "config_strategy (lbal_strategy b)" and "lbal_configs (b, rng) \<noteq> []"
  shows "fst (lbal_next_server (b, rng)) \<noteq> None"
proof (cases "lbal_strategy b")
  case (RoundRobinStrategy r)
  with rr_next_not_empty(1) [of r] assms(2) show ?thesis by (simp add: lbal_next_server_def lbal_configs_def split_beta Let_def)
next
  case (WeightedStrategy r)
  with assms(2) show ?thesis
    by (auto simp: lbal_next_server_def lbal_configs_def wb_configs_def wb_next_server_def Let_def split: prod.splits option.splits if_splits)
qed (use assms(1) in simp_all)

lemma config_strategy_ops:
  assumes "config_strategy (lbal_strategy b)"
  shows "config_strategy (lbal_strategy (fst (snd (lbal_next_server (b, rng)))))"
    and "config_strategy (lbal_strategy (fst (apply_health_change lbal_mark_healthy lbal_mark_unhealthy lbal_find_server_index ch u (b, rng))))"
  using assms by (cases "lbal_strategy b"; auto simp: lbal_next_server_def apply_health_change_def lbal_mark_healthy_def
    lbal_mark_unhealthy_def split_beta Let_def split: option.splits health_change.splits)+

lemma config_strategies_insert:
  assumes "config_strategies d" and "\<And>b. ss_balancer s = Some b \<Longrightarrow> config_strategy (lbal_strategy b)"
  shows "config_strategies (dict_insert name s d)"
  using assms by (auto simp: config_strategies_def dict_simps)

lemma config_strategies_apply:
  assumes "config_strategies (px_services px)"
  shows "config_strategies (px_services (px_apply_health_change ch u svc px))"
  using assms config_strategy_ops(2)
  by (auto simp: px_apply_health_change_def sm_get_service_def split_beta Let_def config_strategies_def dict_simps split: option.splits)

lemma config_strategies_record:
  assumes "config_strategies (px_services px)"
  shows "config_strategies (px_services (px_record E svc u st px))"
  unfolding px_record_def split_beta Let_def by (rule config_strategies_apply) (simp add: assms)

lemma config_strategies_server:
  assumes "config_strategies (px_services px)"
  shows "config_strategies (px_services (snd (forward_to_server H E ip svc host tls grpc s q px)))"
proof -
  have out: "config_strategies (px_services (snd (case o' of
       BackendResponse resp \<Rightarrow> (f resp, px_record E svc u (rs_status resp) px)
     | BackendFailed \<Rightarrow> (a, px_record E svc u 502 px) | BackendTimeout \<Rightarrow> (b, px_record E svc u 504 px))))" for o' f u a b
    using config_strategies_record [OF assms] by (cases o') simp_all
  show ?thesis unfolding forward_to_server_def Let_def using assms by (simp only: out snd_conv split: sum.split if_split) simp
qed

lemma config_strategies_forward:
  assumes "config_strategies (px_services px)"
  shows "config_strategies (px_services (snd (forward_to_backend H E ip svc host tls grpc q px)))"
proof (cases "Option.bind (sm_get_service (px_services px) svc) ss_balancer")
  case None
  with assms show ?thesis by (auto simp: forward_to_backend_def split: option.splits)
next
  case (Some b)
  then obtain s where s: "sm_get_service (px_services px) svc = Some s" "ss_balancer s = Some b" by (auto split: bind_splits)
  have "config_strategy (lbal_strategy b)" using assms s by (auto simp: config_strategies_def sm_get_service_def)
  then have "config_strategies (dict_insert svc (s\<lparr>ss_balancer := Some (fst (snd (lbal_next_server (b, px_rng px))))\<rparr>) (px_services px))"
    using assms config_strategy_ops(1) by (intro config_strategies_insert) auto
  then show ?thesis
    by (auto simp: forward_to_backend_def s split_beta Let_def config_strategies_server split: option.splits)
qed

lemma config_strategies_init: "config_strategies (sm_new services)"
proof -
  have "config_strategies (foldl (\<lambda>d (name, c). dict_insert name (make_service_state c) d) d services)" if "config_strategies d" for d
    using that
  proof (induction services arbitrary: d)
    case (Cons e services)
    have "config_strategies (dict_insert name (make_service_state c) d)" for name c
      using Cons.prems by (rule config_strategies_insert)
        (auto simp: make_service_state_def from_load_balancer_def Let_def split: option.splits)
    with Cons.IH show ?case by (simp add: split_beta)
  qed simp
  from this [of "[]"] show ?thesis by (simp add: sm_new_def config_strategies_def)
qed

lemma config_strategies_reach:
  assumes "px_reach H im js router (range (\<lambda>ck. registry_resolve H M ck reg)) (mw_init services config rng w) px"
  shows "config_strategies (px_services px)"
  using assms
proof (induction rule: px_reach.induct)
  case reach_init
  then show ?case by (simp add: mw_init_def config_strategies_init)
next
  case (reach_step px resolve E addr entrypoint tls req)
  let ?P = "\<lambda>px. config_strategies (px_services px)"
  have log: "px_services (log_access H js E addr tls q st rs px') = px_services px'" for q st rs px'
    by (simp add: log_access_def Let_def)
  have fwd: "?P (snd (let (r, px') = forward_to_backend H E ip svc host tls grpc q px in (Inr r, px')))"
    if "?P px" for svc host grpc q px ip
    using config_strategies_forward [OF that, of H E ip svc host tls grpc q] by (simp add: split_beta)
  have "?P (snd (next_run (resolve names) (\<lambda>req px. let (r, px') = forward_to_backend H E ip svc host tls grpc req px in (Inr r, px')) req px))"
    for names svc host grpc ip
  proof (rule next_run_keeps [where P = ?P])
    show "\<forall>m \<in> set (resolve names). mw_keeps ?P m" using reach_step.hyps by (auto intro!: registry_keeps)
  qed (use reach_step.IH fwd in blast)+
  then show ?case using reach_step.IH
    by (auto simp: proxy_handle_def log Let_def split: option.split prod.split sum.split) (metis snd_conv)+
qed

lemma route_from_config:
  assumes "match_request im (router_from_config rx routers) ep host path query mthd headers = Some r"
  shows "\<exists>name rc. (name, rc) \<in> set routers \<and> rt_service r = rc_service rc"
proof -
  let ?ro = "router_from_config rx routers"
  have "r \<in> set (ro_routes ?ro)"
    using match_request_phases [OF refl refl, of rx routers ep im host path query mthd headers] assms by fastforce
  then have "r \<in> set (index_hosts (sort_key (\<lambda>r. - rt_priority r) (concat (map (make_route rx) routers))))"
    by (simp add: router_from_config_def Let_def)
  then obtain e r' where er: "e \<in> set routers" "r' \<in> set (make_route rx e)" "rt_service r = rt_service r'"
    unfolding index_hosts_def set_map set_sort set_concat by (force split: if_splits)
  obtain name rc where e: "e = (name, rc)" by (cases e)
  from er have "(name, rc) \<in> set routers \<and> rt_service r = rc_service rc"
    unfolding e by (auto split: sum.splits)
  then show ?thesis by blast
qed


definition config_example :: config where
  "config_example =
     \<lparr>cf_entry_points = [(''tls'', \<lparr>ep_address = ''0.0.0.0:443''\<rparr>), (''https'', \<lparr>ep_address = ''0.0.0.0:8443''\<rparr>)],
      cf_http = Some \<lparr>htc_routers = [(''web'', \<lparr>rc_entry_points = [''https''], rc_rule = ''PathPrefix(`/`)'', rc_rule_syntax = None,
          rc_service = ''web'', rc_middlewares = [], rc_priority = 0\<rparr>)],
        htc_services = px_services_example, htc_middlewares = []\<rparr>,
      cf_tcp = Some \<lparr>tcf_routers = tcp_config_example, tcf_services = tcp_services_example @ [(''rest'', \<lparr>tsv_load_balancer = None,
          tsv_weighted = Some [\<lparr>wr_name = ''db'', wr_weight = 1\<rparr>]\<rparr>)], tcf_middlewares = []\<rparr>,
      cf_udp = None\<rparr>"

lemma config_example_valid: "config_validate (\<lambda>_. True) config_example = Inr ()"
  by code_simp

lemma config_example_route:
  "\<exists>r. match_request (\<lambda>_ _. False) (router_from_config no_regex (cf_routers config_example)) ''https'' None ''/x'' None None (\<lambda>_. None) = Some r \<and>
    rt_service r = ''web''"
proof -
  have "map_option rt_service (match_request (\<lambda>_ _. False) (router_from_config no_regex (cf_routers config_example)) ''https'' None ''/x'' None None (\<lambda>_. None)) =
      Some ''web''" by code_simp
  then show ?thesis by auto
qed


text \<open>The services of a TCP proxy after any connections: the counters move, the servers stay.\<close>

inductive tcp_reach :: "'n ip_net_ops \<Rightarrow> 'n tcp_rule tcp_route l4_router \<Rightarrow> tcp_backend_server l4_service dict \<Rightarrow>
    tcp_backend_server l4_service dict \<Rightarrow> bool" for N router sm0 where
  tcp_reach_init: "tcp_reach N router sm0 sm0"
| tcp_reach_step: "tcp_reach N router sm0 sm \<Longrightarrow> tcp_handle_connection N router first second connect client ep sm = Inr (out, sm') \<Longrightarrow>
    tcp_reach N router sm0 sm'"

definition l4_view :: "'s l4_service \<Rightarrow> 's list \<times> bool list" where
  "l4_view b = (l4s_servers b, l4s_healthy b)"

lemma tcp_connection_view:
  assumes "tcp_handle_connection N router first second connect client ep sm = Inr (out, sm')"
  shows "map_option l4_view (dict_get sm' name) = map_option l4_view (dict_get sm name)"
proof -
  have "l4_view (snd (tcp_next_server b)) = l4_view b" for b
    by (simp add: tcp_next_server_def l4_next_server_def l4_next_state l4_view_def)
  then show ?thesis using assms
    by (auto simp: tcp_handle_connection_def tcp_get_service_def dict_simps Let_def
      split: sum.splits option.splits prod.splits connect_result.splits) (metis snd_conv)+
qed

lemma tcp_reach_view:
  assumes "tcp_reach N router sm0 sm"
  shows "map_option l4_view (dict_get sm name) = map_option l4_view (dict_get sm0 name)"
  using assms by induction (simp_all add: tcp_connection_view)

definition tcp_backend_of :: "tcp_server_config \<Rightarrow> tcp_backend_server" where
  "tcp_backend_of s = \<lparr>tbs_address = tsc_address s, tbs_weight = tsc_weight s, tbs_use_tls = tsc_tls s\<rparr>"

text \<open>What a loaded configuration has: one entry per name and no list longer than memory allows.\<close>

definition tcp_services_ok :: "tcp_service_config dict \<Rightarrow> bool" where
  "tcp_services_ok cfg \<longleftrightarrow> distinct (map fst cfg) \<and>
     list_all (\<lambda>(_, sc). case tsv_load_balancer sc of Some lb \<Rightarrow> length (tlb_servers lb) < 2 ^ 63 | None \<Rightarrow> True) cfg"

lemma dict_get_tcp_sm_new:
  assumes "distinct (map fst cfg)"
  shows "map_option l4_view (dict_get (tcp_sm_new cfg) name) = Option.bind (dict_get cfg name)
    (\<lambda>sc. map_option (\<lambda>lb. (map tcp_backend_of (tlb_servers lb), replicate (length (tlb_servers lb)) True)) (tsv_load_balancer sc))"
  using assms
proof (induction cfg)
  case (Cons e cfg)
  obtain n sc where e: "e = (n, sc)" by (cases e)
  have "dict_get (tcp_sm_new cfg) n = None" using Cons.prems
    by (force simp: e dict_get_def tcp_sm_new_def map_of_eq_None_iff List.map_filter_def split: option.splits)
  then show ?case using Cons
    by (cases "tsv_load_balancer sc")
      (auto simp: e tcp_sm_new_def map_filter_simps dict_get_Cons l4_service_new_def l4_view_def tcp_backend_of_def)
qed (simp add: tcp_sm_new_def map_filter_simps)

lemma map_sum_Inr: "map_sum f g x = Inr r \<longleftrightarrow> (\<exists>y. x = Inr y \<and> r = g y)"
  by (cases x) auto

lemma tcp_route_from_config:
  assumes "tcp_from_config N eps cfg = Inr ro" and "match_connection N ro ep sni client = Some r"
  shows "\<exists>name rc. (name, rc) \<in> set cfg \<and> l4_service_name r = trc_service rc"
proof -
  have "tcp_route_applies N eps cfg ep sni client r"
    using match_connection_spec [OF assms(1), of ep sni client] assms(2) by simp
  then show ?thesis by (fastforce simp: tcp_route_applies_def tcp_make_route_def list_ex_iff map_sum_Inr)
qed

text \<open>
  C40. A validated configuration is served over TCP as well: after any connections, a connection never
  ends for want of a backend, and a backend that is chosen is a server of the configuration. The
  only connections refused for want of a service are those whose service is a weighted one, which
  the configuration admits and the TCP service manager does not build.
\<close>

theorem validated_tcp_served:
  assumes valid: "config_validate url_ok c = Inr ()" and ok: "tcp_services_ok (cf_tcp_services c)"
    and router: "tcp_from_config N eps (cf_tcp_routers c) = Inr router"
    and reach: "tcp_reach N router (tcp_sm_new (cf_tcp_services c)) sm"
    and conn: "tcp_handle_connection N router first second connect client ep sm = Inr (out, sm')"
  shows "case out of
      NoRoute \<Rightarrow> True
    | NoBackend name \<Rightarrow> False
    | ServiceNotFound name \<Rightarrow> \<exists>sc. dict_get (cf_tcp_services c) name = Some sc \<and> tsv_load_balancer sc = None \<and> tsv_weighted sc \<noteq> None
    | ConnectFailed b \<Rightarrow> \<exists>name sc lb. dict_get (cf_tcp_services c) name = Some sc \<and> tsv_load_balancer sc = Some lb \<and>
        b \<in> set (map tcp_backend_of (tlb_servers lb))
    | Proxied b held \<Rightarrow> \<exists>name sc lb. dict_get (cf_tcp_services c) name = Some sc \<and> tsv_load_balancer sc = Some lb \<and>
        b \<in> set (map tcp_backend_of (tlb_servers lb))"
proof -
  let ?S = "cf_tcp_services c"
  have view: "map_option l4_view (dict_get sm name) = Option.bind (dict_get ?S name)
    (\<lambda>sc. map_option (\<lambda>lb. (map tcp_backend_of (tlb_servers lb), replicate (length (tlb_servers lb)) True)) (tsv_load_balancer sc))" for name
    using tcp_reach_view [OF reach] dict_get_tcp_sm_new [of ?S] ok by (simp add: tcp_services_ok_def)
  have known: "\<exists>sc. dict_get ?S (l4_service_name r) = Some sc" if "match_connection N router ep sni (Some client) = Some r" for sni r
    using tcp_route_from_config [OF router that] valid_tcp_router [OF valid] by (fastforce simp: contains_key_map_of dict_get_def)
  have absent: "\<exists>sc. dict_get ?S name = Some sc \<and> tsv_load_balancer sc = None \<and> tsv_weighted sc \<noteq> None"
    if "dict_get sm name = None" "\<exists>sc. dict_get ?S name = Some sc" for name
    using that view [of name] valid_tcp_service [OF valid, of name] by (force split: option.splits)
  have present: "\<exists>b sc lb. fst (tcp_next_server service) = Some b \<and> dict_get ?S name = Some sc \<and> tsv_load_balancer sc = Some lb \<and>
      b \<in> set (map tcp_backend_of (tlb_servers lb))" if sv: "dict_get sm name = Some service" for name service
  proof -
    from sv view [of name] obtain sc lb where sc: "dict_get ?S name = Some sc" "tsv_load_balancer sc = Some lb"
      "l4_view service = (map tcp_backend_of (tlb_servers lb), replicate (length (tlb_servers lb)) True)"
      by (cases "dict_get ?S name"; cases "tsv_load_balancer (the (dict_get ?S name))") auto
    then have "l4_inv service" "l4s_servers service \<noteq> []"
      using valid_tcp_service [OF valid sc(1)] map_of_SomeD [OF sc(1) [unfolded dict_get_def]] ok
      by (auto simp: l4_view_def l4_inv_def tcp_services_ok_def list_all_iff split: option.splits)
    then obtain b where b: "fst (tcp_next_server service) = Some b"
      by (cases "fst (tcp_next_server service)")
        (auto simp: tcp_next_server_def l4_next_server_def l4_next_among_def split: prod.splits option.splits if_splits)
    with l4_next_member [OF \<open>l4_inv service\<close>] sc show ?thesis
      by (auto simp: tcp_next_server_def l4_next_server_def l4_view_def)
  qed
  show ?thesis using conn known absent present
    by (auto simp: tcp_handle_connection_def tcp_get_service_def Let_def
      split: sum.splits option.splits prod.splits connect_result.splits) (metis fst_conv option.distinct(1) option.inject)+
qed

theorem validated_tcp_served_witness:
  "(case tcp_handle_connection no_net tcp_router_example (Ready (print_tls_record (print_hello hello_example)))
      (Ready (print_tls_record (print_hello hello_example))) (\<lambda>_. Connected) (V4 1, 50000) ''tls'' (tcp_sm_new (cf_tcp_services config_example)) of
     Inl p \<Rightarrow> True
   | Inr (out, sm') \<Rightarrow> out \<noteq> NoBackend ''db'')"
proof -
  have c: "cf_tcp_routers config_example = tcp_config_example" by (simp add: cf_tcp_routers_def config_example_def)
  have ok: "tcp_services_ok (cf_tcp_services config_example)"
    by (simp add: tcp_services_ok_def cf_tcp_services_def config_example_def tcp_services_example_def)
  from validated_tcp_served [OF config_example_valid ok tcp_router_example [folded c] tcp_reach_init]
  show ?thesis by (fastforce split: sum.splits prod.splits)
qed

end
